(* ===== verification/Prelude.thy ===== *)
theory Prelude
  imports Main "HOL-Library.Word"
begin

text \<open>
  Shared vocabulary of the development: the machine integer types of the C++ sources, the
  result type in which a call either returns or ends in an error of the source (an
  \<^verbatim>\<open>abort()\<close>, a failed \<^verbatim>\<open>assert\<close>, an access the C++ standard leaves undefined), and the
  operations on \<^verbatim>\<open>std::vector\<close>, \<^verbatim>\<open>std::map\<close> and loops that several components use,
  with the lemmas the component theories rely on.
\<close>

section \<open>Types\<close>

type_synonym u32 = "32 word"
type_synonym u64 = "64 word"

text \<open>
  How a call can end other than by returning: \<open>Abort\<close> is an explicit \<^verbatim>\<open>abort()\<close> or
  \<^verbatim>\<open>exit()\<close>, \<open>AssertFailed\<close> a failed \<^verbatim>\<open>assert\<close>, \<open>OutOfRange\<close> a vector or array index
  outside its bounds or a missing key of \<^verbatim>\<open>map::at\<close>, \<open>NullDeref\<close> a field access through a null pointer, \<open>ShiftRange\<close> a
  shift by at least the width of its operand, \<open>DivByZero\<close> an integer division by zero,
  \<open>IteratorMismatch\<close> a comparison of iterators that belong to two containers, \<open>CastRange\<close> a
  conversion of a floating-point number that does not fit the integer type, \<open>Uninitialised\<close> a
  use of a variable that was never assigned.
\<close>

datatype mc_error =
    Abort | AssertFailed | OutOfRange | NullDeref | ShiftRange | DivByZero | IteratorMismatch | CastRange | Uninitialised

type_synonym 'a res = "mc_error + 'a"

named_theorems res_simps \<open>unfolding of the result type's operations\<close>
named_theorems frame_simps \<open>fields an operation leaves unchanged\<close>

section \<open>Results\<close>

fun bind_res :: "'a res \<Rightarrow> ('a \<Rightarrow> 'b res) \<Rightarrow> 'b res" where
  "bind_res (Inl e) f = Inl e"
| "bind_res (Inr x) f = f x"

abbreviation ok :: "'a \<Rightarrow> 'a res" where
  "ok x \<equiv> Inr x"

abbreviation fail :: "mc_error \<Rightarrow> 'a res" where
  "fail e \<equiv> Inl e"

text \<open>Evaluation looks at the first computation before it touches the continuation.\<close>

lemma bind_res_unfold [code_unfold]: "bind_res m f = (case m of Inl e \<Rightarrow> Inl e | Inr x \<Rightarrow> f x)"
  by (cases m) simp_all

lemma bind_res_cong [fundef_cong]:
  assumes "m = m'" and "\<And>x. m' = Inr x \<Longrightarrow> f x = f' x"
  shows "bind_res m f = bind_res m' f'"
  using assms by (cases m') auto

lemma bind_res_Inr_iff [res_simps]:
  "bind_res m f = Inr y \<longleftrightarrow> (\<exists>x. m = Inr x \<and> f x = Inr y)"
  by (cases m) auto

lemma bind_res_Inl_iff [res_simps]:
  "bind_res m f = Inl e \<longleftrightarrow> m = Inl e \<or> (\<exists>x. m = Inr x \<and> f x = Inl e)"
  by (cases m) auto

lemma bind_res_InrE [elim?]:
  assumes "bind_res m f = Inr y"
  obtains x where "m = Inr x" and "f x = Inr y"
  using assms by (auto simp: res_simps)

section \<open>Vectors\<close>

text \<open>\<^verbatim>\<open>v[i]\<close> and \<^verbatim>\<open>v.erase(v.begin() + i)\<close>, undefined outside the bounds.\<close>

definition nth_res :: "'a list \<Rightarrow> nat \<Rightarrow> 'a res" where
  "nth_res xs i = (if i < length xs then ok (xs ! i) else fail OutOfRange)"

definition erase_at :: "nat \<Rightarrow> 'a list \<Rightarrow> 'a list" where
  "erase_at i xs = take i xs @ drop (Suc i) xs"

definition erase_res :: "nat \<Rightarrow> 'a list \<Rightarrow> 'a list res" where
  "erase_res i xs = (if i < length xs then ok (erase_at i xs) else fail OutOfRange)"

lemma nth_res_in [simp]: "i < length xs \<Longrightarrow> nth_res xs i = ok (xs ! i)"
  by (simp add: nth_res_def)

lemma nth_res_Inr_iff [res_simps]: "nth_res xs i = ok x \<longleftrightarrow> i < length xs \<and> xs ! i = x"
  by (auto simp: nth_res_def)

lemma nth_res_0 [simp]: "nth_res (x # xs) 0 = ok x"
  by (simp add: nth_res_def)

lemma nth_res_Suc [simp]: "nth_res (x # xs) (Suc i) = nth_res xs i"
  by (simp add: nth_res_def)

lemma nth_res_numeral [simp]: "nth_res (x # xs) (numeral k) = nth_res xs (pred_numeral k)"
  by (simp add: nth_res_def numeral_eq_Suc)

lemma nth_res_Nil [simp]: "nth_res [] i = fail OutOfRange"
  by (simp add: nth_res_def)

lemma nth_res_mem: "nth_res xs i = ok x \<Longrightarrow> x \<in> set xs"
  by (auto simp: res_simps)

lemma size_nth_res [termination_simp]:
  "nth_res xs i = ok x \<Longrightarrow> size x < Suc (size_list size xs)"
proof -
  assume "nth_res xs i = ok x"
  then have "x \<in> set xs" by (rule nth_res_mem)
  then have "size x \<le> size_list size xs"
    by (rule size_list_estimation') simp
  then show ?thesis by simp
qed

lemma erase_at_0 [simp]: "erase_at 0 (x # xs) = xs"
  by (simp add: erase_at_def)

lemma erase_at_Suc [simp]: "erase_at (Suc i) (x # xs) = x # erase_at i xs"
  by (simp add: erase_at_def)

lemma erase_at_numeral [simp]: "erase_at (numeral k) (x # xs) = x # erase_at (pred_numeral k) xs"
  by (simp add: numeral_eq_Suc)

lemma length_erase_at [simp]: "i < length xs \<Longrightarrow> length (erase_at i xs) = length xs - 1"
  by (simp add: erase_at_def)

lemma erase_at_split: "i < length xs \<Longrightarrow> xs = take i xs @ xs ! i # drop (Suc i) xs"
  by (rule id_take_nth_drop)

lemma set_erase_at_subset: "set (erase_at i xs) \<subseteq> set xs"
  by (auto simp: erase_at_def dest: in_set_takeD in_set_dropD)

lemma in_set_erase_atD [dest]: "x \<in> set (erase_at i xs) \<Longrightarrow> x \<in> set xs"
  using set_erase_at_subset by fast

lemma erase_res_Inr_iff [res_simps]:
  "erase_res i xs = ok ys \<longleftrightarrow> i < length xs \<and> ys = erase_at i xs"
  by (auto simp: erase_res_def)

lemma erase_res_in [simp]: "i < length xs \<Longrightarrow> erase_res i xs = ok (erase_at i xs)"
  by (simp add: erase_res_def)

section \<open>Words\<close>

lemma unat_u32_less: "unat (w :: u32) < 2 ^ 32"
  using unsigned_less [of w, where ?'a = nat] by simp

lemma unat_of_nat_u32: "n < 2 ^ 32 \<Longrightarrow> unat (of_nat n :: u32) = n"
  by (simp add: unsigned_of_nat take_bit_nat_eq_self)

lemma unat_pow2_u32: "k < 32 \<Longrightarrow> unat (2 ^ k :: u32) = 2 ^ k"
proof -
  assume "k < 32"
  then have "(2 :: nat) ^ k < 2 ^ 32" by (rule power_strict_increasing) simp
  then have "unat (of_nat (2 ^ k) :: u32) = 2 ^ k" by (rule unat_of_nat_u32)
  then show ?thesis by simp
qed

lemma unat_half: "unat (drop_bit 1 (v :: 'a::len word)) = unat v div 2"
  by (subst unat_drop_bit_eq) (simp only: drop_bit_eq_div power_one_right)

lemma unat_dec_u32: "0 < w \<Longrightarrow> unat (w - 1 :: u32) = unat w - 1"
  by (rule unat_minus_one) (simp add: word_neq_0_conv)

section \<open>Maps\<close>

text \<open>The value \<^verbatim>\<open>m[k]\<close> of a \<^verbatim>\<open>std::map\<close>: a missing key reads as the default value.\<close>

definition map_get :: "'v \<Rightarrow> ('k \<rightharpoonup> 'v) \<Rightarrow> 'k \<Rightarrow> 'v" where
  "map_get d m k = (case m k of None \<Rightarrow> d | Some v \<Rightarrow> v)"

lemma map_get_Some [simp]: "m k = Some v \<Longrightarrow> map_get d m k = v"
  by (simp add: map_get_def)

lemma map_get_None [simp]: "m k = None \<Longrightarrow> map_get d m k = d"
  by (simp add: map_get_def)

lemma map_get_upd [simp]: "map_get d (m(k \<mapsto> v)) j = (if j = k then v else map_get d m j)"
  by (simp add: map_get_def)

section \<open>Loops that look for an element\<close>

text \<open>The least index whose element satisfies a predicate: a \<^verbatim>\<open>for\<close> loop with \<^verbatim>\<open>break\<close>.\<close>

fun first_index :: "('a \<Rightarrow> bool) \<Rightarrow> 'a list \<Rightarrow> nat option" where
  "first_index P [] = None"
| "first_index P (x # xs) = (if P x then Some 0 else map_option Suc (first_index P xs))"

lemma first_index_Some_iff:
  "first_index P xs = Some i \<longleftrightarrow> i < length xs \<and> P (xs ! i) \<and> (\<forall>j < i. \<not> P (xs ! j))"
proof (induction xs arbitrary: i)
  case Nil
  then show ?case by simp
next
  case (Cons x xs)
  then show ?case by (cases i) (auto simp: less_Suc_eq_0_disj)
qed

lemma first_index_None_iff: "first_index P xs = None \<longleftrightarrow> (\<forall>x \<in> set xs. \<not> P x)"
  by (induction xs) auto

text \<open>
  The scan the schedulers use to find the oldest entry: walk the candidates and replace the
  one held whenever the next is not younger (\<open>scan_le\<close>, the source compares with \<^verbatim>\<open>>=\<close>)
  or strictly older (\<open>scan_less\<close>, the source compares with \<^verbatim>\<open><\<close>).
\<close>

fun scan_le :: "('a \<Rightarrow> 'b::linorder) \<Rightarrow> 'a \<Rightarrow> 'a list \<Rightarrow> 'a" where
  "scan_le key x [] = x"
| "scan_le key x (y # ys) = scan_le key (if key y \<le> key x then y else x) ys"

fun scan_less :: "('a \<Rightarrow> 'b::linorder) \<Rightarrow> 'a \<Rightarrow> 'a list \<Rightarrow> 'a" where
  "scan_less key x [] = x"
| "scan_less key x (y # ys) = scan_less key (if key y < key x then y else x) ys"

lemma scan_le_in: "scan_le key x ys \<in> insert x (set ys)"
proof (induction ys arbitrary: x)
  case (Cons y ys)
  from Cons.IH [of "if key y \<le> key x then y else x"] show ?case
    by (auto split: if_splits)
qed simp

lemma scan_le_min: "z \<in> insert x (set ys) \<Longrightarrow> key (scan_le key x ys) \<le> key z"
proof (induction ys arbitrary: x z)
  case (Cons y ys)
  let ?w = "if key y \<le> key x then y else x"
  have w: "key (scan_le key ?w ys) \<le> key ?w" by (rule Cons.IH) simp
  have ws: "key ?w \<le> key x" "key ?w \<le> key y" by auto
  show ?case
  proof (cases "z \<in> set ys")
    case True
    then show ?thesis using Cons.IH [of z ?w] by simp
  next
    case False
    with Cons.prems have "z = x \<or> z = y" by auto
    then show ?thesis using order_trans [OF w ws(1)] order_trans [OF w ws(2)] by auto
  qed
qed simp

lemma scan_less_in: "scan_less key x ys \<in> insert x (set ys)"
proof (induction ys arbitrary: x)
  case (Cons y ys)
  from Cons.IH [of "if key y < key x then y else x"] show ?case
    by (auto split: if_splits)
qed simp

lemma scan_less_min: "z \<in> insert x (set ys) \<Longrightarrow> key (scan_less key x ys) \<le> key z"
proof (induction ys arbitrary: x z)
  case (Cons y ys)
  let ?w = "if key y < key x then y else x"
  have w: "key (scan_less key ?w ys) \<le> key ?w" by (rule Cons.IH) simp
  have ws: "key ?w \<le> key x" "key ?w \<le> key y" by auto
  show ?case
  proof (cases "z \<in> set ys")
    case True
    then show ?thesis using Cons.IH [of z ?w] by simp
  next
    case False
    with Cons.prems have "z = x \<or> z = y" by auto
    then show ?thesis using order_trans [OF w ws(1)] order_trans [OF w ws(2)] by auto
  qed
qed simp

section \<open>Folds that may fail\<close>

fun fold_res :: "('a \<Rightarrow> 's \<Rightarrow> 's res) \<Rightarrow> 'a list \<Rightarrow> 's \<Rightarrow> 's res" where
  "fold_res f [] s = ok s"
| "fold_res f (x # xs) s = bind_res (f x s) (fold_res f xs)"

lemma fold_res_append: "fold_res f (xs @ ys) s = bind_res (fold_res f xs s) (fold_res f ys)"
proof (induction xs arbitrary: s)
  case (Cons x xs)
  then show ?case by (cases "f x s") auto
qed simp

lemma fold_res_invariant:
  assumes "I s" and "\<And>x s. I s \<Longrightarrow> x \<in> set xs \<Longrightarrow> \<exists>s'. f x s = ok s' \<and> I s'"
  shows "\<exists>s'. fold_res f xs s = ok s' \<and> I s'"
  using assms
proof (induction xs arbitrary: s)
  case (Cons x xs)
  from Cons.prems(2) [OF Cons.prems(1)] obtain t where t: "f x s = ok t" "I t" by auto
  have "\<exists>s'. fold_res f xs t = ok s' \<and> I s'"
    by (rule Cons.IH [OF t(2)]) (use Cons.prems(2) in auto)
  with t show ?case by simp
qed simp

lemma fold_res_preserves:
  assumes "fold_res f xs s = ok s'" and "I s"
    and "\<And>x s t. I s \<Longrightarrow> x \<in> set xs \<Longrightarrow> f x s = ok t \<Longrightarrow> I t"
  shows "I s'"
  using assms
proof (induction xs arbitrary: s)
  case (Cons x xs)
  from Cons.prems(1) obtain t where t: "f x s = ok t" "fold_res f xs t = ok s'"
    by (auto simp: res_simps)
  show ?case
    by (rule Cons.IH [OF t(2)]) (use Cons.prems(2,3) t(1) in auto)
qed simp

text \<open>A loop that replaces every element of a vector by the result of a call on it.\<close>

fun map_res :: "('a \<Rightarrow> 'b res) \<Rightarrow> 'a list \<Rightarrow> 'b list res" where
  "map_res f [] = ok []"
| "map_res f (x # xs) = bind_res (f x) (\<lambda>y. bind_res (map_res f xs) (\<lambda>ys. ok (y # ys)))"

lemma map_res_cong [fundef_cong]:
  "xs = ys \<Longrightarrow> (\<And>x. x \<in> set ys \<Longrightarrow> f x = g x) \<Longrightarrow> map_res f xs = map_res g ys"
  by (induction ys arbitrary: xs) auto

lemma map_res_Inr_iff: "map_res f xs = ok ys \<longleftrightarrow> list_all2 (\<lambda>x y. f x = ok y) xs ys"
proof (induction xs arbitrary: ys)
  case (Cons x xs)
  then show ?case by (cases ys) (auto simp: res_simps)
qed (auto simp: res_simps)

section \<open>Weakest preconditions\<close>

text \<open>
  Two readings of a postcondition: \<open>res_all P m\<close>, if \<open>m\<close> returns then its value satisfies \<open>P\<close>;
  \<open>res_ok P m\<close>, \<open>m\<close> does return and its value satisfies \<open>P\<close>. The rules in \<open>res_wp\<close> and
  \<open>res_wp_ok\<close> follow the control structure of a program, so \<open>intro res_wp\<close> leaves one goal per
  path, each with the results of the calls made on it.
\<close>

definition res_all :: "('a \<Rightarrow> bool) \<Rightarrow> 'a res \<Rightarrow> bool" where
  "res_all P m \<longleftrightarrow> (\<forall>x. m = ok x \<longrightarrow> P x)"

definition res_ok :: "('a \<Rightarrow> bool) \<Rightarrow> 'a res \<Rightarrow> bool" where
  "res_ok P m \<longleftrightarrow> (\<exists>x. m = ok x \<and> P x)"

named_theorems res_wp \<open>partial correctness, one rule per construct\<close>
named_theorems res_wp_ok \<open>total correctness, one rule per construct\<close>

lemma res_allI: "(\<And>x. m = ok x \<Longrightarrow> P x) \<Longrightarrow> res_all P m"
  by (simp add: res_all_def)

lemma res_allD: "res_all P m \<Longrightarrow> m = ok x \<Longrightarrow> P x"
  by (simp add: res_all_def)

lemma res_okI: "m = ok x \<Longrightarrow> P x \<Longrightarrow> res_ok P m"
  by (auto simp: res_ok_def)

lemma res_okE: "res_ok P m \<Longrightarrow> (\<And>x. m = ok x \<Longrightarrow> P x \<Longrightarrow> thesis) \<Longrightarrow> thesis"
  by (auto simp: res_ok_def)

lemma res_all_simps [simp]: "res_all P (ok x) = P x" "res_all P (fail e)"
  by (simp_all add: res_all_def)

lemma res_ok_simps [simp]: "res_ok P (ok x) = P x" "\<not> res_ok P (fail e)"
  by (simp_all add: res_ok_def)

lemma res_all_mono: "res_all P m \<Longrightarrow> (\<And>x. P x \<Longrightarrow> Q x) \<Longrightarrow> res_all Q m"
  by (simp add: res_all_def)

lemma res_ok_mono: "res_ok P m \<Longrightarrow> (\<And>x. P x \<Longrightarrow> Q x) \<Longrightarrow> res_ok Q m"
  by (auto simp: res_ok_def)

lemma res_all_bind [res_wp]: "(\<And>x. m = ok x \<Longrightarrow> res_all P (f x)) \<Longrightarrow> res_all P (bind_res m f)"
  by (cases m) simp_all

lemma res_all_bind2: "res_all Q m \<Longrightarrow> (\<And>x. Q x \<Longrightarrow> res_all P (f x)) \<Longrightarrow> res_all P (bind_res m f)"
  by (cases m) simp_all

lemma res_all_if [res_wp]:
  "(c \<Longrightarrow> res_all P a) \<Longrightarrow> (\<not> c \<Longrightarrow> res_all P b) \<Longrightarrow> res_all P (if c then a else b)"
  by simp

lemma res_all_option [res_wp]:
  "(x = None \<Longrightarrow> res_all P a) \<Longrightarrow> (\<And>y. x = Some y \<Longrightarrow> res_all P (f y)) \<Longrightarrow>
     res_all P (case x of None \<Rightarrow> a | Some y \<Rightarrow> f y)"
  by (cases x) simp_all

lemma res_all_prod [res_wp]:
  "(\<And>a b. x = (a, b) \<Longrightarrow> res_all P (f a b)) \<Longrightarrow> res_all P (case x of (a, b) \<Rightarrow> f a b)"
  by (cases x) simp

lemma res_all_let [res_wp]: "(\<And>y. y = x \<Longrightarrow> res_all P (f y)) \<Longrightarrow> res_all P (let y = x in f y)"
  by simp

lemma res_all_ok [res_wp]: "P x \<Longrightarrow> res_all P (ok x)"
  by simp

lemma res_all_fail [res_wp]: "res_all P (fail e)"
  by simp

lemma res_all_fold:
  "I s \<Longrightarrow> (\<And>x s. x \<in> set xs \<Longrightarrow> I s \<Longrightarrow> res_all I (f x s)) \<Longrightarrow> res_all I (fold_res f xs s)"
proof (induction xs arbitrary: s)
  case (Cons x xs)
  have "res_all I (fold_res f xs t)" if "I t" for t
    by (rule Cons.IH [OF that]) (use Cons.prems(2) in auto)
  moreover have "res_all I (f x s)" using Cons.prems by simp
  ultimately show ?case by (auto intro: res_all_bind2)
qed simp

lemma res_ok_bind [res_wp_ok]: "res_ok (\<lambda>x. res_ok P (f x)) m \<Longrightarrow> res_ok P (bind_res m f)"
  by (cases m) simp_all

lemma res_ok_bind2: "res_ok Q m \<Longrightarrow> (\<And>x. Q x \<Longrightarrow> res_ok P (f x)) \<Longrightarrow> res_ok P (bind_res m f)"
  by (cases m) simp_all

lemma res_ok_if [res_wp_ok]:
  "(c \<Longrightarrow> res_ok P a) \<Longrightarrow> (\<not> c \<Longrightarrow> res_ok P b) \<Longrightarrow> res_ok P (if c then a else b)"
  by simp

lemma res_ok_fold:
  "I s \<Longrightarrow> (\<And>x s. x \<in> set xs \<Longrightarrow> I s \<Longrightarrow> res_ok I (f x s)) \<Longrightarrow> res_ok I (fold_res f xs s)"
proof (induction xs arbitrary: s)
  case (Cons x xs)
  have "res_ok I (fold_res f xs t)" if "I t" for t
    by (rule Cons.IH [OF that]) (use Cons.prems(2) in auto)
  moreover have "res_ok I (f x s)" using Cons.prems by simp
  ultimately show ?case by (auto intro: res_ok_bind2)
qed simp

end
