(* ===== verification/Types.thy ===== *)
theory Types
  imports Prelude
begin

text \<open>
  The data that travels through the controller: \<^verbatim>\<open>src/src/global.h\<close> (the levels of the
  memory organisation), \<^verbatim>\<open>src/src/Request.h\<close> (a memory request) and
  \<^verbatim>\<open>src/src/BusPacket.h\<close> (a DRAM command or a data burst). A \<^verbatim>\<open>void*\<close> payload is an
  opaque 64-bit value, \<open>0\<close> for the null pointer. Fields of the packet whose names the request
  already uses carry a \<open>p\<close>.
\<close>

section \<open>Memory organisation\<close>

datatype memOrg = Rank | BankGroup | Bank | SubArray | Row | Column

fun memOrg_index :: "memOrg \<Rightarrow> nat" where
  "memOrg_index Rank = 0"
| "memOrg_index BankGroup = 1"
| "memOrg_index Bank = 2"
| "memOrg_index SubArray = 3"
| "memOrg_index Row = 4"
| "memOrg_index Column = 5"

section \<open>Requests\<close>

datatype RequestType = DATA_READ | DATA_WRITE

record request =
  requestType :: RequestType
  requestorID :: u32
  requestSize :: u32
  address :: u64
  data :: u64
  arriveTime :: u32
  returnTime :: u32
  rank :: u32
  bankGroup :: u32
  bank :: u32
  subArray :: u32
  row :: u32
  col :: u32
  addressMap :: "u32 list"

text \<open>
  The constructor sets the first five fields and \<open>returnTime\<close>; it leaves the others
  indeterminate, which the model represents by an arbitrary previous object \<open>mem\<close> whose
  remaining fields show through.
\<close>

definition new_Request ::
  "request \<Rightarrow> u32 \<Rightarrow> RequestType \<Rightarrow> u32 \<Rightarrow> u64 \<Rightarrow> u64 \<Rightarrow> request" where
  "new_Request mem i ty sz addr d =
     mem\<lparr>requestType := ty, requestorID := i, requestSize := sz, address := addr,
         data := d, returnTime := 0\<rparr>"

text \<open>A concrete request, used by the witnesses.\<close>

definition sample_request :: request where
  "sample_request =
     \<lparr>requestType = DATA_READ, requestorID = 5, requestSize = 64, address = 0xABCDEF,
      data = 0, arriveTime = 1, returnTime = 0, rank = 0, bankGroup = 0, bank = 0,
      subArray = 0, row = 0, col = 0, addressMap = [0, 0, 0, 0]\<rparr>"

section \<open>Bus packets\<close>

datatype BusPacketType =
    RD | RDA | WR | WRA | ACT_R | ACT_W | ACT | PRE | PREA | REF | REFPB
  | PDE | PDX | SRE | SRX | DATA

text \<open>The numeric values of the enumeration, which the sources compare with \<^verbatim>\<open><\<close>.\<close>

fun packet_code :: "BusPacketType \<Rightarrow> nat" where
  "packet_code RD = 0"
| "packet_code RDA = 1"
| "packet_code WR = 2"
| "packet_code WRA = 3"
| "packet_code ACT_R = 4"
| "packet_code ACT_W = 5"
| "packet_code ACT = 6"
| "packet_code PRE = 7"
| "packet_code PREA = 8"
| "packet_code REF = 9"
| "packet_code REFPB = 10"
| "packet_code PDE = 11"
| "packet_code PDX = 12"
| "packet_code SRE = 13"
| "packet_code SRX = 14"
| "packet_code DATA = 15"

lemma packet_code_inj [simp]: "packet_code a = packet_code b \<longleftrightarrow> a = b"
  by (cases a; cases b) simp_all

instantiation BusPacketType :: linorder
begin

definition less_eq_BusPacketType :: "BusPacketType \<Rightarrow> BusPacketType \<Rightarrow> bool" where
  "less_eq_BusPacketType a b \<longleftrightarrow> packet_code a \<le> packet_code b"

definition less_BusPacketType :: "BusPacketType \<Rightarrow> BusPacketType \<Rightarrow> bool" where
  "less_BusPacketType a b \<longleftrightarrow> packet_code a < packet_code b"

instance
proof
  fix a b :: BusPacketType
  assume "a \<le> b" "b \<le> a"
  then have "packet_code a = packet_code b"
    by (simp add: less_eq_BusPacketType_def)
  then show "a = b" by simp
qed (auto simp: less_eq_BusPacketType_def less_BusPacketType_def)

end

text \<open>The commands the schedulers keep timers for: the loop \<^verbatim>\<open>type = RD; type != PDE\<close>.\<close>

definition timed_types :: "BusPacketType list" where
  "timed_types = [RD, RDA, WR, WRA, ACT_R, ACT_W, ACT, PRE, PREA, REF, REFPB]"

lemma set_timed_types: "set timed_types = {t. t < PDE}"
proof (rule set_eqI)
  fix t show "t \<in> set timed_types \<longleftrightarrow> t \<in> {t. t < PDE}"
    by (cases t) (simp_all add: timed_types_def less_BusPacketType_def)
qed

record packet =
  busPacketType :: BusPacketType
  pRequestorID :: u64
  pAddress :: u64
  column :: u32
  pRow :: u32
  pSubArray :: u32
  pBank :: u32
  pRank :: u32
  pData :: u64
  pArriveTime :: u32
  postCommand :: bool
  postCounter :: u32
  pAddressMap :: "u32 list"

text \<open>
  The field \<^verbatim>\<open>bankGroup\<close> of a packet is never written by the modelled code (every reader
  has it replaced by \<open>0\<close>), so the record leaves it out; \<open>addressMap\<close> is indeterminate
  until \<^verbatim>\<open>enqueueCommand\<close> fills it, and starts as zeros here.
\<close>

definition new_BusPacket ::
  "BusPacketType \<Rightarrow> u64 \<Rightarrow> u64 \<Rightarrow> u32 \<Rightarrow> u32 \<Rightarrow> u32 \<Rightarrow> u32 \<Rightarrow> u32 \<Rightarrow> u64 \<Rightarrow> u32 \<Rightarrow> packet" where
  "new_BusPacket packetType i addr c rw b rk sa d time =
     \<lparr>busPacketType = packetType, pRequestorID = i, pAddress = addr, column = c, pRow = rw,
      pSubArray = sa, pBank = b, pRank = rk, pData = d, pArriveTime = time,
      postCommand = False, postCounter = 0, pAddressMap = [0, 0, 0, 0]\<rparr>"

text \<open>The commands that open a row, move data or close a row.\<close>

definition is_CAS :: "BusPacketType \<Rightarrow> bool" where
  "is_CAS t \<longleftrightarrow> t < ACT_R"

definition is_ACT :: "BusPacketType \<Rightarrow> bool" where
  "is_ACT t \<longleftrightarrow> t \<in> {ACT_R, ACT_W, ACT}"

lemma is_CAS_simps [simp]:
  "is_CAS RD" "is_CAS RDA" "is_CAS WR" "is_CAS WRA" "\<not> is_CAS ACT_R" "\<not> is_CAS ACT_W"
  "\<not> is_CAS ACT" "\<not> is_CAS PRE" "\<not> is_CAS PREA" "\<not> is_CAS REF" "\<not> is_CAS REFPB"
  "\<not> is_CAS DATA"
  by (simp_all add: is_CAS_def less_BusPacketType_def)

end
