(* ===== verification/AddressMapping.thy ===== *)
theory AddressMapping
  imports Types
begin

unbundle bit_operations_syntax

text \<open>
  \<^verbatim>\<open>src/src/AddressMapping.{h,cpp}\<close>: the constructor turns the digits of the configuration
  value \<^verbatim>\<open>AddressMapping\<close> into a list of levels with their bit widths, and
  \<open>addressMapping\<close> peels the levels off the low end of the request's address, last digit
  first. The lemmas show that the decoded fields are exactly the bit slices of the low 32
  address bits, that they determine those bits, and what the privatization builds change.
\<close>

section \<open>The constructor\<close>

function log2_loop :: "u32 \<Rightarrow> u32 \<Rightarrow> u32" where
  "log2_loop v logbase2 =
     (if 0 < v then log2_loop (drop_bit 1 v) (logbase2 + 1) else logbase2)"
  by pat_completeness auto
termination
proof (relation "measure (\<lambda>(v, l). unat v)")
  fix v l :: u32
  assume v: "0 < v"
  then have "0 < unat v" by (simp add: unat_gt_0 word_neq_0_conv)
  then have "unat v div 2 < unat v" by simp
  then show "((drop_bit 1 v, l + 1), v, l) \<in> measure (\<lambda>(v, l). unat v)"
    by (simp add: unat_half [simplified])
qed simp

declare log2_loop.simps [simp del]

definition log2 :: "u32 \<Rightarrow> u32" where
  "log2 num_value =
     (let logbase2 = log2_loop (drop_bit 1 num_value) 0
      in if push_bit (unat logbase2) (1 :: u32) < num_value then logbase2 + 1 else logbase2)"

definition memOrg_of_index :: "u32 \<Rightarrow> memOrg option" where
  "memOrg_of_index i =
     (if i = 0 then Some Rank else if i = 1 then Some BankGroup else if i = 2 then Some Bank
      else if i = 3 then Some SubArray else if i = 4 then Some Row
      else if i = 5 then Some Column else None)"

text \<open>
  One iteration per character: \<^verbatim>\<open>memIndex = format[index] - '0'\<close> in unsigned arithmetic,
  \<^verbatim>\<open>abort()\<close> when it exceeds \<open>Column\<close>.
\<close>

fun new_AddressMapping :: "u32 list \<Rightarrow> string \<Rightarrow> (memOrg \<times> u32) list res" where
  "new_AddressMapping memTable [] = ok []"
| "new_AddressMapping memTable (c # cs) =
     (case memOrg_of_index (of_char c - 48) of
        None \<Rightarrow> fail Abort
      | Some lv \<Rightarrow>
          bind_res (nth_res memTable (memOrg_index lv)) (\<lambda>n.
          bind_res (new_AddressMapping memTable cs) (\<lambda>ds. ok ((lv, log2 n) # ds))))"

section \<open>Decoding\<close>

text \<open>
  The assignments of one \<^verbatim>\<open>case\<close> label. The array \<^verbatim>\<open>addressMap\<close> has four elements; the
  source also assigns \<^verbatim>\<open>addressMap[Row]\<close> and \<^verbatim>\<open>addressMap[Column]\<close>, indices 4 and 5. Those
  two writes land behind the object's last member: no field of the request changes, which
  is what the list update does outside the bounds.
\<close>

fun assign_level :: "memOrg \<Rightarrow> u32 \<Rightarrow> request \<Rightarrow> request" where
  "assign_level Rank v r = r\<lparr>addressMap := (addressMap r)[0 := v], rank := v\<rparr>"
| "assign_level BankGroup v r = r\<lparr>addressMap := (addressMap r)[1 := v], bankGroup := v\<rparr>"
| "assign_level Bank v r = r\<lparr>addressMap := (addressMap r)[2 := v], bank := v\<rparr>"
| "assign_level SubArray v r = r\<lparr>addressMap := (addressMap r)[3 := v], subArray := v\<rparr>"
| "assign_level Row v r = r\<lparr>addressMap := (addressMap r)[4 := v], row := v\<rparr>"
| "assign_level Column v r = r\<lparr>addressMap := (addressMap r)[5 := v], col := v\<rparr>"

text \<open>The loop over \<^verbatim>\<open>decodeIndex\<close>, here on the reversed vector, since the source counts down.\<close>

fun decode_loop :: "(memOrg \<times> u32) list \<Rightarrow> u32 \<Rightarrow> u32 \<Rightarrow> request \<Rightarrow> request res" where
  "decode_loop [] tempA tempB r = ok r"
| "decode_loop ((lv, w) # ds) tempA tempB r =
     (if 32 \<le> unat w then fail ShiftRange
      else let tempA1 = drop_bit (unat w) tempA;
               tempA2 = push_bit (unat w) tempA1;
               tempAddr = tempA2 XOR tempB;
               tempB1 = drop_bit (unat w) tempA2
           in decode_loop ds tempB1 tempB1 (assign_level lv tempAddr r))"

text \<open>The two compile-time switches of the \<^verbatim>\<open>Makefile\<close>.\<close>

record build_flags =
  SINGLE_RANK_BANK_PRIVATIZATION :: bool
  MULTI_RANK_BANK_PRIVATIZATION :: bool

definition privatize :: "build_flags \<Rightarrow> request \<Rightarrow> request" where
  "privatize fl r =
     (let r1 = (if SINGLE_RANK_BANK_PRIVATIZATION fl
                then r\<lparr>rank := 0, bank := requestorID r\<rparr> else r)
      in if MULTI_RANK_BANK_PRIVATIZATION fl
         then r1\<lparr>rank := (if requestorID r1 < 8 then requestorID r1 mod 3 else 3),
                 bank := requestorID r1\<rparr>
         else r1)"

definition finish_map :: "request \<Rightarrow> request" where
  "finish_map r =
     r\<lparr>addressMap := (addressMap r)[0 := 0, 1 := bankGroup r, 2 := bank r, 3 := subArray r]\<rparr>"

definition addressMapping ::
  "build_flags \<Rightarrow> (memOrg \<times> u32) list \<Rightarrow> request \<Rightarrow> request res" where
  "addressMapping fl decodeIndex r =
     bind_res (decode_loop (rev decodeIndex) (ucast (address r)) (ucast (address r)) r)
       (\<lambda>r1. ok (finish_map (privatize fl r1)))"

section \<open>The bit width of a level\<close>

fun bit_len :: "nat \<Rightarrow> nat" where
  "bit_len n = (if n = 0 then 0 else Suc (bit_len (n div 2)))"

declare bit_len.simps [simp del]

lemma bit_len_bounds: "0 < n \<Longrightarrow> 2 ^ bit_len (n div 2) \<le> n \<and> n < 2 * 2 ^ bit_len (n div 2)"
proof (induction n rule: bit_len.induct)
  case (1 n)
  show ?case
  proof (cases "n div 2 = 0")
    case True
    with "1.prems" have "n = 1" by (simp add: div_eq_0_iff)
    then show ?thesis by (simp add: bit_len.simps)
  next
    case False
    with "1.IH" "1.prems" have IH: "2 ^ bit_len (n div 2 div 2) \<le> n div 2"
        "n div 2 < 2 * 2 ^ bit_len (n div 2 div 2)" by auto
    have "bit_len (n div 2) = Suc (bit_len (n div 2 div 2))"
      using False by (subst bit_len.simps) simp
    with IH show ?thesis by (simp add: less_mult_imp_div_less) linarith
  qed
qed

lemma bit_len_le: "n < 2 ^ k \<Longrightarrow> bit_len n \<le> k"
proof (induction n arbitrary: k rule: bit_len.induct)
  case (1 n)
  show ?case
  proof (cases k)
    case 0
    with "1.prems" show ?thesis by (simp add: bit_len.simps)
  next
    case (Suc j)
    with "1.prems" have "n div 2 < 2 ^ j" by (simp add: less_mult_imp_div_less)
    with "1.IH" have "n \<noteq> 0 \<Longrightarrow> bit_len (n div 2) \<le> j" by simp
    with Suc show ?thesis by (subst bit_len.simps) simp
  qed
qed

lemma log2_loop_bit_len: "log2_loop v l = l + of_nat (bit_len (unat v))"
proof (induction v l rule: log2_loop.induct)
  case (1 v l)
  show ?case
  proof (cases "0 < v")
    case True
    then have nz: "unat v \<noteq> 0" by (simp add: unat_eq_zero word_neq_0_conv)
    with "1.IH" [OF True] True show ?thesis
      by (subst log2_loop.simps, subst bit_len.simps) (simp add: algebra_simps unat_half [simplified])
  next
    case False
    then have "v = 0" by (simp add: word_gt_0)
    then show ?thesis by (subst log2_loop.simps) (simp add: bit_len.simps)
  qed
qed

lemma bit_len_half_u32: "bit_len (unat (n :: u32) div 2) \<le> 31"
proof -
  have "unat n < 2 ^ 32" by (rule unat_u32_less)
  then have "unat n div 2 < 2 ^ 31" by (simp add: less_mult_imp_div_less)
  then show ?thesis by (rule bit_len_le)
qed

lemma unat_log2_base: "unat (log2_loop (drop_bit 1 n) 0) = bit_len (unat (n :: u32) div 2)"
proof -
  have "bit_len (unat n div 2) < 2 ^ 32" using bit_len_half_u32 [of n] by simp
  then show ?thesis
    by (simp only: log2_loop_bit_len unat_half add_0_left unat_of_nat_u32)
qed

lemma unat_log2:
  "unat (log2 n) = (if 2 ^ bit_len (unat n div 2) < unat n
                    then Suc (bit_len (unat n div 2)) else bit_len (unat n div 2))"
proof -
  let ?k = "bit_len (unat n div 2)"
  have k: "?k \<le> 31" by (rule bit_len_half_u32)
  have "unat (push_bit ?k (1 :: u32)) = 2 ^ ?k"
    using k by (simp add: push_bit_eq_mult unat_pow2_u32)
  then have "push_bit ?k (1 :: u32) < n \<longleftrightarrow> 2 ^ ?k < unat n"
    by (simp add: word_less_nat_alt)
  moreover have "unat (log2_loop (drop_bit 1 n) 0 + 1) = Suc ?k"
    using k by (subst unat_word_ariths) (simp only: unat_log2_base, simp)
  ultimately show ?thesis
    by (simp only: log2_def Let_def unat_log2_base if_distrib [of unat] split: if_split)
qed

lemma log2_pow2: "n = 2 ^ k \<Longrightarrow> k < 32 \<Longrightarrow> unat (log2 n) = k"
proof -
  assume n: "n = 2 ^ k" and k: "k < 32"
  then have un: "unat n = 2 ^ k" by (simp add: unat_pow2_u32)
  have "2 ^ bit_len (unat n div 2) \<le> unat n \<and> unat n < 2 * 2 ^ bit_len (unat n div 2)"
    by (rule bit_len_bounds) (simp add: un)
  then have lo: "(2 :: nat) ^ bit_len (unat n div 2) \<le> 2 ^ k"
    and hi: "(2 :: nat) ^ k < 2 ^ Suc (bit_len (unat n div 2))" by (simp_all add: un)
  from lo have "bit_len (unat n div 2) \<le> k" by simp
  moreover from hi have "k < Suc (bit_len (unat n div 2))"
    by (rule power_less_imp_less_exp [rotated]) simp
  ultimately have "bit_len (unat n div 2) = k" by simp
  then show ?thesis by (simp add: unat_log2 un)
qed

section \<open>The decoded fields\<close>

fun level_field :: "memOrg \<Rightarrow> request \<Rightarrow> u32" where
  "level_field Rank r = rank r"
| "level_field BankGroup r = bankGroup r"
| "level_field Bank r = bank r"
| "level_field SubArray r = subArray r"
| "level_field Row r = row r"
| "level_field Column r = col r"

lemma level_field_assign [simp]:
  "level_field l (assign_level k v r) = (if l = k then v else level_field l r)"
  by (cases l; cases k) simp_all

lemma assign_level_frame [frame_simps]:
  "address (assign_level k v r) = address r"
  "requestorID (assign_level k v r) = requestorID r"
  "requestType (assign_level k v r) = requestType r"
  "requestSize (assign_level k v r) = requestSize r"
  "arriveTime (assign_level k v r) = arriveTime r"
  "length (addressMap (assign_level k v r)) = length (addressMap r)"
  by (cases k; simp)+

lemma take_bit_eq_imp_less: "k < 32 \<Longrightarrow> take_bit k w = (w :: u32) \<Longrightarrow> w < 2 ^ k"
proof -
  assume k: "k < 32" and w: "take_bit k w = w"
  have "unat w = take_bit k (unat w)" using w by (metis unsigned_take_bit_eq)
  then have "unat w < 2 ^ k" by (metis take_bit_nat_less_exp)
  then show ?thesis using k by (simp only: word_less_nat_alt unat_pow2_u32)
qed

lemma drop_push_drop:
  "drop_bit n (push_bit n (drop_bit n a)) = drop_bit n (a :: 'a::len word)"
  by (rule bit_eqI) (auto simp: bit_simps dest: bit_imp_le_length)

lemma push_drop_xor:
  "push_bit n (drop_bit n a) XOR a = take_bit n (a :: 'a::len word)"
  by (rule bit_eqI) (auto simp: bit_simps, metis le_add_diff_inverse not_le)

lemma slice_join:
  "take_bit w a OR push_bit w (take_bit s (drop_bit w a)) = take_bit (w + s) (a :: 'a::len word)"
  by (rule bit_eqI) (auto simp: bit_simps)

lemma decode_loop_Cons:
  "decode_loop ((lv, w) # ds) a a r =
     (if 32 \<le> unat w then fail ShiftRange
      else decode_loop ds (drop_bit (unat w) a) (drop_bit (unat w) a)
             (assign_level lv (take_bit (unat w) a) r))"
  by (simp add: Let_def drop_push_drop push_drop_xor)

declare decode_loop.simps(2) [simp del]

text \<open>Putting the fields back together, least significant level first.\<close>

fun recompose :: "(memOrg \<times> u32) list \<Rightarrow> request \<Rightarrow> u32" where
  "recompose [] r = 0"
| "recompose ((lv, w) # ds) r = level_field lv r OR push_bit (unat w) (recompose ds r)"

definition total_bits :: "(memOrg \<times> u32) list \<Rightarrow> nat" where
  "total_bits ds = sum_list (map (unat \<circ> snd) ds)"

lemma total_bits_simps [simp]:
  "total_bits [] = 0" "total_bits ((lv, w) # ds) = unat w + total_bits ds"
  "total_bits (rev ds) = total_bits ds"
  by (simp_all add: total_bits_def rev_map [symmetric])

definition widths_ok :: "(memOrg \<times> u32) list \<Rightarrow> bool" where
  "widths_ok ds \<longleftrightarrow> distinct (map fst ds) \<and> (\<forall>(lv, w) \<in> set ds. unat w < 32)"

lemma widths_ok_rev [simp]: "widths_ok (rev ds) = widths_ok ds"
  by (simp add: widths_ok_def rev_map [symmetric])

lemma decode_loop_correct:
  "widths_ok ds \<Longrightarrow>
     \<exists>r'. decode_loop ds a a r = ok r'
        \<and> recompose ds r' = take_bit (total_bits ds) a
        \<and> (\<forall>(lv, w) \<in> set ds. take_bit (unat w) (level_field lv r') = level_field lv r')
        \<and> (\<forall>lv. lv \<notin> fst ` set ds \<longrightarrow> level_field lv r' = level_field lv r)
        \<and> length (addressMap r') = length (addressMap r)
        \<and> requestorID r' = requestorID r \<and> address r' = address r"
proof (induction ds arbitrary: a r)
  case Nil
  then show ?case by simp
next
  case (Cons d ds)
  obtain lv w where d: "d = (lv, w)" by (cases d)
  with Cons.prems have w: "unat w < 32" and new: "lv \<notin> fst ` set ds" and ok: "widths_ok ds"
    by (auto simp: widths_ok_def)
  let ?r = "assign_level lv (take_bit (unat w) a) r"
  from Cons.IH [OF ok, of "drop_bit (unat w) a" ?r] obtain r' where
    r': "decode_loop ds (drop_bit (unat w) a) (drop_bit (unat w) a) ?r = ok r'"
    and rec: "recompose ds r' = take_bit (total_bits ds) (drop_bit (unat w) a)"
    and sl: "\<forall>(l, w) \<in> set ds. take_bit (unat w) (level_field l r') = level_field l r'"
    and fr: "\<forall>l. l \<notin> fst ` set ds \<longrightarrow> level_field l r' = level_field l ?r"
    and ln: "length (addressMap r') = length (addressMap ?r)"
    and rq: "requestorID r' = requestorID ?r" "address r' = address ?r"
    by blast
  from fr new have fv: "level_field lv r' = take_bit (unat w) a" by simp
  have "decode_loop (d # ds) a a r = ok r'"
    using w r' by (simp add: d decode_loop_Cons)
  moreover have "recompose (d # ds) r' = take_bit (total_bits (d # ds)) a"
    by (simp add: d rec fv slice_join)
  moreover have "\<forall>(l, w) \<in> set (d # ds). take_bit (unat w) (level_field l r') = level_field l r'"
    using sl by (simp add: d fv)
  moreover have "\<forall>l. l \<notin> fst ` set (d # ds) \<longrightarrow> level_field l r' = level_field l r"
    using fr by (auto simp: d)
  ultimately show ?case using ln rq by (auto simp: frame_simps)
qed

section \<open>From the configuration string to the widths\<close>

lemma of_char_u32_inj: "(of_char c :: u32) = of_char d \<Longrightarrow> c = d"
proof -
  assume eq: "(of_char c :: u32) = of_char d"
  have nat_char: "unat (of_char e :: u32) = of_char e" for e :: char
  proof -
    have "of_char e < (256 :: nat)" by simp
    then have "of_char e < (2 :: nat) ^ 32" by (rule less_trans) simp
    then have "unat (of_nat (of_char e) :: u32) = of_char e"
      by (rule unat_of_nat_u32)
    then show ?thesis by (simp only: of_nat_of_char)
  qed
  from eq have "unat (of_char c :: u32) = unat (of_char d :: u32)" by simp
  then have "(of_char c :: nat) = of_char d" by (simp only: nat_char)
  then show "c = d" by simp
qed

lemma memOrg_of_index_inj:
  "memOrg_of_index i = Some lv \<Longrightarrow> memOrg_of_index j = Some lv \<Longrightarrow> i = j"
  by (auto simp: memOrg_of_index_def split: if_splits)

lemma new_AddressMapping_levels:
  "new_AddressMapping memTable cs = ok ds \<Longrightarrow>
     list_all2 (\<lambda>c d. memOrg_of_index (of_char c - 48) = Some (fst d)
       \<and> memOrg_index (fst d) < length memTable
       \<and> snd d = log2 (memTable ! memOrg_index (fst d))) cs ds"
proof (induction cs arbitrary: ds)
  case Nil
  then show ?case by simp
next
  case (Cons c cs)
  then show ?case by (auto simp: res_simps split: option.splits)
qed

lemma new_AddressMapping_distinct:
  "new_AddressMapping memTable cs = ok ds \<Longrightarrow> distinct cs \<Longrightarrow> distinct (map fst ds)"
proof (induction cs arbitrary: ds)
  case Nil
  then show ?case by simp
next
  case (Cons c cs)
  from Cons.prems(1) obtain lv w ds' where lv: "memOrg_of_index (of_char c - 48) = Some lv"
    and ds': "new_AddressMapping memTable cs = ok ds'" and ds: "ds = (lv, w) # ds'"
    by (auto simp: res_simps split: option.splits)
  have "lv \<notin> fst ` set ds'"
  proof
    assume "lv \<in> fst ` set ds'"
    then obtain i where i: "i < length ds'" "fst (ds' ! i) = lv"
      by (auto simp: in_set_conv_nth)
    from new_AddressMapping_levels [OF ds']
    have len: "length cs = length ds'"
      and at: "memOrg_of_index (of_char (cs ! i) - 48) = Some (fst (ds' ! i))"
      using i(1) by (auto simp: list_all2_conv_all_nth)
    have "of_char (cs ! i) - 48 = (of_char c - 48 :: u32)"
      using memOrg_of_index_inj at lv i(2) by blast
    then have "(of_char (cs ! i) :: u32) = of_char c" by simp
    then have "cs ! i = c" by (rule of_char_u32_inj)
    with Cons.prems(2) i(1) len show False by (metis distinct.simps(2) nth_mem)
  qed
  with Cons.IH [OF ds'] Cons.prems(2) ds show ?case by simp
qed

lemma log2_less_32: "n \<le> 2 ^ 31 \<Longrightarrow> unat (log2 n) < 32"
proof -
  assume "n \<le> 2 ^ 31"
  then have n: "unat n \<le> 2 ^ 31" by (simp add: word_le_nat_alt)
  have k: "bit_len (unat n div 2) \<le> 31" by (rule bit_len_half_u32)
  show ?thesis
  proof (cases "bit_len (unat n div 2) = 31")
    case True
    with n show ?thesis by (simp add: unat_log2)
  next
    case False
    with k show ?thesis by (simp add: unat_log2)
  qed
qed

lemma new_AddressMapping_widths_ok:
  assumes "new_AddressMapping memTable cs = ok ds" and "distinct cs"
    and "\<forall>n \<in> set memTable. n \<le> 2 ^ 31"
  shows "widths_ok ds"
proof -
  have "\<forall>d \<in> set ds. unat (snd d) < 32"
  proof
    fix d assume "d \<in> set ds"
    then obtain i where "i < length ds" "d = ds ! i" by (auto simp: in_set_conv_nth)
    with new_AddressMapping_levels [OF assms(1)]
    have "memOrg_index (fst d) < length memTable" "snd d = log2 (memTable ! memOrg_index (fst d))"
      by (simp_all add: list_all2_conv_all_nth)
    with assms(3) show "unat (snd d) < 32" by (simp add: log2_less_32)
  qed
  then have "\<forall>(lv, w) \<in> set ds. unat w < 32" by auto
  then show ?thesis
    using new_AddressMapping_distinct [OF assms(1,2)] by (simp add: widths_ok_def)
qed

section \<open>Properties of the translation\<close>

definition interleaved :: build_flags where
  "interleaved = \<lparr>SINGLE_RANK_BANK_PRIVATIZATION = False, MULTI_RANK_BANK_PRIVATIZATION = False\<rparr>"

definition single_rank :: build_flags where
  "single_rank = \<lparr>SINGLE_RANK_BANK_PRIVATIZATION = True, MULTI_RANK_BANK_PRIVATIZATION = False\<rparr>"

lemma level_field_finish [simp]: "level_field lv (finish_map r) = level_field lv r"
  by (cases lv) (simp_all add: finish_map_def)

lemma privatize_interleaved [simp]: "privatize interleaved r = r"
  by (simp add: privatize_def interleaved_def)

lemma recompose_finish [simp]: "recompose ds (finish_map r) = recompose ds r"
  by (induction ds) auto

lemma addressMapping_interleaved:
  assumes "widths_ok ds"
  obtains r' where "addressMapping interleaved ds r = ok r'"
    and "recompose (rev ds) r' = take_bit (total_bits ds) (ucast (address r))"
    and "\<And>lv w. (lv, w) \<in> set ds \<Longrightarrow> take_bit (unat w) (level_field lv r') = level_field lv r'"
  using decode_loop_correct [of "rev ds" "ucast (address r)" r] assms
  by (fastforce simp: addressMapping_def)

lemma addressMapping_total: "widths_ok ds \<Longrightarrow> \<exists>r'. addressMapping fl ds r = ok r'"
  using decode_loop_correct [of "rev ds" "ucast (address r)" r] by (auto simp: addressMapping_def)


text \<open>
  (C12) A decoded level never exceeds the memory organisation: when every level has a power of
  two many units, the decoded rank, bank, row and column of any address are smaller than
  the number of units of that level, so they can index the device's arrays.
\<close>

theorem decoded_level_in_range:
  assumes "new_AddressMapping memTable fmt = ok ds" and "distinct fmt"
    and "\<forall>n \<in> set memTable. \<exists>k < 32. n = 2 ^ k"
    and "addressMapping interleaved ds r = ok r'" and "(lv, w) \<in> set ds"
  shows "level_field lv r' < memTable ! memOrg_index lv"
proof -
  from assms(5) obtain i where i: "i < length ds" "ds ! i = (lv, w)"
    by (auto simp: in_set_conv_nth)
  with new_AddressMapping_levels [OF assms(1)]
  have lv: "memOrg_index lv < length memTable" and w: "w = log2 (memTable ! memOrg_index lv)"
    by (auto simp: list_all2_conv_all_nth)
  from lv assms(3) obtain k where k: "k < 32" "memTable ! memOrg_index lv = 2 ^ k"
    by (meson nth_mem)
  have wk: "unat w = k" using log2_pow2 [OF k(2) k(1)] w by simp
  have "\<forall>n \<in> set memTable. n \<le> 2 ^ 31"
  proof
    fix n assume "n \<in> set memTable"
    with assms(3) obtain j where j: "j < 32" "n = 2 ^ j" by blast
    then have "unat n \<le> 2 ^ 31" by (simp only: unat_pow2_u32) (rule power_increasing; simp)
    moreover have "unat (2 ^ 31 :: u32) = 2 ^ 31" by (rule unat_pow2_u32) simp
    ultimately show "n \<le> 2 ^ 31" by (simp only: word_le_nat_alt)
  qed
  then have wok: "widths_ok ds" by (rule new_AddressMapping_widths_ok [OF assms(1,2)])
  have "take_bit (unat w) (level_field lv r') = level_field lv r'"
  proof (rule addressMapping_interleaved [OF wok, of r])
    fix s assume s: "addressMapping interleaved ds r = ok s"
      and "\<And>lv w. (lv, w) \<in> set ds \<Longrightarrow> take_bit (unat w) (level_field lv s) = level_field lv s"
    with assms(4,5) show ?thesis by simp
  qed
  then have "level_field lv r' < 2 ^ k"
    using wk k(1) take_bit_eq_imp_less by blast
  then show ?thesis by (simp add: k(2))
qed

text \<open>An organisation of one rank with eight banks.\<close>

definition sample_table :: "u32 list" where
  "sample_table = [1, 1, 8, 1, 32768, 1024]"

lemma sample_mapping:
  "new_AddressMapping sample_table ''012345'' =
     ok [(Rank, 0), (BankGroup, 0), (Bank, 3), (SubArray, 0), (Row, 15), (Column, 10)]"
  by code_simp


theorem decoded_level_in_range_witness:
  "\<exists>r'. addressMapping interleaved
          [(Rank, 0), (BankGroup, 0), (Bank, 3), (SubArray, 0), (Row, 15), (Column, 10)]
          sample_request = ok r' \<and> level_field Bank r' < 8"
proof -
  have "\<exists>k < 32. (1 :: u32) = 2 ^ k" by (rule exI [of _ 0]) simp
  moreover have "\<exists>k < 32. (8 :: u32) = 2 ^ k" by (rule exI [of _ 3]) simp
  moreover have "\<exists>k < 32. (32768 :: u32) = 2 ^ k" by (rule exI [of _ 15]) simp
  moreover have "\<exists>k < 32. (1024 :: u32) = 2 ^ k" by (rule exI [of _ 10]) simp
  ultimately have pow: "\<forall>n \<in> set sample_table. \<exists>k < 32. n = 2 ^ k"
    unfolding sample_table_def by (simp only: list.set ball_simps simp_thms)
  obtain r' where r': "addressMapping interleaved
          [(Rank, 0), (BankGroup, 0), (Bank, 3), (SubArray, 0), (Row, 15), (Column, 10)]
          sample_request = ok r'"
    by (rule addressMapping_interleaved [of
          "[(Rank, 0), (BankGroup, 0), (Bank, 3), (SubArray, 0), (Row, 15), (Column, 10)]"])
      (auto simp: widths_ok_def)
  have "level_field Bank r' < sample_table ! memOrg_index Bank"
    by (rule decoded_level_in_range [OF sample_mapping _ pow r', of _ 3]) simp_all
  then show ?thesis using r' by (simp add: sample_table_def)
qed

text \<open>
  (C15) Bank privatization isolates the requestors: in a build with
  \<^verbatim>\<open>SINGLE_RANK_BANK_PRIVATIZATION\<close> every translated request goes to rank 0 and to the bank
  named by its requestor, with the queue-selection map saying the same, so requests of
  different requestors never meet in a bank.
\<close>

theorem privatized_banks_disjoint:
  assumes "addressMapping single_rank ds r1 = ok r1'" and "addressMapping single_rank ds r2 = ok r2'"
    and "widths_ok ds" and "length (addressMap r1) = 4" and "length (addressMap r2) = 4"
  shows "rank r1' = 0 \<and> bank r1' = requestorID r1
       \<and> addressMap r1' = [0, bankGroup r1', requestorID r1, subArray r1']
       \<and> (requestorID r1 \<noteq> requestorID r2 \<longrightarrow> bank r1' \<noteq> bank r2')"
proof -
  have *: "rank r' = 0 \<and> bank r' = requestorID r
      \<and> addressMap r' = [0, bankGroup r', requestorID r, subArray r']"
    if m: "addressMapping single_rank ds r = ok r'" and l: "length (addressMap r) = 4" for r r'
  proof -
    from decode_loop_correct [of "rev ds" "ucast (address r)" r] assms(3) m obtain q where
      q: "r' = finish_map (privatize single_rank q)" "length (addressMap q) = 4"
         "requestorID q = requestorID r"
      by (auto simp: addressMapping_def l)
    from q(2) obtain a b c d where "addressMap q = [a, b, c, d]"
      by (auto simp: numeral_eq_Suc length_Suc_conv)
    then show ?thesis
      by (simp add: q(1,3) finish_map_def privatize_def single_rank_def)
  qed
  from * [OF assms(1,4)] * [OF assms(2,5)] show ?thesis by simp
qed

theorem privatized_banks_disjoint_witness:
  "\<exists>r1' r2'. addressMapping single_rank [(Row, 15), (Bank, 3)] sample_request = ok r1'
      \<and> addressMapping single_rank [(Row, 15), (Bank, 3)] (sample_request\<lparr>requestorID := 2\<rparr>) = ok r2'
      \<and> bank r1' = 5 \<and> bank r1' \<noteq> bank r2'"
proof -
  let ?ds = "[(Row, 15), (Bank, 3)]" and ?r2 = "sample_request\<lparr>requestorID := 2\<rparr>"
  have w: "widths_ok ?ds" by (simp add: widths_ok_def)
  obtain r1' r2' where r: "addressMapping single_rank ?ds sample_request = ok r1'"
      "addressMapping single_rank ?ds ?r2 = ok r2'"
    using addressMapping_total [OF w] by meson
  have "bank r1' = requestorID sample_request
      \<and> (requestorID sample_request \<noteq> requestorID ?r2 \<longrightarrow> bank r1' \<noteq> bank r2')"
    using privatized_banks_disjoint [OF r w] by (auto simp: sample_request_def)
  then show ?thesis using r by (auto simp: sample_request_def)
qed

text \<open>
  The shipped configuration string makes the decoding loop assign the elements 4 and 5 of
  the four-element array \<^verbatim>\<open>addressMap\<close>.
\<close>

lemma addressMap_written_out_of_bounds:
  "new_AddressMapping memTable ''012345'' = ok ds \<Longrightarrow> length (addressMap r) = 4 \<Longrightarrow>
     \<exists>lv w. (lv, w) \<in> set ds \<and> length (addressMap r) \<le> memOrg_index lv"
proof -
  assume ds: "new_AddressMapping memTable ''012345'' = ok ds" and "length (addressMap r) = 4"
  have "memOrg_of_index (of_char (CHR ''4'') - 48) = Some Row" by code_simp
  moreover have "list_all2 (\<lambda>c d. memOrg_of_index (of_char c - 48) = Some (fst d)) ''012345'' ds"
    using new_AddressMapping_levels [OF ds] by (rule list_all2_mono) simp
  ultimately have "4 < length ds" "fst (ds ! 4) = Row"
    by (auto simp: list_all2_conv_all_nth dest!: spec [of _ 4])
  then show ?thesis using \<open>length (addressMap r) = 4\<close>
    by (metis memOrg_index.simps(5) nth_mem order_refl prod.collapse)
qed

end
