(* ===== verification/Configuration.thy ===== *)
theory Configuration
  imports Types
begin

text \<open>
  The configuration part of \<^verbatim>\<open>src/src/MemoryController.cpp\<close>: reading the \<^verbatim>\<open>.ini\<close> file that selects
  the schedulers and the structure of the queues (\<^verbatim>\<open>readConfigFile\<close>, \<^verbatim>\<open>SetKey\<close>, \<^verbatim>\<open>convertNumber\<close>,
  \<^verbatim>\<open>isNumeric\<close>, \<^verbatim>\<open>setQueue\<close>), the number of queues it asks for (\<^verbatim>\<open>queueNumber\<close>) and the queue an
  address belongs to (\<^verbatim>\<open>decodeQueue\<close>). A file is its contents, or \<open>None\<close> if it cannot be opened.
\<close>

record mc_config =
  reqMap :: "u32 list"
  cmdMap :: "u32 list"
  writeQueueOn :: bool
  requestorReqQ :: bool
  requestorCmdQ :: bool
  configTable :: "string \<rightharpoonup> string"

text \<open>Before the file is read the vectors and the table are empty and the three flags indeterminate.\<close>

definition new_config :: "mc_config \<Rightarrow> mc_config" where
  "new_config mem = mem\<lparr>reqMap := [], cmdMap := [], configTable := Map.empty\<rparr>"

section \<open>Reading the file\<close>

definition isdigit :: "char \<Rightarrow> bool" where
  "isdigit c \<longleftrightarrow> 48 \<le> (of_char c :: nat) \<and> (of_char c :: nat) \<le> 57"

definition isNumeric :: "string \<Rightarrow> bool" where
  "isNumeric input = list_all isdigit input"

text \<open>
  \<^verbatim>\<open>ss >> intValue\<close> on a string of digits: no digit at all leaves 0, a number that does not fit
  leaves the largest value.
\<close>

fun digits_value :: "int \<Rightarrow> string \<Rightarrow> int" where
  "digits_value acc [] = acc"
| "digits_value acc (c # cs) = digits_value (10 * acc + (of_char c - 48)) cs"

definition convertNumber :: "string \<Rightarrow> u32" where
  "convertNumber input = (if isNumeric input then word_of_int (min (digits_value 0 input) (2 ^ 32 - 1)) else 0)"

definition setQueue :: "string \<Rightarrow> u32 list \<Rightarrow> u32 list" where
  "setQueue queueOrg queueMap = queueMap @ map (\<lambda>c. if c = CHR ''1'' then 1 else 0) queueOrg"

definition SetKey :: "string \<Rightarrow> string \<Rightarrow> mc_config \<Rightarrow> mc_config" where
  "SetKey key valueString c =
     (if key = ''RequestQueue'' then c\<lparr>reqMap := setQueue valueString (reqMap c)\<rparr>
      else if key = ''WriteQueue'' then c\<lparr>writeQueueOn := (convertNumber valueString \<noteq> 0)\<rparr>
      else if key = ''ReqPerREQ'' then c\<lparr>requestorReqQ := (convertNumber valueString \<noteq> 0)\<rparr>
      else if key = ''CommandQueue'' then c\<lparr>cmdMap := setQueue valueString (cmdMap c)\<rparr>
      else if key = ''CmdPerREQ'' then c\<lparr>requestorCmdQ := (convertNumber valueString \<noteq> 0)\<rparr>
      else c\<lparr>configTable := (configTable c)(key \<mapsto> valueString)\<rparr>)"

definition is_blank :: "char \<Rightarrow> bool" where
  "is_blank c \<longleftrightarrow> c = CHR '' '' \<or> c = CHR 0x09"

definition trim_end :: "string \<Rightarrow> string" where
  "trim_end s = (if \<exists>x \<in> set s. \<not> is_blank x then rev (dropWhile is_blank (rev s)) else s)"

text \<open>The body of the loop over the lines.\<close>

definition read_line :: "string \<Rightarrow> mc_config \<Rightarrow> mc_config res" where
  "read_line line c =
     (if line = [] then ok c
      else if hd line = CHR '';'' then ok c
      else let line1 = trim_end (takeWhile (\<lambda>x. x \<noteq> CHR '';'') line)
           in if CHR ''='' \<notin> set line1 then fail Abort
              else let key = takeWhile (\<lambda>x. x \<noteq> CHR ''='') line1
                   in ok (SetKey key (drop (Suc (length key)) line1) c))"

text \<open>\<^verbatim>\<open>while (!eof) getline(...)\<close>: after a final newline one more, empty, line is read.\<close>

fun split_lines :: "string \<Rightarrow> string list" where
  "split_lines [] = [[]]"
| "split_lines (x # xs) =
     (if x = CHR 0x0A then [] # split_lines xs
      else case split_lines xs of [] \<Rightarrow> [[x]] | l # ls \<Rightarrow> (x # l) # ls)"

definition readConfigFile :: "string option \<Rightarrow> mc_config \<Rightarrow> mc_config res" where
  "readConfigFile file c = (case file of None \<Rightarrow> ok c | Some txt \<Rightarrow> fold_res read_line (split_lines txt) c)"

section \<open>Queues\<close>

text \<open>
  The level the queues are organised by: the loops look for the first element equal to 1. The
  product over the levels up to it is the number of queues.
\<close>

definition queueNumber :: "u32 list \<Rightarrow> u32 list \<Rightarrow> u32 res" where
  "queueNumber memTable queueMap =
     (case first_index (\<lambda>x. x = 1) queueMap of
        None \<Rightarrow> ok 1
      | Some index \<Rightarrow> fold_res (\<lambda>n c. bind_res (nth_res memTable n) (\<lambda>m. ok (c * m))) [0..<Suc index] 1)"

definition decode_level :: "u32 list \<Rightarrow> nat \<Rightarrow> u32 \<Rightarrow> u32 res" where
  "decode_level am n level =
     bind_res (nth_res am n) (\<lambda>a.
       ok (if a > 0 then if level = 0 then a else level * a else level))"

definition decodeQueue :: "u32 list \<Rightarrow> u32 list \<Rightarrow> u32 list \<Rightarrow> u32 res" where
  "decodeQueue memTable am queueMap =
     (case first_index (\<lambda>x. x = 1) queueMap of
        None \<Rightarrow> ok 0
      | Some index \<Rightarrow>
          bind_res (nth_res am index) (\<lambda>a.
          bind_res (fold_res (decode_level am) [0..<index] 0) (\<lambda>level.
          bind_res (nth_res memTable index) (\<lambda>m. ok (a + level * m)))))"

section \<open>Round trip of the file\<close>

definition print_config :: "(string \<times> string) list \<Rightarrow> string" where
  "print_config kvs = concat (map (\<lambda>(k, v). k @ CHR ''='' # v @ [CHR 0x0A]) kvs)"

definition clean_key :: "string \<Rightarrow> bool" where
  "clean_key k \<longleftrightarrow> set k \<inter> {CHR '';'', CHR ''='', CHR 0x0A} = {}"

definition clean_value :: "string \<Rightarrow> bool" where
  "clean_value v \<longleftrightarrow> set v \<inter> {CHR '';'', CHR 0x0A} = {} \<and> (v \<noteq> [] \<longrightarrow> \<not> is_blank (last v))"

lemma split_lines_append: "CHR 0x0A \<notin> set l \<Longrightarrow> split_lines (l @ CHR 0x0A # rest) = l # split_lines rest"
  by (induction l) auto

lemma trim_end_id: "s \<noteq> [] \<Longrightarrow> \<not> is_blank (last s) \<Longrightarrow> trim_end s = s"
  by (cases s rule: rev_cases) (auto simp: trim_end_def)

lemma read_line_entry:
  assumes "clean_key k" and "clean_value v"
  shows "read_line (k @ CHR ''='' # v) c = ok (SetKey k v c)"
proof -
  define l where "l = k @ CHR ''='' # v"
  have sc: "CHR '';'' \<notin> set l" and eq: "CHR ''='' \<notin> set k"
    using assms by (auto simp: clean_key_def clean_value_def l_def)
  have ne: "l \<noteq> []" by (simp add: l_def)
  have "\<not> is_blank (last l)" using assms(2) by (auto simp: clean_value_def is_blank_def l_def)
  then have "trim_end l = l" using ne by (intro trim_end_id)
  moreover have "takeWhile (\<lambda>x. x \<noteq> CHR '';'') l = l" using sc by (auto simp: takeWhile_eq_all_conv)
  ultimately have "trim_end (takeWhile (\<lambda>x. x \<noteq> CHR '';'') l) = l" by metis
  moreover have "CHR ''='' \<in> set l" "drop (Suc (length k)) l = v" by (simp_all add: l_def)
  moreover have "takeWhile (\<lambda>x. x \<noteq> CHR ''='') l = k"
    using eq by (simp add: l_def takeWhile_tail) (auto simp: takeWhile_eq_all_conv)
  moreover have "hd l \<noteq> CHR '';''" using sc ne hd_in_set by metis
  ultimately show ?thesis using ne by (simp add: read_line_def l_def [symmetric])
qed

text \<open>
  (C31) Reading a configuration file that was written one \<^verbatim>\<open>key=value\<close> per line sets exactly these
  keys, in order: no line is lost, none is refused, and neither keys nor values are altered, as
  long as the text contains no comment character and a value does not end in a blank.
\<close>

theorem config_roundtrip:
  assumes "\<forall>(k, v) \<in> set kvs. clean_key k \<and> clean_value v"
  shows "readConfigFile (Some (print_config kvs)) c = ok (fold (\<lambda>(k, v). SetKey k v) kvs c)"
proof -
  have "fold_res read_line (split_lines (print_config kvs)) c = ok (fold (\<lambda>(k, v). SetKey k v) kvs c)"
    using assms
  proof (induction kvs arbitrary: c)
    case (Cons kv kvs)
    obtain k v where kv: "kv = (k, v)" by (cases kv)
    have "split_lines (print_config (kv # kvs)) = (k @ CHR ''='' # v) # split_lines (print_config kvs)"
      using Cons.prems split_lines_append [of "k @ CHR ''='' # v" "print_config kvs"]
      by (auto simp: kv print_config_def clean_key_def clean_value_def)
    then show ?case using Cons.IH Cons.prems by (simp add: kv read_line_entry)
  qed (simp add: print_config_def read_line_def)
  then show ?thesis by (simp add: readConfigFile_def)
qed

definition sample_config :: mc_config where
  "sample_config =
     \<lparr>reqMap = [], cmdMap = [], writeQueueOn = True, requestorReqQ = True, requestorCmdQ = True,
      configTable = Map.empty\<rparr>"

theorem config_roundtrip_witness:
  "\<exists>c. readConfigFile (Some (print_config [(''RequestQueue'', ''001''), (''ReqPerREQ'', ''0''), (''CommandScheduler'', ''FCFS'')]))
          sample_config = ok c
     \<and> reqMap c = [0, 0, 1] \<and> \<not> requestorReqQ c \<and> configTable c ''CommandScheduler'' = Some ''FCFS''"
  by (subst config_roundtrip)
    (simp_all add: clean_key_def clean_value_def is_blank_def SetKey_def setQueue_def sample_config_def
      convertNumber_def isNumeric_def isdigit_def)

section \<open>The queue of an address\<close>

text \<open>The organisation of the device: the sizes of the levels up to \<open>k\<close>, whose product fits a word.\<close>

definition levels_fit :: "u32 list \<Rightarrow> nat \<Rightarrow> bool" where
  "levels_fit t k \<longleftrightarrow> k \<le> length t \<and> (\<forall>n < k. 0 < unat (t ! n)) \<and> (\<Prod>n<k. unat (t ! n)) < 2 ^ 32"

lemma levels_fit_Suc:
  assumes "levels_fit t (Suc k)"
  shows "levels_fit t k"
proof -
  define P where "P = (\<Prod>n<k. unat (t ! n))"
  have "P * unat (t ! k) < 2 ^ 32" "0 < unat (t ! k)" using assms by (auto simp: levels_fit_def P_def)
  moreover have "P \<le> P * unat (t ! k)" using \<open>0 < unat (t ! k)\<close> by simp
  ultimately have "P < 2 ^ 32" by linarith
  then show ?thesis using assms by (simp add: levels_fit_def P_def)
qed

lemma unat_mult_fits: "unat a * unat b < 2 ^ 32 \<Longrightarrow> unat (a * b :: u32) = unat a * unat b"
  by (simp add: unat_mult_lem [THEN iffD1])

lemma queue_product:
  "levels_fit t k \<Longrightarrow> \<exists>c. fold_res (\<lambda>n c. bind_res (nth_res t n) (\<lambda>m. ok (c * m))) [0..<k] 1 = ok c
     \<and> unat (c :: u32) = (\<Prod>n<k. unat (t ! n))"
proof (induction k)
  case (Suc k)
  from Suc.IH [OF levels_fit_Suc [OF Suc.prems]] obtain c :: u32 where
    "fold_res (\<lambda>n c. bind_res (nth_res t n) (\<lambda>m. ok (c * m))) [0..<k] 1 = ok c" "unat c = (\<Prod>n<k. unat (t ! n))" by blast
  then show ?case using Suc.prems unat_mult_fits [of c "t ! k"]
    by (auto simp: fold_res_append levels_fit_def)
qed simp

lemma decode_level_bound:
  assumes "levels_fit t k" and "k \<le> length a" and "\<forall>n < k. unat (a ! n) < unat (t ! n)"
  shows "\<exists>l. fold_res (decode_level a) [0..<k] 0 = ok l \<and> unat l < (\<Prod>n<k. unat (t ! n))"
  using assms
proof (induction k)
  case (Suc k)
  from Suc obtain l where l: "fold_res (decode_level a) [0..<k] 0 = ok l" "unat l < (\<Prod>n<k. unat (t ! n))"
    using levels_fit_Suc by (metis Suc_leD less_SucI)
  define P where "P = (\<Prod>n<k. unat (t ! n))"
  have a: "unat (a ! k) < unat (t ! k)" and fit: "P * unat (t ! k) < 2 ^ 32" and lP: "unat l < P"
    using Suc.prems l(2) by (auto simp: levels_fit_def P_def)
  have "unat l * unat (a ! k) < P * unat (t ! k)" using lP a by (intro mult_strict_mono) auto
  then have "unat (l * a ! k) < P * unat (t ! k)" using unat_mult_fits [of l "a ! k"] fit by simp
  moreover have "P \<le> P * unat (t ! k)" "unat (t ! k) \<le> P * unat (t ! k)" using a lP by auto
  ultimately have "unat (if a ! k > 0 then if l = 0 then a ! k else l * a ! k else l) < P * unat (t ! k)"
    using less_le_trans [OF lP] less_le_trans [OF a] by (simp only: split: if_split) blast
  moreover have "decode_level a k l = ok (if a ! k > 0 then if l = 0 then a ! k else l * a ! k else l)"
    using Suc.prems(2) by (simp add: decode_level_def)
  ultimately show ?case using l(1) by (simp add: fold_res_append P_def)
qed simp

text \<open>
  The queue of an address exists: whenever the address lies within the organisation of the
  device and the number of queues fits a word, \<^verbatim>\<open>decodeQueue\<close> returns an index below the number of
  queues that \<^verbatim>\<open>queueNumber\<close> makes the controller create.
\<close>

theorem decode_queue_in_range:
  assumes "first_index (\<lambda>x. x = 1) qm = Some i" and "levels_fit t (Suc i)" and "i < length a"
    and "\<forall>n \<le> i. unat (a ! n) < unat (t ! n)"
  shows "\<exists>q N. decodeQueue t a qm = ok q \<and> queueNumber t qm = ok N \<and> q < N"
proof -
  obtain N where N: "queueNumber t qm = ok N" "unat N = (\<Prod>n<i. unat (t ! n)) * unat (t ! i)"
    using queue_product [OF assms(2)] assms(1) by (auto simp: queueNumber_def)
  obtain l where l: "fold_res (decode_level a) [0..<i] 0 = ok l" "unat l < (\<Prod>n<i. unat (t ! n))"
    using decode_level_bound [OF levels_fit_Suc [OF assms(2)], of a] assms(3,4) by auto
  have fit: "unat N < 2 ^ 32" by (rule unat_u32_less)
  have "Suc (unat l) * unat (t ! i) \<le> unat N" unfolding N(2) using l(2) by (intro mult_le_mono1) simp
  moreover have "unat (a ! i) < unat (t ! i)" using assms(4) by simp
  ultimately have lt: "unat (a ! i) + unat l * unat (t ! i) < unat N" by simp
  then have "unat (l * t ! i) = unat l * unat (t ! i)" using fit by (intro unat_mult_fits) simp
  then have "unat (a ! i + l * t ! i) = unat (a ! i) + unat l * unat (t ! i)"
    using lt fit by (subst unat_add_lem [THEN iffD1]) auto
  then have "a ! i + l * t ! i < N" using lt by (simp add: word_less_nat_alt)
  moreover have "decodeQueue t a qm = ok (a ! i + l * t ! i)"
    using assms(1-3) l(1) by (simp add: decodeQueue_def levels_fit_def)
  ultimately show ?thesis using N(1) by blast
qed

theorem decode_queue_in_range_witness:
  "\<exists>q N. decodeQueue [2, 1, 8, 1, 32768, 1024] [1, 0, 5, 0] [0, 0, 1] = ok q
     \<and> queueNumber [2, 1, 8, 1, 32768, 1024] [0, 0, 1] = ok N \<and> q < N"
  by (rule decode_queue_in_range [where i = "Suc (Suc 0)"])
    (simp_all add: levels_fit_def All_less_Suc lessThan_Suc less_Suc_eq_le [symmetric])


end
