(* ===== verification/Lanes.thy ===== *)
theory Lanes
  imports Types
begin

text \<open>
  The interface both queue classes offer to the schedulers, as a locale: a queue object is a
  family of first-in-first-out lanes (one per requestor, one for all, one for writes, one
  per criticality), an insertion appends its element to the one lane the element is routed
  to, and removing an element of a lane leaves every other lane alone. What a client can
  conclude about sequences of insertions and removals is proved once here and used for
  \<open>RequestQueue\<close> and \<open>CommandQueue\<close> through their interpretations.
\<close>

locale lane_queue =
  fixes inv :: "'q \<Rightarrow> bool"
    and lane :: "'q \<Rightarrow> 'k \<Rightarrow> 'a list"
    and route :: "'q \<Rightarrow> 'a \<Rightarrow> 'k"
    and insert :: "'a \<Rightarrow> 'q \<Rightarrow> 'q res"
  assumes insert_ok: "inv q \<Longrightarrow> \<exists>q'. insert x q = ok q'"
    and insert_inv: "inv q \<Longrightarrow> insert x q = ok q' \<Longrightarrow> inv q'"
    and insert_lane: "inv q \<Longrightarrow> insert x q = ok q' \<Longrightarrow>
          lane q' k = (if k = route q x then lane q k @ [x] else lane q k)"
    and insert_route: "inv q \<Longrightarrow> insert x q = ok q' \<Longrightarrow> route q' y = route q y"
begin

lemma insert_all:
  assumes "inv q"
  shows "\<exists>q'. fold_res insert xs q = ok q' \<and> inv q' \<and> (\<forall>y. route q' y = route q y)
          \<and> (\<forall>k. lane q' k = lane q k @ filter (\<lambda>x. route q x = k) xs)"
  using assms
proof (induction xs arbitrary: q)
  case Nil
  then show ?case by simp
next
  case (Cons x xs)
  from insert_ok [OF Cons.prems] obtain q1 where q1: "insert x q = ok q1" by blast
  have inv1: "inv q1" by (rule insert_inv [OF Cons.prems q1])
  have r1: "route q1 y = route q y" for y by (rule insert_route [OF Cons.prems q1])
  from Cons.IH [OF inv1] obtain q' where q': "fold_res insert xs q1 = ok q'" "inv q'"
      "\<forall>y. route q' y = route q1 y" "\<forall>k. lane q' k = lane q1 k @ filter (\<lambda>x. route q1 x = k) xs"
    by blast
  have "lane q' k = lane q k @ filter (\<lambda>x. route q x = k) (x # xs)" for k
    using q'(4) insert_lane [OF Cons.prems q1, of k] by (auto simp: r1)
  with q1 q'(1,2,3) show ?case by (simp add: r1)
qed

lemma insert_order:
  assumes "inv q" and "fold_res insert (xs @ x # ys) q = ok q'"
  shows "\<exists>pre post. lane q' (route q x) = pre @ x # post
           \<and> pre = lane q (route q x) @ filter (\<lambda>z. route q z = route q x) xs
           \<and> post = filter (\<lambda>z. route q z = route q x) ys"
  using insert_all [OF assms(1), of "xs @ x # ys"] assms(2) by auto

end

locale lane_queue_remove = lane_queue inv lane route insert
  for inv :: "'q \<Rightarrow> bool" and lane :: "'q \<Rightarrow> 'k \<Rightarrow> 'a list"
    and route :: "'q \<Rightarrow> 'a \<Rightarrow> 'k" and insert :: "'a \<Rightarrow> 'q \<Rightarrow> 'q res" +
  fixes remove :: "'k \<Rightarrow> nat \<Rightarrow> 'q \<Rightarrow> 'q res"
  assumes remove_ok: "inv q \<Longrightarrow> i < length (lane q k) \<Longrightarrow> \<exists>q'. remove k i q = ok q'"
    and remove_inv: "inv q \<Longrightarrow> i < length (lane q k) \<Longrightarrow> remove k i q = ok q' \<Longrightarrow> inv q'"
    and remove_lane: "inv q \<Longrightarrow> i < length (lane q k) \<Longrightarrow> remove k i q = ok q' \<Longrightarrow>
          lane q' j = (if j = k then erase_at i (lane q k) else lane q j)"
begin

lemma insert_then_remove_head:
  assumes "inv q" and "lane q (route q x) = []" and "insert x q = ok q1"
    and "remove (route q x) 0 q1 = ok q2"
  shows "lane q2 = lane q"
proof
  fix k
  have inv1: "inv q1" by (rule insert_inv [OF assms(1,3)])
  have l1: "lane q1 (route q x) = [x]"
    using insert_lane [OF assms(1,3), of "route q x"] assms(2) by simp
  have "lane q2 k = (if k = route q x then erase_at 0 (lane q1 (route q x)) else lane q1 k)"
    by (rule remove_lane [OF inv1 _ assms(4)]) (simp add: l1)
  then show "lane q2 k = lane q k"
    using insert_lane [OF assms(1,3), of k] assms(2) by (auto simp: l1)
qed

text \<open>Serving the front of a lane repeatedly yields its elements in insertion order.\<close>

lemma drain_prefix:
  assumes "inv q" and "n \<le> length (lane q k)"
  shows "\<exists>q'. fold_res (\<lambda>_. remove k 0) [0..<n] q = ok q' \<and> inv q' \<and> lane q' k = drop n (lane q k)"
  using assms(2)
proof (induction n)
  case 0
  with assms(1) show ?case by simp
next
  case (Suc n)
  then obtain q1 where q1: "fold_res (\<lambda>_. remove k 0) [0..<n] q = ok q1" "inv q1"
      "lane q1 k = drop n (lane q k)" by auto
  with Suc.prems have ne: "0 < length (lane q1 k)" by simp
  obtain q2 where q2: "remove k 0 q1 = ok q2" using remove_ok [OF q1(2) ne] by blast
  have "lane q2 k = erase_at 0 (lane q1 k)"
    using remove_lane [OF q1(2) ne q2, of k] by simp
  also have "\<dots> = drop (Suc n) (lane q k)"
    by (simp add: q1(3) erase_at_def)
  finally have "lane q2 k = drop (Suc n) (lane q k)" .
  moreover have "inv q2" by (rule remove_inv [OF q1(2) ne q2])
  ultimately show ?case using q1(1) q2 by (simp add: fold_res_append)
qed

end

end
