(* ===== verification/RequestQueue.thy ===== *)
theory RequestQueue
  imports Lanes
begin

text \<open>
  \<^verbatim>\<open>src/src/RequestQueue.{h,cpp}\<close>: the request buffers of the controller. Depending on its
  configuration an object keeps one general buffer or one buffer per requestor, and a
  separate write queue with two watermarks. \<open>getRequest\<close> records which request was handed
  out and \<open>removeRequest\<close> erases that one later. The theory states the class invariant,
  interprets the lane interface, and proves the functional behaviour of the operations.
\<close>

section \<open>The write queue\<close>

record write_queue =
  lowwatermark :: nat
  highwatermark :: nat
  wqueue :: "request list"

definition new_WriteQueue :: "nat \<Rightarrow> nat \<Rightarrow> write_queue" where
  "new_WriteQueue low high = \<lparr>lowwatermark = low, highwatermark = high, wqueue = []\<rparr>"

definition insertWrite :: "request \<Rightarrow> write_queue \<Rightarrow> write_queue" where
  "insertWrite r w = w\<lparr>wqueue := wqueue w @ [r]\<rparr>"

definition wq_bufferSize :: "write_queue \<Rightarrow> nat" where
  "wq_bufferSize w = length (wqueue w)"

definition highWatermark :: "write_queue \<Rightarrow> bool" where
  "highWatermark w = (if length (wqueue w) > highwatermark w then True else False)"

definition lowWatermark :: "write_queue \<Rightarrow> bool" where
  "lowWatermark w = (if length (wqueue w) < lowwatermark w then True else False)"

definition getWrite :: "nat \<Rightarrow> write_queue \<Rightarrow> request res" where
  "getWrite index w = nth_res (wqueue w) index"

definition popWrite :: "nat \<Rightarrow> write_queue \<Rightarrow> (request \<times> write_queue) res" where
  "popWrite index w =
     bind_res (nth_res (wqueue w) index) (\<lambda>temp.
     bind_res (erase_res index (wqueue w)) (\<lambda>ws. ok (temp, w\<lparr>wqueue := ws\<rparr>)))"

definition removeWrite :: "nat \<Rightarrow> write_queue \<Rightarrow> write_queue res" where
  "removeWrite index w =
     bind_res (erase_res index (wqueue w)) (\<lambda>ws. ok (w\<lparr>wqueue := ws\<rparr>))"

section \<open>The request queue\<close>

record request_queue =
  writeQueueEnable :: bool
  perRequestorEnable :: bool
  flag :: bool
  writeMode :: bool
  writeQueue :: "write_queue option"
  generalBuffer :: "request list"
  requestorBuffer :: "u32 \<rightharpoonup> request list"
  requestorOrder :: "u32 list"
  scheduledRequest :: "bool \<times> (u32 \<times> nat)"

definition setWriteMode :: "bool \<Rightarrow> request_queue \<Rightarrow> request_queue" where
  "setWriteMode b q = q\<lparr>writeMode := b\<rparr>"

definition new_RequestQueue :: "bool \<Rightarrow> bool \<Rightarrow> request_queue" where
  "new_RequestQueue perRequestor wqEnable =
     setWriteMode False
       \<lparr>writeQueueEnable = wqEnable, perRequestorEnable = perRequestor, flag = False,
        writeMode = False,
        writeQueue = (if wqEnable then Some (new_WriteQueue 4 10) else None),
        generalBuffer = [], requestorBuffer = Map.empty, requestorOrder = [],
        scheduledRequest = (False, (0, 0))\<rparr>"

definition isWriteEnable :: "request_queue \<Rightarrow> bool" where
  "isWriteEnable q = writeQueueEnable q"

definition isPerRequestor :: "request_queue \<Rightarrow> bool" where
  "isPerRequestor q = perRequestorEnable q"

definition isWriteMode :: "request_queue \<Rightarrow> bool" where
  "isWriteMode q = writeMode q"

definition with_writeQueue :: "request_queue \<Rightarrow> (write_queue \<Rightarrow> 'a res) \<Rightarrow> 'a res" where
  "with_writeQueue q f = (case writeQueue q of None \<Rightarrow> fail NullDeref | Some w \<Rightarrow> f w)"

text \<open>\<^verbatim>\<open>insertRequest\<close> always returns true, so the model returns the new queue only.\<close>

definition insertRequest :: "request \<Rightarrow> request_queue \<Rightarrow> request_queue res" where
  "insertRequest r q =
     (if writeQueueEnable q \<and> requestType r = DATA_WRITE
      then with_writeQueue q (\<lambda>w. ok (q\<lparr>writeQueue := Some (insertWrite r w)\<rparr>))
      else if perRequestorEnable q
      then let q1 = (if requestorBuffer q (requestorID r) = None
                     then q\<lparr>requestorBuffer := (requestorBuffer q)(requestorID r \<mapsto> []),
                            requestorOrder := requestorOrder q @ [requestorID r]\<rparr>
                     else q)
           in ok (q1\<lparr>requestorBuffer :=
                      (requestorBuffer q1)(requestorID r \<mapsto>
                         map_get [] (requestorBuffer q1) (requestorID r) @ [r])\<rparr>)
      else ok (q\<lparr>generalBuffer := generalBuffer q @ [r]\<rparr>))"

definition getQueueSize :: "request_queue \<Rightarrow> nat" where
  "getQueueSize q = length (requestorOrder q)"

definition getSize :: "bool \<Rightarrow> nat \<Rightarrow> request_queue \<Rightarrow> nat res" where
  "getSize requestor index q =
     (if requestor
      then if length (requestorOrder q) = 0 then ok 0
           else bind_res (nth_res (requestorOrder q) index) (\<lambda>i.
                  case requestorBuffer q i of
                    None \<Rightarrow> ok 0
                  | Some buf \<Rightarrow> ok (length buf))
      else ok (length (generalBuffer q)))"

definition generalReadBufferSize :: "request_queue \<Rightarrow> nat" where
  "generalReadBufferSize q = length (generalBuffer q)"

text \<open>
  \<^verbatim>\<open>requestorBuffer[requestorOrder[reqIndex]]\<close>: \<^verbatim>\<open>operator[]\<close> of the map inserts an empty
  buffer when the key is missing.
\<close>

definition touch :: "nat \<Rightarrow> request_queue \<Rightarrow> (u32 \<times> request list \<times> request_queue) res" where
  "touch reqIndex q =
     bind_res (nth_res (requestorOrder q) reqIndex) (\<lambda>i.
       let buf = map_get [] (requestorBuffer q) i
       in ok (i, buf, q\<lparr>requestorBuffer := (requestorBuffer q)(i \<mapsto> buf)\<rparr>))"

definition getRequest_requestor ::
  "nat \<Rightarrow> nat \<Rightarrow> request_queue \<Rightarrow> (request option \<times> request_queue) res" where
  "getRequest_requestor reqIndex index q =
     bind_res (touch reqIndex q) (\<lambda>(i, buf, q1).
       if buf = [] then ok (None, q1)
       else bind_res (nth_res buf index) (\<lambda>r.
              ok (Some r, q1\<lparr>scheduledRequest := (True, (i, index))\<rparr>)))"

definition checkRequestIndex ::
  "nat \<Rightarrow> nat \<Rightarrow> request_queue \<Rightarrow> (request option \<times> request_queue) res" where
  "checkRequestIndex reqIndex index q =
     bind_res (touch reqIndex q) (\<lambda>(i, buf, q1).
       if buf = [] then ok (None, q1)
       else bind_res (nth_res buf index) (\<lambda>r. ok (Some r, q1)))"

definition isEmpty :: "request_queue \<Rightarrow> bool" where
  "isEmpty q = (if generalBuffer q = [] then True else False)"

definition getRequest_general ::
  "nat \<Rightarrow> request_queue \<Rightarrow> (request option \<times> request_queue) res" where
  "getRequest_general index q =
     (if generalBuffer q = [] then ok (None, q)
      else bind_res (nth_res (generalBuffer q) index) (\<lambda>r.
             ok (Some r, q\<lparr>scheduledRequest := (False, (0, index))\<rparr>)))"

definition getRequestCheck :: "nat \<Rightarrow> request_queue \<Rightarrow> request option res" where
  "getRequestCheck index q =
     (if generalBuffer q = [] then ok None
      else bind_res (nth_res (generalBuffer q) index) (\<lambda>r. ok (Some r)))"

definition switchMode :: "request_queue \<Rightarrow> (bool \<times> request_queue) res" where
  "switchMode q =
     (if flag q
      then with_writeQueue q (\<lambda>w.
             if wq_bufferSize w = 0 then ok (True, q\<lparr>flag := False\<rparr>) else ok (False, q))
      else with_writeQueue q (\<lambda>w.
             if highWatermark w then ok (False, q\<lparr>flag := True\<rparr>) else ok (True, q)))"

definition writeSize :: "request_queue \<Rightarrow> nat res" where
  "writeSize q = with_writeQueue q (\<lambda>w. ok (wq_bufferSize w))"

definition scheduleWritecheck :: "request_queue \<Rightarrow> request res" where
  "scheduleWritecheck q = with_writeQueue q (getWrite 0)"

definition removeWriteRequest :: "request_queue \<Rightarrow> request_queue res" where
  "removeWriteRequest q =
     with_writeQueue q (\<lambda>w. bind_res (removeWrite 0 w) (\<lambda>w'. ok (q\<lparr>writeQueue := Some w'\<rparr>)))"

definition earliestperBankperReq :: "u32 \<Rightarrow> u32 \<Rightarrow> request_queue \<Rightarrow> request option" where
  "earliestperBankperReq p b q =
     (if generalBuffer q = [] then None
      else case List.find (\<lambda>r. bank r = b \<and> requestorID r = p) (generalBuffer q) of
             None \<Rightarrow> None
           | Some temp \<Rightarrow>
               Some (scan_less arriveTime temp
                       (filter (\<lambda>r. bank r = b \<and> requestorID r = p) (generalBuffer q))))"

definition removeRequest :: "request_queue \<Rightarrow> request_queue res" where
  "removeRequest q =
     (case scheduledRequest q of
        (requestor, (i, index)) \<Rightarrow>
          if requestor
          then bind_res (erase_res index (map_get [] (requestorBuffer q) i)) (\<lambda>buf.
                 ok (q\<lparr>requestorBuffer := (requestorBuffer q)(i \<mapsto> buf)\<rparr>))
          else bind_res (erase_res index (generalBuffer q)) (\<lambda>buf. ok (q\<lparr>generalBuffer := buf\<rparr>)))"

section \<open>The class invariant\<close>

text \<open>
  The order vector lists the keys of the buffer map without repetition, a requestor's buffer
  holds its own requests only, the general buffer and the requestor buffers are used
  exclusively, the write queue exists exactly when it is enabled and then keeps all writes.
\<close>

definition rq_inv :: "request_queue \<Rightarrow> bool" where
  "rq_inv q \<longleftrightarrow>
     distinct (requestorOrder q) \<and> set (requestorOrder q) = dom (requestorBuffer q)
   \<and> (\<forall>i buf. requestorBuffer q i = Some buf \<longrightarrow>
        (\<forall>r \<in> set buf. requestorID r = i \<and> (writeQueueEnable q \<longrightarrow> requestType r = DATA_READ)))
   \<and> (if perRequestorEnable q then generalBuffer q = [] else requestorOrder q = [])
   \<and> (writeQueueEnable q \<longleftrightarrow> writeQueue q \<noteq> None)
   \<and> (\<forall>w. writeQueue q = Some w \<longrightarrow> (\<forall>r \<in> set (wqueue w). requestType r = DATA_WRITE))
   \<and> (writeQueueEnable q \<longrightarrow> (\<forall>r \<in> set (generalBuffer q). requestType r = DATA_READ))"

lemma rq_inv_new: "rq_inv (new_RequestQueue p w)"
  by (simp add: rq_inv_def new_RequestQueue_def setWriteMode_def new_WriteQueue_def)

lemma requestType_not_write: "requestType r \<noteq> DATA_WRITE \<longleftrightarrow> requestType r = DATA_READ"
  by (cases "requestType r") simp_all

lemma insertRequest_cases:
  assumes "rq_inv q" and "insertRequest r q = ok q'"
  obtains (to_write) w where "writeQueueEnable q" "requestType r = DATA_WRITE" "writeQueue q = Some w"
      "q' = q\<lparr>writeQueue := Some (insertWrite r w)\<rparr>"
  | (new_requestor) "\<not> (writeQueueEnable q \<and> requestType r = DATA_WRITE)" "perRequestorEnable q"
      "requestorBuffer q (requestorID r) = None"
      "q' = q\<lparr>requestorBuffer := (requestorBuffer q)(requestorID r \<mapsto> [r]),
             requestorOrder := requestorOrder q @ [requestorID r]\<rparr>"
  | (requestor) buf where "\<not> (writeQueueEnable q \<and> requestType r = DATA_WRITE)"
      "perRequestorEnable q" "requestorBuffer q (requestorID r) = Some buf"
      "q' = q\<lparr>requestorBuffer := (requestorBuffer q)(requestorID r \<mapsto> buf @ [r])\<rparr>"
  | (general) "\<not> (writeQueueEnable q \<and> requestType r = DATA_WRITE)" "\<not> perRequestorEnable q"
      "q' = q\<lparr>generalBuffer := generalBuffer q @ [r]\<rparr>"
  using assms(2) unfolding insertRequest_def
  by (cases "requestorBuffer q (requestorID r)")
    (auto simp: with_writeQueue_def Let_def split: if_splits option.splits)

lemma rq_inv_insert: "rq_inv q \<Longrightarrow> insertRequest r q = ok q' \<Longrightarrow> rq_inv q'"
proof -
  assume inv: "rq_inv q" and ins: "insertRequest r q = ok q'"
  from inv ins show "rq_inv q'"
  proof (cases rule: insertRequest_cases)
    case (to_write w)
    with inv show ?thesis by (simp add: rq_inv_def insertWrite_def)
  next
    case new_requestor
    with inv have "requestorID r \<notin> set (requestorOrder q)" by (auto simp: rq_inv_def)
    with new_requestor inv show ?thesis by (auto simp: rq_inv_def requestType_not_write)
  next
    case (requestor buf)
    then have "insert (requestorID r) (dom (requestorBuffer q)) = dom (requestorBuffer q)" by auto
    with requestor inv show ?thesis by (auto simp: rq_inv_def requestType_not_write)
  next
    case general
    with inv show ?thesis by (auto simp: rq_inv_def requestType_not_write)
  qed
qed

lemma touch_inv: "rq_inv q \<Longrightarrow> touch n q = ok (i, buf, q1) \<Longrightarrow> q1 = q \<and> i \<in> set (requestorOrder q)
    \<and> buf = map_get [] (requestorBuffer q) i"
proof -
  assume inv: "rq_inv q" and t: "touch n q = ok (i, buf, q1)"
  then have i: "i \<in> set (requestorOrder q)" and buf: "buf = map_get [] (requestorBuffer q) i"
    and q1: "q1 = q\<lparr>requestorBuffer := (requestorBuffer q)(i \<mapsto> buf)\<rparr>"
    by (auto simp: touch_def res_simps Let_def)
  from i inv obtain b where "requestorBuffer q i = Some b" by (auto simp: rq_inv_def)
  with buf q1 i show ?thesis by (simp add: fun_upd_idem)
qed

lemma rq_inv_schedule [simp]: "rq_inv (q\<lparr>scheduledRequest := s\<rparr>) = rq_inv q"
  by (simp add: rq_inv_def)

lemma rq_inv_flags [simp]:
  "rq_inv (q\<lparr>flag := b\<rparr>) = rq_inv q" "rq_inv (q\<lparr>writeMode := b\<rparr>) = rq_inv q"
  by (simp_all add: rq_inv_def)

lemma getRequest_requestor_inv:
  "rq_inv q \<Longrightarrow> getRequest_requestor n i q = ok (r, q') \<Longrightarrow> rq_inv q'"
  by (auto simp: getRequest_requestor_def res_simps split: if_splits)
    (metis touch_inv, metis rq_inv_schedule touch_inv)

lemma checkRequestIndex_inv:
  "rq_inv q \<Longrightarrow> checkRequestIndex n i q = ok (r, q') \<Longrightarrow> q' = q"
  by (auto simp: checkRequestIndex_def res_simps dest: touch_inv split: if_splits)

lemma getRequest_general_inv:
  "rq_inv q \<Longrightarrow> getRequest_general i q = ok (r, q') \<Longrightarrow> rq_inv q'"
  by (auto simp: getRequest_general_def res_simps split: if_splits)

lemma switchMode_inv: "rq_inv q \<Longrightarrow> switchMode q = ok (b, q') \<Longrightarrow> rq_inv q'"
  by (auto simp: switchMode_def with_writeQueue_def split: if_splits option.splits)

lemma removeRequest_inv: "rq_inv q \<Longrightarrow> removeRequest q = ok q' \<Longrightarrow> rq_inv q'"
proof -
  assume inv: "rq_inv q" and rem: "removeRequest q = ok q'"
  obtain b i n where s: "scheduledRequest q = (b, (i, n))" by (metis surj_pair)
  show ?thesis
  proof (cases b)
    case True
    with rem s have n: "n < length (map_get [] (requestorBuffer q) i)"
      and q': "q' = q\<lparr>requestorBuffer := (requestorBuffer q)(i \<mapsto>
                       erase_at n (map_get [] (requestorBuffer q) i))\<rparr>"
      by (auto simp: removeRequest_def res_simps)
    from n obtain buf where buf: "requestorBuffer q i = Some buf"
      by (cases "requestorBuffer q i") auto
    then have "insert i (dom (requestorBuffer q)) = dom (requestorBuffer q)" by auto
    with inv buf show ?thesis
      by (auto simp: q' rq_inv_def split: if_splits)
  next
    case False
    with rem s have q': "q' = q\<lparr>generalBuffer := erase_at n (generalBuffer q)\<rparr>"
      and "n < length (generalBuffer q)"
      by (auto simp: removeRequest_def res_simps)
    with inv show ?thesis by (auto simp: rq_inv_def split: if_splits)
  qed
qed

lemma rq_inv_writeQueue:
  assumes "rq_inv q" and "writeQueue q = Some w" and "set (wqueue w') \<subseteq> set (wqueue w)"
  shows "rq_inv (q\<lparr>writeQueue := Some w'\<rparr>)"
  using assms by (auto simp: rq_inv_def)

section \<open>Reachable queues\<close>

text \<open>Every public operation that changes the object, from a fresh object on.\<close>

inductive rq_reachable :: "request_queue \<Rightarrow> bool" where
  new: "rq_reachable (new_RequestQueue p w)"
| insert: "rq_reachable q \<Longrightarrow> insertRequest r q = ok q' \<Longrightarrow> rq_reachable q'"
| get_requestor: "rq_reachable q \<Longrightarrow> getRequest_requestor n i q = ok (x, q') \<Longrightarrow> rq_reachable q'"
| check: "rq_reachable q \<Longrightarrow> checkRequestIndex n i q = ok (x, q') \<Longrightarrow> rq_reachable q'"
| get_general: "rq_reachable q \<Longrightarrow> getRequest_general i q = ok (x, q') \<Longrightarrow> rq_reachable q'"
| remove: "rq_reachable q \<Longrightarrow> removeRequest q = ok q' \<Longrightarrow> rq_reachable q'"
| removeWr: "rq_reachable q \<Longrightarrow> removeWriteRequest q = ok q' \<Longrightarrow> rq_reachable q'"
| popWr: "rq_reachable q \<Longrightarrow> writeQueue q = Some w \<Longrightarrow> popWrite i w = ok (x, w') \<Longrightarrow>
    rq_reachable (q\<lparr>writeQueue := Some w'\<rparr>)"
| switch: "rq_reachable q \<Longrightarrow> switchMode q = ok (b, q') \<Longrightarrow> rq_reachable q'"
| setMode: "rq_reachable q \<Longrightarrow> rq_reachable (setWriteMode b q)"

lemma removeWriteRequest_inv:
  assumes "rq_inv q" and "removeWriteRequest q = ok q'"
  shows "rq_inv q'"
proof -
  from assms(2) obtain w where w: "writeQueue q = Some w"
    and q': "q' = q\<lparr>writeQueue := Some (w\<lparr>wqueue := erase_at 0 (wqueue w)\<rparr>)\<rparr>"
    by (auto simp: removeWriteRequest_def removeWrite_def with_writeQueue_def res_simps
        split: option.splits)
  show ?thesis unfolding q' by (rule rq_inv_writeQueue [OF assms(1) w]) auto
qed

lemma popWrite_inv:
  assumes "rq_inv q" and "writeQueue q = Some w" and "popWrite i w = ok (x, w')"
  shows "rq_inv (q\<lparr>writeQueue := Some w'\<rparr>)"
  by (rule rq_inv_writeQueue [OF assms(1,2)]) (use assms(3) in \<open>auto simp: popWrite_def res_simps\<close>)

lemmas rq_inv_intros = rq_inv_new rq_inv_insert getRequest_requestor_inv getRequest_general_inv
  switchMode_inv removeRequest_inv removeWriteRequest_inv popWrite_inv

lemma rq_reachable_imp_inv: "rq_reachable q \<Longrightarrow> rq_inv q"
proof (induction rule: rq_reachable.induct)
  case (check q n i x q')
  then show ?case using checkRequestIndex_inv by blast
next
  case (setMode q b)
  then show ?case by (simp add: setWriteMode_def)
qed (blast intro: rq_inv_intros)+

section \<open>Lanes\<close>

datatype rlane = WriteLane | RequestorLane u32 | GeneralLane

fun rq_lane :: "request_queue \<Rightarrow> rlane \<Rightarrow> request list" where
  "rq_lane q WriteLane = (case writeQueue q of None \<Rightarrow> [] | Some w \<Rightarrow> wqueue w)"
| "rq_lane q (RequestorLane i) = map_get [] (requestorBuffer q) i"
| "rq_lane q GeneralLane = generalBuffer q"

definition rq_route :: "request_queue \<Rightarrow> request \<Rightarrow> rlane" where
  "rq_route q r =
     (if writeQueueEnable q \<and> requestType r = DATA_WRITE then WriteLane
      else if perRequestorEnable q then RequestorLane (requestorID r) else GeneralLane)"

text \<open>Taking element \<open>i\<close> of a lane the way the schedulers do: get it, then remove it.\<close>

fun rq_take :: "rlane \<Rightarrow> nat \<Rightarrow> request_queue \<Rightarrow> request_queue res" where
  "rq_take WriteLane i q =
     with_writeQueue q (\<lambda>w. bind_res (popWrite i w) (\<lambda>(x, w'). ok (q\<lparr>writeQueue := Some w'\<rparr>)))"
| "rq_take (RequestorLane k) i q =
     (case first_index (\<lambda>j. j = k) (requestorOrder q) of
        None \<Rightarrow> fail OutOfRange
      | Some n \<Rightarrow> bind_res (getRequest_requestor n i q) (\<lambda>(x, q1). removeRequest q1))"
| "rq_take GeneralLane i q = bind_res (getRequest_general i q) (\<lambda>(x, q1). removeRequest q1)"

lemma insertRequest_ok: "rq_inv q \<Longrightarrow> \<exists>q'. insertRequest r q = ok q'"
  by (auto simp: insertRequest_def with_writeQueue_def rq_inv_def Let_def split: option.splits)

lemma insertRequest_lane:
  "rq_inv q \<Longrightarrow> insertRequest r q = ok q' \<Longrightarrow>
     rq_lane q' k = (if k = rq_route q r then rq_lane q k @ [r] else rq_lane q k)"
proof -
  assume inv: "rq_inv q" and ins: "insertRequest r q = ok q'"
  from inv ins show ?thesis
    by (cases rule: insertRequest_cases; cases k; auto simp: rq_route_def insertWrite_def)
qed

lemma insertRequest_route: "rq_inv q \<Longrightarrow> insertRequest r q = ok q' \<Longrightarrow> rq_route q' x = rq_route q x"
proof -
  assume inv: "rq_inv q" and ins: "insertRequest r q = ok q'"
  from inv ins show ?thesis by (cases rule: insertRequest_cases) (simp_all add: rq_route_def)
qed

interpretation rq: lane_queue rq_inv rq_lane rq_route insertRequest
  by unfold_locales
    (simp_all add: insertRequest_ok rq_inv_insert insertRequest_lane insertRequest_route)

lemma getRequest_requestor_present:
  assumes inv: "rq_inv q" and n: "n < length (requestorOrder q)"
    and i: "i < length (map_get [] (requestorBuffer q) (requestorOrder q ! n))"
  shows "getRequest_requestor n i q =
           ok (Some (map_get [] (requestorBuffer q) (requestorOrder q ! n) ! i),
               q\<lparr>scheduledRequest := (True, (requestorOrder q ! n, i))\<rparr>)"
proof -
  from n have "requestorOrder q ! n \<in> set (requestorOrder q)" by simp
  also have "\<dots> = dom (requestorBuffer q)" using inv by (simp add: rq_inv_def)
  finally obtain buf where buf: "requestorBuffer q (requestorOrder q ! n) = Some buf" by blast
  then have "q\<lparr>requestorBuffer := (requestorBuffer q)(requestorOrder q ! n \<mapsto> buf)\<rparr> = q"
    by (simp add: fun_upd_idem)
  with buf i n show ?thesis
    by (auto simp: getRequest_requestor_def touch_def Let_def)
qed

lemma rq_take_requestor:
  assumes inv: "rq_inv q" and i: "i < length (map_get [] (requestorBuffer q) k)"
  shows "rq_take (RequestorLane k) i q =
           ok (q\<lparr>scheduledRequest := (True, (k, i)),
                 requestorBuffer := (requestorBuffer q)(k \<mapsto> erase_at i (map_get [] (requestorBuffer q) k))\<rparr>)"
proof -
  from i obtain buf where "requestorBuffer q k = Some buf"
    by (cases "requestorBuffer q k") auto
  with inv have "k \<in> set (requestorOrder q)" by (auto simp: rq_inv_def)
  then obtain n where n: "first_index (\<lambda>j. j = k) (requestorOrder q) = Some n"
    by (cases "first_index (\<lambda>j. j = k) (requestorOrder q)") (auto simp: first_index_None_iff)
  then have "n < length (requestorOrder q)" "requestorOrder q ! n = k"
    by (auto simp: first_index_Some_iff)
  with getRequest_requestor_present [OF inv, of n i] i n show ?thesis
    by (simp add: removeRequest_def)
qed

lemma rq_take_lane:
  assumes "rq_inv q" and "i < length (rq_lane q k)"
  shows "\<exists>q'. rq_take k i q = ok q' \<and> rq_inv q'
          \<and> (\<forall>j. rq_lane q' j = (if j = k then erase_at i (rq_lane q k) else rq_lane q j))"
proof (cases k)
  case WriteLane
  with assms(2) obtain w where w: "writeQueue q = Some w" "i < length (wqueue w)"
    by (auto split: option.splits)
  let ?w = "w\<lparr>wqueue := erase_at i (wqueue w)\<rparr>"
  have "rq_take k i q = ok (q\<lparr>writeQueue := Some ?w\<rparr>)"
    by (simp add: WriteLane w with_writeQueue_def popWrite_def)
  moreover have "rq_inv (q\<lparr>writeQueue := Some ?w\<rparr>)"
    by (rule rq_inv_writeQueue [OF assms(1) w(1)]) auto
  moreover have "rq_lane (q\<lparr>writeQueue := Some ?w\<rparr>) j =
      (if j = k then erase_at i (rq_lane q k) else rq_lane q j)" for j
    by (cases j) (simp_all add: WriteLane w(1))
  ultimately show ?thesis by blast
next
  case (RequestorLane r)
  with assms(2) have i: "i < length (map_get [] (requestorBuffer q) r)" by simp
  let ?q1 = "q\<lparr>scheduledRequest := (True, (r, i))\<rparr>"
  let ?q = "q\<lparr>scheduledRequest := (True, (r, i)),
     requestorBuffer := (requestorBuffer q)(r \<mapsto> erase_at i (map_get [] (requestorBuffer q) r))\<rparr>"
  have t: "rq_take k i q = ok ?q" by (simp only: RequestorLane rq_take_requestor [OF assms(1) i])
  have "removeRequest ?q1 = ok ?q" using i by (simp add: removeRequest_def)
  moreover have "rq_inv ?q1" using assms(1) by simp
  ultimately have "rq_inv ?q" by (rule removeRequest_inv [rotated])
  moreover have "rq_lane ?q j = (if j = k then erase_at i (rq_lane q k) else rq_lane q j)" for j
    by (cases j) (simp_all add: RequestorLane)
  ultimately show ?thesis using t by blast
next
  case GeneralLane
  with assms(2) have i: "i < length (generalBuffer q)" by simp
  let ?q1 = "q\<lparr>scheduledRequest := (False, (0, i))\<rparr>"
  let ?q = "q\<lparr>scheduledRequest := (False, (0, i)), generalBuffer := erase_at i (generalBuffer q)\<rparr>"
  have t: "rq_take k i q = ok ?q" using i
    by (auto simp: GeneralLane getRequest_general_def removeRequest_def)
  have "removeRequest ?q1 = ok ?q" using i by (simp add: removeRequest_def)
  moreover have "rq_inv ?q1" using assms(1) by simp
  ultimately have "rq_inv ?q" by (rule removeRequest_inv [rotated])
  moreover have "rq_lane ?q j = (if j = k then erase_at i (rq_lane q k) else rq_lane q j)" for j
    by (cases j) (simp_all add: GeneralLane)
  ultimately show ?thesis using t by blast
qed

interpretation rqr: lane_queue_remove rq_inv rq_lane rq_route insertRequest rq_take
proof unfold_locales
  fix q :: request_queue and i k q' j
  assume a: "rq_inv q" "i < length (rq_lane q k)"
  from rq_take_lane [OF a] show "\<exists>q'. rq_take k i q = ok q'" by blast
  assume "rq_take k i q = ok q'"
  with rq_take_lane [OF a]
  show "rq_inv q'" and "rq_lane q' j = (if j = k then erase_at i (rq_lane q k) else rq_lane q j)"
    by auto
qed

section \<open>Properties\<close>

text \<open>
  (C9) Whatever sequence of operations a request queue has gone through since it was
  constructed, its class invariant holds: every key of the buffer map is listed once in
  \<^verbatim>\<open>requestorOrder\<close>, buffers hold only their own requestor's requests, the general buffer and
  the requestor buffers are never both in use, and with an enabled write queue no write
  waits outside it.
\<close>

theorem request_queue_invariant: "rq_reachable q \<Longrightarrow> rq_inv q"
  by (rule rq_reachable_imp_inv)

theorem request_queue_invariant_witness:
  "\<exists>q. insertRequest sample_request (new_RequestQueue True True) = ok q
      \<and> requestorOrder q = [5] \<and> rq_inv q"
proof -
  obtain q where q: "insertRequest sample_request (new_RequestQueue True True) = ok q"
    using insertRequest_ok [OF rq_inv_new] by blast
  then have "requestorOrder q = [5]"
    by (auto simp: insertRequest_def new_RequestQueue_def setWriteMode_def Let_def sample_request_def)
  moreover have "rq_inv q"
    by (rule request_queue_invariant, rule rq_reachable.insert [OF rq_reachable.new q])
  ultimately show ?thesis using q by blast
qed

text \<open>
  A request queue is first-in first-out: inserting any sequence of requests into any
  reachable queue succeeds and appends to each buffer (the write queue, the general buffer,
  the buffer of a requestor) exactly the requests routed there, in their order of arrival.
\<close>

theorem request_queue_fifo:
  assumes "rq_reachable q"
  shows "\<exists>q'. fold_res insertRequest rs q = ok q'
           \<and> (\<forall>k. rq_lane q' k = rq_lane q k @ filter (\<lambda>r. rq_route q r = k) rs)"
  using rq.insert_all [OF rq_reachable_imp_inv [OF assms], of rs] by blast

theorem request_queue_fifo_witness:
  "\<exists>q'. fold_res insertRequest [sample_request, sample_request\<lparr>requestorID := 2\<rparr>]
            (new_RequestQueue False False) = ok q'
      \<and> rq_lane q' GeneralLane = [sample_request, sample_request\<lparr>requestorID := 2\<rparr>]"
proof -
  let ?rs = "[sample_request, sample_request\<lparr>requestorID := 2\<rparr>]"
  let ?q = "new_RequestQueue False False"
  obtain q' where q': "fold_res insertRequest ?rs ?q = ok q'"
      "\<forall>k. rq_lane q' k = rq_lane ?q k @ filter (\<lambda>r. rq_route ?q r = k) ?rs"
    using request_queue_fifo [OF rq_reachable.new [of False False], of ?rs] by blast
  have "rq_lane q' GeneralLane = ?rs"
    unfolding q'(2) [rule_format] by (simp add: rq_route_def new_RequestQueue_def setWriteMode_def)
  then show ?thesis using q'(1) by blast
qed

text \<open>
  Getting and then removing takes out exactly the request that was handed out: when
  \<^verbatim>\<open>getRequest(reqIndex, index)\<close> of a reachable queue returns a request, it is the one at
  that place in the requestor's buffer, the following \<^verbatim>\<open>removeRequest\<close> succeeds, deletes
  that position and leaves every other buffer as it was.
\<close>

theorem get_then_remove:
  assumes "rq_reachable q" and "getRequest_requestor n i q = ok (Some r, q1)"
  shows "\<exists>q2. removeRequest q1 = ok q2
           \<and> i < length (rq_lane q (RequestorLane (requestorOrder q ! n)))
           \<and> r = rq_lane q (RequestorLane (requestorOrder q ! n)) ! i
           \<and> (\<forall>k. rq_lane q2 k = (if k = RequestorLane (requestorOrder q ! n)
                                 then erase_at i (rq_lane q k) else rq_lane q k))"
proof -
  have inv: "rq_inv q" by (rule rq_reachable_imp_inv [OF assms(1)])
  let ?k = "requestorOrder q ! n"
  from assms(2) have n: "n < length (requestorOrder q)"
    and i: "i < length (map_get [] (requestorBuffer q) ?k)"
    by (auto simp: getRequest_requestor_def touch_def res_simps Let_def split: if_splits)
  from getRequest_requestor_present [OF inv n i] assms(2)
  have r: "r = map_get [] (requestorBuffer q) ?k ! i"
    and q1: "q1 = q\<lparr>scheduledRequest := (True, (?k, i))\<rparr>" by auto
  let ?q2 = "q1\<lparr>requestorBuffer := (requestorBuffer q)(?k \<mapsto> erase_at i (map_get [] (requestorBuffer q) ?k))\<rparr>"
  have "removeRequest q1 = ok ?q2" using i by (simp add: q1 removeRequest_def)
  moreover have "rq_lane ?q2 k = (if k = RequestorLane ?k then erase_at i (rq_lane q k) else rq_lane q k)" for k
    by (cases k) (simp_all add: q1)
  ultimately show ?thesis using i r by auto
qed

theorem get_then_remove_witness:
  "\<exists>q q1 q2. insertRequest sample_request (new_RequestQueue True False) = ok q
      \<and> getRequest_requestor 0 0 q = ok (Some sample_request, q1) \<and> removeRequest q1 = ok q2
      \<and> rq_lane q2 (RequestorLane 5) = []"
proof -
  let ?r = sample_request
  let ?q = "(new_RequestQueue True False)\<lparr>requestorBuffer := [5 \<mapsto> [?r]], requestorOrder := [5]\<rparr>"
  let ?q1 = "?q\<lparr>scheduledRequest := (True, (5, 0))\<rparr>"
  have q: "insertRequest ?r (new_RequestQueue True False) = ok ?q"
    by (simp add: insertRequest_def new_RequestQueue_def setWriteMode_def Let_def sample_request_def)
  have g: "getRequest_requestor 0 0 ?q = ok (Some ?r, ?q1)"
    by (simp add: getRequest_requestor_def touch_def new_RequestQueue_def setWriteMode_def Let_def)
  obtain q2 where q2: "removeRequest ?q1 = ok q2"
      "\<forall>k. rq_lane q2 k = (if k = RequestorLane (requestorOrder ?q ! 0)
                          then erase_at 0 (rq_lane ?q k) else rq_lane ?q k)"
    using get_then_remove [OF rq_reachable.insert [OF rq_reachable.new q] g] by blast
  have "rq_lane q2 (RequestorLane 5) = []"
    unfolding q2(2) [rule_format] by (simp add: new_RequestQueue_def setWriteMode_def)
  then show ?thesis using q g q2(1) by blast
qed

text \<open>
  \<^verbatim>\<open>earliestperBankperReq(p, b)\<close> finds the oldest request of requestor \<open>p\<close> for bank \<open>b\<close>:
  it returns nothing exactly when the general buffer has no such request, and otherwise a
  request of the buffer for that bank and requestor that no other one of them arrived before.
\<close>

theorem earliest_per_bank_correct:
  "(earliestperBankperReq p b q = None \<longleftrightarrow>
      (\<forall>r \<in> set (generalBuffer q). \<not> (bank r = b \<and> requestorID r = p)))
   \<and> (\<forall>r. earliestperBankperReq p b q = Some r \<longrightarrow>
        r \<in> set (generalBuffer q) \<and> bank r = b \<and> requestorID r = p
      \<and> (\<forall>x \<in> set (generalBuffer q). bank x = b \<and> requestorID x = p \<longrightarrow> arriveTime r \<le> arriveTime x))"
proof -
  let ?P = "\<lambda>r. bank r = b \<and> requestorID r = p"
  have "earliestperBankperReq p b q = None \<longleftrightarrow> (\<forall>r \<in> set (generalBuffer q). \<not> ?P r)"
    by (auto simp: earliestperBankperReq_def find_None_iff find_Some_iff split: option.splits
        dest: nth_mem)
  moreover {
    fix r assume "earliestperBankperReq p b q = Some r"
    then obtain t where t: "List.find ?P (generalBuffer q) = Some t"
      and r: "r = scan_less arriveTime t (filter ?P (generalBuffer q))"
      by (auto simp: earliestperBankperReq_def split: if_splits option.splits)
    from t have "t \<in> set (filter ?P (generalBuffer q))" by (auto simp: find_Some_iff)
    then have ins: "insert t (set (filter ?P (generalBuffer q))) = set (filter ?P (generalBuffer q))"
      by auto
    have "r \<in> set (filter ?P (generalBuffer q))"
      using scan_less_in [of arriveTime t "filter ?P (generalBuffer q)"] unfolding r ins .
    moreover have "arriveTime r \<le> arriveTime x" if "x \<in> set (filter ?P (generalBuffer q))" for x
      using scan_less_min [of x t "filter ?P (generalBuffer q)" arriveTime] that unfolding r ins by blast
    ultimately have "r \<in> set (generalBuffer q) \<and> ?P r
        \<and> (\<forall>x \<in> set (generalBuffer q). ?P x \<longrightarrow> arriveTime r \<le> arriveTime x)" by auto
  }
  ultimately show ?thesis by blast
qed

theorem earliest_per_bank_correct_witness:
  "earliestperBankperReq 5 0 ((new_RequestQueue False False)\<lparr>generalBuffer :=
      [sample_request\<lparr>arriveTime := 9\<rparr>, sample_request]\<rparr>) \<noteq> None"
  using earliest_per_bank_correct [of 5 0 "(new_RequestQueue False False)\<lparr>generalBuffer :=
      [sample_request\<lparr>arriveTime := 9\<rparr>, sample_request]\<rparr>"]
  by (simp add: sample_request_def)

text \<open>
  The write-drain decision has hysteresis: \<^verbatim>\<open>switchMode\<close> reports \<^verbatim>\<open>false\<close> (serve writes)
  from the call that finds more than \<^verbatim>\<open>highwatermark\<close> writes buffered until the call that finds
  the write queue empty, and \<^verbatim>\<open>true\<close> otherwise; its only effect is on \<^verbatim>\<open>flag\<close>, which always
  equals the negation of the answer.
\<close>

theorem switch_mode_hysteresis:
  assumes "writeQueue q = Some w"
  shows "\<exists>b. switchMode q = ok (b, q\<lparr>flag := \<not> b\<rparr>)
           \<and> (b \<longleftrightarrow> (if flag q then wqueue w = [] else length (wqueue w) \<le> highwatermark w))"
  using assms
  by (cases q) (auto simp: switchMode_def with_writeQueue_def wq_bufferSize_def highWatermark_def)

theorem switch_mode_hysteresis_witness:
  "\<exists>b. switchMode (new_RequestQueue False True) = ok (b, (new_RequestQueue False True)\<lparr>flag := \<not> b\<rparr>) \<and> b"
  using switch_mode_hysteresis [of "new_RequestQueue False True" "new_WriteQueue 4 10"]
  by (auto simp: new_RequestQueue_def setWriteMode_def new_WriteQueue_def)

end
