(* ===== verification/CommandQueue.thy ===== *)
theory CommandQueue
  imports Lanes
begin

text \<open>
  \<^verbatim>\<open>src/src/CommandQueue.{h,cpp}\<close>: the buffers between command generation and command
  scheduling, either one per requestor or one each for critical (\<^verbatim>\<open>hrtBuffer\<close>) and other
  (\<^verbatim>\<open>srtBuffer\<close>) commands. \<open>getCommand\<close> records which of the two was read last and the
  parameterless \<open>removeCommand\<close> pops that one. A \<^verbatim>\<open>uint64_t\<close> requestor number is converted
  to \<^verbatim>\<open>unsigned int\<close> when it is used as a key, which the model writes as \<open>ucast\<close>.
\<close>

record command_queue =
  perRequestorCmd :: bool
  scheduledQueue :: bool
  requestorQueue :: bool
  requestorIndex :: u32
  requestorMap :: "u32 list"
  requestorCmds :: "u32 \<rightharpoonup> packet list"
  hrtBuffer :: "packet list"
  srtBuffer :: "packet list"

definition new_CommandQueue :: "bool \<Rightarrow> command_queue" where
  "new_CommandQueue perRequestor =
     \<lparr>perRequestorCmd = perRequestor, scheduledQueue = True, requestorQueue = False,
      requestorIndex = 0, requestorMap = [], requestorCmds = Map.empty,
      hrtBuffer = [], srtBuffer = []\<rparr>"

definition cq_isPerRequestor :: "command_queue \<Rightarrow> bool" where
  "cq_isPerRequestor q = perRequestorCmd q"

definition getRequestorIndex :: "command_queue \<Rightarrow> nat" where
  "getRequestorIndex q = length (requestorMap q)"

text \<open>
  The guard of the source lets \<^verbatim>\<open>index == requestorMap.size()\<close> through; the access
  \<^verbatim>\<open>requestorMap[index]\<close> behind it is then out of range.
\<close>

definition getRequestorSize :: "nat \<Rightarrow> command_queue \<Rightarrow> nat res" where
  "getRequestorSize index q =
     (if index > length (requestorMap q) then fail Abort
      else bind_res (nth_res (requestorMap q) index) (\<lambda>i.
             ok (length (map_get [] (requestorCmds q) i))))"

definition cq_getSize :: "bool \<Rightarrow> command_queue \<Rightarrow> nat" where
  "cq_getSize critical q = (if critical then length (hrtBuffer q) else length (srtBuffer q))"

definition insertCommand :: "packet \<Rightarrow> bool \<Rightarrow> command_queue \<Rightarrow> command_queue" where
  "insertCommand command critical q =
     (let k = (ucast (pRequestorID command) :: u32)
      in if perRequestorCmd q
         then let q1 = (if requestorCmds q k = None
                        then q\<lparr>requestorCmds := (requestorCmds q)(k \<mapsto> []),
                               requestorMap := requestorMap q @ [k]\<rparr>
                        else q)
              in q1\<lparr>requestorCmds := (requestorCmds q1)(k \<mapsto> map_get [] (requestorCmds q1) k @ [command])\<rparr>
         else if critical then q\<lparr>hrtBuffer := hrtBuffer q @ [command]\<rparr>
         else q\<lparr>srtBuffer := srtBuffer q @ [command]\<rparr>)"

definition cq_getCommand :: "bool \<Rightarrow> command_queue \<Rightarrow> (packet \<times> command_queue) res" where
  "cq_getCommand critical q =
     (let q1 = q\<lparr>scheduledQueue := critical\<rparr>
      in if critical \<and> hrtBuffer q1 \<noteq> [] then ok (hd (hrtBuffer q1), q1)
         else if \<not> critical \<and> srtBuffer q1 \<noteq> [] then ok (hd (srtBuffer q1), q1)
         else fail Abort)"

definition cq_checkCommand :: "bool \<Rightarrow> nat \<Rightarrow> command_queue \<Rightarrow> packet res" where
  "cq_checkCommand critical index q =
     (if critical \<and> hrtBuffer q \<noteq> [] then nth_res (hrtBuffer q) index
      else if \<not> critical \<and> srtBuffer q \<noteq> [] then nth_res (srtBuffer q) index
      else fail Abort)"

definition getRequestorCommand :: "nat \<Rightarrow> command_queue \<Rightarrow> packet res" where
  "getRequestorCommand index q =
     bind_res (nth_res (requestorMap q) index) (\<lambda>i. nth_res (map_get [] (requestorCmds q) i) 0)"

definition removeCommand_requestor :: "u64 \<Rightarrow> command_queue \<Rightarrow> command_queue res" where
  "removeCommand_requestor i q =
     (let k = (ucast i :: u32)
      in bind_res (erase_res 0 (map_get [] (requestorCmds q) k)) (\<lambda>buf.
           ok (q\<lparr>requestorCmds := (requestorCmds q)(k \<mapsto> buf)\<rparr>)))"

definition removeCommand :: "command_queue \<Rightarrow> command_queue res" where
  "removeCommand q =
     (if scheduledQueue q = True
      then bind_res (erase_res 0 (hrtBuffer q)) (\<lambda>b. ok (q\<lparr>hrtBuffer := b\<rparr>))
      else bind_res (erase_res 0 (srtBuffer q)) (\<lambda>b. ok (q\<lparr>srtBuffer := b\<rparr>)))"

section \<open>The class invariant\<close>

definition cq_inv :: "command_queue \<Rightarrow> bool" where
  "cq_inv q \<longleftrightarrow>
     distinct (requestorMap q) \<and> dom (requestorCmds q) = set (requestorMap q)
   \<and> (\<forall>k buf. requestorCmds q k = Some buf \<longrightarrow> (\<forall>p \<in> set buf. ucast (pRequestorID p) = k))
   \<and> (if perRequestorCmd q then hrtBuffer q = [] \<and> srtBuffer q = [] else requestorMap q = [])"

lemma cq_inv_new: "cq_inv (new_CommandQueue p)"
  by (simp add: cq_inv_def new_CommandQueue_def)

lemma insertCommand_cases:
  obtains (new_requestor) "perRequestorCmd q" "requestorCmds q (ucast (pRequestorID p)) = None"
      "insertCommand p c q = q\<lparr>requestorCmds := (requestorCmds q)(ucast (pRequestorID p) \<mapsto> [p]),
             requestorMap := requestorMap q @ [ucast (pRequestorID p)]\<rparr>"
  | (requestor) buf where "perRequestorCmd q" "requestorCmds q (ucast (pRequestorID p)) = Some buf"
      "insertCommand p c q = q\<lparr>requestorCmds := (requestorCmds q)(ucast (pRequestorID p) \<mapsto> buf @ [p])\<rparr>"
  | (hrt) "\<not> perRequestorCmd q" "c" "insertCommand p c q = q\<lparr>hrtBuffer := hrtBuffer q @ [p]\<rparr>"
  | (srt) "\<not> perRequestorCmd q" "\<not> c" "insertCommand p c q = q\<lparr>srtBuffer := srtBuffer q @ [p]\<rparr>"
  unfolding insertCommand_def
  by (cases "requestorCmds q (ucast (pRequestorID p))") (auto simp: Let_def split: if_splits)

lemma cq_inv_insert: "cq_inv q \<Longrightarrow> cq_inv (insertCommand p c q)"
proof -
  assume inv: "cq_inv q"
  show ?thesis
  proof (cases rule: insertCommand_cases [of q p c])
    case new_requestor
    with inv have "(ucast (pRequestorID p) :: u32) \<notin> set (requestorMap q)"
      by (auto simp: cq_inv_def)
    with new_requestor inv show ?thesis by (auto simp: cq_inv_def)
  next
    case (requestor buf)
    then have "insert (ucast (pRequestorID p)) (dom (requestorCmds q)) = dom (requestorCmds q)"
      by blast
    with requestor inv show ?thesis by (auto simp: cq_inv_def)
  qed (use inv in \<open>simp_all add: cq_inv_def\<close>)
qed

lemma cq_inv_scheduledQueue [simp]: "cq_inv (q\<lparr>scheduledQueue := b\<rparr>) = cq_inv q"
  by (simp add: cq_inv_def)

lemma cq_getCommand_cases:
  assumes "cq_getCommand c q = ok (p, q')"
  shows "q' = q\<lparr>scheduledQueue := c\<rparr>"
    and "(if c then hrtBuffer q else srtBuffer q) \<noteq> []"
    and "p = hd (if c then hrtBuffer q else srtBuffer q)"
  using assms by (auto simp: cq_getCommand_def Let_def split: if_splits)

lemma cq_getCommand_inv: "cq_inv q \<Longrightarrow> cq_getCommand c q = ok (p, q') \<Longrightarrow> cq_inv q'"
  using cq_getCommand_cases(1) by fastforce

lemma removeCommand_requestor_inv:
  assumes "cq_inv q" and "removeCommand_requestor i q = ok q'"
  shows "cq_inv q'"
proof -
  let ?k = "ucast i :: u32"
  from assms(2) have ne: "map_get [] (requestorCmds q) ?k \<noteq> []"
    and q': "q' = q\<lparr>requestorCmds := (requestorCmds q)(?k \<mapsto> erase_at 0 (map_get [] (requestorCmds q) ?k))\<rparr>"
    by (auto simp: removeCommand_requestor_def Let_def res_simps)
  from ne obtain buf where buf: "requestorCmds q ?k = Some buf"
    by (cases "requestorCmds q ?k") auto
  then have "insert ?k (dom (requestorCmds q)) = dom (requestorCmds q)" by auto
  with assms(1) buf show ?thesis by (auto simp: q' cq_inv_def split: if_splits)
qed

lemma removeCommand_inv: "cq_inv q \<Longrightarrow> removeCommand q = ok q' \<Longrightarrow> cq_inv q'"
  by (auto simp: removeCommand_def res_simps cq_inv_def split: if_splits)

inductive cq_reachable :: "command_queue \<Rightarrow> bool" where
  new: "cq_reachable (new_CommandQueue p)"
| insert: "cq_reachable q \<Longrightarrow> cq_reachable (insertCommand p c q)"
| get: "cq_reachable q \<Longrightarrow> cq_getCommand c q = ok (p, q') \<Longrightarrow> cq_reachable q'"
| remove_requestor: "cq_reachable q \<Longrightarrow> removeCommand_requestor i q = ok q' \<Longrightarrow> cq_reachable q'"
| remove: "cq_reachable q \<Longrightarrow> removeCommand q = ok q' \<Longrightarrow> cq_reachable q'"

lemma cq_reachable_imp_inv: "cq_reachable q \<Longrightarrow> cq_inv q"
  by (induction rule: cq_reachable.induct)
    (blast intro: cq_inv_new cq_inv_insert cq_getCommand_inv removeCommand_requestor_inv removeCommand_inv)+

section \<open>Lanes\<close>

datatype clane = CmdLane u32 | HrtLane | SrtLane

fun cq_lane :: "command_queue \<Rightarrow> clane \<Rightarrow> packet list" where
  "cq_lane q (CmdLane k) = map_get [] (requestorCmds q) k"
| "cq_lane q HrtLane = hrtBuffer q"
| "cq_lane q SrtLane = srtBuffer q"

text \<open>The criticality of a command is looked up by its requestor.\<close>

definition cq_route :: "(u32 \<Rightarrow> bool) \<Rightarrow> command_queue \<Rightarrow> packet \<Rightarrow> clane" where
  "cq_route crit q p =
     (if perRequestorCmd q then CmdLane (ucast (pRequestorID p))
      else if crit (ucast (pRequestorID p)) then HrtLane else SrtLane)"

definition cq_insert :: "(u32 \<Rightarrow> bool) \<Rightarrow> packet \<Rightarrow> command_queue \<Rightarrow> command_queue res" where
  "cq_insert crit p q = ok (insertCommand p (crit (ucast (pRequestorID p))) q)"

lemma cq_insert_lane:
  "cq_lane (insertCommand p (crit (ucast (pRequestorID p))) q) k =
     (if k = cq_route crit q p then cq_lane q k @ [p] else cq_lane q k)"
  by (cases rule: insertCommand_cases [of q p "crit (ucast (pRequestorID p))"]; cases k)
    (auto simp: cq_route_def)

lemma cq_insert_route: "cq_route crit (insertCommand p c q) x = cq_route crit q x"
  by (cases rule: insertCommand_cases [of q p c]) (simp_all add: cq_route_def)

interpretation cq: lane_queue cq_inv cq_lane "cq_route crit" "cq_insert crit" for crit
  by unfold_locales (auto simp: cq_insert_def cq_inv_insert cq_insert_lane cq_insert_route)

text \<open>Popping the head of a lane the way the command schedulers do.\<close>

fun cq_pop :: "clane \<Rightarrow> command_queue \<Rightarrow> command_queue res" where
  "cq_pop (CmdLane k) q = removeCommand_requestor (ucast k) q"
| "cq_pop HrtLane q = bind_res (cq_getCommand True q) (\<lambda>(p, q1). removeCommand q1)"
| "cq_pop SrtLane q = bind_res (cq_getCommand False q) (\<lambda>(p, q1). removeCommand q1)"

lemma ucast_up_down: "ucast (ucast (k :: u32) :: u64) = k"
  by (rule bit_eqI) (auto simp: bit_simps)

lemma cq_pop_lane:
  assumes "cq_inv q" and "cq_lane q k \<noteq> []"
  shows "\<exists>q'. cq_pop k q = ok q' \<and> cq_inv q'
          \<and> (\<forall>j. cq_lane q' j = (if j = k then tl (cq_lane q k) else cq_lane q j))"
proof -
  have "\<exists>q'. cq_pop k q = ok q'
          \<and> (\<forall>j. cq_lane q' j = (if j = k then tl (cq_lane q k) else cq_lane q j))"
  proof (cases k)
    case (CmdLane i)
    let ?q = "q\<lparr>requestorCmds := (requestorCmds q)(i \<mapsto> erase_at 0 (map_get [] (requestorCmds q) i))\<rparr>"
    from CmdLane assms(2) have ne: "map_get [] (requestorCmds q) i \<noteq> []" by simp
    then have "cq_pop k q = ok ?q"
      by (simp add: CmdLane removeCommand_requestor_def ucast_up_down Let_def)
    moreover have "cq_lane ?q j = (if j = k then tl (cq_lane q k) else cq_lane q j)" for j
      by (cases j) (auto simp: CmdLane erase_at_def drop_Suc)
    ultimately show ?thesis by blast
  next
    case HrtLane
    let ?q = "q\<lparr>scheduledQueue := True, hrtBuffer := erase_at 0 (hrtBuffer q)\<rparr>"
    from HrtLane assms(2) have "cq_pop k q = ok ?q"
      by (simp add: cq_getCommand_def removeCommand_def Let_def)
    moreover have "cq_lane ?q j = (if j = k then tl (cq_lane q k) else cq_lane q j)" for j
      by (cases j) (auto simp: HrtLane erase_at_def drop_Suc)
    ultimately show ?thesis by blast
  next
    case SrtLane
    let ?q = "q\<lparr>scheduledQueue := False, srtBuffer := erase_at 0 (srtBuffer q)\<rparr>"
    from SrtLane assms(2) have "cq_pop k q = ok ?q"
      by (simp add: cq_getCommand_def removeCommand_def Let_def)
    moreover have "cq_lane ?q j = (if j = k then tl (cq_lane q k) else cq_lane q j)" for j
      by (cases j) (auto simp: SrtLane erase_at_def drop_Suc)
    ultimately show ?thesis by blast
  qed
  moreover have "cq_inv q'" if "cq_pop k q = ok q'" for q'
    using that assms(1)
    by (cases k) (auto simp: res_simps intro: removeCommand_requestor_inv removeCommand_inv
        dest: cq_getCommand_inv)
  ultimately show ?thesis by blast
qed

section \<open>Properties\<close>

text \<open>
  Commands keep their order: inserting any sequence of commands into a reachable command
  queue appends to each buffer exactly the commands routed there (by requestor, or by the
  criticality of the requestor), in order; and popping a non-empty buffer removes its oldest
  command and nothing else.
\<close>

theorem command_queue_fifo:
  assumes "cq_reachable q"
  shows "\<exists>q'. fold_res (cq_insert crit) ps q = ok q' \<and> cq_inv q'
           \<and> (\<forall>k. cq_lane q' k = cq_lane q k @ filter (\<lambda>p. cq_route crit q p = k) ps)
           \<and> (\<forall>k. cq_lane q' k \<noteq> [] \<longrightarrow> (\<exists>q''. cq_pop k q' = ok q''
                \<and> (\<forall>j. cq_lane q'' j = (if j = k then tl (cq_lane q' k) else cq_lane q' j))))"
proof -
  from cq.insert_all [OF cq_reachable_imp_inv [OF assms], of crit ps] obtain q' where
    q': "fold_res (cq_insert crit) ps q = ok q'" "cq_inv q'"
      "\<forall>k. cq_lane q' k = cq_lane q k @ filter (\<lambda>p. cq_route crit q p = k) ps" by blast
  then show ?thesis using cq_pop_lane [OF q'(2)] by blast
qed

definition sample_packet :: packet where
  "sample_packet = new_BusPacket ACT 5 0xABCDEF 3 17 2 0 0 0 1"

theorem command_queue_fifo_witness:
  "\<exists>q'. fold_res (cq_insert (\<lambda>_. True)) [sample_packet, sample_packet\<lparr>busPacketType := RD\<rparr>]
          (new_CommandQueue False) = ok q'
      \<and> cq_lane q' HrtLane = [sample_packet, sample_packet\<lparr>busPacketType := RD\<rparr>]"
proof -
  let ?ps = "[sample_packet, sample_packet\<lparr>busPacketType := RD\<rparr>]"
  let ?q = "new_CommandQueue False"
  obtain q' where q': "fold_res (cq_insert (\<lambda>_. True)) ?ps ?q = ok q'"
      "\<forall>k. cq_lane q' k = cq_lane ?q k @ filter (\<lambda>p. cq_route (\<lambda>_. True) ?q p = k) ?ps"
    using command_queue_fifo [OF cq_reachable.new [of False], of "\<lambda>_. True" ?ps] by blast
  have "cq_lane q' HrtLane = ?ps"
    unfolding q'(2) [rule_format] by (simp add: cq_route_def new_CommandQueue_def)
  then show ?thesis using q'(1) by blast
qed

text \<open>
  The bounds check of \<^verbatim>\<open>getRequestorSize\<close> is off by one: it aborts only above the number
  of requestors, so the index equal to it is read outside \<^verbatim>\<open>requestorMap\<close>; below it the
  call returns the length of that requestor's buffer.
\<close>

theorem getRequestorSize_bounds:
  "getRequestorSize i q =
     (if i < length (requestorMap q) then ok (length (cq_lane q (CmdLane (requestorMap q ! i))))
      else if i = length (requestorMap q) then fail OutOfRange else fail Abort)"
  by (auto simp: getRequestorSize_def nth_res_def)

end
