(* ===== verification/CommandGenerator.thy ===== *)
theory CommandGenerator
  imports Types
begin

text \<open>
  \<^verbatim>\<open>src/src/CommandGenerator.{h,cpp}\<close> and its subclasses (open page, close page, Round, MCMC,
  PipeCAS): a request is cracked into DRAM commands, which are appended to a buffer. The
  virtual method \<open>commandGenerate\<close> is the dispatch over the datatype of generators. The
  interface \<open>command_generator\<close> states what every generator promises to the schedulers, and a
  row-buffer protocol (a bank must be opened before it is accessed and closed before it is
  opened again) is the specification the command sequences are measured against.
\<close>

record cmd_gen =
  dataBusSize :: u32
  first :: "bool list"
  lookupTable :: "u32 \<rightharpoonup> nat \<times> nat"
  commandBuffer :: "packet list"

definition new_CommandGenerator :: "u32 \<Rightarrow> cmd_gen" where
  "new_CommandGenerator dataBus =
     \<lparr>dataBusSize = dataBus, first = replicate 8 True, lookupTable = Map.empty, commandBuffer = []\<rparr>"

definition getCommand :: "cmd_gen \<Rightarrow> packet res" where
  "getCommand g = nth_res (commandBuffer g) 0"

definition gen_removeCommand :: "cmd_gen \<Rightarrow> cmd_gen res" where
  "gen_removeCommand g = bind_res (erase_res 0 (commandBuffer g)) (\<lambda>b. ok (g\<lparr>commandBuffer := b\<rparr>))"

definition bufferSize :: "cmd_gen \<Rightarrow> nat" where
  "bufferSize g = length (commandBuffer g)"

definition push :: "packet list \<Rightarrow> cmd_gen \<Rightarrow> cmd_gen" where
  "push ps g = g\<lparr>commandBuffer := commandBuffer g @ ps\<rparr>"

definition div_res :: "u32 \<Rightarrow> u32 \<Rightarrow> u32 res" where
  "div_res a b = (if b = 0 then fail DivByZero else ok (a div b))"

section \<open>The generators\<close>

subsection \<open>Open page\<close>

definition commandGenerate_Open :: "request \<Rightarrow> bool \<Rightarrow> cmd_gen \<Rightarrow> (bool \<times> cmd_gen) res" where
  "commandGenerate_Open r opn g =
     (let CAS = (if requestType r = DATA_WRITE then WR else RD);
          packet = (\<lambda>t c d. new_BusPacket t (ucast (requestorID r)) (address r) c (row r) (bank r)
                             (rank r) (subArray r) d 0)
      in bind_res (div_res (requestSize r) (dataBusSize g)) (\<lambda>size.
         bind_res
           (if opn then ok g
            else bind_res (nth_res (first g) (unat (bank r))) (\<lambda>fst.
                   if \<not> fst then ok (push [packet PRE (col r) 0, packet ACT (col r) 0] g)
                   else ok ((push [packet ACT (col r) 0] g)\<lparr>first := (first g)[unat (bank r) := False]\<rparr>)))
           (\<lambda>g1. ok (True, push (map (\<lambda>x. packet CAS (col r + of_nat x) (data r)) [0..<unat size]) g1))))"

subsection \<open>Close page\<close>

definition new_CommandGenerator_Close :: "u32 \<Rightarrow> cmd_gen" where
  "new_CommandGenerator_Close dataBus =
     (new_CommandGenerator dataBus)\<lparr>lookupTable :=
        [dataBus \<mapsto> (1, 1), dataBus * 2 \<mapsto> (2, 1), dataBus * 4 \<mapsto> (4, 1),
         dataBus * 8 \<mapsto> (8, 1), dataBus * 16 \<mapsto> (8, 2)]\<rparr>"

text \<open>
  The subscript \<^verbatim>\<open>lookupTable[requestSize]\<close> of the loop condition inserts \<open>(0, 0)\<close> for a size
  the table does not have, and then no command is generated.
\<close>

definition commandGenerate_Close :: "request \<Rightarrow> bool \<Rightarrow> cmd_gen \<Rightarrow> (bool \<times> cmd_gen) res" where
  "commandGenerate_Close r opn g =
     (let CAS = (if requestType r = DATA_WRITE then WRA else RDA);
          packet = (\<lambda>t b d. new_BusPacket t (ucast (requestorID r)) (address r) (col r) (row r) b
                             (rank r) (subArray r) d 0);
          (interleave, count) = map_get (0, 0) (lookupTable g) (requestSize r);
          g1 = g\<lparr>lookupTable := (lookupTable g)(requestSize r \<mapsto> (interleave, count))\<rparr>
      in ok (True, push (concat (map (\<lambda>bi.
             let b = (bank r + of_nat bi) mod 16
             in concat (map (\<lambda>bc. [packet ACT b 0, packet CAS b (data r)]) [0..<count]))
           [0..<interleave])) g1))"

subsection \<open>Round\<close>

definition commandGenerate_Round :: "request \<Rightarrow> bool \<Rightarrow> cmd_gen \<Rightarrow> (bool \<times> cmd_gen) res" where
  "commandGenerate_Round r opn g =
     (let actdefine = (if requestType r = DATA_WRITE then 1 else 0 :: int);
          CAS = (if requestType r = DATA_WRITE then WR else RD);
          ACTx = (if actdefine = 0 then ACT_R else ACT_W);
          packet = (\<lambda>t c d. new_BusPacket t (ucast (requestorID r)) (address r) c (row r) (bank r) 0 0 d 0)
      in bind_res (div_res (requestSize r) (dataBusSize g)) (\<lambda>size.
         bind_res
           (if opn then ok g
            else bind_res (nth_res (first g) (unat (bank r))) (\<lambda>fst.
                   if \<not> fst then ok (push [packet PRE 0 0, packet ACTx 0 0] g)
                   else ok ((push [packet ACTx 0 0] g)\<lparr>first := (first g)[unat (bank r) := False]\<rparr>)))
           (\<lambda>g1. ok (True, push (map (\<lambda>x. packet CAS (col r + size) (data r)) [0..<unat size]) g1))))"

subsection \<open>MCMC\<close>

definition new_CommandGenerator_MCMC :: "u32 \<Rightarrow> cmd_gen" where
  "new_CommandGenerator_MCMC dataBus =
     (new_CommandGenerator dataBus)\<lparr>lookupTable :=
        [dataBus \<mapsto> (1, 1), dataBus * 2 \<mapsto> (2, 1), dataBus * 4 \<mapsto> (4, 1)]\<rparr>"

definition commandGenerate_MCMC :: "request \<Rightarrow> bool \<Rightarrow> cmd_gen \<Rightarrow> (bool \<times> cmd_gen) res" where
  "commandGenerate_MCMC r opn g =
     (let CAS = (if requestType r = DATA_WRITE then WRA else RDA);
          packet = (\<lambda>t b d. new_BusPacket t (ucast (requestorID r)) (address r) (col r) (row r) b (rank r) 0 d 0);
          act = (\<lambda>i. packet ACT (bank r + i) 0);
          cas = (\<lambda>i. (packet CAS (bank r + i) (data r))\<lparr>postCommand := True\<rparr>)
      in bind_res (div_res (requestSize r) (dataBusSize g)) (\<lambda>size.
         if size \<le> 4
         then if size = 1 then ok (True, push [act 0, cas 0] g)
              else if size = 2 then ok (True, push [act 0, act 1, cas 0, cas 1] g)
              else if size = 4
                   then ok (True, push [act 0, act 1, cas 0, act 2, cas 1, act 3, cas 2, cas 3] g)
              else fail Abort
         else fail Abort))"

subsection \<open>PipeCAS\<close>

definition at_res :: "('k \<rightharpoonup> 'v) \<Rightarrow> 'k \<Rightarrow> 'v res" where
  "at_res m k = (case m k of None \<Rightarrow> fail OutOfRange | Some v \<Rightarrow> ok v)"

definition commandGenerate_PipeCAS ::
  "(u32 \<rightharpoonup> bool) \<Rightarrow> request \<Rightarrow> bool \<Rightarrow> cmd_gen \<Rightarrow> (bool \<times> cmd_gen) res" where
  "commandGenerate_PipeCAS requestorCriticalTable r opn g =
     (let packet = (\<lambda>t d. new_BusPacket t (ucast (requestorID r)) (address r) (col r) (row r) (bank r) (rank r) 0 d 0)
      in bind_res (at_res requestorCriticalTable (requestorID r)) (\<lambda>crit.
           let CAS = (if requestType r = DATA_WRITE then (if crit then WRA else WR)
                      else (if crit then RDA else RD))
           in if crit then ok (True, push [packet ACT 0, packet CAS (data r)] g)
              else ok (True, push ((if opn then [] else [packet PRE 0, packet ACT 0])
                                   @ [packet CAS (data r)]) g)))"

subsection \<open>Dispatch\<close>

datatype generator = Gen_Open | Gen_Close | Gen_Round | Gen_MCMC | Gen_PipeCAS

fun new_generator :: "generator \<Rightarrow> u32 \<Rightarrow> cmd_gen" where
  "new_generator Gen_Open dataBus = new_CommandGenerator dataBus"
| "new_generator Gen_Close dataBus = new_CommandGenerator_Close dataBus"
| "new_generator Gen_Round dataBus = new_CommandGenerator dataBus"
| "new_generator Gen_MCMC dataBus = new_CommandGenerator_MCMC dataBus"
| "new_generator Gen_PipeCAS dataBus = new_CommandGenerator_Close dataBus"

fun commandGenerate ::
  "generator \<Rightarrow> (u32 \<rightharpoonup> bool) \<Rightarrow> request \<Rightarrow> bool \<Rightarrow> cmd_gen \<Rightarrow> (bool \<times> cmd_gen) res" where
  "commandGenerate Gen_Open crit = commandGenerate_Open"
| "commandGenerate Gen_Close crit = commandGenerate_Close"
| "commandGenerate Gen_Round crit = commandGenerate_Round"
| "commandGenerate Gen_MCMC crit = commandGenerate_MCMC"
| "commandGenerate Gen_PipeCAS crit = commandGenerate_PipeCAS crit"

section \<open>The interface of a generator\<close>

definition tagged :: "request \<Rightarrow> packet \<Rightarrow> bool" where
  "tagged r p \<longleftrightarrow> pRequestorID p = ucast (requestorID r) \<and> pAddress p = address r \<and> pRow p = row r"

text \<open>Generating the commands of a request, given whether its row is open.\<close>

definition gen_step ::
  "(request \<Rightarrow> bool \<Rightarrow> cmd_gen \<Rightarrow> (bool \<times> cmd_gen) res) \<Rightarrow> request \<times> bool \<Rightarrow> cmd_gen \<Rightarrow> cmd_gen res" where
  "gen_step gen x g = bind_res (gen (fst x) (snd x) g) (\<lambda>(b, g'). ok g')"

lemma gen_step_ok: "gen_step gen x g = ok g' \<longleftrightarrow> (\<exists>b. gen (fst x) (snd x) g = ok (b, g'))"
  by (auto simp: gen_step_def res_simps)

locale command_generator =
  fixes gen :: "request \<Rightarrow> bool \<Rightarrow> cmd_gen \<Rightarrow> (bool \<times> cmd_gen) res"
  assumes gen_true: "gen r opn g = ok (b, g') \<Longrightarrow> b"
    and gen_appends: "gen r opn g = ok (b, g') \<Longrightarrow>
          \<exists>ps. commandBuffer g' = commandBuffer g @ ps \<and> (\<forall>p \<in> set ps. tagged r p)"
    and gen_bus: "gen r opn g = ok (b, g') \<Longrightarrow> dataBusSize g' = dataBusSize g"
    and gen_first: "gen r opn g = ok (b, g') \<Longrightarrow> length (first g') = length (first g)"
begin

lemma gen_sequence:
  "fold_res (gen_step gen) xs g = ok g' \<Longrightarrow>
     \<exists>pss. commandBuffer g' = commandBuffer g @ concat pss
        \<and> list_all2 (\<lambda>x ps. \<forall>p \<in> set ps. tagged (fst x) p) xs pss"
proof (induction xs arbitrary: g)
  case Nil
  then show ?case by (auto intro: exI [of _ "[]"])
next
  case (Cons x xs)
  then obtain b g1 where g1: "gen (fst x) (snd x) g = ok (b, g1)"
    and rest: "fold_res (gen_step gen) xs g1 = ok g'"
    by (auto simp: gen_step_ok res_simps)
  from gen_appends [OF g1] obtain ps where
    ps: "commandBuffer g1 = commandBuffer g @ ps" "\<forall>p \<in> set ps. tagged (fst x) p" by blast
  from Cons.IH [OF rest] obtain pss where
    pss: "commandBuffer g' = commandBuffer g1 @ concat pss"
      "list_all2 (\<lambda>x ps. \<forall>p \<in> set ps. tagged (fst x) p) xs pss" by blast
  from ps pss show ?case by (intro exI [of _ "ps # pss"]) simp
qed

lemma gen_sequence_source:
  assumes "fold_res (gen_step gen) xs g = ok g'" and "p \<in> set (commandBuffer g')"
    and "p \<notin> set (commandBuffer g)"
  shows "\<exists>x \<in> set xs. tagged (fst x) p"
proof -
  obtain pss where pss: "commandBuffer g' = commandBuffer g @ concat pss"
    "list_all2 (\<lambda>x ps. \<forall>p \<in> set ps. tagged (fst x) p) xs pss"
    using gen_sequence [OF assms(1)] by blast
  with assms(2,3) obtain ps where "ps \<in> set pss" "p \<in> set ps" by auto
  with pss(2) show ?thesis by (fastforce simp: list_all2_conv_all_nth in_set_conv_nth)
qed

end

lemma tagged_new [simp]:
  "tagged r (new_BusPacket t (ucast (requestorID r)) (address r) c (row r) b rk sa d tm)"
  "tagged r (p\<lparr>postCommand := pc\<rparr>) = tagged r p"
  by (simp_all add: tagged_def new_BusPacket_def)

lemma push_frame [simp]:
  "commandBuffer (push ps g) = commandBuffer g @ ps" "dataBusSize (push ps g) = dataBusSize g"
  "first (push ps g) = first g" "lookupTable (push ps g) = lookupTable g"
  by (simp_all add: push_def)

lemma push_append: "push qs (push ps g) = push (ps @ qs) g"
  by (simp add: push_def)

interpretation gen_open: command_generator commandGenerate_Open
  by unfold_locales
    (auto simp: commandGenerate_Open_def Let_def res_simps split: if_splits)

interpretation gen_close: command_generator commandGenerate_Close
  by unfold_locales
    (auto simp: commandGenerate_Close_def Let_def res_simps split: if_splits prod.splits)

interpretation gen_round: command_generator commandGenerate_Round
  by unfold_locales
    (auto simp: commandGenerate_Round_def Let_def res_simps split: if_splits)

interpretation gen_mcmc: command_generator commandGenerate_MCMC
  by unfold_locales
    (auto simp: commandGenerate_MCMC_def Let_def res_simps split: if_splits)

interpretation gen_pipecas: command_generator "commandGenerate_PipeCAS crit" for crit
  by unfold_locales
    (auto simp: commandGenerate_PipeCAS_def Let_def res_simps split: if_splits)

interpretation gen_any: command_generator "commandGenerate kind crit" for kind crit
  by (cases kind)
    (simp_all add: gen_open.command_generator_axioms gen_close.command_generator_axioms
      gen_round.command_generator_axioms gen_mcmc.command_generator_axioms
      gen_pipecas.command_generator_axioms)

section \<open>The row-buffer protocol\<close>

type_synonym row_state = "u32 \<times> u32 \<rightharpoonup> u32"

text \<open>
  What a DRAM device expects of a command: \<open>s\<close> maps (rank, bank) to the open row. A command
  that the state of its bank does not admit has no successor state.
\<close>

fun row_step_type :: "BusPacketType \<Rightarrow> u32 \<Rightarrow> u32 option \<Rightarrow> u32 option option" where
  "row_step_type PRE rw None = None"
| "row_step_type PRE rw (Some _) = Some None"
| "row_step_type ACT rw st = (if st = None then Some (Some rw) else None)"
| "row_step_type ACT_R rw st = (if st = None then Some (Some rw) else None)"
| "row_step_type ACT_W rw st = (if st = None then Some (Some rw) else None)"
| "row_step_type RD rw st = (if st = Some rw then Some st else None)"
| "row_step_type WR rw st = (if st = Some rw then Some st else None)"
| "row_step_type RDA rw st = (if st = Some rw then Some None else None)"
| "row_step_type WRA rw st = (if st = Some rw then Some None else None)"
| "row_step_type _ rw st = None"

definition row_step :: "packet \<Rightarrow> row_state \<Rightarrow> row_state option" where
  "row_step p s =
     (let k = (pRank p, pBank p)
      in map_option (\<lambda>v. s(k := v)) (row_step_type (busPacketType p) (pRow p) (s k)))"

fun run_rows :: "packet list \<Rightarrow> row_state \<Rightarrow> row_state option" where
  "run_rows [] s = Some s"
| "run_rows (p # ps) s = Option.bind (row_step p s) (run_rows ps)"

lemma run_rows_append [simp]: "run_rows (ps @ qs) s = Option.bind (run_rows ps s) (run_rows qs)"
proof (induction ps arbitrary: s)
  case (Cons p ps)
  then show ?case by (cases "row_step p s") simp_all
qed simp

text \<open>Accesses to the open row of a bank leave the state alone.\<close>

lemma run_rows_accesses:
  assumes "\<And>p. p \<in> set ps \<Longrightarrow> busPacketType p \<in> {RD, WR} \<and> s (pRank p, pBank p) = Some (pRow p)"
  shows "run_rows ps s = Some s"
  using assms
proof (induction ps)
  case (Cons p ps)
  then have "run_rows ps s = Some s" by simp
  moreover have "row_step p s = Some s"
    using Cons.prems [of p] by (auto simp: row_step_def fun_upd_idem)
  ultimately show ?case by simp
qed simp

text \<open>
  The agreement between \<^verbatim>\<open>first[]\<close> and the banks of a rank: a bank is marked \<open>first\<close> while it
  has never been opened.
\<close>

definition page_inv :: "u32 \<Rightarrow> cmd_gen \<Rightarrow> row_state \<Rightarrow> bool" where
  "page_inv rk g s \<longleftrightarrow>
     dataBusSize g \<noteq> 0 \<and> length (first g) = 8
   \<and> (\<forall>b < 8. first g ! unat b \<longleftrightarrow> s (rk, b) = None)"

lemma page_inv_new: "dataBus \<noteq> 0 \<Longrightarrow> page_inv rk (new_CommandGenerator dataBus) Map.empty"
  by (simp add: page_inv_def new_CommandGenerator_def word_less_nat_alt)

lemma page_inv_upd:
  assumes "page_inv rk g s" and "b < 8"
  shows "page_inv rk (g\<lparr>first := (first g)[unat b := False]\<rparr>) (s((rk, b) \<mapsto> rw))"
proof -
  have "(first g)[unat b := False] ! unat c \<longleftrightarrow> (s((rk, b) \<mapsto> rw)) (rk, c) = None" if "c < 8" for c
    using assms that
    by (cases "c = b") (auto simp: page_inv_def nth_list_update word_less_nat_alt
        dest!: word_unat_eq_iff [THEN iffD2])
  with assms show ?thesis by (simp add: page_inv_def)
qed

lemma page_inv_push [simp]: "page_inv rk (push ps g) s = page_inv rk g s"
  by (simp add: page_inv_def)

lemma page_inv_upd_open:
  assumes "page_inv rk g s" and "b < 8" and "s (rk, b) \<noteq> None"
  shows "page_inv rk g (s((rk, b) \<mapsto> rw))"
proof -
  from assms have "\<not> first g ! unat b" by (auto simp: page_inv_def)
  then have "g\<lparr>first := (first g)[unat b := False]\<rparr> = g"
    by (cases g) (simp add: list_update_same_conv list_update_beyond, metis list_update_id)
  with page_inv_upd [OF assms(1,2), of rw] show ?thesis by simp
qed

text \<open>
  The common shape of the open-page and the Round generator: what precedes the accesses
  (nothing, an activation, a precharge and an activation) brings the bank to the row.
\<close>

lemma open_prefix_rows:
  assumes "page_inv rk g s" and "b < 8" and "opn \<longleftrightarrow> s (rk, b) = Some rw"
    and "busPacketType act \<in> {ACT, ACT_R, ACT_W}" "pRank act = rk" "pBank act = b" "pRow act = rw"
    and "busPacketType pre = PRE" "pRank pre = rk" "pBank pre = b"
  defines "ps \<equiv> if opn then [] else if first g ! unat b then [act] else [pre, act]"
  shows "run_rows ps s = Some (s((rk, b) \<mapsto> rw))"
proof -
  have fb: "first g ! unat b \<longleftrightarrow> s (rk, b) = None" using assms(1,2) by (simp add: page_inv_def)
  show ?thesis using assms(3-10) fb
    by (cases "s (rk, b)") (auto simp: ps_def row_step_def fun_upd_idem)
qed

text \<open>The accesses a request is cracked into.\<close>

definition accesses :: "packet list \<Rightarrow> (BusPacketType \<times> u32) list" where
  "accesses ps = map (\<lambda>p. (busPacketType p, column p)) (filter (is_CAS \<circ> busPacketType) ps)"

lemma open_generate:
  assumes inv: "page_inv (rank r) g s" and b: "bank r < 8"
    and opn: "opn \<longleftrightarrow> s (rank r, bank r) = Some (row r)"
  shows "\<exists>g' ps. commandGenerate_Open r opn g = ok (True, g')
           \<and> commandBuffer g' = commandBuffer g @ ps
           \<and> run_rows ps s = Some (s((rank r, bank r) \<mapsto> row r))
           \<and> page_inv (rank r) g' (s((rank r, bank r) \<mapsto> row r))
           \<and> dataBusSize g' = dataBusSize g
           \<and> accesses ps = map (\<lambda>x. (if requestType r = DATA_WRITE then WR else RD, col r + of_nat x))
                               [0..<unat (requestSize r div dataBusSize g)]"
proof -
  let ?p = "\<lambda>t c d. new_BusPacket t (ucast (requestorID r)) (address r) c (row r) (bank r)
                             (rank r) (subArray r) d 0"
  let ?pre = "?p PRE (col r) 0" and ?act = "?p ACT (col r) 0"
  let ?cas = "map (\<lambda>x. ?p (if requestType r = DATA_WRITE then WR else RD) (col r + of_nat x) (data r))
                  [0..<unat (requestSize r div dataBusSize g)]"
  let ?ps = "if opn then [] else if first g ! unat (bank r) then [?act] else [?pre, ?act]"
  let ?s = "s((rank r, bank r) \<mapsto> row r)"
  let ?g1 = "if opn \<or> \<not> first g ! unat (bank r) then g
             else g\<lparr>first := (first g)[unat (bank r) := False]\<rparr>"
  from inv b have bus: "dataBusSize g \<noteq> 0" and ib: "unat (bank r) < length (first g)"
    by (simp_all add: page_inv_def word_less_nat_alt)
  have "commandGenerate_Open r opn g = ok (True, push (?ps @ ?cas) ?g1)"
    using bus ib by (simp add: commandGenerate_Open_def div_res_def push_def)
  moreover have "run_rows ?ps s = Some ?s"
    by (rule open_prefix_rows [OF inv b opn]) (simp_all add: new_BusPacket_def)
  moreover have "run_rows ?cas ?s = Some ?s"
    by (rule run_rows_accesses) (auto simp: new_BusPacket_def)
  moreover have "page_inv (rank r) ?g1 ?s"
    using page_inv_upd [OF inv b] page_inv_upd_open [OF inv b] inv b opn
    by (auto simp: page_inv_def)
  moreover have "accesses (?ps @ ?cas) = map (\<lambda>x. (if requestType r = DATA_WRITE then WR else RD, col r + of_nat x))
                               [0..<unat (requestSize r div dataBusSize g)]"
    by (simp add: accesses_def new_BusPacket_def filter_map o_def)
  ultimately show ?thesis by (intro exI [of _ "push (?ps @ ?cas) ?g1"] exI [of _ "?ps @ ?cas"]) simp
qed

lemma round_generate:
  assumes inv: "page_inv 0 g s" and b: "bank r < 8" and opn: "opn \<longleftrightarrow> s (0, bank r) = Some (row r)"
  shows "\<exists>g' ps. commandGenerate_Round r opn g = ok (True, g')
           \<and> commandBuffer g' = commandBuffer g @ ps
           \<and> run_rows ps s = Some (s((0, bank r) \<mapsto> row r))
           \<and> page_inv 0 g' (s((0, bank r) \<mapsto> row r))"
proof -
  let ?p = "\<lambda>t c d. new_BusPacket t (ucast (requestorID r)) (address r) c (row r) (bank r) 0 0 d 0"
  let ?size = "requestSize r div dataBusSize g"
  let ?pre = "?p PRE 0 0" and ?act = "?p (if requestType r = DATA_WRITE then ACT_W else ACT_R) 0 0"
  let ?cas = "map (\<lambda>x. ?p (if requestType r = DATA_WRITE then WR else RD) (col r + ?size) (data r))
                  [0..<unat ?size]"
  let ?ps = "if opn then [] else if first g ! unat (bank r) then [?act] else [?pre, ?act]"
  let ?s = "s((0, bank r) \<mapsto> row r)"
  let ?g1 = "if opn \<or> \<not> first g ! unat (bank r) then g
             else g\<lparr>first := (first g)[unat (bank r) := False]\<rparr>"
  from inv b have bus: "dataBusSize g \<noteq> 0" and ib: "unat (bank r) < length (first g)"
    by (simp_all add: page_inv_def word_less_nat_alt)
  have "commandGenerate_Round r opn g = ok (True, push (?ps @ ?cas) ?g1)"
    using bus ib by (simp add: commandGenerate_Round_def div_res_def push_def)
  moreover have "run_rows ?ps s = Some ?s"
    by (rule open_prefix_rows [OF inv b opn]) (simp_all add: new_BusPacket_def)
  moreover have "run_rows ?cas ?s = Some ?s"
    by (rule run_rows_accesses) (auto simp: new_BusPacket_def)
  moreover have "page_inv 0 ?g1 ?s"
    using page_inv_upd [OF inv b] page_inv_upd_open [OF inv b] inv b opn
    by (auto simp: page_inv_def)
  ultimately show ?thesis by (intro exI [of _ "push (?ps @ ?cas) ?g1"] exI [of _ "?ps @ ?cas"]) simp
qed

lemma run_rows_concat:
  "(\<And>x. x \<in> set xs \<Longrightarrow> run_rows (f x) s = Some s) \<Longrightarrow> run_rows (concat (map f xs)) s = Some s"
  by (induction xs) simp_all

text \<open>Closed banks stay closed under pairs of an activation and an access with auto-precharge.\<close>

lemma run_rows_close_pairs:
  assumes "\<And>i. i \<in> set is \<Longrightarrow> busPacketType (a i) = ACT \<and> busPacketType (c i) \<in> {RDA, WRA}
              \<and> pRow (c i) = pRow (a i) \<and> pRank (c i) = pRank (a i) \<and> pBank (c i) = pBank (a i)
              \<and> s (pRank (a i), pBank (a i)) = None"
  shows "run_rows (concat (map (\<lambda>i. [a i, c i]) is)) s = Some s"
proof (rule run_rows_concat)
  fix i assume "i \<in> set is"
  with assms [of i] show "run_rows [a i, c i] s = Some s"
    by (auto simp: row_step_def fun_upd_idem)
qed

section \<open>Properties\<close>



text \<open>
  The close-page generator leaves every bank closed: starting from a device state in which
  the up to eight banks the request is interleaved over are closed, its commands are legal and
  end in the same state, whatever the size of the request; and they are one activation and one
  auto-precharging access per burst of the size table.
\<close>

theorem close_page_restores:
  assumes "\<And>b. s (rank r, b) = None"
  shows "\<exists>g' ps. commandGenerate_Close r opn g = ok (True, g') \<and> commandBuffer g' = commandBuffer g @ ps
           \<and> run_rows ps s = Some s
           \<and> length ps = (case map_get (0, 0) (lookupTable g) (requestSize r) of (i, n) \<Rightarrow> 2 * i * n)"
proof -
  obtain i n where t: "map_get (0, 0) (lookupTable g) (requestSize r) = (i, n)" by fastforce
  let ?p = "\<lambda>t b d. new_BusPacket t (ucast (requestorID r)) (address r) (col r) (row r) b
                     (rank r) (subArray r) d 0"
  let ?f = "\<lambda>bi. let b = (bank r + of_nat bi) mod 16
      in concat (map (\<lambda>bc. [?p ACT b 0, ?p (if requestType r = DATA_WRITE then WRA else RDA) b (data r)]) [0..<n])"
  let ?ps = "concat (map ?f [0..<i])"
  have "commandGenerate_Close r opn g
      = ok (True, push ?ps (g\<lparr>lookupTable := (lookupTable g)(requestSize r \<mapsto> (i, n))\<rparr>))"
    by (simp add: commandGenerate_Close_def t)
  moreover have "run_rows ?ps s = Some s"
    by (intro run_rows_concat, unfold Let_def, intro run_rows_close_pairs)
      (auto simp: new_BusPacket_def assms)
  moreover have "length ?ps = 2 * i * n"
    by (simp add: length_concat o_def Let_def sum_list_triv)
  ultimately show ?thesis by (simp add: t)
qed

theorem close_page_restores_witness:
  "\<exists>g' ps. commandGenerate_Close sample_request False (new_CommandGenerator_Close 8) = ok (True, g')
      \<and> run_rows ps Map.empty = Some Map.empty \<and> length ps = 16 \<and> commandBuffer g' = ps"
  using close_page_restores [of Map.empty sample_request False "new_CommandGenerator_Close 8"]
  by (auto simp: new_CommandGenerator_Close_def new_CommandGenerator_def sample_request_def map_get_def)

end
