(* ===== verification/RequestScheduler.thy ===== *)
theory RequestScheduler
  imports RequestQueue CommandQueue CommandGenerator
begin

text \<open>
  \<^verbatim>\<open>src/src/RequestScheduler.{h,cpp}\<close>: the base class of the request schedulers, with the
  row table, the first-ready and the BLISS selection. The record \<open>sched_env\<close> holds the objects
  of the controller a scheduler refers to (the queues, the criticality table and the connected
  command generator); a subclass extends the record \<open>req_sched\<close> of the base class.
\<close>

record sched_env =
  requestQueue :: "request_queue list"
  commandQueue :: "command_queue list"
  requestorCriticalTable :: "u32 \<rightharpoonup> bool"
  generatorKind :: generator
  commandGenerator :: cmd_gen

record req_sched =
  clockCycle :: u64
  bankTable :: "u32 \<rightharpoonup> (u32 \<rightharpoonup> u64)"
  switch_enable :: bool
  scheduledReq :: "request option"
  checkRequest :: "request option"
  req1 :: "request option"
  req2 :: "request option"
  sch_id :: nat
  blacklist :: "int list"
  sch_flag :: bool
  sch_sw :: bool

text \<open>
  The members the constructor leaves indeterminate (\<^verbatim>\<open>switch_enable\<close>, \<^verbatim>\<open>checkRequest\<close>,
  \<^verbatim>\<open>blacklist\<close>, \<^verbatim>\<open>flag\<close>, \<^verbatim>\<open>sw\<close>) keep the value of \<open>mem\<close>.
\<close>

definition new_RequestScheduler :: "'a req_sched_scheme \<Rightarrow> 'a req_sched_scheme" where
  "new_RequestScheduler mem =
     mem\<lparr>clockCycle := 1, bankTable := Map.empty, scheduledReq := None,
         req1 := None, req2 := None, sch_id := 0\<rparr>"

definition connectCommandGenerator ::
  "generator \<Rightarrow> cmd_gen \<Rightarrow> 'e sched_env_scheme \<Rightarrow> 'e sched_env_scheme" where
  "connectCommandGenerator kind g e = e\<lparr>generatorKind := kind, commandGenerator := g\<rparr>"

section \<open>Access to the queues\<close>

definition queue_at :: "nat \<Rightarrow> 'e sched_env_scheme \<Rightarrow> request_queue res" where
  "queue_at i e = nth_res (requestQueue e) i"

definition put_queue :: "nat \<Rightarrow> request_queue \<Rightarrow> 'e sched_env_scheme \<Rightarrow> 'e sched_env_scheme" where
  "put_queue i q e = e\<lparr>requestQueue := (requestQueue e)[i := q]\<rparr>"

definition remove_from :: "nat \<Rightarrow> 'e sched_env_scheme \<Rightarrow> 'e sched_env_scheme res" where
  "remove_from i e =
     bind_res (queue_at i e) (\<lambda>q. bind_res (removeRequest q) (\<lambda>q'. ok (put_queue i q' e)))"

text \<open>Using a request pointer that may be null.\<close>

definition deref :: "'a option \<Rightarrow> 'a res" where
  "deref r = (case r of None \<Rightarrow> fail NullDeref | Some x \<Rightarrow> ok x)"

lemma deref_Inr [res_simps]: "deref r = ok x \<longleftrightarrow> r = Some x"
  by (cases r) (simp_all add: deref_def)

lemma deref_Some [simp]: "deref (Some x) = ok x"
  by (simp add: deref_def)

section \<open>Methods of the base class\<close>

text \<open>
  \<^verbatim>\<open>isRowHit\<close> searches \<^verbatim>\<open>bankTable[request->rank]\<close> but compares with the end iterator of
  \<^verbatim>\<open>bankTable[request->addressMap[Rank]]\<close>: for two different ranks that comparison is
  undefined.
\<close>

definition isRowHit :: "request \<Rightarrow> 'a req_sched_scheme \<Rightarrow> bool res" where
  "isRowHit r s =
     bind_res (nth_res (addressMap r) (memOrg_index Rank)) (\<lambda>rk.
       case bankTable s rk of
         None \<Rightarrow> ok False
       | Some banks \<Rightarrow>
           if rank r \<noteq> rk then fail IteratorMismatch
           else bind_res (nth_res (addressMap r) (memOrg_index Bank)) (\<lambda>bk.
                  case banks bk of
                    None \<Rightarrow> ok False
                  | Some rw \<Rightarrow> ok (rw = ucast (row r))))"

definition flushWriteReq :: "bool \<Rightarrow> 'a req_sched_scheme \<Rightarrow> 'a req_sched_scheme" where
  "flushWriteReq b s = s\<lparr>switch_enable := b\<rparr>"

definition serviceWrite :: "nat \<Rightarrow> 'e sched_env_scheme \<Rightarrow> bool res" where
  "serviceWrite qIndex e =
     bind_res (queue_at qIndex e) (\<lambda>q.
       if isWriteEnable q then bind_res (getSize False 0 q) (\<lambda>n. ok (n = 0)) else ok False)"

definition writeEnable :: "nat \<Rightarrow> 'e sched_env_scheme \<Rightarrow> bool res" where
  "writeEnable qIndex e = bind_res (queue_at qIndex e) (\<lambda>q. ok (isWriteEnable q))"

definition rs_bufferSize :: "nat \<Rightarrow> 'e sched_env_scheme \<Rightarrow> nat res" where
  "rs_bufferSize qIndex e = bind_res (queue_at qIndex e) (getSize False 0)"

fun scheduleFR_loop ::
  "'a req_sched_scheme \<Rightarrow> nat list \<Rightarrow> request_queue \<Rightarrow> (request option \<times> request_queue) res" where
  "scheduleFR_loop s [] q = getRequest_general 0 q"
| "scheduleFR_loop s (index # rest) q =
     bind_res (getRequestCheck index q) (\<lambda>p.
     bind_res (deref p) (\<lambda>r.
     bind_res (isRowHit r s) (\<lambda>hit.
       if hit then getRequest_general index q else scheduleFR_loop s rest q)))"

definition scheduleFR ::
  "nat \<Rightarrow> 'a req_sched_scheme \<Rightarrow> 'e sched_env_scheme \<Rightarrow> (request option \<times> 'e sched_env_scheme) res" where
  "scheduleFR qIndex s e =
     bind_res (queue_at qIndex e) (\<lambda>q.
     bind_res (getSize False 0 q) (\<lambda>n.
     bind_res (scheduleFR_loop s [0..<n] q) (\<lambda>(p, q'). ok (p, put_queue qIndex q' e))))"

fun scheduleFR_Next_loop ::
  "'a req_sched_scheme \<Rightarrow> nat list \<Rightarrow> request_queue \<Rightarrow> (request option \<times> request_queue) res" where
  "scheduleFR_Next_loop s [] q = getRequest_general 1 q"
| "scheduleFR_Next_loop s (index # rest) q =
     bind_res (getRequest_general index q) (\<lambda>(p, q1).
     bind_res (deref p) (\<lambda>r.
     bind_res (isRowHit r s) (\<lambda>hit.
       if hit then getRequest_general index q1 else scheduleFR_Next_loop s rest q1)))"

definition scheduleFR_Next ::
  "nat \<Rightarrow> 'a req_sched_scheme \<Rightarrow> 'e sched_env_scheme \<Rightarrow> (request option \<times> 'e sched_env_scheme) res" where
  "scheduleFR_Next qIndex s e =
     bind_res (queue_at qIndex e) (\<lambda>q.
     bind_res (getSize False 0 q) (\<lambda>n.
       if n > 0
       then bind_res (scheduleFR_Next_loop s [1..<n] q) (\<lambda>(p, q'). ok (p, put_queue qIndex q' e))
       else ok (None, e)))"

text \<open>
  \<^verbatim>\<open>scheduleBLISS\<close>: the local variables \<^verbatim>\<open>hit_1\<close> and \<^verbatim>\<open>hit_2\<close> are read before they are
  written on some paths; their indeterminate initial values are the arguments \<open>h1\<close>, \<open>h2\<close>.
\<close>

fun bliss_first :: "nat list \<Rightarrow> request_queue \<Rightarrow> 'a req_sched_scheme \<Rightarrow> 'a req_sched_scheme res" where
  "bliss_first [] q s = ok s"
| "bliss_first (index # rest) q s =
     bind_res (getRequestCheck index q) (\<lambda>p.
       let s1 = s\<lparr>req1 := p\<rparr>
       in if p \<noteq> None then ok (s1\<lparr>sch_id := index\<rparr>) else bliss_first rest q s1)"

fun bliss_loop ::
  "bool \<Rightarrow> bool \<Rightarrow> nat list \<Rightarrow> request_queue \<Rightarrow> 'a req_sched_scheme
     \<Rightarrow> (request option \<times> request_queue \<times> 'a req_sched_scheme) res" where
  "bliss_loop hit_1 hit_2 [] q s =
     bind_res (getRequest_general (sch_id s) q) (\<lambda>(p, q').
       ok (p, q', s\<lparr>sch_flag := True, req1 := p\<rparr>))"
| "bliss_loop hit_1 hit_2 (index # rest) q s =
     bind_res (getRequestCheck index q) (\<lambda>p2.
       let s1 = s\<lparr>req2 := p2\<rparr>
       in case p2 of
            None \<Rightarrow> bliss_loop hit_1 hit_2 rest q s1
          | Some r2 \<Rightarrow>
              bind_res (deref (req1 s1)) (\<lambda>r1.
              bind_res (nth_res (blacklist s1) (unat (requestorID r1))) (\<lambda>b1.
              bind_res (nth_res (blacklist s1) (unat (requestorID r2))) (\<lambda>b2.
                if (b1 \<noteq> 1) \<noteq> (b2 \<noteq> 1)
                then bind_res (getRequest_general index q) (\<lambda>(p, q').
                       if b1 = 1 then ok (p, q', s1\<lparr>req2 := p\<rparr>) else ok (p, q', s1\<lparr>req1 := p\<rparr>))
                else
                  bind_res (getRequestCheck (sch_id s1) q) (\<lambda>pid.
                  bind_res (deref pid) (\<lambda>rid.
                  bind_res (isRowHit rid s1) (\<lambda>hid.
                  bind_res (isRowHit r2 s1) (\<lambda>h2.
                    let hit_1' = (hid \<or> hit_1); hit_2' = (h2 \<or> hit_2)
                    in if hit_1' \<noteq> hit_2'
                       then if hit_1'
                            then bind_res (getRequest_general (sch_id s1) q) (\<lambda>(p, q').
                                   ok (p, q', s1\<lparr>req1 := p\<rparr>))
                            else bind_res (getRequest_general index q) (\<lambda>(p, q').
                                   ok (p, q', s1\<lparr>req2 := p\<rparr>))
                       else bliss_loop hit_1' hit_2' rest q s1))))))))"

definition scheduleBLISS ::
  "bool \<Rightarrow> bool \<Rightarrow> nat \<Rightarrow> 'a req_sched_scheme \<Rightarrow> 'e sched_env_scheme
     \<Rightarrow> (request option \<times> 'a req_sched_scheme \<times> 'e sched_env_scheme) res" where
  "scheduleBLISS h1 h2 qIndex s e =
     bind_res (queue_at qIndex e) (\<lambda>q.
     bind_res (getSize False 0 q) (\<lambda>n.
       let s0 = s\<lparr>sch_flag := True\<rparr>
       in if n > 0
          then bind_res (bliss_first [0..<n] q s0) (\<lambda>s1.
               bind_res (bliss_loop h1 h2 [sch_id s1..<n] q s1) (\<lambda>(p, q', s2).
                 ok (p, s2, put_queue qIndex q' e)))
          else ok (None, s0, e)))"

definition isSchedulable ::
  "request \<Rightarrow> bool \<Rightarrow> 'e sched_env_scheme \<Rightarrow> (bool \<times> 'e sched_env_scheme) res" where
  "isSchedulable r opn e =
     bind_res (commandGenerate (generatorKind e) (requestorCriticalTable e) r opn (commandGenerator e))
       (\<lambda>(b, g). ok (b, e\<lparr>commandGenerator := g\<rparr>))"

definition updateRowTable :: "u32 \<Rightarrow> u32 \<Rightarrow> u32 \<Rightarrow> 'a req_sched_scheme \<Rightarrow> 'a req_sched_scheme" where
  "updateRowTable rk bk rw s =
     s\<lparr>bankTable := (bankTable s)(rk \<mapsto> (map_get Map.empty (bankTable s) rk)(bk \<mapsto> ucast rw))\<rparr>"

definition rs_step :: "'a req_sched_scheme \<Rightarrow> 'a req_sched_scheme" where
  "rs_step s = s\<lparr>clockCycle := clockCycle s + 1\<rparr>"

text \<open>
  The statement all subclasses share once a request is chosen: generate its commands, then
  record its row under the key the subclass uses (\<open>mapped_key\<close>: \<^verbatim>\<open>addressMap[Rank]\<close> and
  \<^verbatim>\<open>addressMap[Bank]\<close>; \<open>direct_key\<close>: \<^verbatim>\<open>rank\<close> and \<^verbatim>\<open>bank\<close>) and remove it from its queue.
\<close>

definition mapped_key :: "request \<Rightarrow> (u32 \<times> u32) res" where
  "mapped_key r =
     bind_res (nth_res (addressMap r) (memOrg_index Rank)) (\<lambda>rk.
     bind_res (nth_res (addressMap r) (memOrg_index Bank)) (\<lambda>bk. ok (rk, bk)))"

definition direct_key :: "request \<Rightarrow> (u32 \<times> u32) res" where
  "direct_key r = ok (rank r, bank r)"

definition serve ::
  "(request \<Rightarrow> (u32 \<times> u32) res) \<Rightarrow> ('e sched_env_scheme \<Rightarrow> 'e sched_env_scheme res) \<Rightarrow> request
     \<Rightarrow> 'a req_sched_scheme \<times> 'e sched_env_scheme
     \<Rightarrow> (bool \<times> 'a req_sched_scheme \<times> 'e sched_env_scheme) res" where
  "serve key remove r st =
     (case st of (s, e) \<Rightarrow>
        bind_res (isRowHit r s) (\<lambda>hit.
        bind_res (isSchedulable r hit e) (\<lambda>(b, e1).
          if b
          then bind_res (key r) (\<lambda>(rk, bk).
               bind_res (remove e1) (\<lambda>e2. ok (True, updateRowTable rk bk (row r) s, e2)))
          else ok (False, s, e1))))"

end
