(* ===== verification/RequestPolicies.thy ===== *)
theory RequestPolicies
  imports RequestScheduler
begin

text \<open>
  The request schedulers of \<^verbatim>\<open>src/generalScheduler\<close> and \<^verbatim>\<open>src/system\<close>: direct, round robin,
  FCFS, FR-FCFS, BLISS and FR-FCFS with write batching, each a record extending the base
  class and a \<open>requestSchedule\<close> function. A \<^verbatim>\<open>for\<close> loop over the queues is a fold over their
  indices (the vector of queues never changes its length), a loop with \<^verbatim>\<open>break\<close> a recursive
  function over the remaining indices.
\<close>

section \<open>FR-FCFS\<close>

definition frfcfs_queue ::
  "nat \<Rightarrow> 'a req_sched_scheme \<times> 'e sched_env_scheme \<Rightarrow> ('a req_sched_scheme \<times> 'e sched_env_scheme) res" where
  "frfcfs_queue index st =
     (case st of (s, e) \<Rightarrow>
        bind_res (queue_at index e) (\<lambda>q.
        bind_res (getSize False 0 q) (\<lambda>n.
        bind_res
          (if n > 0
           then bind_res (scheduleFR index s e) (\<lambda>(p, e1).
                  case p of
                    None \<Rightarrow> ok (s, e1)
                  | Some r \<Rightarrow> bind_res (serve mapped_key (remove_from index) r (s, e1)) (\<lambda>(b, st'). ok st'))
           else ok (s, e))
          (\<lambda>(s', e'). ok (s'\<lparr>scheduledReq := None\<rparr>, e')))))"

definition requestSchedule_FRFCFS ::
  "'a req_sched_scheme \<times> 'e sched_env_scheme \<Rightarrow> ('a req_sched_scheme \<times> 'e sched_env_scheme) res" where
  "requestSchedule_FRFCFS st = fold_res frfcfs_queue [0..<length (requestQueue (snd st))] st"

section \<open>Direct\<close>

record direct_sched = req_sched +
  roundRobin_Level :: bool
  directIndex :: "u32 list"

definition new_RequestScheduler_Direct ::
  "direct_sched \<Rightarrow> 'e sched_env_scheme \<Rightarrow> direct_sched" where
  "new_RequestScheduler_Direct mem e =
     (new_RequestScheduler mem)\<lparr>roundRobin_Level := False,
        directIndex := replicate (length (requestQueue e)) 0\<rparr>"

fun direct_requestors ::
  "nat \<Rightarrow> nat list \<Rightarrow> direct_sched \<times> 'e sched_env_scheme \<Rightarrow> (direct_sched \<times> 'e sched_env_scheme) res" where
  "direct_requestors index [] st = ok st"
| "direct_requestors index (num # rest) (s, e) =
     bind_res (queue_at index e) (\<lambda>q.
     bind_res (nth_res (directIndex s) index) (\<lambda>ri.
     bind_res (getSize True (unat ri) q) (\<lambda>n.
     bind_res
       (if n > 0
        then bind_res (getRequest_requestor (unat ri) 0 q) (\<lambda>(p, q1).
             bind_res (deref p) (\<lambda>r.
             bind_res (serve mapped_key (remove_from index) r (s, put_queue index q1 e)) (\<lambda>(b, s', e').
               ok (s'\<lparr>scheduledReq := p\<rparr>, e'))))
        else ok (s\<lparr>scheduledReq := None\<rparr>, e))
       (\<lambda>(s1, e1).
          let ri1 = ri + 1;
              ri2 = (if unat ri1 = getQueueSize q then 0 else ri1);
              s2 = s1\<lparr>directIndex := (directIndex s1)[index := ri2]\<rparr>
          in if roundRobin_Level s2 \<and> scheduledReq s2 \<noteq> None then ok (s2, e1)
             else direct_requestors index rest (s2, e1)))))"

definition direct_queue ::
  "nat \<Rightarrow> direct_sched \<times> 'e sched_env_scheme \<Rightarrow> (direct_sched \<times> 'e sched_env_scheme) res" where
  "direct_queue index st =
     (case st of (s, e) \<Rightarrow>
        bind_res (queue_at index e) (\<lambda>q.
          if isPerRequestor q
          then bind_res
                 (if getQueueSize q > 0 then direct_requestors index [0..<getQueueSize q] (s, e)
                  else ok (s, e))
                 (\<lambda>(s', e'). ok (s'\<lparr>scheduledReq := None\<rparr>, e'))
          else bind_res (getSize False 0 q) (\<lambda>n.
                 if n > 0
                 then bind_res (scheduleFR index s e) (\<lambda>(p, e1).
                      bind_res (deref p) (\<lambda>r.
                      bind_res (serve direct_key (remove_from index) r (s, e1)) (\<lambda>(b, s', e').
                        ok (s'\<lparr>scheduledReq := None\<rparr>, e'))))
                 else ok (s, e))))"

definition requestSchedule_Direct ::
  "direct_sched \<times> 'e sched_env_scheme \<Rightarrow> (direct_sched \<times> 'e sched_env_scheme) res" where
  "requestSchedule_Direct st = fold_res direct_queue [0..<length (requestQueue (snd st))] st"

section \<open>Round robin\<close>

record rr_sched = req_sched +
  slotCounter :: u32
  timeSlot :: u32
  rrDataBusSize :: u32
  queueIndex :: u32
  queueRequestorIndex :: "u32 list"
  srtRequestBuffer :: "request list"
  fixedPrioirty :: bool

definition new_RequestScheduler_RR :: "rr_sched \<Rightarrow> u32 \<Rightarrow> 'e sched_env_scheme \<Rightarrow> rr_sched" where
  "new_RequestScheduler_RR mem dataBus e =
     (new_RequestScheduler mem)\<lparr>fixedPrioirty := False, slotCounter := 0, rrDataBusSize := dataBus,
        timeSlot := 42, queueIndex := 0, srtRequestBuffer := [],
        queueRequestorIndex := replicate (length (requestQueue e)) 0\<rparr>"

text \<open>
  \<open>sch\<close> is the virtual method \<^verbatim>\<open>isSchedulable\<close>, which the subclass RTMem overrides. The inner loop
  goes over the requestors of queue \<open>qi\<close> (the member \<^verbatim>\<open>queueIndex\<close>); the commands are generated
  with \<^verbatim>\<open>open = false\<close>, and the request is removed from queue \<open>index\<close>, the counter of the outer loop.
\<close>

fun rr_requestors ::
  "(request \<Rightarrow> bool \<Rightarrow> 'e sched_env_scheme \<Rightarrow> (bool \<times> 'e sched_env_scheme) res) \<Rightarrow>
   nat \<Rightarrow> nat \<Rightarrow> nat list \<Rightarrow> rr_sched \<times> 'e sched_env_scheme \<Rightarrow> (rr_sched \<times> 'e sched_env_scheme) res" where
  "rr_requestors sch index qi [] st = ok st"
| "rr_requestors sch index qi (sub # rest) (s, e) =
     bind_res (queue_at qi e) (\<lambda>q.
     bind_res (nth_res (queueRequestorIndex s) qi) (\<lambda>ri.
     bind_res (getSize True (unat ri) q) (\<lambda>n.
     bind_res
       (if n > 0
        then bind_res (getRequest_requestor (unat ri) 0 q) (\<lambda>(p, q1).
               ok (s\<lparr>scheduledReq := p\<rparr>, put_queue qi q1 e))
        else ok (s, e)) (\<lambda>(s1, e1).
     bind_res
       (case scheduledReq s1 of
          None \<Rightarrow> ok (s1, e1)
        | Some r \<Rightarrow>
            if fixedPrioirty s1
            then bind_res (at_res (requestorCriticalTable e1) (requestorID r)) (\<lambda>crit.
                   if \<not> crit
                   then bind_res (remove_from qi e1) (\<lambda>e2.
                          ok (s1\<lparr>srtRequestBuffer := srtRequestBuffer s1 @ [r], scheduledReq := None\<rparr>, e2))
                   else ok (s1, e1))
            else ok (s1, e1)) (\<lambda>(s2, e2).
     bind_res
       (case scheduledReq s2 of
          None \<Rightarrow> ok (True, e2)
        | Some r \<Rightarrow>
            bind_res (sch r False e2) (\<lambda>(b, e3).
              if b then bind_res (remove_from index e3) (\<lambda>e4. ok (True, e4)) else ok (False, e3)))
       (\<lambda>(continue, e3).
          if \<not> continue then ok (s2, e3)
          else let ri1 = ri + 1;
                   ri2 = (if unat ri1 = getQueueSize q then 0 else ri1);
                   s3 = s2\<lparr>queueRequestorIndex := (queueRequestorIndex s2)[qi := ri2]\<rparr>
               in if scheduledReq s3 \<noteq> None then ok (s3, e3)
                  else rr_requestors sch index qi rest (s3, e3)))))))"

definition rr_queue ::
  "(request \<Rightarrow> bool \<Rightarrow> 'e sched_env_scheme \<Rightarrow> (bool \<times> 'e sched_env_scheme) res) \<Rightarrow>
   nat \<Rightarrow> rr_sched \<times> 'e sched_env_scheme \<Rightarrow> (rr_sched \<times> 'e sched_env_scheme) res" where
  "rr_queue sch index st =
     (case st of (s, e) \<Rightarrow>
        let qi = unat (queueIndex s)
        in bind_res (queue_at qi e) (\<lambda>q.
             if isPerRequestor q
             then if getQueueSize q > 0
                  then bind_res (rr_requestors sch index qi [0..<getQueueSize q] (s, e)) (\<lambda>(s1, e1).
                         if scheduledReq s1 = None \<and> fixedPrioirty s1 \<and> srtRequestBuffer s1 \<noteq> []
                         then bind_res (sch (hd (srtRequestBuffer s1)) False e1) (\<lambda>(b, e2).
                                if b then ok (s1\<lparr>srtRequestBuffer := tl (srtRequestBuffer s1)\<rparr>, e2)
                                else ok (s1, e2))
                         else ok (s1, e1))
                  else ok (s, e)
             else bind_res (getSize False 0 q) (\<lambda>n.
                    if n > 0
                    then bind_res (getRequest_general 0 q) (\<lambda>(p, q1).
                         bind_res (deref p) (\<lambda>r.
                         bind_res (sch r False (put_queue qi q1 e)) (\<lambda>(b, e1).
                         bind_res (if b then remove_from index e1 else ok e1) (\<lambda>e2.
                           ok (s\<lparr>scheduledReq := p\<rparr>, e2)))))
                    else ok (s, e))))"

fun rr_queues ::
  "(request \<Rightarrow> bool \<Rightarrow> 'e sched_env_scheme \<Rightarrow> (bool \<times> 'e sched_env_scheme) res) \<Rightarrow>
   nat list \<Rightarrow> rr_sched \<times> 'e sched_env_scheme \<Rightarrow> (rr_sched \<times> 'e sched_env_scheme) res" where
  "rr_queues sch [] st = ok st"
| "rr_queues sch (index # rest) st =
     bind_res (rr_queue sch index st) (\<lambda>(s, e).
       let qi1 = queueIndex s + 1;
           s1 = s\<lparr>queueIndex := (if unat qi1 = length (requestQueue e) then 0 else qi1)\<rparr>
       in if scheduledReq s1 \<noteq> None then ok (s1\<lparr>slotCounter := timeSlot s1 - 1\<rparr>, e)
          else rr_queues sch rest (s1, e))"

definition rr_schedule ::
  "(request \<Rightarrow> bool \<Rightarrow> 'e sched_env_scheme \<Rightarrow> (bool \<times> 'e sched_env_scheme) res) \<Rightarrow>
   rr_sched \<times> 'e sched_env_scheme \<Rightarrow> (rr_sched \<times> 'e sched_env_scheme) res" where
  "rr_schedule sch st =
     (case st of (s, e) \<Rightarrow>
        if slotCounter s = 0
        then rr_queues sch [0..<length (requestQueue e)] (s\<lparr>scheduledReq := None\<rparr>, e)
        else if slotCounter s > 0 then ok (s\<lparr>slotCounter := slotCounter s - 1\<rparr>, e)
        else ok (s, e))"

definition requestSchedule_RR ::
  "rr_sched \<times> 'e sched_env_scheme \<Rightarrow> (rr_sched \<times> 'e sched_env_scheme) res" where
  "requestSchedule_RR = rr_schedule isSchedulable"

text \<open>RTMem is round robin with commands only while every command queue is short.\<close>

definition isSchedulable_RTMem ::
  "request \<Rightarrow> bool \<Rightarrow> 'e sched_env_scheme \<Rightarrow> (bool \<times> 'e sched_env_scheme) res" where
  "isSchedulable_RTMem r opn e =
     (if \<exists>q \<in> set (commandQueue e). cq_getSize True q \<ge> 2 \<or> cq_getSize False q \<ge> 2 then ok (False, e)
      else bind_res (isSchedulable r opn e) (\<lambda>(b, e'). ok (True, e')))"

definition requestSchedule_RTMem ::
  "rr_sched \<times> 'e sched_env_scheme \<Rightarrow> (rr_sched \<times> 'e sched_env_scheme) res" where
  "requestSchedule_RTMem = rr_schedule isSchedulable_RTMem"

section \<open>FCFS\<close>

record fcfs_sched = req_sched +
  numIndex :: nat

text \<open>The member \<^verbatim>\<open>numIndex\<close> is indeterminate until a request has been found.\<close>

definition new_RequestScheduler_FCFS :: "fcfs_sched \<Rightarrow> fcfs_sched" where
  "new_RequestScheduler_FCFS mem = new_RequestScheduler mem"

fun fcfs_find :: "nat list \<Rightarrow> request_queue \<Rightarrow> fcfs_sched \<Rightarrow> (request_queue \<times> fcfs_sched) res" where
  "fcfs_find [] q s = ok (q, s)"
| "fcfs_find (num # rest) q s =
     bind_res (getSize True num q) (\<lambda>n.
       if n > 0
       then bind_res (checkRequestIndex num 0 q) (\<lambda>(p, q1).
              ok (q1, s\<lparr>checkRequest := p, numIndex := num\<rparr>))
       else fcfs_find rest q s)"

fun fcfs_oldest :: "nat list \<Rightarrow> request_queue \<Rightarrow> fcfs_sched \<Rightarrow> (request_queue \<times> fcfs_sched) res" where
  "fcfs_oldest [] q s = ok (q, s)"
| "fcfs_oldest (num # rest) q s =
     bind_res (getSize True num q) (\<lambda>n.
       if n > 0
       then bind_res (deref (checkRequest s)) (\<lambda>r0.
            bind_res (checkRequestIndex num 0 q) (\<lambda>(p, q1).
            bind_res (deref p) (\<lambda>r.
              if arriveTime r \<le> arriveTime r0
              then fcfs_oldest rest q1 (s\<lparr>checkRequest := p, numIndex := num\<rparr>)
              else fcfs_oldest rest q1 s)))
       else fcfs_oldest rest q s)"

definition fcfs_queue ::
  "nat \<Rightarrow> fcfs_sched \<times> 'e sched_env_scheme \<Rightarrow> (fcfs_sched \<times> 'e sched_env_scheme) res" where
  "fcfs_queue index st =
     (case st of (s, e) \<Rightarrow>
        bind_res (queue_at index e) (\<lambda>q.
          if isPerRequestor q
          then bind_res (fcfs_find [0..<getQueueSize q] q s) (\<lambda>(q1, s1).
               bind_res (fcfs_oldest [0..<getQueueSize q] q1 s1) (\<lambda>(q2, s2).
               bind_res
                 (if checkRequest s2 \<noteq> None
                  then bind_res (getRequest_requestor (numIndex s2) 0 q2) (\<lambda>(p, q3).
                       bind_res (deref p) (\<lambda>r.
                       bind_res (serve mapped_key (remove_from index) r (s2, put_queue index q3 e))
                         (\<lambda>(b, st'). ok st')))
                  else ok (s2, put_queue index q2 e))
                 (\<lambda>(s3, e3). ok (s3\<lparr>scheduledReq := None\<rparr>, e3))))
          else bind_res (getSize False 0 q) (\<lambda>n.
               bind_res
                 (if n > 0
                  then bind_res (getRequest_general 0 q) (\<lambda>(p, q1).
                         case p of
                           None \<Rightarrow> ok (s, put_queue index q1 e)
                         | Some r \<Rightarrow> bind_res (serve mapped_key (remove_from index) r (s, put_queue index q1 e))
                                      (\<lambda>(b, st'). ok st'))
                  else ok (s, e))
                 (\<lambda>(s3, e3). ok (s3\<lparr>scheduledReq := None\<rparr>, e3)))))"

definition requestSchedule_FCFS ::
  "fcfs_sched \<times> 'e sched_env_scheme \<Rightarrow> (fcfs_sched \<times> 'e sched_env_scheme) res" where
  "requestSchedule_FCFS st =
     (case st of (s, e) \<Rightarrow>
        fold_res fcfs_queue [0..<length (requestQueue e)] (s\<lparr>scheduledReq := None, checkRequest := None\<rparr>, e))"

section \<open>BLISS\<close>

record bliss_sched = req_sched +
  last_pid :: u32
  counterstreak :: u32
  threshold :: u32
  temporal_clock :: u64

text \<open>
  \<open>nreq\<close> is \<^verbatim>\<open>requestorCriticalTable.size()\<close>; the array \<^verbatim>\<open>blacklist\<close> has 36 elements, and
  clearing more of them is out of range.
\<close>

definition clear_marking :: "nat \<Rightarrow> bliss_sched \<Rightarrow> bliss_sched res" where
  "clear_marking nreq s =
     (if nreq \<le> length (blacklist s)
      then ok (s\<lparr>blacklist := replicate nreq 0 @ drop nreq (blacklist s)\<rparr>) else fail OutOfRange)"

definition new_RequestScheduler_BLISS :: "nat \<Rightarrow> bliss_sched \<Rightarrow> bliss_sched res" where
  "new_RequestScheduler_BLISS nreq mem =
     clear_marking nreq ((new_RequestScheduler mem)\<lparr>counterstreak := 0, last_pid := 4,
                          threshold := 4, temporal_clock := 0\<rparr>)"

text \<open>The streak bookkeeping for the requestor that is about to be served.\<close>

definition bliss_account :: "u32 \<Rightarrow> bliss_sched \<Rightarrow> bliss_sched res" where
  "bliss_account pid s =
     bind_res
       (if pid = last_pid s \<and> counterstreak s < threshold s
        then ok (s\<lparr>counterstreak := counterstreak s + 1\<rparr>)
        else if pid = last_pid s \<and> counterstreak s = threshold s
        then if unat pid < length (blacklist s)
             then ok (s\<lparr>blacklist := (blacklist s)[unat pid := 1], counterstreak := 1\<rparr>)
             else fail OutOfRange
        else ok (s\<lparr>counterstreak := 1\<rparr>))
       (\<lambda>s1. ok (s1\<lparr>last_pid := pid\<rparr>))"

definition bliss_queue ::
  "bool \<Rightarrow> bool \<Rightarrow> nat \<Rightarrow> bliss_sched \<times> 'e sched_env_scheme \<Rightarrow> (bliss_sched \<times> 'e sched_env_scheme) res" where
  "bliss_queue h1 h2 index st =
     (case st of (s, e) \<Rightarrow>
        bind_res (queue_at index e) (\<lambda>q.
        bind_res (getSize False 0 q) (\<lambda>n.
          if n > 0
          then bind_res (scheduleBLISS h1 h2 index s e) (\<lambda>(p, s1, e1).
                 case p of
                   None \<Rightarrow> ok (s1\<lparr>scheduledReq := None\<rparr>, e1)
                 | Some r \<Rightarrow>
                     bind_res (bliss_account (requestorID r) s1) (\<lambda>s2.
                     bind_res (serve direct_key (remove_from index) r (s2, e1)) (\<lambda>(b, s3, e3).
                       ok (s3\<lparr>scheduledReq := None\<rparr>, e3))))
          else ok (s, e))))"

definition requestSchedule_BLISS ::
  "(nat \<Rightarrow> bool \<times> bool) \<Rightarrow> nat \<Rightarrow> bliss_sched \<times> 'e sched_env_scheme
     \<Rightarrow> (bliss_sched \<times> 'e sched_env_scheme) res" where
  "requestSchedule_BLISS garbage nreq st =
     (case st of (s, e) \<Rightarrow>
        let s1 = s\<lparr>temporal_clock := temporal_clock s + 1, scheduledReq := None\<rparr>
        in bind_res
             (if temporal_clock s1 mod 10000 = 0 \<and> temporal_clock s1 \<noteq> 1 then clear_marking nreq s1
              else ok s1)
             (\<lambda>s2. fold_res (\<lambda>i. bliss_queue (fst (garbage i)) (snd (garbage i)) i)
                     [0..<length (requestQueue e)] (s2, e)))"

section \<open>FR-FCFS with write batching\<close>

definition pop_write_from :: "nat \<Rightarrow> nat \<Rightarrow> 'e sched_env_scheme \<Rightarrow> 'e sched_env_scheme res" where
  "pop_write_from index i e =
     bind_res (queue_at index e) (\<lambda>q.
       with_writeQueue q (\<lambda>w. bind_res (popWrite i w) (\<lambda>(r, w').
         ok (put_queue index (q\<lparr>writeQueue := Some w'\<rparr>) e))))"

definition set_mode :: "bool \<Rightarrow> 'e sched_env_scheme \<Rightarrow> 'e sched_env_scheme res" where
  "set_mode b e = bind_res (queue_at 0 e) (\<lambda>q. ok (put_queue 0 (setWriteMode b q) e))"

text \<open>The state of the loops: \<^verbatim>\<open>cont_1\<close> or \<^verbatim>\<open>cont_3\<close>, the scheduler and the queues.\<close>

definition batch_drain ::
  "nat \<Rightarrow> bool \<times> 'a req_sched_scheme \<times> 'e sched_env_scheme
     \<Rightarrow> (bool \<times> 'a req_sched_scheme \<times> 'e sched_env_scheme) res" where
  "batch_drain index st =
     (case st of (cont_1, s, e) \<Rightarrow>
        bind_res (queue_at index e) (\<lambda>q.
          case writeQueue q of
            None \<Rightarrow> ok (cont_1, s, e)
          | Some writeQ \<Rightarrow>
              bind_res (if highWatermark writeQ
                        then bind_res (set_mode True e) (\<lambda>e1. ok (s\<lparr>sch_sw := True\<rparr>, e1))
                        else ok (s, e)) (\<lambda>(s1, e1).
                if sch_sw s1
                then if \<not> lowWatermark writeQ
                     then bind_res (getWrite 0 writeQ) (\<lambda>r.
                          bind_res (serve mapped_key (pop_write_from index 0) r (s1, e1)) (\<lambda>(b, s2, e2).
                            ok (if b then False else cont_1, s2, e2)))
                     else bind_res (set_mode False e1) (\<lambda>e2. ok (True, s1\<lparr>sch_sw := False\<rparr>, e2))
                else ok (cont_1, s1, e1))))"

definition batch_read ::
  "nat \<times> nat \<Rightarrow> bool \<times> 'a req_sched_scheme \<times> 'e sched_env_scheme
     \<Rightarrow> (bool \<times> 'a req_sched_scheme \<times> 'e sched_env_scheme) res" where
  "batch_read ij st =
     (case st of (cont_3, s, e) \<Rightarrow>
        bind_res (nth_res (commandQueue e) (snd ij)) (\<lambda>cq.
          if cq_getSize True cq = 0
          then bind_res (scheduleFR (fst ij) s e) (\<lambda>(p, e1).
                 case p of
                   None \<Rightarrow> ok (cont_3, s, e1)
                 | Some r \<Rightarrow>
                     bind_res (serve mapped_key (remove_from (fst ij)) r (s, e1)) (\<lambda>(b, s2, e2).
                       ok (if b then False else cont_3, s2, e2)))
          else ok (cont_3, s, e)))"

definition requestSchedule_FRFCFS_BATCHING ::
  "'a req_sched_scheme \<times> 'e sched_env_scheme \<Rightarrow> ('a req_sched_scheme \<times> 'e sched_env_scheme) res" where
  "requestSchedule_FRFCFS_BATCHING st =
     (case st of (s, e) \<Rightarrow>
        bind_res (writeEnable 0 e) (\<lambda>writeQ.
        bind_res (if writeQ then fold_res batch_drain [0..<length (requestQueue e)] (True, s, e)
                  else ok (True, s, e)) (\<lambda>(cont_1, s1, e1).
        bind_res (if cont_1
                  then fold_res batch_read
                         (List.product [0..<length (requestQueue e1)] [0..<length (commandQueue e1)])
                         (True, s1, e1)
                  else ok (True, s1, e1)) (\<lambda>(cont_3, s2, e2).
          let cont_2 = (\<exists>cq \<in> set (commandQueue e2). cq_getSize True cq > 0)
          in bind_res
               (if \<not> cont_2 \<and> cont_1 \<and> cont_3
                then bind_res (queue_at 0 e2) (\<lambda>q.
                       with_writeQueue q (\<lambda>w.
                         if wq_bufferSize w \<noteq> 0
                         then bind_res (getWrite 0 w) (\<lambda>r.
                              bind_res (serve mapped_key (pop_write_from 0 0) r (s2, e2)) (\<lambda>(b, st'). ok st'))
                         else ok (s2, e2)))
                else ok (s2, e2))
               (\<lambda>(s3, e3). ok (s3\<lparr>scheduledReq := None\<rparr>, e3))))))"

section \<open>FCFS: the choice among the requestors\<close>

definition lane_at :: "request_queue \<Rightarrow> nat \<Rightarrow> request list" where
  "lane_at q n = map_get [] (requestorBuffer q) (requestorOrder q ! n)"

definition waiting :: "request_queue \<Rightarrow> nat list" where
  "waiting q = filter (\<lambda>n. lane_at q n \<noteq> []) [0..<getQueueSize q]"

lemma lane_at_calls:
  assumes inv: "rq_inv q" and n: "n < getQueueSize q"
  shows "getSize True n q = ok (length (lane_at q n))"
    and "lane_at q n \<noteq> [] \<Longrightarrow> checkRequestIndex n 0 q = ok (Some (hd (lane_at q n)), q)"
proof -
  have len: "n < length (requestorOrder q)" using n by (simp add: getQueueSize_def)
  then have "requestorOrder q ! n \<in> set (requestorOrder q)" by simp
  also have "\<dots> = dom (requestorBuffer q)" using inv by (simp add: rq_inv_def)
  finally obtain buf where buf: "requestorBuffer q (requestorOrder q ! n) = Some buf" by blast
  then have "q\<lparr>requestorBuffer := (requestorBuffer q)(requestorOrder q ! n \<mapsto> buf)\<rparr> = q"
    by (simp add: fun_upd_idem)
  with buf len show "lane_at q n \<noteq> [] \<Longrightarrow> checkRequestIndex n 0 q = ok (Some (hd (lane_at q n)), q)"
    by (auto simp: checkRequestIndex_def touch_def Let_def lane_at_def hd_conv_nth)
  from len have "requestorOrder q \<noteq> []" by auto
  with buf len show "getSize True n q = ok (length (lane_at q n))"
    by (simp add: getSize_def lane_at_def)
qed

lemma fcfs_find_correct:
  assumes "rq_inv q" and "\<forall>n \<in> set ns. n < getQueueSize q"
  shows "fcfs_find ns q s =
     ok (q, case filter (\<lambda>n. lane_at q n \<noteq> []) ns of
              [] \<Rightarrow> s | n # _ \<Rightarrow> s\<lparr>checkRequest := Some (hd (lane_at q n)), numIndex := n\<rparr>)"
  using assms(2) by (induction ns) (auto simp: lane_at_calls [OF assms(1)])

lemma fcfs_oldest_correct:
  assumes "rq_inv q" and "\<forall>n \<in> set ns. n < getQueueSize q"
    and "checkRequest s = Some (hd (lane_at q (numIndex s)))"
  shows "fcfs_oldest ns q s =
     (let m = scan_le (\<lambda>n. arriveTime (hd (lane_at q n))) (numIndex s) (filter (\<lambda>n. lane_at q n \<noteq> []) ns)
      in ok (q, s\<lparr>checkRequest := Some (hd (lane_at q m)), numIndex := m\<rparr>))"
  using assms(2,3)
proof (induction ns arbitrary: s)
  case Nil
  then have "s\<lparr>checkRequest := Some (hd (lane_at q (numIndex s))), numIndex := numIndex s\<rparr> = s" by simp
  then show ?case by simp
next
  case (Cons n ns)
  then have n: "n < getQueueSize q" by simp
  show ?case
  proof (cases "lane_at q n = []")
    case True
    with Cons n show ?thesis by (simp add: lane_at_calls(1) [OF assms(1)])
  next
    case False
    let ?t = "s\<lparr>checkRequest := Some (hd (lane_at q n)), numIndex := n\<rparr>"
    have "fcfs_oldest ns q ?t = (let m = scan_le (\<lambda>n. arriveTime (hd (lane_at q n))) n (filter (\<lambda>n. lane_at q n \<noteq> []) ns)
      in ok (q, s\<lparr>checkRequest := Some (hd (lane_at q m)), numIndex := m\<rparr>))"
      using Cons.IH [of ?t] Cons.prems by simp
    with Cons n False show ?thesis by (simp add: lane_at_calls [OF assms(1)])
  qed
qed

section \<open>Properties\<close>

text \<open>
  (C11) FCFS serves the oldest request: for a per-requestor queue in which some requestor waits,
  the two loops of the scheduler end with the head of a non-empty buffer as the request to
  serve, and no waiting request of any requestor arrived before it, provided each buffer holds
  its requests in order of arrival.
\<close>

theorem fcfs_picks_oldest:
  assumes "rq_reachable q" and "waiting q \<noteq> []"
    and "\<And>n. n < getQueueSize q \<Longrightarrow> sorted (map arriveTime (lane_at q n))"
  shows "\<exists>s'. bind_res (fcfs_find [0..<getQueueSize q] q s) (\<lambda>(q1, s1). fcfs_oldest [0..<getQueueSize q] q1 s1)
                = ok (q, s')
           \<and> numIndex s' < getQueueSize q \<and> lane_at q (numIndex s') \<noteq> []
           \<and> checkRequest s' = Some (hd (lane_at q (numIndex s')))
           \<and> (\<forall>n < getQueueSize q. \<forall>r \<in> set (lane_at q n).
                arriveTime (hd (lane_at q (numIndex s'))) \<le> arriveTime r)"
proof -
  have inv: "rq_inv q" by (rule rq_reachable_imp_inv [OF assms(1)])
  obtain n0 ns where w: "waiting q = n0 # ns" using assms(2) by (cases "waiting q") auto
  let ?key = "\<lambda>n. arriveTime (hd (lane_at q n))"
  let ?m = "scan_le ?key n0 (waiting q)"
  let ?s = "s\<lparr>checkRequest := Some (hd (lane_at q ?m)), numIndex := ?m\<rparr>"
  have "fcfs_find [0..<getQueueSize q] q s = ok (q, s\<lparr>checkRequest := Some (hd (lane_at q n0)), numIndex := n0\<rparr>)"
    using w by (simp add: fcfs_find_correct [OF inv] waiting_def)
  then have run: "bind_res (fcfs_find [0..<getQueueSize q] q s) (\<lambda>(q1, s1). fcfs_oldest [0..<getQueueSize q] q1 s1)
      = ok (q, ?s)"
    by (simp add: fcfs_oldest_correct [OF inv] waiting_def Let_def)
  have in_w: "?m \<in> set (waiting q)"
    using scan_le_in [of ?key n0 "waiting q"] w by auto
  have min: "?key ?m \<le> arriveTime r" if "n < getQueueSize q" "r \<in> set (lane_at q n)" for n r
  proof -
    have "n \<in> set (waiting q)" using that by (auto simp: waiting_def)
    then have "?key ?m \<le> ?key n" using scan_le_min [of n n0 "waiting q" ?key] by simp
    also have "\<dots> \<le> arriveTime r"
      using assms(3) [OF that(1)] that(2) by (cases "lane_at q n") auto
    finally show ?thesis .
  qed
  from run in_w min show ?thesis by (intro exI [of _ ?s]) (auto simp: waiting_def)
qed

definition sample_fcfs :: fcfs_sched where
  "sample_fcfs =
     \<lparr>clockCycle = 1, bankTable = Map.empty, switch_enable = False, scheduledReq = None,
      checkRequest = None, req1 = None, req2 = None, sch_id = 0, blacklist = replicate 36 0,
      sch_flag = False, sch_sw = False, numIndex = 7\<rparr>"

definition sample_fcfs_queue :: request_queue where
  "sample_fcfs_queue =
     (new_RequestQueue True False)\<lparr>requestorBuffer := [5 \<mapsto> [sample_request]], requestorOrder := [5]\<rparr>"

lemma sample_fcfs_queue_reachable: "rq_reachable sample_fcfs_queue"
  by (rule rq_reachable.insert [OF rq_reachable.new [of True False], of sample_request])
    (simp add: insertRequest_def new_RequestQueue_def setWriteMode_def Let_def sample_request_def
      sample_fcfs_queue_def)

theorem fcfs_picks_oldest_witness:
  "\<exists>s'. bind_res (fcfs_find [0..<1] sample_fcfs_queue sample_fcfs)
           (\<lambda>(q1, s1). fcfs_oldest [0..<1] q1 s1) = ok (sample_fcfs_queue, s') \<and> numIndex s' = 0"
proof -
  have [simp]: "getQueueSize sample_fcfs_queue = 1" "lane_at sample_fcfs_queue 0 = [sample_request]"
    by (simp_all add: getQueueSize_def sample_fcfs_queue_def lane_at_def)
  then have "waiting sample_fcfs_queue \<noteq> []" by (simp add: waiting_def)
  from fcfs_picks_oldest [OF sample_fcfs_queue_reachable this, of sample_fcfs] show ?thesis
    by auto
qed


text \<open>
  (C14) BLISS blacklists a requestor exactly when it is served \<open>threshold + 1\<close> times in a row: when
  the last request was another requestor's, the first \<open>threshold\<close> services only count the
  streak, and the next one sets \<^verbatim>\<open>blacklist[pid]\<close> and restarts the count at one.
\<close>

theorem bliss_blacklists_streak:
  assumes "last_pid s \<noteq> pid" and "0 < threshold s" and "unat pid < length (blacklist s)"
    and "1 \<le> n" and "n \<le> unat (threshold s) + 1"
  shows "fold_res (\<lambda>_. bliss_account pid) [0..<n] s =
     (if n \<le> unat (threshold s) then ok (s\<lparr>counterstreak := of_nat n, last_pid := pid\<rparr>)
      else ok (s\<lparr>blacklist := (blacklist s)[unat pid := 1], counterstreak := 1, last_pid := pid\<rparr>))"
  using assms(4,5)
proof (induction n)
  case 0
  then show ?case by simp
next
  case (Suc n)
  show ?case
  proof (cases "n = 0")
    case True
    with assms(1,2) show ?thesis
      by (simp add: bliss_account_def word_less_nat_alt Suc_le_eq)
  next
    case False
    with Suc have n: "n \<le> unat (threshold s)" and
      run: "fold_res (\<lambda>_. bliss_account pid) [0..<n] s = ok (s\<lparr>counterstreak := of_nat n, last_pid := pid\<rparr>)"
      by auto
    have u: "unat (of_nat n :: u32) = n"
      using n unat_u32_less [of "threshold s"] by (intro unat_of_nat_u32) simp
    have eq: "of_nat n = threshold s \<longleftrightarrow> n = unat (threshold s)"
      by (simp only: word_unat_eq_iff u)
    have lt: "of_nat n < threshold s \<longleftrightarrow> n < unat (threshold s)"
      by (simp add: word_less_nat_alt u)
    have "fold_res (\<lambda>_. bliss_account pid) [0..<Suc n] s
        = bliss_account pid (s\<lparr>counterstreak := of_nat n, last_pid := pid\<rparr>)"
      by (cases "bliss_account pid (s\<lparr>counterstreak := of_nat n, last_pid := pid\<rparr>)")
        (simp_all add: fold_res_append run)
    also have "\<dots> = (if Suc n \<le> unat (threshold s) then ok (s\<lparr>counterstreak := of_nat (Suc n), last_pid := pid\<rparr>)
      else ok (s\<lparr>blacklist := (blacklist s)[unat pid := 1], counterstreak := 1, last_pid := pid\<rparr>))"
      using n assms(3) by (auto simp: bliss_account_def eq lt add.commute)
    finally show ?thesis .
  qed
qed

theorem bliss_blacklists_streak_witness:
  "\<exists>s s'. last_pid s = 4 \<and> fold_res (\<lambda>_. bliss_account 2) [0..<5] s = ok s' \<and> blacklist s' ! 2 = 1"
proof -
  let ?s = "\<lparr>clockCycle = 1, bankTable = Map.empty, switch_enable = False, scheduledReq = None,
      checkRequest = None, req1 = None, req2 = None, sch_id = 0, blacklist = replicate 36 0,
      sch_flag = False, sch_sw = False, last_pid = 4, counterstreak = 0, threshold = 4, temporal_clock = 0\<rparr>"
  have "fold_res (\<lambda>_. bliss_account 2) [0..<5] ?s
      = ok (?s\<lparr>blacklist := (blacklist ?s)[2 := 1], counterstreak := 1, last_pid := 2\<rparr>)"
    using bliss_blacklists_streak [of ?s 2 5] by simp
  then show ?thesis by (intro exI conjI) auto
qed

end
