(* ===== verification/OpenPage.thy ===== *)
theory OpenPage
  imports RequestPolicies
begin

text \<open>
  The open-page discipline across three components: the row table of the request scheduler,
  the \<^verbatim>\<open>first[]\<close> flags of the open-page command generator and the device agree on which row is
  open in which bank, so that the commands handed to the command queues always form a legal
  sequence of the row-buffer protocol. The invariant \<open>legal rk h st\<close> speaks of the commands
  \<open>h\<close> already taken out of the generator's buffer and those still in it.
\<close>

section \<open>The invariant\<close>

definition well_mapped :: "u32 \<Rightarrow> request \<Rightarrow> bool" where
  "well_mapped rk r \<longleftrightarrow>
     length (addressMap r) = 4 \<and> rank r = rk \<and> addressMap r ! 0 = rk
   \<and> addressMap r ! 2 = bank r \<and> bank r < 8"

definition queue_ok :: "u32 \<Rightarrow> request_queue \<Rightarrow> bool" where
  "queue_ok rk q \<longleftrightarrow> rq_inv q \<and> (\<forall>k. \<forall>r \<in> set (rq_lane q k). well_mapped rk r)"

definition queues_ok :: "u32 \<Rightarrow> 'e sched_env_scheme \<Rightarrow> bool" where
  "queues_ok rk e \<longleftrightarrow> (\<forall>q \<in> set (requestQueue e). queue_ok rk q)"

definition table_agrees :: "u32 \<Rightarrow> (u32 \<rightharpoonup> (u32 \<rightharpoonup> u64)) \<Rightarrow> row_state \<Rightarrow> bool" where
  "table_agrees rk t rows \<longleftrightarrow>
     (\<forall>b. Option.bind (t rk) (\<lambda>m. m b) = map_option ucast (rows (rk, b)))"

definition legal ::
  "u32 \<Rightarrow> packet list \<Rightarrow> 'a req_sched_scheme \<times> 'e sched_env_scheme \<Rightarrow> bool" where
  "legal rk h st \<longleftrightarrow>
     (\<exists>rows. run_rows (h @ commandBuffer (commandGenerator (snd st))) Map.empty = Some rows
           \<and> page_inv rk (commandGenerator (snd st)) rows \<and> table_agrees rk (bankTable (fst st)) rows)
   \<and> generatorKind (snd st) = Gen_Open \<and> queues_ok rk (snd st)"

section \<open>Queues\<close>

lemma queue_okD: "queue_ok rk q \<Longrightarrow> rq_inv q"
  by (simp add: queue_ok_def)

lemma queue_ok_lane: "queue_ok rk q \<Longrightarrow> r \<in> set (rq_lane q k) \<Longrightarrow> well_mapped rk r"
  by (auto simp: queue_ok_def)

lemma rq_lane_frame [simp]:
  "rq_lane (q\<lparr>scheduledRequest := x\<rparr>) k = rq_lane q k" "rq_lane (q\<lparr>flag := b\<rparr>) k = rq_lane q k"
  "rq_lane (q\<lparr>writeMode := b\<rparr>) k = rq_lane q k"
  by (cases k; simp)+

lemma queue_ok_frame [simp]:
  "queue_ok rk (q\<lparr>scheduledRequest := x\<rparr>) = queue_ok rk q"
  "queue_ok rk (q\<lparr>flag := b\<rparr>) = queue_ok rk q" "queue_ok rk (q\<lparr>writeMode := b\<rparr>) = queue_ok rk q"
  by (simp_all add: queue_ok_def)

lemma queue_ok_general:
  assumes "queue_ok rk q" and "getRequest_general i q = ok (p, q')"
  shows "queue_ok rk q' \<and> (\<forall>r. p = Some r \<longrightarrow> well_mapped rk r)"
proof (cases "generalBuffer q = []")
  case True
  with assms show ?thesis by (auto simp: getRequest_general_def)
next
  case False
  with assms(2) have i: "i < length (rq_lane q GeneralLane)"
    and p: "p = Some (rq_lane q GeneralLane ! i)" "q' = q\<lparr>scheduledRequest := (False, (0, i))\<rparr>"
    by (auto simp: getRequest_general_def res_simps)
  have "well_mapped rk (rq_lane q GeneralLane ! i)"
    by (rule queue_ok_lane [OF assms(1) nth_mem [OF i]])
  with assms(1) show ?thesis by (simp add: p)
qed

lemma queue_ok_check:
  assumes "queue_ok rk q" and "getRequestCheck i q = ok (Some r)"
  shows "well_mapped rk r"
proof -
  from assms(2) have i: "i < length (rq_lane q GeneralLane)" and r: "r = rq_lane q GeneralLane ! i"
    by (auto simp: getRequestCheck_def res_simps split: if_splits)
  show ?thesis unfolding r by (rule queue_ok_lane [OF assms(1) nth_mem [OF i]])
qed

lemma queue_ok_requestor:
  assumes "queue_ok rk q" and "getRequest_requestor n i q = ok (p, q')"
  shows "queue_ok rk q' \<and> (\<forall>r. p = Some r \<longrightarrow> well_mapped rk r)"
proof -
  from assms(2) obtain k buf q1 where t: "touch n q = ok (k, buf, q1)"
    and rest: "(if buf = [] then ok (None, q1)
       else bind_res (nth_res buf i) (\<lambda>r. ok (Some r, q1\<lparr>scheduledRequest := (True, (k, i))\<rparr>))) = ok (p, q')"
    by (auto simp: getRequest_requestor_def res_simps)
  from touch_inv [OF queue_okD [OF assms(1)] t] have q1: "q1 = q"
    and buf: "buf = rq_lane q (RequestorLane k)" by auto
  have "well_mapped rk x" if "x \<in> set buf" for x
    using queue_ok_lane [OF assms(1), of x "RequestorLane k"] that by (simp add: buf)
  with rest assms(1) show ?thesis by (auto simp: q1 res_simps split: if_splits)
qed

lemma queue_ok_remove:
  assumes "queue_ok rk q" and "removeRequest q = ok q'"
  shows "queue_ok rk q'"
proof -
  obtain b i n where s: "scheduledRequest q = (b, (i, n))" by (metis surj_pair)
  have "set (rq_lane q' k) \<subseteq> set (rq_lane q k)" for k
    using assms(2) by (cases k; cases b) (auto simp: removeRequest_def s res_simps split: if_splits)
  with assms(1) removeRequest_inv [OF queue_okD [OF assms(1)] assms(2)] show ?thesis
    by (auto simp: queue_ok_def)
qed

lemma queue_ok_popWrite:
  assumes "queue_ok rk q" and w: "writeQueue q = Some w" and "popWrite i w = ok (r, w')"
  shows "queue_ok rk (q\<lparr>writeQueue := Some w'\<rparr>)"
proof -
  from assms(3) have w': "set (wqueue w') \<subseteq> set (wqueue w)"
    by (auto simp: popWrite_def res_simps)
  then have "set (rq_lane (q\<lparr>writeQueue := Some w'\<rparr>) k) \<subseteq> set (rq_lane q k)" for k
    by (cases k) (auto simp: w)
  with assms(1) rq_inv_writeQueue [OF queue_okD [OF assms(1)] w w'] show ?thesis
    by (auto simp: queue_ok_def)
qed

lemma queues_ok_at: "queues_ok rk e \<Longrightarrow> queue_at i e = ok q \<Longrightarrow> queue_ok rk q"
  by (auto simp: queues_ok_def queue_at_def res_simps)

lemma queues_ok_put: "queues_ok rk e \<Longrightarrow> queue_ok rk q \<Longrightarrow> queues_ok rk (put_queue i q e)"
  by (auto simp: queues_ok_def put_queue_def dest: set_update_subset_insert [THEN subsetD])

lemma put_queue_frame [simp]:
  "commandGenerator (put_queue i q e) = commandGenerator e"
  "generatorKind (put_queue i q e) = generatorKind e"
  "commandQueue (put_queue i q e) = commandQueue e"
  "requestorCriticalTable (put_queue i q e) = requestorCriticalTable e"
  "length (requestQueue (put_queue i q e)) = length (requestQueue e)"
  by (simp_all add: put_queue_def)

text \<open>What a step that only touches the queues keeps of the environment.\<close>

definition queue_only :: "u32 \<Rightarrow> 'e sched_env_scheme \<Rightarrow> 'e sched_env_scheme \<Rightarrow> bool" where
  "queue_only rk e e' \<longleftrightarrow>
     commandGenerator e' = commandGenerator e \<and> generatorKind e' = generatorKind e
   \<and> (queues_ok rk e \<longrightarrow> queues_ok rk e')"

lemma queue_only_refl [simp]: "queue_only rk e e"
  by (simp add: queue_only_def)

lemma queue_only_put:
  "queue_at i e = ok q \<Longrightarrow> (queue_ok rk q \<Longrightarrow> queue_ok rk q') \<Longrightarrow> queue_only rk e (put_queue i q' e)"
  by (auto simp: queue_only_def intro: queues_ok_put dest: queues_ok_at)

lemma legal_queue_only: "legal rk h (s, e) \<Longrightarrow> queue_only rk e e' \<Longrightarrow> legal rk h (s, e')"
  by (auto simp: legal_def queue_only_def)

lemma remove_from_only: "res_all (queue_only rk e) (remove_from i e)"
  unfolding remove_from_def
  by (intro res_wp) (auto intro: queue_only_put queue_ok_remove)

lemma pop_write_from_only: "res_all (queue_only rk e) (pop_write_from j i e)"
  unfolding pop_write_from_def with_writeQueue_def
  by (intro res_wp) (auto intro!: queue_only_put intro: queue_ok_popWrite)

lemma set_mode_only: "res_all (queue_only rk e) (set_mode b e)"
  unfolding set_mode_def setWriteMode_def
  by (intro res_wp) (auto intro!: queue_only_put)

section \<open>Serving a request\<close>

lemma isRowHit_agrees:
  assumes "table_agrees rk (bankTable s) rows" and "well_mapped rk r"
  shows "isRowHit r s = ok (rows (rk, bank r) = Some (row r))"
proof -
  have am: "nth_res (addressMap r) 0 = ok rk" "nth_res (addressMap r) 2 = ok (bank r)" "rank r = rk"
    using assms(2) by (simp_all add: well_mapped_def)
  have inj: "(ucast (x :: u32) :: u64) = ucast y \<longleftrightarrow> x = y" for x y
    by (metis ucast_up_down)
  have "Option.bind (bankTable s rk) (\<lambda>m. m (bank r)) = map_option ucast (rows (rk, bank r))"
    using assms(1) by (simp add: table_agrees_def)
  then show ?thesis
    by (cases "bankTable s rk"; cases "rows (rk, bank r)") (auto simp: isRowHit_def am inj)
qed

lemma table_agrees_update:
  assumes "table_agrees rk (bankTable s) rows"
  shows "table_agrees rk (bankTable (updateRowTable rk b rw s)) (rows((rk, b) \<mapsto> rw))"
proof -
  have "Option.bind (bankTable s rk) (\<lambda>m. m c) = map_option ucast (rows (rk, c))" for c
    using assms by (simp add: table_agrees_def)
  then show ?thesis
    by (cases "bankTable s rk") (auto simp: table_agrees_def updateRowTable_def)
qed

text \<open>
  Serving a well-mapped request never fails in the scheduler or the generator, and keeps the
  three views of the open rows in agreement.
\<close>

lemma serve_legal:
  assumes leg: "legal rk h (s, e)" and wm: "well_mapped rk r" and key: "key r = ok (rk, bank r)"
  shows "\<exists>g ps. commandBuffer g = commandBuffer (commandGenerator e) @ ps
           \<and> serve key remove r (s, e) =
               bind_res (remove (e\<lparr>commandGenerator := g\<rparr>)) (\<lambda>e2. ok (True, updateRowTable rk (bank r) (row r) s, e2))
           \<and> legal rk h (updateRowTable rk (bank r) (row r) s, e\<lparr>commandGenerator := g\<rparr>)"
proof -
  from leg obtain rows where
    run: "run_rows (h @ commandBuffer (commandGenerator e)) Map.empty = Some rows"
    and pg: "page_inv rk (commandGenerator e) rows" and tab: "table_agrees rk (bankTable s) rows"
    and kind: "generatorKind e = Gen_Open" and qs: "queues_ok rk e"
    by (auto simp: legal_def)
  let ?opn = "rows (rk, bank r) = Some (row r)" and ?s = "updateRowTable rk (bank r) (row r) s"
  have hit: "isRowHit r s = ok ?opn" by (rule isRowHit_agrees [OF tab wm])
  from wm have rb: "rank r = rk" "bank r < 8" by (auto simp: well_mapped_def)
  from open_generate [of r "commandGenerator e" rows ?opn] pg rb obtain g ps where
    g: "commandGenerate_Open r ?opn (commandGenerator e) = ok (True, g)"
    and ps: "commandBuffer g = commandBuffer (commandGenerator e) @ ps"
    and rr: "run_rows ps rows = Some (rows((rk, bank r) \<mapsto> row r))"
    and pg': "page_inv rk g (rows((rk, bank r) \<mapsto> row r))" by auto
  let ?e = "e\<lparr>commandGenerator := g\<rparr>"
  have sch: "isSchedulable r ?opn e = ok (True, ?e)"
    using g by (simp add: isSchedulable_def kind)
  have "serve key remove r (s, e) = bind_res (remove ?e) (\<lambda>e2. ok (True, ?s, e2))"
    using sch hit by (simp add: serve_def key)
  moreover have "run_rows (h @ commandBuffer g) Map.empty = Some (rows((rk, bank r) \<mapsto> row r))"
    using run rr by (auto simp: ps bind_eq_Some_conv)
  then have "legal rk h (?s, ?e)"
    using table_agrees_update [OF tab] pg' kind qs
    by (auto simp: legal_def queues_ok_def)
  ultimately show ?thesis using ps by blast
qed

lemma mapped_key_ok: "well_mapped rk r \<Longrightarrow> mapped_key r = ok (rk, bank r)"
  by (simp add: well_mapped_def mapped_key_def)

lemma direct_key_ok: "well_mapped rk r \<Longrightarrow> direct_key r = ok (rk, bank r)"
  by (simp add: well_mapped_def direct_key_def)

lemma serve_preserves:
  assumes "legal rk h (s, e)" and "well_mapped rk r" and "key = mapped_key \<or> key = direct_key"
    and "\<And>e. res_all (queue_only rk e) (remove e)"
  shows "res_all (\<lambda>(b, st). legal rk h st) (serve key remove r (s, e))"
proof -
  have key: "key r = ok (rk, bank r)" using assms(2,3) mapped_key_ok direct_key_ok by auto
  obtain g where
    g: "serve key remove r (s, e) =
          bind_res (remove (e\<lparr>commandGenerator := g\<rparr>)) (\<lambda>e2. ok (True, updateRowTable rk (bank r) (row r) s, e2))"
    and leg: "legal rk h (updateRowTable rk (bank r) (row r) s, e\<lparr>commandGenerator := g\<rparr>)"
    using serve_legal [where key = key and r = r, OF assms(1,2) key, of remove] by blast
  show ?thesis unfolding g
    by (rule res_all_bind2 [OF assms(4)]) (auto intro: legal_queue_only [OF leg])
qed

section \<open>The schedulers keep the invariant\<close>

lemma legal_bankTable: "bankTable s' = bankTable s \<Longrightarrow> legal rk h (s, e) \<Longrightarrow> legal rk h (s', e)"
  by (simp add: legal_def)

lemma legal_queues: "legal rk h (s, e) \<Longrightarrow> queues_ok rk e"
  by (simp add: legal_def)

lemma getRequest_general_only:
  assumes "queues_ok rk e" and "queue_at i e = ok q" and "getRequest_general j q = ok (p, q')"
  shows "queue_only rk e (put_queue i q' e) \<and> (\<forall>r. p = Some r \<longrightarrow> well_mapped rk r)"
  using queue_ok_general [OF queues_ok_at [OF assms(1,2)] assms(3)] assms(2)
  by (simp add: queue_only_put)

lemma getRequest_requestor_only:
  assumes "queues_ok rk e" and "queue_at i e = ok q" and "getRequest_requestor n j q = ok (p, q')"
  shows "queue_only rk e (put_queue i q' e) \<and> (\<forall>r. p = Some r \<longrightarrow> well_mapped rk r)"
  using queue_ok_requestor [OF queues_ok_at [OF assms(1,2)] assms(3)] assms(2)
  by (simp add: queue_only_put)

lemma scheduleFR_loop_get:
  "res_all (\<lambda>(p, q'). \<exists>i. getRequest_general i q = ok (p, q')) (scheduleFR_loop s is q)"
proof (induction "is")
  case Nil
  show ?case by (auto intro: res_allI)
next
  case (Cons i "is")
  then show ?case unfolding scheduleFR_loop.simps
    by (intro res_wp) (auto intro: res_allI)
qed

lemma scheduleFR_only:
  assumes "queues_ok rk e"
  shows "res_all (\<lambda>(p, e'). queue_only rk e e' \<and> (\<forall>r. p = Some r \<longrightarrow> well_mapped rk r))
           (scheduleFR i s e)"
  unfolding scheduleFR_def
  by (intro res_wp)
    (auto dest!: res_allD [OF scheduleFR_loop_get] dest: getRequest_general_only [OF assms])

lemma bliss_first_bankTable:
  "res_all (\<lambda>s'. bankTable s' = bankTable s) (bliss_first is q (s :: 'a req_sched_scheme))"
proof (induction "is" arbitrary: s)
  case Nil
  show ?case by simp
next
  case (Cons i "is")
  have IH: "res_all (\<lambda>s'. bankTable s' = bankTable s) (bliss_first is q t)"
    if "bankTable t = bankTable s" for t :: "'a req_sched_scheme"
    using Cons.IH [of t] that by simp
  show ?case unfolding bliss_first.simps by (intro res_wp IH) auto
qed

lemma bliss_loop_get:
  "res_all (\<lambda>(p, q', s'). bankTable s' = bankTable s \<and> (\<exists>i. getRequest_general i q = ok (p, q')))
     (bliss_loop h1 h2 is q (s :: 'a req_sched_scheme))"
proof (induction "is" arbitrary: h1 h2 s)
  case Nil
  show ?case unfolding bliss_loop.simps by (intro res_wp) auto
next
  case (Cons i "is")
  have IH: "res_all (\<lambda>(p, q', s'). bankTable s' = bankTable s \<and> (\<exists>i. getRequest_general i q = ok (p, q')))
     (bliss_loop h1 h2 is q t)" if "bankTable t = bankTable s" for h1 h2 and t :: "'a req_sched_scheme"
    using Cons.IH [where s = t] that by simp
  show ?case unfolding bliss_loop.simps
    by (intro res_wp IH) auto
qed

lemma scheduleBLISS_only:
  assumes "queues_ok rk e"
  shows "res_all (\<lambda>(p, s', e'). queue_only rk e e' \<and> bankTable s' = bankTable s
            \<and> (\<forall>r. p = Some r \<longrightarrow> well_mapped rk r)) (scheduleBLISS h1 h2 i s e)"
  unfolding scheduleBLISS_def
  by (intro res_wp)
    (auto dest!: res_allD [OF bliss_loop_get] res_allD [OF bliss_first_bankTable]
      dest: getRequest_general_only [OF assms])

lemma frfcfs_queue_legal:
  assumes "legal rk h st"
  shows "res_all (legal rk h) (frfcfs_queue i st)"
proof -
  obtain s e where st: "st = (s, e)" by (cases st)
  have leg: "legal rk h (s, e)" using assms st by simp
  have FR: "legal rk h (s, e1)" "p = Some r \<Longrightarrow> well_mapped rk r" if "scheduleFR i s e = ok (p, e1)" for p e1 r
    using res_allD [OF scheduleFR_only [OF legal_queues [OF leg]] that] leg by (auto intro: legal_queue_only)
  have "res_all (\<lambda>st. legal rk h st)
     (case p of None \<Rightarrow> ok (s, e1)
      | Some r \<Rightarrow> bind_res (serve mapped_key (remove_from i) r (s, e1)) (\<lambda>(b, st'). ok st'))"
    if "scheduleFR i s e = ok (p, e1)" for p e1
    using FR [OF that]
    by (intro res_wp) (auto dest!: res_allD [OF serve_preserves [OF _ _ _ remove_from_only], rotated -1])
  then show ?thesis unfolding st frfcfs_queue_def
    by (intro res_wp res_all_bind2 [of "legal rk h", OF _ res_all_prod])
      (auto simp: leg legal_bankTable)
qed

lemma serve_mapped_ok:
  assumes "serve mapped_key (remove_from i) r (s, e) = ok (b, st)" and "legal rk h (s, e)"
    and "well_mapped rk r"
  shows "legal rk h st"
  using res_allD [OF serve_preserves [OF assms(2,3) disjI1 [OF refl] remove_from_only] assms(1)] by simp

lemma serve_direct_ok:
  assumes "serve direct_key (remove_from i) r (s, e) = ok (b, st)" and "legal rk h (s, e)"
    and "well_mapped rk r"
  shows "legal rk h st"
  using res_allD [OF serve_preserves [OF assms(2,3) disjI2 [OF refl] remove_from_only] assms(1)] by simp

lemma serve_write_ok:
  assumes "serve mapped_key (pop_write_from j i) r (s, e) = ok (b, st)" and "legal rk h (s, e)"
    and "well_mapped rk r"
  shows "legal rk h st"
  using res_allD [OF serve_preserves [OF assms(2,3) disjI1 [OF refl] pop_write_from_only] assms(1)] by simp

lemma scheduleFR_ok:
  assumes "scheduleFR i s e = ok (p, e1)" and "legal rk h (s, e)"
  shows "legal rk h (s, e1)" and "p = Some r \<Longrightarrow> well_mapped rk r"
  using res_allD [OF scheduleFR_only [OF legal_queues [OF assms(2)]] assms(1)] assms(2)
  by (auto intro: legal_queue_only)

lemma get_general_ok:
  assumes "getRequest_general j q = ok (p, q')" and "queue_at i e = ok q" and "legal rk h (s, e)"
  shows "legal rk h (s, put_queue i q' e)" and "p = Some r \<Longrightarrow> well_mapped rk r"
  using getRequest_general_only [OF legal_queues [OF assms(3)] assms(2,1)] assms(3)
  by (auto intro: legal_queue_only)

lemma get_requestor_ok:
  assumes "getRequest_requestor n j q = ok (p, q')" and "queue_at i e = ok q" and "legal rk h (s, e)"
  shows "legal rk h (s, put_queue i q' e)" and "p = Some r \<Longrightarrow> well_mapped rk r"
  using getRequest_requestor_only [OF legal_queues [OF assms(3)] assms(2,1)] assms(3)
  by (auto intro: legal_queue_only)

lemma direct_requestors_legal:
  fixes st :: "direct_sched \<times> 'e sched_env_scheme"
  shows "legal rk h st \<Longrightarrow> res_all (legal rk h) (direct_requestors i ns st)"
proof (induction ns arbitrary: st)
  case Nil
  then show ?case by simp
next
  case (Cons n ns)
  obtain s e where st: "st = (s, e)" by (cases st)
  have leg: "legal rk h (s, e)" using Cons.prems st by simp
  let ?step = "\<lambda>ri q m. if m > 0
        then bind_res (getRequest_requestor (unat ri) 0 q) (\<lambda>(p, q1).
             bind_res (deref p) (\<lambda>r.
             bind_res (serve mapped_key (remove_from i) r (s, put_queue i q1 e)) (\<lambda>(b, s', e').
               ok (s'\<lparr>scheduledReq := p\<rparr>, e'))))
        else ok (s\<lparr>scheduledReq := None\<rparr>, e)"
  have served: "legal rk h (s'\<lparr>scheduledReq := x\<rparr>, e')"
    if "queue_at i e = ok q" "getRequest_requestor k 0 q = ok (Some r, q1)"
      "serve mapped_key (remove_from i) r (s, put_queue i q1 e) = ok (b, s', e')" for q k r q1 b s' e' x
    by (rule legal_bankTable [OF _ serve_mapped_ok [OF that(3) get_requestor_ok [OF that(2,1) leg]]])
      simp_all
  have step: "res_all (legal rk h) (?step ri q m)" if q: "queue_at i e = ok q" for ri q and m :: nat
    by (intro res_wp)
      (auto simp: res_simps intro: served [OF q] legal_bankTable [OF _ leg])
  have IH: "res_all (legal rk h) (direct_requestors i ns (s1\<lparr>directIndex := x\<rparr>, e1))"
    if "legal rk h (s1, e1)" for s1 :: direct_sched and e1 :: "'e sched_env_scheme" and x
    by (rule Cons.IH, rule legal_bankTable [OF _ that]) simp
  show ?case unfolding st direct_requestors.simps Let_def
    by (intro res_wp res_all_bind2 [of "legal rk h", OF step res_all_prod])
      (auto simp: IH elim: legal_bankTable [rotated])
qed

lemma direct_queue_legal:
  assumes "legal rk h st"
  shows "res_all (legal rk h) (direct_queue i st)"
proof -
  obtain s e where st: "st = (s, e)" by (cases st)
  have leg: "legal rk h (s, e)" using assms st by simp
  have served: "legal rk h (s'\<lparr>scheduledReq := x\<rparr>, e')"
    if "scheduleFR i s e = ok (Some r, e1)"
      "serve direct_key (remove_from i) r (s, e1) = ok (b, s', e')" for r e1 b s' e' x
    by (rule legal_bankTable [OF _ serve_direct_ok [OF that(2) scheduleFR_ok [OF that(1) leg]]])
      simp_all
  show ?thesis unfolding st direct_queue_def
    by (intro res_wp res_all_bind2 [of "legal rk h", OF _ res_all_prod])
      (auto simp: leg res_simps direct_requestors_legal intro: served legal_bankTable [OF _ leg]
        elim: legal_bankTable [rotated])
qed

lemma requestSchedule_FRFCFS_legal:
  "legal rk h st \<Longrightarrow> res_all (legal rk h) (requestSchedule_FRFCFS st)"
  unfolding requestSchedule_FRFCFS_def by (rule res_all_fold) (auto intro: frfcfs_queue_legal)

lemma requestSchedule_Direct_legal:
  "legal rk h st \<Longrightarrow> res_all (legal rk h) (requestSchedule_Direct st)"
  unfolding requestSchedule_Direct_def by (rule res_all_fold) (auto intro: direct_queue_legal)

lemma fcfs_find_frame:
  assumes "queue_ok rk q"
  shows "res_all (\<lambda>(q', s'). q' = q \<and> bankTable s' = bankTable s) (fcfs_find ns q s)"
proof (induction ns)
  case (Cons n ns)
  show ?case unfolding fcfs_find.simps
    by (intro res_wp Cons.IH) (auto dest: checkRequestIndex_inv [OF queue_okD [OF assms]])
qed simp

lemma fcfs_oldest_frame:
  assumes "queue_ok rk q"
  shows "res_all (\<lambda>(q', s'). q' = q \<and> bankTable s' = bankTable s) (fcfs_oldest ns q s)"
proof (induction ns arbitrary: s)
  case (Cons n ns)
  have IH: "res_all (\<lambda>(q', s'). q' = q \<and> bankTable s' = bankTable s) (fcfs_oldest ns q1 t)"
    if "checkRequestIndex n 0 q = ok (p, q1)" "bankTable t = bankTable s" for p q1 t
    using Cons.IH [of t] that checkRequestIndex_inv [OF queue_okD [OF assms] that(1)] by simp
  show ?case unfolding fcfs_oldest.simps
    by (intro res_wp Cons.IH) (auto intro: IH)
qed simp

lemma fcfs_queue_legal:
  assumes "legal rk h st"
  shows "res_all (legal rk h) (fcfs_queue i st)"
proof -
  obtain s e where st: "st = (s, e)" by (cases st)
  have leg: "legal rk h (s, e)" using assms st by simp
  let ?per = "\<lambda>q. bind_res (fcfs_find [0..<getQueueSize q] q s) (\<lambda>(q1, s1).
               bind_res (fcfs_oldest [0..<getQueueSize q] q1 s1) (\<lambda>(q2, s2).
               bind_res
                 (if checkRequest s2 \<noteq> None
                  then bind_res (getRequest_requestor (numIndex s2) 0 q2) (\<lambda>(p, q3).
                       bind_res (deref p) (\<lambda>r.
                       bind_res (serve mapped_key (remove_from i) r (s2, put_queue i q3 e))
                         (\<lambda>(b, st'). ok st')))
                  else ok (s2, put_queue i q2 e))
                 (\<lambda>(s3, e3). ok (s3\<lparr>scheduledReq := None\<rparr>, e3))))"
  have per: "res_all (legal rk h) (?per q)" if q: "queue_at i e = ok q" for q
  proof -
    have qok: "queue_ok rk q" by (rule queues_ok_at [OF legal_queues [OF leg] q])
    have served: "legal rk h st'"
      if "bankTable s2 = bankTable s" "getRequest_requestor n 0 q = ok (Some r, q3)"
        "serve mapped_key (remove_from i) r (s2, put_queue i q3 e) = ok (b, st')" for s2 n r q3 b st'
      by (rule serve_mapped_ok [OF that(3) get_requestor_ok [OF that(2) q legal_bankTable [OF that(1) leg]]])
        simp
    have put: "legal rk h (s2, put_queue i q e)" if "bankTable s2 = bankTable s" for s2
      by (rule legal_queue_only [OF legal_bankTable [OF that leg] queue_only_put [OF q]]) simp
    show ?thesis
      by (intro res_wp res_all_bind2 [of "legal rk h", OF _ res_all_prod])
        (auto simp: res_simps dest!: res_allD [OF fcfs_find_frame [OF qok]] res_allD [OF fcfs_oldest_frame [OF qok]]
          intro: served put elim: legal_bankTable [rotated])
  qed
  have served: "legal rk h st'"
    if "queue_at i e = ok q" "getRequest_general 0 q = ok (Some r, q1)"
      "serve mapped_key (remove_from i) r (s, put_queue i q1 e) = ok (b, st')" for q r q1 b st'
    by (rule serve_mapped_ok [OF that(3) get_general_ok [OF that(2,1) leg]]) simp
  have put: "legal rk h (s, put_queue i q1 e)"
    if "queue_at i e = ok q" "getRequest_general 0 q = ok (p, q1)" for q p q1
    by (rule get_general_ok [OF that(2,1) leg])
  show ?thesis unfolding st fcfs_queue_def
    by (simp only: prod.case, rule res_all_bind, rule res_all_if, erule per)
      (intro res_wp res_all_bind2 [of "legal rk h", OF _ res_all_prod];
       auto simp: leg intro: served put elim: legal_bankTable [rotated])
qed

lemma requestSchedule_FCFS_legal:
  assumes "legal rk h st"
  shows "res_all (legal rk h) (requestSchedule_FCFS st)"
proof -
  obtain s e where st: "st = (s, e)" by (cases st)
  have "legal rk h (s\<lparr>scheduledReq := None, checkRequest := None\<rparr>, e)"
    by (rule legal_bankTable [OF _ assms [unfolded st]]) simp
  then show ?thesis unfolding st requestSchedule_FCFS_def prod.case
    by (rule res_all_fold) (auto intro: fcfs_queue_legal)
qed

lemma bliss_account_bankTable: "res_all (\<lambda>s'. bankTable s' = bankTable s) (bliss_account pid s)"
  unfolding bliss_account_def by (intro res_wp) (auto split: if_splits)

lemma clear_marking_bankTable: "res_all (\<lambda>s'. bankTable s' = bankTable s) (clear_marking n s)"
  unfolding clear_marking_def by (intro res_wp) auto

lemma bliss_queue_legal:
  assumes "legal rk h st"
  shows "res_all (legal rk h) (bliss_queue h1 h2 i st)"
proof -
  obtain s e where st: "st = (s, e)" by (cases st)
  have leg: "legal rk h (s, e)" using assms st by simp
  have B: "legal rk h (s1, e1)" "p = Some r \<Longrightarrow> well_mapped rk r"
    if "scheduleBLISS h1 h2 i s e = ok (p, s1, e1)" for p s1 e1 r
    using res_allD [OF scheduleBLISS_only [OF legal_queues [OF leg]] that] leg
    by (auto intro: legal_queue_only legal_bankTable)
  have served: "legal rk h (s3\<lparr>scheduledReq := x\<rparr>, e3)"
    if "scheduleBLISS h1 h2 i s e = ok (Some r, s1, e1)" "bliss_account pid s1 = ok s2"
      "serve direct_key (remove_from i) r (s2, e1) = ok (b, s3, e3)" for r s1 e1 pid s2 b s3 e3 x
  proof -
    have "legal rk h (s2, e1)"
      by (rule legal_bankTable [OF res_allD [OF bliss_account_bankTable that(2)] B(1) [OF that(1)]])
    from serve_direct_ok [OF that(3) this B(2) [OF that(1)]] show ?thesis
      by (auto elim: legal_bankTable [rotated])
  qed
  show ?thesis unfolding st bliss_queue_def
    by (intro res_wp) (auto simp: leg intro: served legal_bankTable [OF _ B(1)])
qed

lemma requestSchedule_BLISS_legal:
  assumes "legal rk h st"
  shows "res_all (legal rk h) (requestSchedule_BLISS garbage nreq st)"
proof -
  obtain s e where st: "st = (s, e)" by (cases st)
  have leg: "legal rk h (s, e)" using assms st by simp
  have "res_all (legal rk h) (fold_res (\<lambda>i. bliss_queue (fst (garbage i)) (snd (garbage i)) i) is (s2, e))"
    if "bankTable s2 = bankTable s" for s2 "is"
    by (rule res_all_fold) (auto intro: bliss_queue_legal legal_bankTable [OF that leg])
  then show ?thesis unfolding st requestSchedule_BLISS_def
    by (intro res_wp) (auto split: if_splits dest!: res_allD [OF clear_marking_bankTable])
qed

lemma getWrite_ok:
  assumes "getWrite 0 w = ok r" and "queue_at i e = ok q" and "writeQueue q = Some w"
    and "legal rk h (s, e)"
  shows "well_mapped rk r"
proof -
  have q: "queue_ok rk q" by (rule queues_ok_at [OF legal_queues [OF assms(4)] assms(2)])
  have "r \<in> set (rq_lane q WriteLane)"
    using assms(1) by (auto simp: getWrite_def assms(3) res_simps)
  then show ?thesis by (rule queue_ok_lane [OF q])
qed

lemma batch_drain_legal:
  assumes "case st of (c, st') \<Rightarrow> legal rk h st'"
  shows "res_all (\<lambda>(c, st'). legal rk h st') (batch_drain i st)"
proof -
  obtain c s e where st: "st = (c, s, e)" by (metis surj_pair)
  have leg: "legal rk h (s, e)" using assms st by simp
  have mode: "legal rk h (s2, e2)" if "set_mode b e1 = ok e2" "legal rk h (s1, e1)" "bankTable s2 = bankTable s1"
    for b e1 e2 s1 s2
    by (rule legal_bankTable [OF that(3) legal_queue_only [OF that(2) res_allD [OF set_mode_only that(1)]]])
  have first: "res_all (legal rk h)
     (if highWatermark w then bind_res (set_mode True e) (\<lambda>e1. ok (s\<lparr>sch_sw := True\<rparr>, e1)) else ok (s, e))" for w
    by (intro res_wp) (auto simp: leg intro: mode [OF _ leg])
  have served: "legal rk h st'" if "queue_at i e = ok q" "writeQueue q = Some w" "getWrite 0 w = ok r"
      "legal rk h (s1, e1)" "serve mapped_key (pop_write_from i 0) r (s1, e1) = ok (b, st')"
    for q w r s1 e1 b st'
    by (rule serve_write_ok [OF that(5,4) getWrite_ok [OF that(3,1,2) leg]])
  show ?thesis unfolding st batch_drain_def
    by (intro res_wp) (auto simp: leg intro: served mode dest!: res_allD [OF first])
qed

lemma batch_read_legal:
  assumes "case st of (c, st') \<Rightarrow> legal rk h st'"
  shows "res_all (\<lambda>(c, st'). legal rk h st') (batch_read ij st)"
proof -
  obtain c s e where st: "st = (c, s, e)" by (metis surj_pair)
  have leg: "legal rk h (s, e)" using assms st by simp
  have served: "legal rk h st'"
    if "scheduleFR i s e = ok (Some r, e1)" "serve mapped_key (remove_from i) r (s, e1) = ok (b, st')"
    for i r e1 b st'
    by (rule serve_mapped_ok [OF that(2) scheduleFR_ok [OF that(1) leg]]) simp
  show ?thesis unfolding st batch_read_def
    by (intro res_wp) (auto simp: leg intro: served scheduleFR_ok [OF _ leg])
qed

lemma requestSchedule_BATCHING_legal:
  fixes st :: "'a req_sched_scheme \<times> 'e sched_env_scheme"
  assumes "legal rk h st"
  shows "res_all (legal rk h) (requestSchedule_FRFCFS_BATCHING st)"
proof -
  obtain s e where st: "st = (s, e)" by (cases st)
  let ?L = "\<lambda>(c :: bool, st). legal rk h st"
  have leg: "legal rk h (s, e)" using assms st by simp
  have D: "res_all ?L (fold_res batch_drain is (True, s, e))" for "is"
    by (rule res_all_fold) (use leg in \<open>auto intro: batch_drain_legal\<close>)
  have R: "res_all ?L (fold_res batch_read is (True, s1, e1))" if "legal rk h (s1, e1)"
    for s1 :: "'a req_sched_scheme" and e1 :: "'e sched_env_scheme" and "is"
    by (rule res_all_fold) (use that in \<open>auto intro: batch_read_legal\<close>)
  have served: "legal rk h st'"
    if "queue_at 0 e2 = ok q" "writeQueue q = Some w" "getWrite 0 w = ok r" "legal rk h (s2, e2)"
      "serve mapped_key (pop_write_from 0 0) r (s2, e2) = ok (b, st')"
    for q w r b st' and s2 :: "'a req_sched_scheme" and e2 :: "'e sched_env_scheme"
    by (rule serve_write_ok [OF that(5,4) getWrite_ok [OF that(3,1,2,4)]])
  have W: "res_all ?L (if c then fold_res batch_drain is (True, s, e) else ok (True, s, e))" for c "is"
    using D leg by simp
  have V: "res_all ?L (if c then fold_res batch_read is (True, s1, e1) else ok (True, s1, e1))"
    if "?L (c', s1, e1)" for c c' and s1 :: "'a req_sched_scheme" and e1 :: "'e sched_env_scheme" and "is"
    using R that by simp
  have F: "res_all (legal rk h) (if c then bind_res (queue_at 0 e2) (\<lambda>q.
                       with_writeQueue q (\<lambda>w.
                         if wq_bufferSize w \<noteq> 0
                         then bind_res (getWrite 0 w) (\<lambda>r.
                              bind_res (serve mapped_key (pop_write_from 0 0) r (s2, e2)) (\<lambda>(b, st'). ok st'))
                         else ok (s2, e2)))
                else ok (s2, e2))" if "?L (c', s2, e2)" for c c' and s2 :: "'a req_sched_scheme" and e2 :: "'e sched_env_scheme"
    using that unfolding with_writeQueue_def by (intro res_wp) (auto intro: served)
  show ?thesis unfolding st requestSchedule_FRFCFS_BATCHING_def prod.case Let_def
    by (intro res_all_bind [of "writeEnable 0 e"] res_all_bind2 [OF W] res_all_bind2 [OF V]
        res_all_bind2 [OF F] res_all_prod)
      (auto elim: legal_bankTable [rotated])
qed

section \<open>The front end as a transition system\<close>

text \<open>
  The controller's front end with an arbitrary request scheduler: requests arrive in the
  queues, the scheduler runs, and the controller takes commands out of the generator's
  buffer. \<open>h\<close> is the sequence of commands taken out so far.
\<close>

inductive front_end ::
  "('a req_sched_scheme \<times> 'e sched_env_scheme \<Rightarrow> ('a req_sched_scheme \<times> 'e sched_env_scheme) res)
     \<Rightarrow> u32 \<Rightarrow> packet list \<Rightarrow> 'a req_sched_scheme \<times> 'e sched_env_scheme \<Rightarrow> bool"
  for schedule and rk where
  start: "bankTable s = Map.empty \<Longrightarrow> generatorKind e = Gen_Open \<Longrightarrow>
     commandGenerator e = new_CommandGenerator bus \<Longrightarrow> bus \<noteq> 0 \<Longrightarrow>
     (\<And>q. q \<in> set (requestQueue e) \<Longrightarrow> \<exists>p w. q = new_RequestQueue p w) \<Longrightarrow>
     front_end schedule rk [] (s, e)"
| arrive: "front_end schedule rk h (s, e) \<Longrightarrow> queue_at i e = ok q \<Longrightarrow> well_mapped rk r \<Longrightarrow>
     insertRequest r q = ok q' \<Longrightarrow> front_end schedule rk h (s, put_queue i q' e)"
| schedule: "front_end schedule rk h st \<Longrightarrow> schedule st = ok st' \<Longrightarrow> front_end schedule rk h st'"
| take: "front_end schedule rk h (s, e) \<Longrightarrow> getCommand (commandGenerator e) = ok p \<Longrightarrow>
     gen_removeCommand (commandGenerator e) = ok g \<Longrightarrow>
     front_end schedule rk (h @ [p]) (s, e\<lparr>commandGenerator := g\<rparr>)"

inductive_cases front_endE: "front_end schedule rk h st"

locale open_page_scheduler =
  fixes schedule ::
    "'a req_sched_scheme \<times> 'e sched_env_scheme \<Rightarrow> ('a req_sched_scheme \<times> 'e sched_env_scheme) res"
  assumes keeps: "legal rk h st \<Longrightarrow> res_all (legal rk h) (schedule st)"
begin

lemma front_end_legal: "front_end schedule rk h st \<Longrightarrow> legal rk h st"
proof (induction rule: front_end.induct)
  case (start s e bus)
  have fresh: "queue_ok rk (new_RequestQueue p w)" for p w
  proof -
    have "rq_lane (new_RequestQueue p w) k = []" for k
      by (cases k) (simp_all add: new_RequestQueue_def setWriteMode_def new_WriteQueue_def)
    then show ?thesis by (simp add: queue_ok_def rq_inv_new)
  qed
  have "queues_ok rk e" unfolding queues_ok_def using start(5) fresh by fast
  moreover have "page_inv rk (commandGenerator e) Map.empty"
    using page_inv_new [OF start(4)] start(3) by simp
  ultimately show ?case using start(1,2)
    by (auto simp: legal_def start(3) table_agrees_def new_CommandGenerator_def)
next
  case (arrive h s e i q r q')
  have "queue_ok rk q'" if "queue_ok rk q"
    using rq_inv_insert [OF queue_okD [OF that] arrive.hyps(4)] that arrive.hyps(3)
      rq.insert_lane [OF queue_okD [OF that] arrive.hyps(4)]
    by (auto simp: queue_ok_def)
  then show ?case
    by (rule legal_queue_only [OF arrive.IH queue_only_put [OF arrive.hyps(2)]])
next
  case (schedule h st st')
  show ?case by (rule res_allD [OF keeps [OF schedule.IH] schedule.hyps(2)])
next
  case (take h s e p g)
  let ?b = "commandBuffer (commandGenerator e)"
  have b: "?b = p # tl ?b" and g: "g = (commandGenerator e)\<lparr>commandBuffer := tl ?b\<rparr>"
    using take.hyps(2,3) by (cases ?b; auto simp: getCommand_def gen_removeCommand_def res_simps)+
  have f: "page_inv rk g rows = page_inv rk (commandGenerator e) rows" for rows
    by (simp add: g page_inv_def)
  have h: "(h @ [p]) @ commandBuffer g = h @ ?b" by (subst b) (simp add: g)
  from take.IH show ?case unfolding legal_def snd_conv fst_conv
    by (simp add: f h queues_ok_def del: run_rows_append append_assoc)
qed

lemma front_end_stream: "front_end schedule rk h st \<Longrightarrow> run_rows h Map.empty \<noteq> None"
  by (drule front_end_legal) (auto simp: legal_def bind_eq_Some_conv)

end

interpretation fe_frfcfs: open_page_scheduler requestSchedule_FRFCFS
  by unfold_locales (rule requestSchedule_FRFCFS_legal)

interpretation fe_direct: open_page_scheduler requestSchedule_Direct
  by unfold_locales (rule requestSchedule_Direct_legal)

interpretation fe_fcfs: open_page_scheduler requestSchedule_FCFS
  by unfold_locales (rule requestSchedule_FCFS_legal)

interpretation fe_bliss: open_page_scheduler "requestSchedule_BLISS garbage nreq" for garbage nreq
  by unfold_locales (rule requestSchedule_BLISS_legal)

interpretation fe_batching: open_page_scheduler requestSchedule_FRFCFS_BATCHING
  by unfold_locales (rule requestSchedule_BATCHING_legal)

section \<open>FR-FCFS: the choice and its progress\<close>

text \<open>
  The index the first-ready loop settles on: the oldest request whose row is open, or the
  oldest request.
\<close>

definition fr_index :: "u32 \<Rightarrow> row_state \<Rightarrow> request list \<Rightarrow> nat" where
  "fr_index rk rows rs =
     (case first_index (\<lambda>r. rows (rk, bank r) = Some (row r)) rs of None \<Rightarrow> 0 | Some i \<Rightarrow> i)"

lemma fr_index_less: "rs \<noteq> [] \<Longrightarrow> fr_index rk rows rs < length rs"
  by (auto simp: fr_index_def first_index_Some_iff split: option.splits)

lemma scheduleFR_loop_choice:
  assumes "queue_ok rk q" and tab: "table_agrees rk (bankTable s) rows" and "generalBuffer q \<noteq> []"
    and "n \<le> length (generalBuffer q)"
  shows "scheduleFR_loop s [n..<length (generalBuffer q)] q =
     getRequest_general
       (case first_index (\<lambda>r. rows (rk, bank r) = Some (row r)) (drop n (generalBuffer q)) of
          None \<Rightarrow> 0 | Some i \<Rightarrow> n + i) q"
  using assms(4)
proof (induction "length (generalBuffer q) - n" arbitrary: n)
  case 0
  then show ?case by simp
next
  case (Suc k)
  then have n: "n < length (generalBuffer q)" by simp
  let ?r = "generalBuffer q ! n"
  have "?r \<in> set (rq_lane q GeneralLane)" using n by simp
  then have "well_mapped rk ?r" by (rule queue_ok_lane [OF assms(1)])
  then have hit: "isRowHit ?r s = ok (rows (rk, bank ?r) = Some (row ?r))"
    by (rule isRowHit_agrees [OF tab])
  have IH: "scheduleFR_loop s [Suc n..<length (generalBuffer q)] q =
     getRequest_general (case first_index (\<lambda>r. rows (rk, bank r) = Some (row r)) (drop (Suc n) (generalBuffer q)) of
          None \<Rightarrow> 0 | Some i \<Rightarrow> Suc n + i) q"
    by (rule Suc.hyps(1)) (use Suc.hyps(2) n in auto)
  have "[n..<length (generalBuffer q)] = n # [Suc n..<length (generalBuffer q)]"
    using n by (rule upt_conv_Cons)
  moreover have "drop n (generalBuffer q) = ?r # drop (Suc n) (generalBuffer q)"
    using n by (rule Cons_nth_drop_Suc [symmetric])
  ultimately show ?case using n assms(3)
    by (simp add: getRequestCheck_def hit IH split: option.splits)
qed

lemma scheduleFR_choice:
  assumes "legal rk h (s, e)" and "table_agrees rk (bankTable s) rows" and q: "queue_at i e = ok q"
    and ne: "generalBuffer q \<noteq> []"
  shows "scheduleFR i s e =
     ok (Some (generalBuffer q ! fr_index rk rows (generalBuffer q)),
         put_queue i (q\<lparr>scheduledRequest := (False, (0, fr_index rk rows (generalBuffer q)))\<rparr>) e)"
proof -
  have "queue_ok rk q" by (rule queues_ok_at [OF legal_queues [OF assms(1)] q])
  from scheduleFR_loop_choice [OF this assms(2) ne, of 0]
  have "scheduleFR_loop s [0..<length (generalBuffer q)] q
      = getRequest_general (fr_index rk rows (generalBuffer q)) q"
    by (simp add: fr_index_def cong: option.case_cong)
  with fr_index_less [OF ne, of rk rows] q ne show ?thesis
    by (simp add: scheduleFR_def getSize_def getRequest_general_def)
qed

definition backlog :: "'e sched_env_scheme \<Rightarrow> nat list" where
  "backlog e = map (\<lambda>q. length (generalBuffer q)) (requestQueue e)"

lemma frfcfs_queue_progress:
  assumes leg: "legal rk h (s, e)" and i: "i < length (requestQueue e)"
  shows "\<exists>s' e'. frfcfs_queue i (s, e) = ok (s', e') \<and> legal rk h (s', e')
           \<and> backlog e' = (backlog e)[i := backlog e ! i - 1]"
proof -
  let ?q = "requestQueue e ! i"
  have q: "queue_at i e = ok ?q" using i by (simp add: queue_at_def)
  show ?thesis
  proof (cases "generalBuffer ?q = []")
    case True
    then have "frfcfs_queue i (s, e) = ok (s\<lparr>scheduledReq := None\<rparr>, e)"
      by (simp add: frfcfs_queue_def q getSize_def)
    moreover have "legal rk h (s\<lparr>scheduledReq := None\<rparr>, e)" by (rule legal_bankTable [OF _ leg]) simp
    moreover have "backlog e ! i = 0" using i True by (simp add: backlog_def)
    then have "backlog e = (backlog e)[i := backlog e ! i - 1]"
      by (metis diff_0_eq_0 list_update_id)
    ultimately show ?thesis by metis
  next
    case False
    obtain rows where tab: "table_agrees rk (bankTable s) rows" using leg by (auto simp: legal_def)
    let ?k = "fr_index rk rows (generalBuffer ?q)" and ?r = "generalBuffer ?q ! fr_index rk rows (generalBuffer ?q)"
    let ?q1 = "?q\<lparr>scheduledRequest := (False, (0, ?k))\<rparr>"
    let ?e1 = "put_queue i ?q1 e"
    have FR: "scheduleFR i s e = ok (Some ?r, ?e1)" by (rule scheduleFR_choice [OF leg tab q False])
    have leg1: "legal rk h (s, ?e1)" and wm: "well_mapped rk ?r" using scheduleFR_ok [OF FR leg] by simp_all
    obtain g where
      g: "serve mapped_key (remove_from i) ?r (s, ?e1) =
          bind_res (remove_from i (?e1\<lparr>commandGenerator := g\<rparr>))
            (\<lambda>e2. ok (True, updateRowTable rk (bank ?r) (row ?r) s, e2))"
      and leg2: "legal rk h (updateRowTable rk (bank ?r) (row ?r) s, ?e1\<lparr>commandGenerator := g\<rparr>)"
      using serve_legal [where key = mapped_key and r = ?r, OF leg1 wm mapped_key_ok [OF wm], of "remove_from i"]
      by blast
    let ?q2 = "?q1\<lparr>generalBuffer := erase_at ?k (generalBuffer ?q)\<rparr>"
    let ?e2 = "put_queue i ?q2 (?e1\<lparr>commandGenerator := g\<rparr>)"
    have rem: "remove_from i (?e1\<lparr>commandGenerator := g\<rparr>) = ok ?e2"
      using i fr_index_less [OF False, of rk rows]
      by (simp add: remove_from_def queue_at_def put_queue_def removeRequest_def)
    have "frfcfs_queue i (s, e) = ok ((updateRowTable rk (bank ?r) (row ?r) s)\<lparr>scheduledReq := None\<rparr>, ?e2)"
      using False by (simp add: frfcfs_queue_def q getSize_def FR g rem)
    moreover have "legal rk h ((updateRowTable rk (bank ?r) (row ?r) s)\<lparr>scheduledReq := None\<rparr>, ?e2)"
      by (rule legal_bankTable [OF _ legal_queue_only [OF leg2 res_allD [OF remove_from_only rem]]]) simp
    moreover have "backlog ?e2 = (backlog e)[i := backlog e ! i - 1]"
      using i fr_index_less [OF False, of rk rows]
      by (simp add: backlog_def put_queue_def map_update)
    ultimately show ?thesis by blast
  qed
qed

lemma frfcfs_fold_progress:
  assumes "legal rk h (s, e)" and "m \<le> length (requestQueue e)"
  shows "\<exists>s' e'. fold_res frfcfs_queue [0..<m] (s, e) = ok (s', e') \<and> legal rk h (s', e')
           \<and> backlog e' = map (\<lambda>n. n - 1) (take m (backlog e)) @ drop m (backlog e)"
  using assms(2)
proof (induction m)
  case 0
  with assms(1) show ?case by simp
next
  case (Suc m)
  then obtain s1 e1 where st1: "fold_res frfcfs_queue [0..<m] (s, e) = ok (s1, e1)" "legal rk h (s1, e1)"
    and b1: "backlog e1 = map (\<lambda>n. n - 1) (take m (backlog e)) @ drop m (backlog e)" by auto
  from b1 Suc.prems have len: "length (requestQueue e1) = length (requestQueue e)"
    by (metis add_diff_inverse_nat backlog_def length_append length_drop length_map length_take
        min.absorb4 not_less_eq_eq order_less_imp_not_less Suc_le_lessD)
  with Suc.prems have m: "m < length (requestQueue e1)" by simp
  from frfcfs_queue_progress [OF st1(2) m] obtain s2 e2 where
    st2: "frfcfs_queue m (s1, e1) = ok (s2, e2)" "legal rk h (s2, e2)"
    and b2: "backlog e2 = (backlog e1)[m := backlog e1 ! m - 1]" by blast
  have lb: "m < length (backlog e)" using Suc.prems by (simp add: backlog_def)
  have "backlog e2 = map (\<lambda>n. n - 1) (take (Suc m) (backlog e)) @ drop (Suc m) (backlog e)"
    using lb
    by (simp add: b2 b1 take_Suc_conv_app_nth nth_append list_update_append
        Cons_nth_drop_Suc [symmetric] del: Cons_nth_drop_Suc)
  with st1 st2 show ?case by (simp add: fold_res_append)
qed

section \<open>Properties\<close>

text \<open>
  (C6) With the open-page generator on one rank of at most eight banks, every sequence of
  commands that leaves the front end obeys the row-buffer protocol of the device: no bank is
  activated while a row is open in it, none is precharged while closed, and every read and
  write goes to the row that is open. This holds for any interleaving of arrivals, scheduling
  rounds and removals, and for each of the schedulers FR-FCFS, direct, FCFS, BLISS (whatever
  its uninitialised variables hold) and FR-FCFS with write batching.
\<close>

theorem open_page_commands_legal:
  "(front_end requestSchedule_FRFCFS rk h1 st1 \<longrightarrow> run_rows h1 Map.empty \<noteq> None)
   \<and> (front_end requestSchedule_Direct rk h2 st2 \<longrightarrow> run_rows h2 Map.empty \<noteq> None)
   \<and> (front_end requestSchedule_FCFS rk h3 st3 \<longrightarrow> run_rows h3 Map.empty \<noteq> None)
   \<and> (front_end (requestSchedule_BLISS garbage nreq) rk h4 st4 \<longrightarrow> run_rows h4 Map.empty \<noteq> None)
   \<and> (front_end requestSchedule_FRFCFS_BATCHING rk h5 st5 \<longrightarrow> run_rows h5 Map.empty \<noteq> None)"
  using fe_frfcfs.front_end_stream fe_direct.front_end_stream fe_fcfs.front_end_stream
    fe_bliss.front_end_stream fe_batching.front_end_stream by blast

text \<open>
  (C8) FR-FCFS always makes progress: from every state the front end can be in, a scheduling
  round returns (no abort, no failed access), leaves the open-page agreement intact, and takes
  exactly one request out of every non-empty general queue.
\<close>

theorem frfcfs_progress:
  assumes "legal rk h (s, e)"
  shows "\<exists>s' e'. requestSchedule_FRFCFS (s, e) = ok (s', e') \<and> legal rk h (s', e')
           \<and> map (\<lambda>q. length (generalBuffer q)) (requestQueue e')
               = map (\<lambda>q. length (generalBuffer q) - 1) (requestQueue e)"
proof -
  have "length (backlog e) = length (requestQueue e)" by (simp add: backlog_def)
  with frfcfs_fold_progress [OF assms, of "length (requestQueue e)"] obtain s' e' where
    "requestSchedule_FRFCFS (s, e) = ok (s', e')" "legal rk h (s', e')"
    "backlog e' = map (\<lambda>n. n - 1) (backlog e)"
    by (auto simp: requestSchedule_FRFCFS_def)
  then show ?thesis by (auto simp: backlog_def)
qed

text \<open>
  (C10) FR-FCFS selection: the request taken from a non-empty general buffer is the oldest one
  whose row is open in the scheduler's row table, and the oldest of all when no row is open.
\<close>

theorem frfcfs_picks_first_ready:
  assumes "legal rk h (s, e)" and "queue_at i e = ok q" and "generalBuffer q \<noteq> []"
  shows "\<exists>k e'. scheduleFR i s e = ok (Some (generalBuffer q ! k), e') \<and> k < length (generalBuffer q)
           \<and> (isRowHit (generalBuffer q ! k) s = ok True \<and> (\<forall>j < k. isRowHit (generalBuffer q ! j) s = ok False)
              \<or> k = 0 \<and> (\<forall>j < length (generalBuffer q). isRowHit (generalBuffer q ! j) s = ok False))"
proof -
  obtain rows where tab: "table_agrees rk (bankTable s) rows" using assms(1) by (auto simp: legal_def)
  let ?P = "\<lambda>r. rows (rk, bank r) = Some (row r)" and ?b = "generalBuffer q"
  have qok: "queue_ok rk q" by (rule queues_ok_at [OF legal_queues [OF assms(1)] assms(2)])
  have hit: "isRowHit (?b ! j) s = ok (?P (?b ! j))" if "j < length ?b" for j
    by (rule isRowHit_agrees [OF tab queue_ok_lane [OF qok, of _ GeneralLane]]) (use that in simp)
  have k: "fr_index rk rows ?b < length ?b" by (rule fr_index_less [OF assms(3)])
  have "isRowHit (?b ! fr_index rk rows ?b) s = ok True \<and> (\<forall>j < fr_index rk rows ?b. isRowHit (?b ! j) s = ok False)
      \<or> fr_index rk rows ?b = 0 \<and> (\<forall>j < length ?b. isRowHit (?b ! j) s = ok False)"
  proof (cases "first_index ?P ?b")
    case None
    then have "fr_index rk rows ?b = 0" by (simp add: fr_index_def)
    with None hit show ?thesis by (auto simp: first_index_None_iff)
  next
    case (Some m)
    then have "fr_index rk rows ?b = m" by (simp add: fr_index_def)
    with Some hit show ?thesis by (auto simp: first_index_Some_iff)
  qed
  with k scheduleFR_choice [OF assms(1) tab assms(2,3)] show ?thesis by blast
qed

text \<open>A concrete front end with one general queue and a 64-byte bus.\<close>

definition sample_sched :: req_sched where
  "sample_sched =
     \<lparr>clockCycle = 1, bankTable = Map.empty, switch_enable = False, scheduledReq = None,
      checkRequest = None, req1 = None, req2 = None, sch_id = 0, blacklist = replicate 36 0,
      sch_flag = False, sch_sw = False\<rparr>"

definition sample_env :: sched_env where
  "sample_env =
     \<lparr>requestQueue = [new_RequestQueue False False], commandQueue = [new_CommandQueue False],
      requestorCriticalTable = [5 \<mapsto> True], generatorKind = Gen_Open,
      commandGenerator = new_CommandGenerator 64\<rparr>"

definition sample_loaded :: sched_env where
  "sample_loaded =
     put_queue 0 ((new_RequestQueue False False)\<lparr>generalBuffer := [sample_request]\<rparr>) sample_env"

lemma sample_front_end: "front_end schedule 0 [] (sample_sched, sample_env)"
  by (rule front_end.start [where bus = 64]) (auto simp: sample_sched_def sample_env_def)

lemma sample_front_end_loaded: "front_end schedule 0 [] (sample_sched, sample_loaded)"
proof -
  have "insertRequest sample_request (new_RequestQueue False False)
      = ok ((new_RequestQueue False False)\<lparr>generalBuffer := [sample_request]\<rparr>)"
    by (simp add: insertRequest_def new_RequestQueue_def setWriteMode_def)
  then show ?thesis unfolding sample_loaded_def
    by (rule front_end.arrive [OF sample_front_end, rotated 2])
      (simp_all add: queue_at_def sample_env_def well_mapped_def sample_request_def)
qed

lemma sample_legal: "legal 0 [] (sample_sched, sample_loaded)"
  by (rule fe_frfcfs.front_end_legal [OF sample_front_end_loaded])

theorem open_page_commands_legal_witness:
  "\<exists>h. map busPacketType h = [ACT] \<and> run_rows h Map.empty \<noteq> None"
proof -
  obtain s e where st: "requestSchedule_FRFCFS (sample_sched, sample_loaded) = ok (s, e)"
    and g: "map busPacketType (commandBuffer (commandGenerator e)) = [ACT, RD]"
    by (simp add: requestSchedule_FRFCFS_def sample_loaded_def sample_env_def put_queue_def
        frfcfs_queue_def queue_at_def getSize_def new_RequestQueue_def setWriteMode_def scheduleFR_def
        getRequestCheck_def isRowHit_def sample_sched_def sample_request_def getRequest_general_def
        serve_def isSchedulable_def commandGenerate_Open_def div_res_def new_CommandGenerator_def
        push_def new_BusPacket_def mapped_key_def remove_from_def removeRequest_def)
  obtain p ps where b: "commandBuffer (commandGenerator e) = p # ps" "busPacketType p = ACT"
    using g by (cases "commandBuffer (commandGenerator e)") auto
  have "front_end requestSchedule_FRFCFS 0 ([] @ [p])
      (s, e\<lparr>commandGenerator := (commandGenerator e)\<lparr>commandBuffer := ps\<rparr>\<rparr>)"
    by (rule front_end.take [OF front_end.schedule [OF sample_front_end_loaded [of requestSchedule_FRFCFS] st]])
      (simp_all add: getCommand_def gen_removeCommand_def b)
  then have "run_rows ([] @ [p]) Map.empty \<noteq> None"
    by (rule conjunct1 [OF open_page_commands_legal, rule_format])
  with b show ?thesis by (intro exI [of _ "[p]"]) simp
qed

theorem frfcfs_progress_witness:
  "\<exists>s' e'. requestSchedule_FRFCFS (sample_sched, sample_loaded) = ok (s', e')
      \<and> map (\<lambda>q. length (generalBuffer q)) (requestQueue e') = [0]"
  using frfcfs_progress [OF sample_legal]
  by (auto simp: sample_loaded_def sample_env_def put_queue_def)

theorem frfcfs_picks_first_ready_witness:
  "\<exists>e'. scheduleFR 0 sample_sched sample_loaded = ok (Some sample_request, e')"
  using frfcfs_picks_first_ready [OF sample_legal, of 0
      "(new_RequestQueue False False)\<lparr>generalBuffer := [sample_request]\<rparr>"]
  by (auto simp: queue_at_def sample_loaded_def sample_env_def put_queue_def)

end
