(* ===== verification/RequestInterface.thy ===== *)
theory RequestInterface
  imports OpenPage
begin

text \<open>
  What the controller relies on in a request scheduler, as a locale: \<^verbatim>\<open>requestSchedule\<close> touches the
  request queues and appends the commands of some requests to the generator's buffer, and leaves
  the command queues, the criticality table and the number of queues alone. Every request
  scheduler of the development interprets the locale.
\<close>

definition generates :: "'e sched_env_scheme \<Rightarrow> 'e sched_env_scheme \<Rightarrow> bool" where
  "generates e e' \<longleftrightarrow>
     commandQueue e' = commandQueue e \<and> requestorCriticalTable e' = requestorCriticalTable e
   \<and> generatorKind e' = generatorKind e \<and> length (requestQueue e') = length (requestQueue e)
   \<and> (\<exists>xs. fold_res (gen_step (commandGenerate (generatorKind e) (requestorCriticalTable e))) xs (commandGenerator e)
            = ok (commandGenerator e'))"

lemma generates_refl [simp]: "generates e e"
  by (auto simp: generates_def intro: exI [of _ "[]"])

lemma generates_put [simp]:
  "generates e (put_queue i q e') = generates e e'" "generates (put_queue i q e) e' = generates e e'"
  by (simp_all add: generates_def)

lemma generates_trans: "generates e e1 \<Longrightarrow> generates e1 e2 \<Longrightarrow> generates e e2"
proof -
  assume 1: "generates e e1" and 2: "generates e1 e2"
  let ?g = "gen_step (commandGenerate (generatorKind e) (requestorCriticalTable e))"
  from 1 2 obtain xs ys where "fold_res ?g xs (commandGenerator e) = ok (commandGenerator e1)"
    "fold_res ?g ys (commandGenerator e1) = ok (commandGenerator e2)" by (auto simp: generates_def)
  then have "fold_res ?g (xs @ ys) (commandGenerator e) = ok (commandGenerator e2)" by (simp add: fold_res_append)
  then show ?thesis using 1 2 by (auto simp: generates_def)
qed

text \<open>The operations the schedulers are composed of.\<close>

lemma isSchedulable_generates: "isSchedulable r opn e = ok (b, e') \<Longrightarrow> generates e e'"
  by (auto simp: isSchedulable_def generates_def gen_step_def res_simps intro!: exI [of _ "[(r, opn)]"])

lemma remove_from_generates: "remove_from i e = ok e' \<Longrightarrow> generates e e'"
  by (auto simp: remove_from_def res_simps)

lemma pop_write_from_generates: "pop_write_from j i e = ok e' \<Longrightarrow> generates e e'"
  by (auto simp: pop_write_from_def with_writeQueue_def res_simps split: option.splits)

lemma set_mode_generates: "set_mode b e = ok e' \<Longrightarrow> generates e e'"
  by (auto simp: set_mode_def res_simps)

lemma scheduleFR_generates: "scheduleFR i s e = ok (p, e') \<Longrightarrow> generates e e'"
  by (auto simp: scheduleFR_def res_simps)

lemma scheduleBLISS_generates: "scheduleBLISS h1 h2 i s e = ok (p, s', e') \<Longrightarrow> generates e e'"
  by (auto simp: scheduleBLISS_def Let_def res_simps split: if_splits)

lemma serve_generates:
  assumes "serve key remove r (s, e) = ok (b, s', e')" and "\<And>e1 e2. remove e1 = ok e2 \<Longrightarrow> generates e1 e2"
  shows "generates e e'"
  using assms(1)
  by (auto simp: serve_def res_simps split: if_splits
      dest!: isSchedulable_generates assms(2) intro: generates_trans)

lemmas serve_remove_generates = serve_generates [OF _ remove_from_generates]
  and serve_write_generates = serve_generates [OF _ pop_write_from_generates]

section \<open>The interface\<close>

locale request_scheduler =
  fixes schedule ::
    "'a req_sched_scheme \<times> 'e sched_env_scheme \<Rightarrow> ('a req_sched_scheme \<times> 'e sched_env_scheme) res"
  assumes schedule_generates: "schedule (s, e) = ok (s', e') \<Longrightarrow> generates e e'"
begin

text \<open>New commands are tagged with their requests and come after the commands already buffered.\<close>

lemma schedule_appends:
  assumes "schedule (s, e) = ok (s', e')"
  shows "\<exists>ps. commandBuffer (commandGenerator e') = commandBuffer (commandGenerator e) @ ps
       \<and> (\<forall>p \<in> set ps. \<exists>r. tagged r p)"
proof -
  from schedule_generates [OF assms] obtain xs where
    xs: "fold_res (gen_step (commandGenerate (generatorKind e) (requestorCriticalTable e))) xs (commandGenerator e)
           = ok (commandGenerator e')" by (auto simp: generates_def)
  from gen_any.gen_sequence [OF xs] obtain pss where
    pss: "commandBuffer (commandGenerator e') = commandBuffer (commandGenerator e) @ concat pss"
      "list_all2 (\<lambda>x ps. \<forall>p \<in> set ps. tagged (fst x) p) xs pss" by blast
  then have "\<exists>r. tagged r p" if "p \<in> set (concat pss)" for p
    using that by (fastforce simp: list_all2_conv_all_nth in_set_conv_nth)
  with pss(1) show ?thesis by blast
qed

lemma schedule_frame:
  assumes "schedule (s, e) = ok (s', e')"
  shows "commandQueue e' = commandQueue e" "requestorCriticalTable e' = requestorCriticalTable e"
    "generatorKind e' = generatorKind e" "length (requestQueue e') = length (requestQueue e)"
  using schedule_generates [OF assms] by (simp_all add: generates_def)

end

section \<open>The schedulers\<close>

definition reach_env :: "'e sched_env_scheme \<Rightarrow> 'a \<times> 'e sched_env_scheme \<Rightarrow> bool" where
  "reach_env e = (\<lambda>(s', e'). generates e e')"

lemma reach_env_pair [simp]: "reach_env e (s', e') = generates e e'"
  by (simp add: reach_env_def)

lemma frfcfs_queue_generates: "generates e0 (snd st) \<Longrightarrow> res_all (reach_env e0) (frfcfs_queue i st)"
  unfolding frfcfs_queue_def
  by (cases st) (force simp: res_all_def res_simps split: if_splits option.splits
      dest: scheduleFR_generates serve_remove_generates intro: generates_trans)

lemmas generates_intros = scheduleFR_generates scheduleBLISS_generates isSchedulable_generates remove_from_generates
  pop_write_from_generates set_mode_generates serve_remove_generates serve_write_generates

lemmas generates_to = generates_intros [THEN generates_trans [rotated]] generates_put(1) [THEN iffD2]

lemma requestSchedule_FRFCFS_generates:
  "requestSchedule_FRFCFS (s, e) = ok (s', e') \<Longrightarrow> generates e e'"
proof -
  have "res_all (reach_env e) (requestSchedule_FRFCFS (s, e))"
    unfolding requestSchedule_FRFCFS_def by (rule res_all_fold) (auto intro: frfcfs_queue_generates)
  then show "requestSchedule_FRFCFS (s, e) = ok (s', e') \<Longrightarrow> generates e e'" by (simp add: res_all_def)
qed

lemma direct_requestors_generates:
  "generates e0 (snd st) \<Longrightarrow> res_all (reach_env e0) (direct_requestors i ns st)"
proof (induction ns arbitrary: st)
  case (Cons n ns)
  obtain s e where st: "st = (s, e)" by (cases st)
  have g: "generates e0 e" using Cons.prems st by simp
  have IH: "res_all (reach_env e0) (direct_requestors i ns (t, e1))" if "generates e0 e1" for t e1
    by (rule Cons.IH) (simp add: that)
  have step: "res_all (reach_env e0) (if m > 0
        then bind_res (getRequest_requestor (unat ri) 0 q) (\<lambda>(p, q1).
             bind_res (deref p) (\<lambda>r.
             bind_res (serve mapped_key (remove_from i) r (s, put_queue i q1 e)) (\<lambda>(b, s', e').
               ok (s'\<lparr>scheduledReq := p\<rparr>, e'))))
        else ok (s\<lparr>scheduledReq := None\<rparr>, e))" for ri q and m :: nat
    by (intro res_wp) (use g in \<open>auto dest!: serve_remove_generates intro: generates_trans\<close>)
  show ?case unfolding st direct_requestors.simps
    by (intro res_wp res_all_bind2 [OF step]) (auto intro: IH)
qed (auto simp: reach_env_def)

lemma direct_queue_generates: "generates e0 (snd st) \<Longrightarrow> res_all (reach_env e0) (direct_queue i st)"
  unfolding direct_queue_def
  by (cases st, simp, intro res_wp)
    (auto dest!: res_allD [OF direct_requestors_generates [of e0], rotated] scheduleFR_generates serve_remove_generates
      split: if_splits intro: generates_trans)

lemma rr_requestors_generates:
  fixes st :: "rr_sched \<times> 'e sched_env_scheme"
  assumes sch: "\<And>r opn e b e'. sch r opn e = ok (b, e') \<Longrightarrow> generates e e'"
  shows "generates e0 (snd st) \<Longrightarrow> res_all (reach_env e0) (rr_requestors sch i qi ns st)"
proof (induction ns arbitrary: st)
  case (Cons n ns)
  obtain s e where st: "st = (s, e)" by (cases st)
  have g: "generates e0 e" using Cons.prems st by simp
  have IH: "res_all (reach_env e0) (rr_requestors sch i qi ns (t, e1))" if "generates e0 e1"
    for t and e1 :: "'e sched_env_scheme"
    by (rule Cons.IH) (simp add: that)
  have step: "generates e0 e1 \<Longrightarrow> remove_from j e1 = ok e2 \<Longrightarrow> generates e0 e2"
    "generates e0 e1 \<Longrightarrow> sch r False e1 = ok (b, e2) \<Longrightarrow> generates e0 e2"
    for j r b and e1 e2 :: "'e sched_env_scheme"
    by (auto dest: generates_intros sch intro: generates_trans)
  have S1: "res_all (reach_env e0) (if m > 0
        then bind_res (getRequest_requestor (unat ri) 0 q) (\<lambda>(p, q1). ok (s\<lparr>scheduledReq := p\<rparr>, put_queue qi q1 e))
        else ok (s, e))" for ri q and m :: nat
    by (intro res_wp) (use g in auto)
  have S2: "res_all (reach_env e0) (case scheduledReq s1 of
          None \<Rightarrow> ok (s1, e1)
        | Some r \<Rightarrow>
            if fixedPrioirty s1
            then bind_res (at_res (requestorCriticalTable e1) (requestorID r)) (\<lambda>crit.
                   if \<not> crit
                   then bind_res (remove_from qi e1) (\<lambda>e2.
                          ok (s1\<lparr>srtRequestBuffer := srtRequestBuffer s1 @ [r], scheduledReq := None\<rparr>, e2))
                   else ok (s1, e1))
            else ok (s1, e1))" if "reach_env e0 (s1, e1)" for s1 :: rr_sched and e1 :: "'e sched_env_scheme"
    by (intro res_wp) (use that in \<open>auto intro: step\<close>)
  have S3: "res_all (reach_env e0) (case scheduledReq s2 of
          None \<Rightarrow> ok (True, e2)
        | Some r \<Rightarrow>
            bind_res (sch r False e2) (\<lambda>(b, e3).
              if b then bind_res (remove_from i e3) (\<lambda>e4. ok (True, e4)) else ok (False, e3)))"
    if "reach_env e0 (s2, e2)" for s2 :: rr_sched and e2 :: "'e sched_env_scheme"
    by (intro res_wp) (use that in \<open>auto intro: step\<close>)
  show ?case unfolding st rr_requestors.simps
    by (intro res_all_bind res_all_bind2 [OF S1] res_all_prod res_all_bind2 [OF S2] res_all_bind2 [OF S3] res_wp)
      (auto intro: IH)
qed (auto simp: reach_env_def)

lemma rr_queue_generates:
  fixes st :: "rr_sched \<times> 'e sched_env_scheme"
  assumes sch: "\<And>r opn e b e'. sch r opn e = ok (b, e') \<Longrightarrow> generates e e'" and g: "generates e0 (snd st)"
  shows "res_all (reach_env e0) (rr_queue sch i st)"
proof -
  obtain s e where st: "st = (s, e)" by (cases st)
  have ge: "generates e0 e" using g st by simp
  have R: "res_all (reach_env e0) (rr_requestors sch i qi ns (s, e))" for qi ns
    using rr_requestors_generates [of sch e0 "(s, e)"] sch ge by simp
  have F: "generates e0 e2" if "sch r opn e1 = ok (b, e2)" "generates e0 e1" for r opn e1 b and e2 :: "'e sched_env_scheme"
    using generates_trans [OF that(2) sch [OF that(1)]] .
  show ?thesis unfolding st rr_queue_def prod.case Let_def
    by (intro res_wp) (auto 2 8 dest!: res_allD [OF R] split: if_splits intro: generates_to F simp: ge)
qed

lemma rr_queues_generates:
  assumes sch: "\<And>r opn e b e'. sch r opn e = ok (b, e') \<Longrightarrow> generates e e'"
  shows "generates e0 (snd st) \<Longrightarrow> res_all (reach_env e0) (rr_queues sch ns st)"
proof (induction ns arbitrary: st)
  case (Cons n ns)
  have Q: "res_all (reach_env e0) (rr_queue sch n st)" using Cons.prems by (rule rr_queue_generates [rotated]) (rule sch)
  show ?case unfolding rr_queues.simps by (intro res_all_bind2 [OF Q] res_wp Cons.IH) auto
qed (auto simp: reach_env_def)

lemma rr_schedule_generates:
  assumes sch: "\<And>r opn e b e'. sch r opn e = ok (b, e') \<Longrightarrow> generates e e'"
  shows "rr_schedule sch (s, e) = ok (s', e') \<Longrightarrow> generates e e'"
proof -
  have Q: "res_all (reach_env e) (rr_queues sch ns (t, e))" for ns t
    using rr_queues_generates [of sch e "(t, e)"] sch by simp
  have "res_all (reach_env e) (rr_schedule sch (s, e))" unfolding rr_schedule_def prod.case by (intro res_wp Q) auto
  then show "rr_schedule sch (s, e) = ok (s', e') \<Longrightarrow> generates e e'" by (simp add: res_all_def)
qed

lemma isSchedulable_RTMem_generates: "isSchedulable_RTMem r opn e = ok (b, e') \<Longrightarrow> generates e e'"
  by (auto simp: isSchedulable_RTMem_def res_simps split: if_splits dest: isSchedulable_generates)

lemma fcfs_queue_generates: "generates e0 (snd st) \<Longrightarrow> res_all (reach_env e0) (fcfs_queue i st)"
  unfolding fcfs_queue_def
  by (cases st, simp, intro res_wp)
    (auto 2 8 split: if_splits option.splits simp: res_simps intro: generates_to)

lemma bliss_queue_generates: "generates e0 (snd st) \<Longrightarrow> res_all (reach_env e0) (bliss_queue h1 h2 i st)"
  unfolding bliss_queue_def
  by (cases st, simp, intro res_wp)
    (auto intro: generates_to)

lemma batch_drain_generates:
  "generates e0 (snd (snd st)) \<Longrightarrow> res_all (\<lambda>x. reach_env e0 (snd x)) (batch_drain i st)"
  unfolding batch_drain_def
  by (cases st, simp, intro res_wp)
    (auto split: if_splits intro: generates_to simp: res_simps)

lemma batch_read_generates:
  "generates e0 (snd (snd st)) \<Longrightarrow> res_all (\<lambda>x. reach_env e0 (snd x)) (batch_read i st)"
  unfolding batch_read_def
  by (cases st, simp, intro res_wp)
    (auto intro: generates_to)

section \<open>Interpretations\<close>

lemma reach_envD: "res_all (reach_env e) m \<Longrightarrow> m = ok (s', e') \<Longrightarrow> generates e e'"
  by (auto simp: res_all_def)

lemma requestSchedule_Direct_generates: "res_all (reach_env e) (requestSchedule_Direct (s, e))"
  unfolding requestSchedule_Direct_def by (rule res_all_fold) (auto intro: direct_queue_generates)

lemma requestSchedule_FCFS_generates: "res_all (reach_env e) (requestSchedule_FCFS (s, e))"
  unfolding requestSchedule_FCFS_def prod.case by (rule res_all_fold) (auto intro: fcfs_queue_generates)

lemma requestSchedule_BLISS_generates: "res_all (reach_env e) (requestSchedule_BLISS garbage nreq (s, e))"
  unfolding requestSchedule_BLISS_def prod.case Let_def
  by (intro res_all_bind res_all_fold) (auto intro: bliss_queue_generates)

lemma requestSchedule_BATCHING_generates: "res_all (reach_env e) (requestSchedule_FRFCFS_BATCHING (s, e))"
proof -
  have D: "res_all (\<lambda>x. reach_env e (snd x)) (if c then fold_res batch_drain is (True, s, e) else ok (True, s, e))" for c "is"
    by (intro res_all_if res_all_fold) (auto intro: batch_drain_generates)
  have R: "res_all (\<lambda>x. reach_env e (snd x)) (if c then fold_res batch_read is (True, s1, e1) else ok (True, s1, e1))"
    if "generates e e1" for c s1 e1 "is"
    by (intro res_all_if res_all_fold) (use that in \<open>auto intro: batch_read_generates\<close>)
  show ?thesis unfolding requestSchedule_FRFCFS_BATCHING_def prod.case Let_def with_writeQueue_def
    by (intro res_all_bind [of "writeEnable 0 e"] res_all_bind2 [OF D] res_all_prod res_all_bind2 [OF R] res_wp)
      (auto split: if_splits option.splits simp: res_simps intro: generates_to)
qed

interpretation rq_frfcfs: request_scheduler requestSchedule_FRFCFS
  by unfold_locales (rule requestSchedule_FRFCFS_generates)

interpretation rq_direct: request_scheduler requestSchedule_Direct
  by unfold_locales (rule reach_envD [OF requestSchedule_Direct_generates])

interpretation rq_rr: request_scheduler requestSchedule_RR
  unfolding requestSchedule_RR_def
  by unfold_locales (rule rr_schedule_generates [OF isSchedulable_generates])

interpretation rq_rtmem: request_scheduler requestSchedule_RTMem
  unfolding requestSchedule_RTMem_def
  by unfold_locales (rule rr_schedule_generates [OF isSchedulable_RTMem_generates])

interpretation rq_fcfs: request_scheduler requestSchedule_FCFS
  by unfold_locales (rule reach_envD [OF requestSchedule_FCFS_generates])

interpretation rq_bliss: request_scheduler "requestSchedule_BLISS garbage nreq" for garbage nreq
  by unfold_locales (rule reach_envD [OF requestSchedule_BLISS_generates])

interpretation rq_batching: request_scheduler requestSchedule_FRFCFS_BATCHING
  by unfold_locales (rule reach_envD [OF requestSchedule_BATCHING_generates])

end
