(* ===== verification/DRAM.thy ===== *)
theory DRAM
  imports Types
begin

text \<open>
  \<^verbatim>\<open>src/dram/DRAM.h\<close>: the timing model of a DRAM channel, a tree of nodes (channel, rank, bank
  group, bank) that is generic in the standard. A node records for each command the earliest
  cycle at which it may be issued (\<open>nextc\<close>) and the cycles at which it was issued most recently
  (\<open>prev\<close>). The template parameter is the record \<open>dram_spec\<close> of the standard's tables. A
  \<^verbatim>\<open>long\<close> cycle count is an \<open>int\<close>, the value \<open>- 1\<close> marks an unset entry. The standard library
  containers \<^verbatim>\<open>vector\<close> and \<^verbatim>\<open>deque\<close> are lists.
\<close>

section \<open>Commands, states and tables\<close>

text \<open>
  One type holds the commands of all standards: DDR3 and DDR4 have the first fourteen, in the
  order of their enumerations (\<open>command_index\<close>); DSARP has no \<^verbatim>\<open>ACT_R\<close> and \<^verbatim>\<open>ACT_W\<close> but the per-bank
  refresh \<^verbatim>\<open>REFPB\<close>. The classifications below agree with those of each standard on its commands.
\<close>

datatype Command =
    C_ACT_R | C_ACT_W | C_ACT | C_PRE | C_PREA | C_RD | C_WR | C_RDA | C_WRA
  | C_REF | C_PDE | C_PDX | C_SRE | C_SRX | C_REFPB

fun command_index :: "Command \<Rightarrow> nat" where
  "command_index C_ACT_R = 0"
| "command_index C_ACT_W = 1"
| "command_index C_ACT = 2"
| "command_index C_PRE = 3"
| "command_index C_PREA = 4"
| "command_index C_RD = 5"
| "command_index C_WR = 6"
| "command_index C_RDA = 7"
| "command_index C_WRA = 8"
| "command_index C_REF = 9"
| "command_index C_PDE = 10"
| "command_index C_PDX = 11"
| "command_index C_SRE = 12"
| "command_index C_SRX = 13"
| "command_index C_REFPB = 14"

datatype dstate = Opened | Closed | PowerUp | ActPowerDown | PrePowerDown | SelfRefresh | State_MAX

definition is_opening :: "Command \<Rightarrow> bool" where
  "is_opening c \<longleftrightarrow> c \<in> {C_ACT, C_ACT_R, C_ACT_W}"

definition is_accessing :: "Command \<Rightarrow> bool" where
  "is_accessing c \<longleftrightarrow> c \<in> {C_RD, C_WR, C_RDA, C_WRA}"

definition is_closing :: "Command \<Rightarrow> bool" where
  "is_closing c \<longleftrightarrow> c \<in> {C_RDA, C_WRA, C_PRE, C_PREA}"

definition is_refreshing :: "Command \<Rightarrow> bool" where
  "is_refreshing c \<longleftrightarrow> c \<in> {C_REF, C_REFPB}"

record timing_entry =
  te_cmd :: Command
  dist :: nat
  val :: int
  sibling :: bool

record dnode =
  level :: nat
  nid :: int
  nstate :: dstate
  row_state :: "int \<rightharpoonup> dstate"
  cur_clk :: int
  nextc :: "Command \<Rightarrow> int"
  prev :: "Command \<Rightarrow> int list"
  cur_serving_requests :: int
  begin_of_serving :: int
  end_of_serving :: int
  begin_of_cur_reqcnt :: int
  begin_of_refreshing :: int
  end_of_refreshing :: int
  refresh_intervals :: "(int \<times> int) list"
  active_cycles :: int
  refresh_cycles :: int
  active_refresh_overlap_cycles :: int
  serving_requests :: int

datatype 'a rtree = Node (root: 'a) (children: "'a rtree list")

type_synonym dram = "dnode rtree"

text \<open>
  The functions stored in the table \<^verbatim>\<open>lambda\<close>, by what they do to a node: open or close it,
  close all banks below it, set its state, choose the power-down state by the nodes of a given
  level, or nothing. The last two close a bank with its subarrays, and all banks of a rank with
  theirs.
\<close>

datatype lambda_fn =
    L_open | L_close | L_close_banks | L_set dstate | L_power_down nat | L_nop
  | L_close_subarrays | L_close_rank

record dram_spec =
  scope :: "Command \<Rightarrow> nat"
  start :: "dstate list"
  prereq :: "nat \<Rightarrow> Command \<Rightarrow> (dram \<Rightarrow> Command \<Rightarrow> int \<Rightarrow> Command option res) option"
  rowhit :: "nat \<Rightarrow> Command \<Rightarrow> (dram \<Rightarrow> int \<Rightarrow> bool res) option"
  rowopen :: "nat \<Rightarrow> Command \<Rightarrow> (dram \<Rightarrow> int \<Rightarrow> bool res) option"
  lambda :: "nat \<Rightarrow> Command \<Rightarrow> lambda_fn option"
  timing :: "nat \<Rightarrow> Command \<Rightarrow> timing_entry list"
  org_count :: "int list"
  bankLevel :: nat
  rowLevel :: nat

section \<open>Construction\<close>

definition history_size :: "timing_entry list \<Rightarrow> nat" where
  "history_size ts = foldl (\<lambda>d t. max d (dist t)) 0 ts"

definition new_node :: "dram_spec \<Rightarrow> nat \<Rightarrow> int \<Rightarrow> dnode" where
  "new_node sp lv i =
     \<lparr>level = lv, nid = i, nstate = start sp ! lv, row_state = Map.empty, cur_clk = 0,
      nextc = (\<lambda>_. -1), prev = (\<lambda>c. replicate (history_size (timing sp lv c)) (-1)),
      cur_serving_requests = 0, begin_of_serving = -1, end_of_serving = -1,
      begin_of_cur_reqcnt = -1, begin_of_refreshing = -1, end_of_refreshing = -1,
      refresh_intervals = [], active_cycles = 0, refresh_cycles = 0,
      active_refresh_overlap_cycles = 0, serving_requests = 0\<rparr>"

text \<open>The source stops at \<^verbatim>\<open>child_level == Row\<close>; it never starts above it.\<close>

function new_DRAM :: "dram_spec \<Rightarrow> nat \<Rightarrow> int \<Rightarrow> dram" where
  "new_DRAM sp lv i =
     Node (new_node sp lv i)
       (if rowLevel sp \<le> Suc lv then []
        else map (\<lambda>j. new_DRAM sp (Suc lv) (int j)) [0..<nat (org_count sp ! Suc lv)])"
  by pat_completeness auto
termination
  by (relation "measure (\<lambda>(sp, lv, i). rowLevel sp - lv)") auto

declare new_DRAM.simps [simp del]

section \<open>Queries\<close>

text \<open>\<^verbatim>\<open>addr[int(level)+1]\<close> and \<^verbatim>\<open>children[child_id]\<close>\<close>

definition child_of :: "int list \<Rightarrow> dnode \<Rightarrow> int res" where
  "child_of addr n = nth_res addr (Suc (level n))"

definition child_at :: "'a list \<Rightarrow> int \<Rightarrow> 'a res" where
  "child_at cs i = (if i < 0 then fail OutOfRange else nth_res cs (nat i))"

lemma child_at_Inr [res_simps]: "child_at cs i = ok c \<longleftrightarrow> 0 \<le> i \<and> nat i < length cs \<and> cs ! nat i = c"
  by (auto simp: child_at_def res_simps)

lemma child_at_mem: "child_at cs i = ok c \<Longrightarrow> c \<in> set cs"
  by (auto simp: res_simps)

lemma size_child_at [termination_simp]:
  "child_at cs i = ok c \<Longrightarrow> size c < Suc (size_list size cs)"
  by (auto simp: child_at_def split: if_splits dest: size_nth_res)

fun decode :: "dram_spec \<Rightarrow> Command \<Rightarrow> int list \<Rightarrow> dram \<Rightarrow> Command res" where
  "decode sp cmd addr (Node n cs) =
     bind_res (child_of addr n) (\<lambda>child_id.
     bind_res (case prereq sp (level n) cmd of None \<Rightarrow> ok None | Some f \<Rightarrow> f (Node n cs) cmd child_id) (\<lambda>p.
       case p of
         Some c \<Rightarrow> ok c
       | None \<Rightarrow>
           if child_id < 0 \<or> cs = [] then ok cmd
           else bind_res (child_at cs child_id) (\<lambda>c. decode sp cmd addr c)))"

fun check :: "dram_spec \<Rightarrow> Command \<Rightarrow> int list \<Rightarrow> int \<Rightarrow> dram \<Rightarrow> bool res" where
  "check sp cmd addr clk (Node n cs) =
     (if nextc n cmd \<noteq> -1 \<and> clk < nextc n cmd then ok False
      else bind_res (child_of addr n) (\<lambda>child_id.
             if child_id < 0 \<or> level n = scope sp cmd \<or> cs = [] then ok True
             else bind_res (child_at cs child_id) (\<lambda>c. check sp cmd addr clk c)))"

fun check_row_hit :: "dram_spec \<Rightarrow> Command \<Rightarrow> int list \<Rightarrow> dram \<Rightarrow> bool res" where
  "check_row_hit sp cmd addr (Node n cs) =
     bind_res (child_of addr n) (\<lambda>child_id.
       case rowhit sp (level n) cmd of
         Some f \<Rightarrow> f (Node n cs) child_id
       | None \<Rightarrow>
           if child_id < 0 \<or> cs = [] then ok False
           else bind_res (child_at cs child_id) (\<lambda>c. check_row_hit sp cmd addr c))"

fun check_row_open :: "dram_spec \<Rightarrow> Command \<Rightarrow> int list \<Rightarrow> dram \<Rightarrow> bool res" where
  "check_row_open sp cmd addr (Node n cs) =
     bind_res (child_of addr n) (\<lambda>child_id.
       case rowopen sp (level n) cmd of
         Some f \<Rightarrow> f (Node n cs) child_id
       | None \<Rightarrow>
           if child_id < 0 \<or> cs = [] then ok False
           else bind_res (child_at cs child_id) (\<lambda>c. check_row_open sp cmd addr c))"

fun get_next_loop :: "dram_spec \<Rightarrow> Command \<Rightarrow> int list \<Rightarrow> nat \<Rightarrow> int \<Rightarrow> dram \<Rightarrow> int res" where
  "get_next_loop sp cmd addr l acc (Node n cs) =
     (if l < scope sp cmd \<and> cs \<noteq> []
      then bind_res (nth_res addr (Suc l)) (\<lambda>i.
             if i \<ge> 0
             then bind_res (child_at cs i) (\<lambda>c.
                    get_next_loop sp cmd addr (Suc l) (max acc (nextc (root c) cmd)) c)
             else ok acc)
      else ok acc)"

definition get_next :: "dram_spec \<Rightarrow> Command \<Rightarrow> int list \<Rightarrow> dram \<Rightarrow> int res" where
  "get_next sp cmd addr t =
     get_next_loop sp cmd addr (level (root t)) (max (cur_clk (root t)) (nextc (root t) cmd)) t"

section \<open>Updates\<close>

fun map_root :: "('a \<Rightarrow> 'a) \<Rightarrow> 'a rtree \<Rightarrow> 'a rtree" where
  "map_root f (Node n cs) = Node (f n) cs"

definition close_node :: "dnode \<Rightarrow> dnode" where
  "close_node n = n\<lparr>nstate := Closed, row_state := Map.empty\<rparr>"

text \<open>\<open>banks_below k\<close>: the nodes \<open>k\<close> levels down, the range of the loops over all banks.\<close>

fun banks_below :: "nat \<Rightarrow> 'a rtree \<Rightarrow> 'a list" where
  "banks_below 0 t = [root t]"
| "banks_below (Suc k) (Node n cs) = concat (map (banks_below k) cs)"

fun map_below :: "nat \<Rightarrow> ('a \<Rightarrow> 'a) \<Rightarrow> 'a rtree \<Rightarrow> 'a rtree" where
  "map_below 0 f t = map_root f t"
| "map_below (Suc k) f (Node n cs) = Node n (map (map_below k f) cs)"

fun apply_lambda :: "dram_spec \<Rightarrow> lambda_fn \<Rightarrow> int \<Rightarrow> dram \<Rightarrow> dram" where
  "apply_lambda sp L_open i t =
     map_root (\<lambda>n. n\<lparr>nstate := Opened, row_state := (row_state n)(i \<mapsto> Opened)\<rparr>) t"
| "apply_lambda sp L_close i t = map_root close_node t"
| "apply_lambda sp L_close_banks i t = map_below (bankLevel sp - level (root t)) close_node t"
| "apply_lambda sp (L_set st) i t = map_root (\<lambda>n. n\<lparr>nstate := st\<rparr>) t"
| "apply_lambda sp (L_power_down lv) i t =
     (if \<forall>b \<in> set (banks_below (lv - level (root t)) t). nstate b = Closed
      then map_root (\<lambda>n. n\<lparr>nstate := PrePowerDown\<rparr>) t
      else map_root (\<lambda>n. n\<lparr>nstate := ActPowerDown\<rparr>) t)"
| "apply_lambda sp L_nop i t = t"
| "apply_lambda sp L_close_subarrays i t = map_below 1 close_node (map_root close_node t)"
| "apply_lambda sp L_close_rank i t =
     map_below 2 close_node (map_below 1 close_node (map_root (\<lambda>n. n\<lparr>row_state := Map.empty\<rparr>) t))"

text \<open>The shape of the tree, which no update changes.\<close>

fun height :: "'a rtree \<Rightarrow> nat" where
  "height (Node n cs) = Suc (foldr max (map height cs) 0)"

lemma foldr_max_ge: "(x :: nat) \<in> set xs \<Longrightarrow> x \<le> foldr max xs 0"
  by (induction xs) (auto simp: le_max_iff_disj)

lemma height_child: "c \<in> set cs \<Longrightarrow> height c < height (Node n cs)"
  by (simp add: foldr_max_ge less_Suc_eq_le)

lemma height_map_root [simp]: "height (map_root f t) = height t"
  by (cases t) simp

lemma height_map_below [simp]: "height (map_below k f t) = height t"
proof (induction k f t rule: map_below.induct)
  case (2 k f n cs)
  then have e: "map (height \<circ> map_below k f) cs = map height cs" by simp
  show ?case by (simp only: map_below.simps height.simps map_map e)
qed simp

lemma height_apply_lambda [simp]: "height (apply_lambda sp f i t) = height t"
  by (cases f) simp_all

function update_state :: "dram_spec \<Rightarrow> Command \<Rightarrow> int list \<Rightarrow> dram \<Rightarrow> dram res" where
  "update_state sp cmd addr t =
     bind_res (child_of addr (root t)) (\<lambda>child_id.
       let t1 = (case lambda sp (level (root t)) cmd of None \<Rightarrow> t | Some f \<Rightarrow> apply_lambda sp f child_id t)
       in if level (root t1) = scope sp cmd \<or> children t1 = [] then ok t1
          else bind_res (child_at (children t1) child_id) (\<lambda>c.
               bind_res (update_state sp cmd addr c) (\<lambda>c'.
                 ok (Node (root t1) ((children t1)[nat child_id := c'])))))"
  by pat_completeness auto
termination
proof (relation "measure (\<lambda>(sp, cmd, addr, t). height t)")
  fix sp :: dram_spec and cmd addr and t :: dram and i t1 c
  assume t1: "t1 = (case lambda sp (level (root t)) cmd of None \<Rightarrow> t | Some f \<Rightarrow> apply_lambda sp f i t)"
    and c: "child_at (children t1) i = ok c"
  have "height c < height t1"
    using height_child [OF child_at_mem [OF c]] by (cases t1) simp
  also have "height t1 = height t" by (simp add: t1 split: option.split)
  finally show "((sp, cmd, addr, c), sp, cmd, addr, t) \<in> measure (\<lambda>(sp, cmd, addr, t). height t)" by simp
qed simp

declare update_state.simps [simp del]

definition bump :: "Command \<Rightarrow> int \<Rightarrow> dnode \<Rightarrow> dnode" where
  "bump c future n = n\<lparr>nextc := (nextc n)(c := max (nextc n c) future)\<rparr>"

definition sibling_step :: "int \<Rightarrow> timing_entry \<Rightarrow> dnode \<Rightarrow> dnode res" where
  "sibling_step clk t n =
     (if \<not> sibling t then ok n
      else if dist t \<noteq> 1 then fail AssertFailed
      else ok (bump (te_cmd t) (clk + val t) n))"

definition push_history :: "Command \<Rightarrow> int \<Rightarrow> dnode \<Rightarrow> dnode" where
  "push_history cmd clk n =
     (if prev n cmd \<noteq> [] then n\<lparr>prev := (prev n)(cmd := clk # butlast (prev n cmd))\<rparr> else n)"

definition count_refresh :: "Command \<Rightarrow> int \<Rightarrow> dnode \<Rightarrow> dnode" where
  "count_refresh c clk n =
     (let e = max (end_of_refreshing n) (nextc n c);
          n1 = n\<lparr>begin_of_refreshing := clk, end_of_refreshing := e,
                 refresh_cycles := refresh_cycles n + (e - clk)\<rparr>
      in if cur_serving_requests n > 0
         then n1\<lparr>refresh_intervals := refresh_intervals n1 @ [(clk, e)]\<rparr> else n1)"

definition target_step :: "Command \<Rightarrow> int \<Rightarrow> timing_entry \<Rightarrow> dnode \<Rightarrow> dnode res" where
  "target_step cmd clk t n =
     (if sibling t then ok n
      else if dist t = 0 then fail OutOfRange
      else bind_res (nth_res (prev n cmd) (dist t - 1)) (\<lambda>past.
             if past < 0 then ok n
             else let n1 = bump (te_cmd t) (past + val t) n
                  in if is_refreshing cmd \<and> is_opening (te_cmd t)
                     then if past = clk then ok (count_refresh (te_cmd t) clk n1) else fail AssertFailed
                     else ok n1))"

fun update_timing :: "dram_spec \<Rightarrow> Command \<Rightarrow> int list \<Rightarrow> int \<Rightarrow> dram \<Rightarrow> dram res" where
  "update_timing sp cmd addr clk (Node n cs) =
     bind_res (nth_res addr (level n)) (\<lambda>a.
       if nid n \<noteq> a
       then bind_res (fold_res (sibling_step clk) (timing sp (level n) cmd) n) (\<lambda>n'. ok (Node n' cs))
       else bind_res (fold_res (target_step cmd clk) (timing sp (level n) cmd) (push_history cmd clk n)) (\<lambda>n'.
            bind_res (map_res (update_timing sp cmd addr clk) cs) (\<lambda>cs'. ok (Node n' cs'))))"

definition update :: "dram_spec \<Rightarrow> Command \<Rightarrow> int list \<Rightarrow> int \<Rightarrow> dram \<Rightarrow> dram res" where
  "update sp cmd addr clk t =
     bind_res (update_state sp cmd addr (map_root (\<lambda>n. n\<lparr>cur_clk := clk\<rparr>) t))
       (update_timing sp cmd addr clk)"

definition serve_request :: "int \<Rightarrow> int \<Rightarrow> dnode \<Rightarrow> dnode res" where
  "serve_request delta clk n =
     (if \<not> (delta = 1 \<or> delta = -1) then fail AssertFailed
      else
        let n1 = (if begin_of_cur_reqcnt n \<noteq> -1 \<and> cur_serving_requests n > 0
                  then n\<lparr>serving_requests := serving_requests n
                            + (clk - begin_of_cur_reqcnt n) * cur_serving_requests n,
                         active_cycles := active_cycles n + (clk - begin_of_cur_reqcnt n)\<rparr>
                  else n);
            n2 = n1\<lparr>begin_of_cur_reqcnt := clk, cur_serving_requests := cur_serving_requests n1 + delta\<rparr>
        in if cur_serving_requests n2 < 0 then fail AssertFailed
           else if delta = 1 \<and> cur_serving_requests n2 = 1
           then ok (let n3 = n2\<lparr>begin_of_serving := clk\<rparr>
                    in if end_of_refreshing n3 > clk
                       then n3\<lparr>active_refresh_overlap_cycles :=
                                 active_refresh_overlap_cycles n3 + (end_of_refreshing n3 - clk)\<rparr>
                       else n3)
           else if cur_serving_requests n2 = 0
           then if begin_of_serving n2 = -1 \<or> delta \<noteq> -1 then fail AssertFailed
                else ok (n2\<lparr>active_cycles := active_cycles n2 + (clk - begin_of_cur_reqcnt n2),
                            end_of_serving := clk,
                            active_refresh_overlap_cycles :=
                              foldl (\<lambda>a (b, e). a + (min clk e - b))
                                (active_refresh_overlap_cycles n2) (refresh_intervals n2),
                            refresh_intervals := []\<rparr>)
           else ok n2)"

fun update_serving_requests :: "dram_spec \<Rightarrow> int list \<Rightarrow> int \<Rightarrow> int \<Rightarrow> dram \<Rightarrow> dram res" where
  "update_serving_requests sp addr delta clk (Node n cs) =
     bind_res (nth_res addr (level n)) (\<lambda>a.
       if nid n \<noteq> a then fail AssertFailed
       else bind_res (serve_request delta clk n) (\<lambda>n'.
            bind_res (child_of addr n) (\<lambda>child_id.
              if child_id < 0 \<or> cs = [] \<or> level n > bankLevel sp then ok (Node n' cs)
              else bind_res (child_at cs child_id) (\<lambda>c.
                   bind_res (update_serving_requests sp addr delta clk c) (\<lambda>c'.
                     ok (Node n' (cs[nat child_id := c'])))))))"

end
