(* ===== verification/DRAMTiming.thy ===== *)
theory DRAMTiming
  imports DRAM
begin

text \<open>
  What the timing tree of \<^verbatim>\<open>src/dram/DRAM.h\<close> guarantees, for any standard whose timing table is
  well formed (locale \<open>dram_standard\<close>): updating never trips an assertion or reads outside a
  history, \<open>check\<close> and \<open>get_next\<close> agree, and a command that passes \<open>check\<close> respects every
  timing constraint that an earlier command of the trace put on it, at each level down to the
  command's scope.
\<close>

section \<open>Nodes along an address\<close>

fun node_at :: "int list \<Rightarrow> nat \<Rightarrow> dram \<Rightarrow> dnode option" where
  "node_at a 0 (Node n cs) = Some n"
| "node_at a (Suc k) (Node n cs) =
     (case child_of a n of
        Inl _ \<Rightarrow> None
      | Inr i \<Rightarrow> (case child_at cs i of Inl _ \<Rightarrow> None | Inr c \<Rightarrow> node_at a k c))"

lemma node_at_Suc:
  "node_at a (Suc k) (Node n cs) = Some m \<longleftrightarrow>
     (\<exists>i c. child_of a n = ok i \<and> child_at cs i = ok c \<and> node_at a k c = Some m)"
  by (auto split: sum.splits)

declare node_at.simps(2) [simp del]

lemma node_at_0 [simp]: "node_at a 0 t = Some (root t)"
  by (cases t) simp

text \<open>Levels count the depth, and a child carries its position as its number.\<close>

fun tree_ok :: "dram_spec \<Rightarrow> nat \<Rightarrow> dram \<Rightarrow> bool" where
  "tree_ok sp d (Node n cs) \<longleftrightarrow>
     level n = d \<and> (\<forall>c. length (prev n c) = history_size (timing sp d c))
   \<and> (\<forall>i < length cs. nid (root (cs ! i)) = int i) \<and> (\<forall>c \<in> set cs. tree_ok sp (Suc d) c)"

lemma tree_ok_root: "tree_ok sp d t \<Longrightarrow> level (root t) = d"
  by (cases t) simp

lemma node_at_level: "tree_ok sp d t \<Longrightarrow> node_at a k t = Some n \<Longrightarrow>
    level n = d + k \<and> (\<forall>c. length (prev n c) = history_size (timing sp (d + k) c))"
proof (induction k arbitrary: d t)
  case 0
  then show ?case by (cases t) auto
next
  case (Suc k)
  obtain m cs where t: "t = Node m cs" by (cases t)
  from Suc.prems(2) obtain i c where c: "child_at cs i = ok c" "node_at a k c = Some n"
    by (auto simp: t node_at_Suc)
  from Suc.prems(1) child_at_mem [OF c(1)] have "tree_ok sp (Suc d) c" by (simp add: t)
  from Suc.IH [OF this c(2)] show ?case by simp
qed

lemma tree_ok_new: "tree_ok sp lv (new_DRAM sp lv i)"
proof (induction sp lv i rule: new_DRAM.induct)
  case (1 sp lv i)
  have root: "nid (root (new_DRAM sp l j)) = j" for l j
    by (subst new_DRAM.simps) (simp add: new_node_def)
  show ?case
    by (subst new_DRAM.simps) (use 1 in \<open>auto simp: new_node_def root\<close>)
qed

section \<open>What an update keeps\<close>

definition tview :: "dnode \<Rightarrow> nat \<times> int \<times> (Command \<Rightarrow> int) \<times> (Command \<Rightarrow> int list)" where
  "tview n = (level n, nid n, nextc n, prev n)"

lemma map_rtree_map_root: "(\<And>n. g (f n) = g n) \<Longrightarrow> map_rtree g (map_root f t) = map_rtree g t"
  by (cases t) simp

lemma map_rtree_map_below: "(\<And>n. g (f n) = g n) \<Longrightarrow> map_rtree g (map_below k f t) = map_rtree g t"
proof (induction k arbitrary: t)
  case 0
  then show ?case by (simp add: map_rtree_map_root)
next
  case (Suc k)
  then show ?case by (cases t) simp
qed

lemma apply_lambda_view: "map_rtree tview (apply_lambda sp f i t) = map_rtree tview t"
  by (cases f) (simp_all add: map_rtree_map_root map_rtree_map_below tview_def close_node_def)

lemma map_rtree_split: "map_rtree g t = Node (g (root t)) (map (map_rtree g) (children t))"
  by (cases t) simp

lemma update_state_view:
  "update_state sp cmd addr t = ok t' \<Longrightarrow> map_rtree tview t' = map_rtree tview t"
proof (induction sp cmd addr t arbitrary: t' rule: update_state.induct)
  case (1 sp cmd addr t)
  obtain i where i: "child_of addr (root t) = ok i"
    using "1.prems" by (subst (asm) update_state.simps) (auto simp: res_simps)
  define t1 where "t1 = (case lambda sp (level (root t)) cmd of None \<Rightarrow> t | Some f \<Rightarrow> apply_lambda sp f i t)"
  have v: "map_rtree tview t1 = map_rtree tview t"
    by (simp add: t1_def apply_lambda_view split: option.split)
  from "1.prems" i have "t' = t1 \<or> (\<exists>c c'. \<not> (level (root t1) = scope sp cmd \<or> children t1 = [])
      \<and> child_at (children t1) i = ok c \<and> update_state sp cmd addr c = ok c'
      \<and> t' = Node (root t1) ((children t1)[nat i := c']))"
    by (subst (asm) update_state.simps) (auto simp: Let_def t1_def [symmetric] res_simps split: if_splits)
  then show ?case
  proof (elim disjE exE conjE)
    fix c c' assume n: "\<not> (level (root t1) = scope sp cmd \<or> children t1 = [])"
      and c: "child_at (children t1) i = ok c" and u: "update_state sp cmd addr c = ok c'"
      and t': "t' = Node (root t1) ((children t1)[nat i := c'])"
    have "map_rtree tview c' = map_rtree tview c" by (rule "1.IH" [OF i t1_def n c u])
    then have "map (map_rtree tview) ((children t1)[nat i := c']) = map (map_rtree tview) (children t1)"
      using c by (auto simp: map_update res_simps list_update_same_conv)
    with v show ?thesis by (simp add: t' map_rtree_split [of tview t1])
  qed (use v in simp)
qed

lemma node_at_view:
  "map_rtree tview t' = map_rtree tview t \<Longrightarrow> map_option tview (node_at a k t') = map_option tview (node_at a k t)"
proof (induction k arbitrary: t t')
  case 0
  then show ?case by (cases t; cases t') simp
next
  case (Suc k)
  obtain n cs n' cs' where t: "t = Node n cs" "t' = Node n' cs'" by (cases t; cases t')
  from Suc.prems have v: "tview n' = tview n" "map (map_rtree tview) cs' = map (map_rtree tview) cs"
    by (simp_all add: t)
  from v(2) have len: "length cs' = length cs" by (metis length_map)
  have ch: "map_rtree tview (cs' ! i) = map_rtree tview (cs ! i)" if "i < length cs" for i
    using v(2) len that by (metis nth_map)
  from v(1) have co: "child_of a n' = child_of a n" by (simp add: tview_def child_of_def)
  show ?case
  proof (cases "child_of a n")
    case (Inr i)
    then show ?thesis using Suc.IH [OF ch] len
      by (auto simp: t co node_at.simps(2) child_at_def nth_res_def)
  qed (simp add: t co node_at.simps(2))
qed

lemma tree_ok_view: "map_rtree tview t' = map_rtree tview t \<Longrightarrow> tree_ok sp d t' = tree_ok sp d t"
proof (induction t arbitrary: t' d)
  case (Node n cs)
  obtain n' cs' where t': "t' = Node n' cs'" by (cases t')
  from Node.prems have v: "tview n' = tview n" "map (map_rtree tview) cs' = map (map_rtree tview) cs"
    by (simp_all add: t')
  from v(2) have len: "length cs' = length cs" by (metis length_map)
  have ch: "map_rtree tview (cs' ! i) = map_rtree tview (cs ! i)" if "i < length cs" for i
    using v(2) len that by (metis nth_map)
  have r: "nid (root (cs' ! i)) = nid (root (cs ! i))" if "i < length cs" for i
    using ch [OF that] by (cases "cs' ! i"; cases "cs ! i") (simp add: tview_def)
  have o: "tree_ok sp (Suc d) (cs' ! i) = tree_ok sp (Suc d) (cs ! i)" if "i < length cs" for i
    by (rule Node.IH [OF nth_mem [OF that] ch [OF that]])
  from v(1) show ?case
    by (simp add: t' tview_def all_set_conv_all_nth len r o cong: conj_cong)
qed

section \<open>The two inner loops\<close>

lemma bump_frame [simp]:
  "level (bump c f n) = level n" "nid (bump c f n) = nid n" "prev (bump c f n) = prev n"
  "nextc (bump c f n) = (nextc n)(c := max (nextc n c) f)"
  by (simp_all add: bump_def)

lemma count_refresh_frame [simp]: "tview (count_refresh c clk n) = tview n"
  by (simp add: count_refresh_def tview_def Let_def)

lemma push_history_frame [simp]:
  "level (push_history c clk n) = level n" "nid (push_history c clk n) = nid n"
  "nextc (push_history c clk n) = nextc n"
  by (simp_all add: push_history_def)

lemma push_history_prev:
  "prev (push_history cmd clk n) c =
     (if c = cmd \<and> prev n cmd \<noteq> [] then clk # butlast (prev n cmd) else prev n c)"
  by (simp add: push_history_def)

lemma length_push_history [simp]: "length (prev (push_history cmd clk n) c) = length (prev n c)"
  by (cases "prev n cmd") (auto simp: push_history_prev)

text \<open>
  \<open>raised ts P f n n'\<close>: the node \<open>n'\<close> is \<open>n\<close> with earliest cycles raised, at least to \<open>f t\<close> for
  the entries \<open>t\<close> that satisfy \<open>P\<close>.
\<close>

definition raised :: "timing_entry list \<Rightarrow> (timing_entry \<Rightarrow> bool) \<Rightarrow> (timing_entry \<Rightarrow> int) \<Rightarrow> dnode \<Rightarrow> dnode \<Rightarrow> bool" where
  "raised ts P f n n' \<longleftrightarrow>
     level n' = level n \<and> nid n' = nid n \<and> prev n' = prev n \<and> (\<forall>c. nextc n c \<le> nextc n' c)
   \<and> (\<forall>t \<in> set ts. P t \<longrightarrow> f t \<le> nextc n' (te_cmd t))"

lemma raised_Nil: "raised [] P f n n"
  by (simp add: raised_def)

lemma raised_Cons:
  assumes "raised ts P f m n'" and "level m = level n" "nid m = nid n" "prev m = prev n"
    and "\<And>c. nextc n c \<le> nextc m c" and "P t \<Longrightarrow> f t \<le> nextc m (te_cmd t)"
  shows "raised (t # ts) P f n n'"
  using assms by (auto simp: raised_def intro: order_trans)

lemma sibling_fold:
  "\<forall>t \<in> set ts. sibling t \<longrightarrow> dist t = 1 \<Longrightarrow>
     res_ok (raised ts sibling (\<lambda>t. clk + val t) n) (fold_res (sibling_step clk) ts n)"
proof (induction ts arbitrary: n)
  case Nil
  then show ?case by (simp add: raised_Nil)
next
  case (Cons t ts)
  show ?case
  proof (cases "sibling t")
    case True
    with Cons.prems have s: "sibling_step clk t n = ok (bump (te_cmd t) (clk + val t) n)"
      by (simp add: sibling_step_def)
    have "res_ok (raised ts sibling (\<lambda>t. clk + val t) (bump (te_cmd t) (clk + val t) n))
        (fold_res (sibling_step clk) ts (bump (te_cmd t) (clk + val t) n))"
      by (rule Cons.IH) (use Cons.prems in simp)
    then show ?thesis unfolding fold_res.simps s bind_res.simps
      by (rule res_ok_mono) (erule raised_Cons; auto)
  next
    case False
    then have s: "sibling_step clk t n = ok n" by (simp add: sibling_step_def)
    have "res_ok (raised ts sibling (\<lambda>t. clk + val t) n) (fold_res (sibling_step clk) ts n)"
      by (rule Cons.IH) (use Cons.prems in simp)
    then show ?thesis unfolding fold_res.simps s bind_res.simps
      by (rule res_ok_mono) (erule raised_Cons; use False in auto)
  qed
qed

definition past_of :: "dnode \<Rightarrow> Command \<Rightarrow> timing_entry \<Rightarrow> int" where
  "past_of n cmd t = prev n cmd ! (dist t - 1)"

definition entry_ok :: "Command \<Rightarrow> timing_entry \<Rightarrow> bool" where
  "entry_ok cmd t \<longleftrightarrow> 1 \<le> dist t \<and> (sibling t \<longrightarrow> dist t = 1)
     \<and> (is_refreshing cmd \<and> is_opening (te_cmd t) \<and> \<not> sibling t \<longrightarrow> dist t = 1)"

lemma target_fold:
  assumes "\<forall>t \<in> set ts. entry_ok cmd t \<and> (\<not> sibling t \<longrightarrow> dist t \<le> length (prev n cmd))"
    and "prev n cmd \<noteq> [] \<Longrightarrow> prev n cmd ! 0 = clk"
  shows "res_ok (raised ts (\<lambda>t. \<not> sibling t \<and> 0 \<le> past_of n cmd t) (\<lambda>t. past_of n cmd t + val t) n)
           (fold_res (target_step cmd clk) ts n)"
  using assms
proof (induction ts arbitrary: n)
  case Nil
  then show ?case by (simp add: raised_Nil)
next
  case (Cons t ts)
  let ?P = "\<lambda>t. \<not> sibling t \<and> 0 \<le> past_of n cmd t" and ?f = "\<lambda>t. past_of n cmd t + val t"
  have "\<exists>m. target_step cmd clk t n = ok m \<and> level m = level n \<and> nid m = nid n \<and> prev m = prev n
      \<and> (\<forall>c. nextc n c \<le> nextc m c) \<and> (?P t \<longrightarrow> ?f t \<le> nextc m (te_cmd t))"
  proof (cases "sibling t \<or> past_of n cmd t < 0")
    case True
    have "dist t \<noteq> 0 \<and> dist t - 1 < length (prev n cmd)" if "\<not> sibling t"
      using that Cons.prems(1) by (auto simp: entry_ok_def)
    with True have "target_step cmd clk t n = ok n"
      by (cases "sibling t") (auto simp: target_step_def past_of_def)
    with True show ?thesis by auto
  next
    case False
    let ?b = "bump (te_cmd t) (past_of n cmd t + val t) n"
    from False Cons.prems(1) have d: "dist t \<noteq> 0" "dist t - 1 < length (prev n cmd)"
      by (auto simp: entry_ok_def)
    have clk: "past_of n cmd t = clk" if "is_refreshing cmd \<and> is_opening (te_cmd t)"
      using that False Cons.prems d by (auto simp: past_of_def entry_ok_def)
    have "target_step cmd clk t n =
        (if is_refreshing cmd \<and> is_opening (te_cmd t) then ok (count_refresh (te_cmd t) clk ?b) else ok ?b)"
      using False d clk by (auto simp: target_step_def past_of_def Let_def)
    moreover have "tview (count_refresh (te_cmd t) clk ?b) = tview ?b" by simp
    ultimately show ?thesis
      by (auto simp: tview_def)
  qed
  then obtain m where m: "target_step cmd clk t n = ok m" "level m = level n" "nid m = nid n" "prev m = prev n"
      "\<forall>c. nextc n c \<le> nextc m c" "?P t \<longrightarrow> ?f t \<le> nextc m (te_cmd t)" by blast
  have past: "past_of m cmd = past_of n cmd" by (simp add: past_of_def m(4) fun_eq_iff)
  have "res_ok (raised ts ?P ?f m) (fold_res (target_step cmd clk) ts m)"
    using Cons.IH [of m] Cons.prems by (simp add: m(4) past)
  then show ?case unfolding fold_res.simps m(1) bind_res.simps
    by (rule res_ok_mono) (erule raised_Cons; use m in auto)
qed

section \<open>One update, node by node\<close>

definition agree :: "int list \<Rightarrow> int list \<Rightarrow> nat \<Rightarrow> nat \<Rightarrow> bool" where
  "agree a b d k \<longleftrightarrow> (\<forall>j. d \<le> j \<and> j < d + k \<longrightarrow> a ! j = b ! j)"

lemma agree_0 [simp]: "agree a b d 0"
  by (simp add: agree_def)

lemma agree_Suc: "agree a b d (Suc k) \<longleftrightarrow> a ! d = b ! d \<and> agree a b (Suc d) k"
proof -
  have "d \<le> j \<and> j < d + Suc k \<longleftrightarrow> j = d \<or> Suc d \<le> j \<and> j < Suc d + k" for j by auto
  then show ?thesis unfolding agree_def by metis
qed

lemma update_timing_node:
  assumes "tree_ok sp d t" and "update_timing sp cmd addr clk t = ok t'" and "nid (root t) = a ! d"
    and "node_at a k t' = Some n'"
  shows "\<exists>n. node_at a k t = Some n \<and>
    (if agree a addr d (Suc k)
     then fold_res (target_step cmd clk) (timing sp (d + k) cmd) (push_history cmd clk n) = ok n'
     else if agree a addr d k
     then fold_res (sibling_step clk) (timing sp (d + k) cmd) n = ok n'
     else n' = n)"
  using assms
proof (induction k arbitrary: d t t')
  case 0
  obtain n cs where t: "t = Node n cs" by (cases t)
  with 0 show ?case by (auto simp: agree_Suc res_simps)
next
  case (Suc k)
  obtain n cs where t: "t = Node n cs" by (cases t)
  have lv: "level n = d" using Suc.prems(1) by (simp add: t)
  show ?case
  proof (cases "a ! d = addr ! d")
    case False
    with Suc.prems(2,3) obtain m where t': "t' = Node m cs" and "fold_res (sibling_step clk) (timing sp d cmd) n = ok m"
      by (auto simp: t lv res_simps)
    then have "level m = level n"
      using res_all_fold [of "\<lambda>m. level m = level n" n "timing sp d cmd" "sibling_step clk"]
      by (auto simp: res_all_def sibling_step_def split: if_splits)
    with Suc.prems(4) False show ?thesis
      by (auto simp: t t' node_at_Suc agree_Suc child_of_def)
  next
    case True
    with Suc.prems(2,3) obtain m cs' where t': "t' = Node m cs'"
      and m: "fold_res (target_step cmd clk) (timing sp d cmd) (push_history cmd clk n) = ok m"
      and cs': "list_all2 (\<lambda>x y. update_timing sp cmd addr clk x = ok y) cs cs'"
      by (auto simp: t lv res_simps map_res_Inr_iff)
    have "level m = level n"
      using res_all_fold [of "\<lambda>m. level m = level n" "push_history cmd clk n" "timing sp d cmd" "target_step cmd clk"] m
      by (auto simp: res_all_def target_step_def count_refresh_def Let_def res_simps split: if_splits)
    with Suc.prems(4) obtain i c' where i: "child_of a n = ok i" and c': "child_at cs' i = ok c'"
      and n': "node_at a k c' = Some n'"
      by (auto simp: t' node_at_Suc child_of_def)
    from c' cs' have c: "child_at cs i = ok (cs ! nat i)"
      and u: "update_timing sp cmd addr clk (cs ! nat i) = ok c'"
      by (auto simp: res_simps list_all2_conv_all_nth)
    from c Suc.prems(1) have ok: "tree_ok sp (Suc d) (cs ! nat i)" and id: "nid (root (cs ! nat i)) = i"
      by (auto simp: t res_simps)
    have "i = a ! Suc d" using i by (auto simp: child_of_def lv res_simps)
    with Suc.IH [OF ok u _ n'] id c i True show ?thesis
      by (auto simp: t node_at_Suc agree_Suc [of a addr d])
  qed
qed

section \<open>check and get\_next\<close>

lemma check_bound:
  assumes "tree_ok sp d t" and "check sp cmd a clk t = ok True" and "node_at a k t = Some n"
    and "d + k \<le> scope sp cmd" and "-1 \<le> clk"
  shows "nextc n cmd \<le> clk"
  using assms(1-4)
proof (induction k arbitrary: d t)
  case 0
  then show ?case using assms(5) by (cases t) (auto split: if_splits)
next
  case (Suc k)
  obtain m cs where t: "t = Node m cs" by (cases t)
  have lv: "level m = d" using Suc.prems(1) by (simp add: t)
  from Suc.prems(3) obtain i c where i: "child_of a m = ok i" and c: "child_at cs i = ok c"
    and n: "node_at a k c = Some n" by (auto simp: t node_at_Suc)
  from c have ne: "0 \<le> i" "cs \<noteq> []" by (auto simp: res_simps)
  have "check sp cmd a clk c = ok True"
    using Suc.prems(2,4) ne by (auto simp: t i c lv split: if_splits)
  moreover have "tree_ok sp (Suc d) c" using Suc.prems(1) child_at_mem [OF c] by (simp add: t)
  ultimately show ?case using Suc.IH n Suc.prems(4) by simp
qed

lemma get_next_loop_ge: "get_next_loop sp cmd a l acc t = ok v \<Longrightarrow> acc \<le> v"
proof (induction sp cmd a l acc t rule: get_next_loop.induct)
  case (1 sp cmd a l acc n cs)
  then show ?case by (auto simp: res_simps split: if_splits)
qed

text \<open>The value of \<open>get_next\<close> without the current cycle of the root.\<close>

lemma check_get_next_loop:
  assumes "tree_ok sp d t" and "d \<le> scope sp cmd" and "-1 \<le> clk" and "nextc (root t) cmd \<le> acc"
    and "get_next_loop sp cmd a d acc t = ok v" and "check sp cmd a clk t = ok b"
  shows "acc \<le> v \<and> (acc \<le> clk \<longrightarrow> (b \<longleftrightarrow> v \<le> clk))"
  using assms
proof (induction t arbitrary: d acc)
  case (Node n cs)
  have lv: "level n = d" using Node.prems(1) by simp
  show ?case
  proof (cases "d < scope sp cmd \<and> cs \<noteq> []")
    case False
    with Node.prems have v: "v = acc" by auto
    have "b" if "acc \<le> clk"
      using Node.prems(2,4,6) False that by (auto simp: lv res_simps split: if_splits)
    with v show ?thesis by auto
  next
    case True
    then obtain i where i: "nth_res a (Suc d) = ok i" using Node.prems(5) by (auto simp: res_simps)
    show ?thesis
    proof (cases "0 \<le> i")
      case False
      with Node.prems True i show ?thesis by (auto simp: lv child_of_def split: if_splits)
    next
      case True': True
      with Node.prems(5) True i obtain c where c: "child_at cs i = ok c"
        and g: "get_next_loop sp cmd a (Suc d) (max acc (nextc (root c) cmd)) c = ok v"
        by (auto simp: res_simps)
      have tok: "tree_ok sp (Suc d) c" using Node.prems(1) child_at_mem [OF c] by simp
      have chk: "check sp cmd a clk (Node n cs) = check sp cmd a clk c" if "acc \<le> clk"
        using that Node.prems(2,4) True True' i c by (auto simp: lv child_of_def)
      show ?thesis
      proof (cases "acc \<le> clk")
        case True2: True
        have "check sp cmd a clk c = ok b" using chk [OF True2] Node.prems(6) by simp
        then have IH: "max acc (nextc (root c) cmd) \<le> v
            \<and> (max acc (nextc (root c) cmd) \<le> clk \<longrightarrow> (b \<longleftrightarrow> v \<le> clk))"
          using Node.IH [OF child_at_mem [OF c] tok _ Node.prems(3) _ g] True by simp
        have "\<not> b" if "\<not> nextc (root c) cmd \<le> clk"
          using \<open>check sp cmd a clk c = ok b\<close> that Node.prems(3) by (cases c) auto
        with IH True2 show ?thesis by auto
      next
        case False2: False
        show ?thesis using get_next_loop_ge [OF g] False2 by auto
      qed
    qed
  qed
qed

section \<open>The shape of the tree\<close>

lemma height_map_rtree: "height (map_rtree g t) = height t"
proof (induction t)
  case (Node n cs)
  then have "map (height \<circ> map_rtree g) cs = map height cs" by simp
  then show ?case by (simp only: rtree.map height.simps map_map)
qed

lemma fold_level:
  "fold_res (sibling_step clk) ts n = ok n' \<Longrightarrow> level n' = level n"
  "fold_res (target_step cmd clk) ts n = ok n' \<Longrightarrow> level n' = level n"
  by (erule fold_res_preserves, simp, auto simp: sibling_step_def target_step_def bump_def count_refresh_def
        Let_def res_simps split: if_splits)+

lemma update_timing_shape: "update_timing sp cmd addr clk t = ok t' \<Longrightarrow> map_rtree level t' = map_rtree level t"
proof (induction t arbitrary: t')
  case (Node n cs)
  then obtain n' cs' where t': "t' = Node n' cs'" and n': "level n' = level n"
    and "cs' = cs \<or> list_all2 (\<lambda>c c'. update_timing sp cmd addr clk c = ok c') cs cs'"
    by (auto simp: res_simps map_res_Inr_iff dest!: fold_level split: if_splits)
  then have "map (map_rtree level) cs' = map (map_rtree level) cs"
    using Node.IH by (auto simp: list_eq_iff_nth_eq list_all2_conv_all_nth)
  with n' show ?case by (simp only: t' rtree.map)
qed

lemma update_shape: "update sp cmd addr clk t = ok t' \<Longrightarrow> map_rtree level t' = map_rtree level t"
proof -
  assume "update sp cmd addr clk t = ok t'"
  then obtain t1 where t1: "update_state sp cmd addr (map_root (\<lambda>n. n\<lparr>cur_clk := clk\<rparr>) t) = ok t1"
      "update_timing sp cmd addr clk t1 = ok t'" by (auto simp: update_def res_simps)
  have lv: "map_rtree level x = map_rtree fst (map_rtree tview x)" for x
    by (simp add: rtree.map_comp comp_def tview_def)
  have "map_rtree level t1 = map_rtree level (map_root (\<lambda>n. n\<lparr>cur_clk := clk\<rparr>) t)"
    using update_state_view [OF t1(1)] by (simp add: lv)
  also have "\<dots> = map_rtree level t" by (simp add: map_rtree_map_root)
  finally show ?thesis using update_timing_shape [OF t1(2)] by simp
qed

lemma update_height: "update sp cmd addr clk t = ok t' \<Longrightarrow> height t' = height t"
  using update_shape height_map_rtree by metis

lemma node_at_shape:
  "map_rtree level t' = map_rtree level t \<Longrightarrow> node_at a k t' = None \<longleftrightarrow> node_at a k t = None"
proof (induction k arbitrary: t t')
  case (Suc k)
  obtain n cs n' cs' where t: "t = Node n cs" "t' = Node n' cs'" by (cases t; cases t')
  from Suc.prems have v: "level n' = level n" "map (map_rtree level) cs' = map (map_rtree level) cs"
    by (simp_all add: t)
  from v(2) have len: "length cs' = length cs" by (metis length_map)
  have ch: "map_rtree level (cs' ! i) = map_rtree level (cs ! i)" if "i < length cs" for i
    using v(2) len that by (metis nth_map)
  have co: "child_of a n' = child_of a n" using v(1) by (simp add: child_of_def)
  show ?case
  proof (cases "child_of a n")
    case (Inr i)
    then show ?thesis using Suc.IH [OF ch] len
      by (auto simp: t co node_at.simps(2) child_at_def nth_res_def)
  qed (simp add: t co node_at.simps(2))
qed simp

lemma height_new_DRAM: "lv < rowLevel sp \<Longrightarrow> height (new_DRAM sp lv i) + lv \<le> rowLevel sp"
proof (induction sp lv i rule: new_DRAM.induct)
  case (1 sp lv i)
  have le: "foldr max xs 0 \<le> (m :: nat)" if "\<forall>x \<in> set xs. x \<le> m" for xs m
    using that by (induction xs) auto
  define cs where "cs = (if rowLevel sp \<le> Suc lv then []
        else map (\<lambda>j. new_DRAM sp (Suc lv) (int j)) [0..<nat (org_count sp ! Suc lv)])"
  have "\<forall>x \<in> set (map height cs). x \<le> rowLevel sp - Suc lv"
  proof (cases "rowLevel sp \<le> Suc lv")
    case False
    have "height (new_DRAM sp (Suc lv) (int j)) \<le> rowLevel sp - Suc lv"
      if "j \<in> set [0..<nat (org_count sp ! Suc lv)]" for j
      using "1.IH" [OF False that] False by linarith
    then show ?thesis using False by (auto simp: cs_def)
  qed (simp add: cs_def)
  from le [OF this] "1.prems" have "height (Node (new_node sp lv i) cs) + lv \<le> rowLevel sp" by simp
  then show ?case by (subst new_DRAM.simps) (simp only: cs_def)
qed

section \<open>Traces of accepted commands\<close>

type_synonym issue = "Command \<times> int list \<times> int"

text \<open>
  A trace, most recent command first: each command passed \<open>check\<close> at its cycle and was then
  applied with \<open>update\<close>.
\<close>

inductive dram_run :: "dram_spec \<Rightarrow> issue list \<Rightarrow> dram \<Rightarrow> bool" for sp where
  power_on: "dram_run sp [] (new_DRAM sp 0 0)"
| issue: "dram_run sp tr t \<Longrightarrow> check sp cmd addr clk t = ok True \<Longrightarrow> 0 \<le> clk \<Longrightarrow> addr ! 0 = 0 \<Longrightarrow>
     height t \<le> length addr \<Longrightarrow> update sp cmd addr clk t = ok t' \<Longrightarrow> dram_run sp ((cmd, addr, clk) # tr) t'"

lemma dram_run_shape: "dram_run sp tr t \<Longrightarrow> map_rtree level t = map_rtree level (new_DRAM sp 0 0)"
  by (induction rule: dram_run.induct) (auto dest: update_shape)

text \<open>Every command of a trace passed \<open>check\<close> in the state the earlier ones had led to.\<close>

lemma dram_run_split:
  "dram_run sp tr t \<Longrightarrow> tr = newer @ (cmd, addr, clk) # older \<Longrightarrow>
     \<exists>t0. dram_run sp older t0 \<and> check sp cmd addr clk t0 = ok True \<and> 0 \<le> clk \<and> addr ! 0 = 0"
proof (induction arbitrary: newer rule: dram_run.induct)
  case (issue tr t cmd' addr' clk' t')
  then show ?case by (cases newer) auto
qed simp

text \<open>The cycles at which \<open>c\<close> was issued to the node at depth \<open>k\<close> of address \<open>a\<close>.\<close>

definition issued :: "Command \<Rightarrow> int list \<Rightarrow> nat \<Rightarrow> issue list \<Rightarrow> int list" where
  "issued c a k tr = map (snd \<circ> snd) (filter (\<lambda>(c', a', clk). c' = c \<and> agree a a' 0 (Suc k)) tr)"

definition hist_ok :: "issue list \<Rightarrow> int list \<Rightarrow> nat \<Rightarrow> dnode \<Rightarrow> bool" where
  "hist_ok tr a k n \<longleftrightarrow>
     (\<forall>c. prev n c = take (length (prev n c)) (issued c a k tr @ replicate (length (prev n c)) (-1)))"

definition next_ok :: "dram_spec \<Rightarrow> issue list \<Rightarrow> int list \<Rightarrow> nat \<Rightarrow> dnode \<Rightarrow> bool" where
  "next_ok sp tr a k n \<longleftrightarrow>
     (\<forall>c. \<forall>e \<in> set (timing sp k c).
        (\<not> sibling e \<and> dist e \<le> length (issued c a k tr) \<longrightarrow>
           issued c a k tr ! (dist e - 1) + val e \<le> nextc n (te_cmd e))
      \<and> (sibling e \<longrightarrow> (\<forall>(c', a', clk) \<in> set tr. c' = c \<and> agree a a' 0 k \<and> a ! k \<noteq> a' ! k \<longrightarrow>
           clk + val e \<le> nextc n (te_cmd e))))"

locale dram_standard =
  fixes sp :: dram_spec
  assumes entries_ok: "e \<in> set (timing sp l c) \<Longrightarrow> entry_ok c e"
begin

lemma history_size_ge: "e \<in> set (timing sp l c) \<Longrightarrow> dist e \<le> history_size (timing sp l c)"
proof -
  have ge: "a \<le> foldl (\<lambda>d t. max d (dist t)) a ts" for a and ts :: "timing_entry list"
  proof (induction ts arbitrary: a)
    case (Cons t ts)
    show ?case using Cons.IH [of "max a (dist t)"] by simp
  qed simp
  have "dist e \<le> foldl (\<lambda>d t. max d (dist t)) a ts" if "e \<in> set ts" for a ts
    using that
  proof (induction ts arbitrary: a)
    case (Cons t ts)
    show ?case
    proof (cases "e = t")
      case True
      then show ?thesis using ge [of "max a (dist t)" ts] by simp
    next
      case False
      with Cons show ?thesis by simp
    qed
  qed simp
  then show "e \<in> set (timing sp l c) \<Longrightarrow> dist e \<le> history_size (timing sp l c)"
    by (simp add: history_size_def)
qed

lemma entry_dist: "e \<in> set (timing sp l c) \<Longrightarrow> 1 \<le> dist e"
  using entries_ok by (auto simp: entry_ok_def)

text \<open>The pushed history and its effect on a target node.\<close>

lemma target_ok:
  assumes "length (prev n cmd) = history_size (timing sp l cmd)"
  shows "res_ok (raised (timing sp l cmd)
             (\<lambda>t. \<not> sibling t \<and> 0 \<le> past_of (push_history cmd clk n) cmd t)
             (\<lambda>t. past_of (push_history cmd clk n) cmd t + val t) (push_history cmd clk n))
           (fold_res (target_step cmd clk) (timing sp l cmd) (push_history cmd clk n))"
proof (rule target_fold)
  have "length (prev (push_history cmd clk n) cmd) = history_size (timing sp l cmd)"
    using assms by simp
  then show "\<forall>t \<in> set (timing sp l cmd). entry_ok cmd t
      \<and> (\<not> sibling t \<longrightarrow> dist t \<le> length (prev (push_history cmd clk n) cmd))"
    by (simp add: entries_ok history_size_ge)
qed (simp add: push_history_def split: if_splits)

lemma sibling_ok:
  "res_ok (raised (timing sp l cmd) sibling (\<lambda>t. clk + val t) n)
     (fold_res (sibling_step clk) (timing sp l cmd) n)"
  by (rule sibling_fold) (use entries_ok in \<open>auto simp: entry_ok_def\<close>)

text \<open>Updating the timing never fails and keeps the tree well formed.\<close>

lemma update_timing_total:
  assumes "tree_ok sp d t" and "d + height t \<le> length addr"
  shows "res_ok (\<lambda>t'. tree_ok sp d t' \<and> nid (root t') = nid (root t)) (update_timing sp cmd addr clk t)"
  using assms
proof (induction t arbitrary: d)
  case (Node n cs)
  have lv: "level n = d" and len: "length (prev n c) = history_size (timing sp d c)" for c
    using Node.prems(1) by simp_all
  have a: "nth_res addr d = ok (addr ! d)" using Node.prems(2) by simp
  show ?case
  proof (cases "nid n = addr ! d")
    case False
    obtain n' where n': "fold_res (sibling_step clk) (timing sp d cmd) n = ok n'"
      and "raised (timing sp d cmd) sibling (\<lambda>t. clk + val t) n n'"
      by (rule res_okE [OF sibling_ok])
    then show ?thesis using Node.prems(1) False by (simp add: lv a raised_def)
  next
    case True
    obtain n' where n': "fold_res (target_step cmd clk) (timing sp d cmd) (push_history cmd clk n) = ok n'"
      and r: "raised (timing sp d cmd) (\<lambda>t. \<not> sibling t \<and> 0 \<le> past_of (push_history cmd clk n) cmd t)
             (\<lambda>t. past_of (push_history cmd clk n) cmd t + val t) (push_history cmd clk n) n'"
      by (rule res_okE [OF target_ok [OF len]])
    have ch: "\<exists>c'. update_timing sp cmd addr clk c = ok c' \<and> tree_ok sp (Suc d) c' \<and> nid (root c') = nid (root c)"
      if "c \<in> set cs" for c
      using Node.IH [OF that, of "Suc d"] Node.prems that height_child [OF that, of n]
      by (auto simp: res_ok_def)
    then obtain f where f: "\<forall>c \<in> set cs. update_timing sp cmd addr clk c = ok (f c)
        \<and> tree_ok sp (Suc d) (f c) \<and> nid (root (f c)) = nid (root c)" by metis
    then have m: "map_res (update_timing sp cmd addr clk) cs = ok (map f cs)"
      by (simp add: map_res_Inr_iff list_all2_conv_all_nth)
    have "length (prev n' c) = length (prev n c)" for c
      using r by (auto simp: raised_def)
    then have "tree_ok sp d (Node n' (map f cs))"
      using Node.prems(1) f r by (auto simp: raised_def)
    with True n' m r show ?thesis by (simp add: lv a raised_def)
  qed
qed

lemma update_total:
  assumes "tree_ok sp 0 t" and "height t \<le> length addr" and "update_state sp cmd addr (map_root (\<lambda>n. n\<lparr>cur_clk := clk\<rparr>) t) = ok t1"
  shows "res_ok (\<lambda>t'. tree_ok sp 0 t' \<and> nid (root t') = nid (root t)) (update sp cmd addr clk t)"
proof -
  have v: "map_rtree tview t1 = map_rtree tview t"
    using update_state_view [OF assms(3)] by (simp add: map_rtree_map_root tview_def)
  have "height t1 = height t" using v height_map_rtree by metis
  with assms(2) have h: "0 + height t1 \<le> length addr" by simp
  have "tree_ok sp 0 t1" using assms(1) tree_ok_view [OF v] by simp
  from update_timing_total [OF this h]
  have "res_ok (\<lambda>t'. tree_ok sp 0 t' \<and> nid (root t') = nid (root t1)) (update_timing sp cmd addr clk t1)" .
  moreover have "nid (root t1) = nid (root t)" using v by (cases t; cases t1) (simp add: tview_def)
  ultimately have "res_ok (\<lambda>t'. tree_ok sp 0 t' \<and> nid (root t') = nid (root t)) (update_timing sp cmd addr clk t1)"
    by simp
  then show ?thesis by (simp only: update_def assms(3) bind_res.simps)
qed

text \<open>One step of a trace, seen at one node.\<close>

lemma update_node:
  assumes ok: "tree_ok sp 0 t" and nid: "nid (root t) = 0" and a0: "a ! 0 = 0"
    and up: "update sp cmd addr clk t = ok t'" and n': "node_at a k t' = Some n'"
  shows "\<exists>n. node_at a k t = Some n \<and> (\<forall>c. nextc n c \<le> nextc n' c) \<and>
    (if agree a addr 0 (Suc k)
     then prev n' = prev (push_history cmd clk n)
        \<and> (\<forall>e \<in> set (timing sp k cmd). \<not> sibling e \<and> 0 \<le> prev n' cmd ! (dist e - 1) \<longrightarrow>
             prev n' cmd ! (dist e - 1) + val e \<le> nextc n' (te_cmd e))
     else prev n' = prev n \<and> (agree a addr 0 k \<longrightarrow>
            (\<forall>e \<in> set (timing sp k cmd). sibling e \<longrightarrow> clk + val e \<le> nextc n' (te_cmd e))))"
proof -
  from up obtain t1 where t1: "update_state sp cmd addr (map_root (\<lambda>n. n\<lparr>cur_clk := clk\<rparr>) t) = ok t1"
    and u: "update_timing sp cmd addr clk t1 = ok t'" by (auto simp: update_def res_simps)
  have v: "map_rtree tview t1 = map_rtree tview t"
    using update_state_view [OF t1] by (simp add: map_rtree_map_root tview_def)
  have ok1: "tree_ok sp 0 t1" using ok by (simp add: tree_ok_view [OF v])
  have "nid (root t1) = a ! 0" using v nid a0 by (cases t; cases t1) (simp add: tview_def)
  from update_timing_node [OF ok1 u this n'] obtain m where m: "node_at a k t1 = Some m"
    and st: "if agree a addr 0 (Suc k)
     then fold_res (target_step cmd clk) (timing sp (0 + k) cmd) (push_history cmd clk m) = ok n'
     else if agree a addr 0 k then fold_res (sibling_step clk) (timing sp (0 + k) cmd) m = ok n'
     else n' = m" by blast
  obtain n where n: "node_at a k t = Some n" and nm: "tview n = tview m"
    using node_at_view [OF v, of a k] m by (cases "node_at a k t") auto
  have len: "length (prev m cmd) = history_size (timing sp k cmd)"
    using node_at_level [OF ok1 m] by simp
  have eq: "prev m = prev n" "nextc m = nextc n" "prev (push_history cmd clk m) = prev (push_history cmd clk n)"
    using nm by (auto simp: tview_def push_history_prev fun_eq_iff)
  have "(\<forall>c. nextc n c \<le> nextc n' c) \<and>
    (if agree a addr 0 (Suc k)
     then prev n' = prev (push_history cmd clk n)
        \<and> (\<forall>e \<in> set (timing sp k cmd). \<not> sibling e \<and> 0 \<le> prev n' cmd ! (dist e - 1) \<longrightarrow>
             prev n' cmd ! (dist e - 1) + val e \<le> nextc n' (te_cmd e))
     else prev n' = prev n \<and> (agree a addr 0 k \<longrightarrow>
            (\<forall>e \<in> set (timing sp k cmd). sibling e \<longrightarrow> clk + val e \<le> nextc n' (te_cmd e))))"
  proof (cases "agree a addr 0 (Suc k)")
    case True
    obtain x where "fold_res (target_step cmd clk) (timing sp k cmd) (push_history cmd clk m) = ok x"
      and r: "raised (timing sp k cmd) (\<lambda>t. \<not> sibling t \<and> 0 \<le> past_of (push_history cmd clk m) cmd t)
             (\<lambda>t. past_of (push_history cmd clk m) cmd t + val t) (push_history cmd clk m) x"
      by (rule res_okE [OF target_ok [OF len]])
    with st True have "x = n'" by simp
    with r True show ?thesis by (simp add: raised_def past_of_def eq)
  next
    case False
    show ?thesis
    proof (cases "agree a addr 0 k")
      case True
      obtain x where "fold_res (sibling_step clk) (timing sp k cmd) m = ok x"
        and r: "raised (timing sp k cmd) sibling (\<lambda>t. clk + val t) m x"
        by (rule res_okE [OF sibling_ok])
      with st True False have "x = n'" by simp
      with r False show ?thesis by (simp add: raised_def eq)
    qed (use False st eq in auto)
  qed
  with n show ?thesis by blast
qed

lemma nth_padded:
  assumes "p = take (length p) (h @ replicate (length p) x)" and "i < length p" and "i < length h"
  shows "p ! i = h ! i"
proof -
  have "p ! i = (h @ replicate (length p) x) ! i"
    by (subst assms(1)) (simp only: nth_take [OF assms(2)])
  with assms(3) show ?thesis by (simp add: nth_append)
qed

lemma issued_Cons:
  "issued c a k ((cmd, addr, clk) # tr) =
     (if c = cmd \<and> agree a addr 0 (Suc k) then clk # issued c a k tr else issued c a k tr)"
  by (auto simp: issued_def)

lemma hist_ok_step:
  assumes h: "hist_ok tr a k n"
    and p: "prev n' = (if agree a addr 0 (Suc k) then prev (push_history cmd clk n) else prev n)"
  shows "hist_ok ((cmd, addr, clk) # tr) a k n'"
  unfolding hist_ok_def
proof
  fix c
  let ?h = "issued c a k tr" and ?p = "prev n c"
  have hc: "?p = take (length ?p) (?h @ replicate (length ?p) (-1))" using h by (simp add: hist_ok_def)
  show "prev n' c = take (length (prev n' c))
      (issued c a k ((cmd, addr, clk) # tr) @ replicate (length (prev n' c)) (-1))"
  proof (cases "c = cmd \<and> agree a addr 0 (Suc k) \<and> ?p \<noteq> []")
    case True
    then obtain m where m: "length ?p = Suc m" by (cases ?p) auto
    have "prev n' c = clk # butlast ?p" using True by (auto simp: p push_history_prev)
    moreover have "butlast ?p = take m (?h @ replicate (length ?p) (-1))"
    proof -
      have "butlast ?p = take m ?p" by (simp add: butlast_conv_take m)
      also have "\<dots> = take m (take (length ?p) (?h @ replicate (length ?p) (-1)))" by (rule arg_cong [OF hc])
      also have "\<dots> = take m (?h @ replicate (length ?p) (-1))"
        by (simp only: take_take m min_absorb1 [OF le_SucI [OF order_refl]])
      finally show ?thesis .
    qed
    ultimately have p': "prev n' c = clk # take m (?h @ replicate (Suc m) (-1))" by (simp only: m)
    have "length (prev n' c) = Suc m" using True m by (auto simp: p)
    moreover have "issued c a k ((cmd, addr, clk) # tr) = clk # ?h" using True by (simp add: issued_Cons)
    ultimately show ?thesis by (simp only: p' append_Cons take_Suc_Cons)
  next
    case False
    then have "prev n' c = ?p" by (auto simp: p push_history_prev)
    with False hc show ?thesis by (auto simp: issued_Cons)
  qed
qed

lemma next_ok_step:
  assumes nx: "next_ok sp tr a k n" and mono: "\<forall>c. nextc n c \<le> nextc n' c"
    and h': "hist_ok ((cmd, addr, clk) # tr) a k n'"
    and len: "\<forall>c. length (prev n' c) = history_size (timing sp k c)"
    and pos: "0 \<le> clk" "\<forall>(c, a, clk) \<in> set tr. 0 \<le> clk"
    and target: "agree a addr 0 (Suc k) \<Longrightarrow>
        \<forall>e \<in> set (timing sp k cmd). \<not> sibling e \<and> 0 \<le> prev n' cmd ! (dist e - 1) \<longrightarrow>
             prev n' cmd ! (dist e - 1) + val e \<le> nextc n' (te_cmd e)"
    and sib: "\<not> agree a addr 0 (Suc k) \<Longrightarrow> agree a addr 0 k \<Longrightarrow>
        \<forall>e \<in> set (timing sp k cmd). sibling e \<longrightarrow> clk + val e \<le> nextc n' (te_cmd e)"
  shows "next_ok sp ((cmd, addr, clk) # tr) a k n'"
  unfolding next_ok_def
proof (intro allI ballI conjI impI, goal_cases)
  case (1 c e)
  let ?h = "issued c a k ((cmd, addr, clk) # tr)"
  have d: "1 \<le> dist e" "dist e \<le> length (prev n' c)"
    using entry_dist [OF 1(1)] history_size_ge [OF 1(1)] len by simp_all
  show ?case
  proof (cases "c = cmd \<and> agree a addr 0 (Suc k)")
    case True
    have "prev n' c ! (dist e - 1) = ?h ! (dist e - 1)"
      by (rule nth_padded [OF h' [unfolded hist_ok_def, rule_format]]) (use d conjunct2 [OF 1(2)] in linarith)+
    moreover have "0 \<le> ?h ! (dist e - 1)"
    proof -
      have "?h ! (dist e - 1) \<in> set ?h"
        by (rule nth_mem) (use d(1) conjunct2 [OF 1(2)] in linarith)
      then show ?thesis using pos by (auto simp: issued_def)
    qed
    ultimately show ?thesis using target True 1 by metis
  next
    case False
    then have "?h = issued c a k tr" by (auto simp: issued_Cons)
    with 1 nx have "?h ! (dist e - 1) + val e \<le> nextc n (te_cmd e)" by (simp add: next_ok_def)
    then show ?thesis using mono order_trans by blast
  qed
next
  case (2 c e x)
  have last: "agree a b 0 (Suc k) \<longleftrightarrow> agree a b 0 k \<and> a ! k = b ! k" for b
    by (auto simp: agree_def less_Suc_eq)
  show ?case
  proof (cases "x \<in> set tr")
    case True
    with 2 nx have "case x of (c', a', clk) \<Rightarrow> c' = c \<and> agree a a' 0 k \<and> a ! k \<noteq> a' ! k \<longrightarrow> clk + val e \<le> nextc n (te_cmd e)"
      by (auto simp: next_ok_def)
    then show ?thesis using mono order_trans by (cases x) blast
  next
    case False
    with 2 sib show ?thesis by (auto simp: last)
  qed
qed

lemma run_inv:
  assumes "dram_run sp tr t"
  shows "tree_ok sp 0 t \<and> nid (root t) = 0
     \<and> (\<forall>(c, a, clk) \<in> set tr. 0 \<le> clk)
     \<and> (\<forall>a k n. a ! 0 = 0 \<longrightarrow> node_at a k t = Some n \<longrightarrow> hist_ok tr a k n \<and> next_ok sp tr a k n)"
  using assms
proof (induction rule: dram_run.induct)
  case power_on
  have "hist_ok [] a k n \<and> next_ok sp [] a k n" if "node_at a k (new_DRAM sp 0 0) = Some n" for a k n
  proof -
    have fresh: "node_at a k (new_DRAM sp d i) = Some n \<Longrightarrow> \<forall>c. \<exists>m. prev n c = replicate m (-1)" for a k n d i
    proof (induction k arbitrary: d i)
      case 0
      then show ?case by (subst (asm) new_DRAM.simps) (auto simp: new_node_def)
    next
      case (Suc k)
      then show ?case
        by (subst (asm) (2) new_DRAM.simps) (auto simp: node_at_Suc res_simps split: if_splits)
    qed
    then have "prev n c = take (length (prev n c)) (replicate (length (prev n c)) (-1))" for c
      using that by (metis length_replicate take_all order_refl)
    then have "hist_ok [] a k n" by (simp add: hist_ok_def issued_def)
    moreover have "next_ok sp [] a k n"
      using entry_dist by (fastforce simp: next_ok_def issued_def)
    ultimately show ?thesis ..
  qed
  then show ?case using tree_ok_new [of sp 0 0]
    by (auto simp: new_DRAM.simps [of sp 0 0] new_node_def)
next
  case (issue tr t cmd addr clk t')
  obtain t1 where t1: "update_state sp cmd addr (map_root (\<lambda>n. n\<lparr>cur_clk := clk\<rparr>) t) = ok t1"
    using issue.hyps(6) by (auto simp: update_def res_simps)
  have ok': "tree_ok sp 0 t' \<and> nid (root t') = nid (root t)"
    using update_total [OF _ issue.hyps(5) t1] issue.IH issue.hyps(6) by (auto simp: res_ok_def)
  have "hist_ok ((cmd, addr, clk) # tr) a k n' \<and> next_ok sp ((cmd, addr, clk) # tr) a k n'"
    if a0: "a ! 0 = 0" and n': "node_at a k t' = Some n'" for a k n'
  proof -
    from update_node [OF _ _ a0 issue.hyps(6) n'] issue.IH obtain n where n: "node_at a k t = Some n"
      and mono: "\<forall>c. nextc n c \<le> nextc n' c"
      and eff: "if agree a addr 0 (Suc k)
     then prev n' = prev (push_history cmd clk n)
        \<and> (\<forall>e \<in> set (timing sp k cmd). \<not> sibling e \<and> 0 \<le> prev n' cmd ! (dist e - 1) \<longrightarrow>
             prev n' cmd ! (dist e - 1) + val e \<le> nextc n' (te_cmd e))
     else prev n' = prev n \<and> (agree a addr 0 k \<longrightarrow>
            (\<forall>e \<in> set (timing sp k cmd). sibling e \<longrightarrow> clk + val e \<le> nextc n' (te_cmd e)))" by blast
    from issue.IH a0 n have h: "hist_ok tr a k n" and nx: "next_ok sp tr a k n" by blast+
    have h': "hist_ok ((cmd, addr, clk) # tr) a k n'"
      by (rule hist_ok_step [OF h]) (use eff in \<open>simp split: if_splits\<close>)
    have len: "\<forall>c. length (prev n' c) = history_size (timing sp k c)"
      using node_at_level [of sp 0 t' a k n'] ok' n' by simp
    have target: "\<forall>e \<in> set (timing sp k cmd). \<not> sibling e \<and> 0 \<le> prev n' cmd ! (dist e - 1) \<longrightarrow>
             prev n' cmd ! (dist e - 1) + val e \<le> nextc n' (te_cmd e)" if A: "agree a addr 0 (Suc k)"
      using eff unfolding if_P [OF A] by blast
    have sib: "\<forall>e \<in> set (timing sp k cmd). sibling e \<longrightarrow> clk + val e \<le> nextc n' (te_cmd e)"
      if A: "\<not> agree a addr 0 (Suc k)" "agree a addr 0 k"
      using eff A(2) unfolding if_not_P [OF A(1)] by blast
    have pos: "\<forall>(c, a, clk) \<in> set tr. 0 \<le> clk" using issue.IH by blast
    have "next_ok sp ((cmd, addr, clk) # tr) a k n'"
      by (rule next_ok_step [OF nx mono h' len issue.hyps(3) pos target sib])
    with h' show ?thesis ..
  qed
  with ok' issue.IH issue.hyps(3) show ?case by auto
qed

theorem timing_enforced:
  assumes run: "dram_run sp tr t" and chk: "check sp cmd addr clk t = ok True" and "0 \<le> clk"
    and a0: "addr ! 0 = 0" and n: "node_at addr k t = Some n" and k: "k \<le> scope sp cmd"
    and e: "e \<in> set (timing sp k c)" "te_cmd e = cmd"
  shows "\<not> sibling e \<Longrightarrow> dist e \<le> length (issued c addr k tr) \<Longrightarrow>
           issued c addr k tr ! (dist e - 1) + val e \<le> clk"
    and "sibling e \<Longrightarrow> (c, a', clk') \<in> set tr \<Longrightarrow> agree addr a' 0 k \<Longrightarrow> addr ! k \<noteq> a' ! k \<Longrightarrow>
           clk' + val e \<le> clk"
proof -
  have inv: "tree_ok sp 0 t" "next_ok sp tr addr k n" using run_inv [OF run] a0 n by blast+
  have b: "nextc n cmd \<le> clk" by (rule check_bound [OF inv(1) chk n]) (use k assms(3) in simp_all)
  show "\<not> sibling e \<Longrightarrow> dist e \<le> length (issued c addr k tr) \<Longrightarrow>
           issued c addr k tr ! (dist e - 1) + val e \<le> clk"
    using inv(2) e b by (fastforce simp: next_ok_def)
  show "sibling e \<Longrightarrow> (c, a', clk') \<in> set tr \<Longrightarrow> agree addr a' 0 k \<Longrightarrow> addr ! k \<noteq> a' ! k \<Longrightarrow>
           clk' + val e \<le> clk"
    using inv(2) e b by (fastforce simp: next_ok_def)
qed

lemma run_check_iff_get_next:
  assumes run: "dram_run sp tr t" and "cur_clk (root t) \<le> clk" and "0 \<le> clk"
    and chk: "check sp cmd a clk t = ok b" and nxt: "get_next sp cmd a t = ok v"
  shows "b \<longleftrightarrow> v \<le> clk"
proof -
  have ok: "tree_ok sp 0 t" using run_inv [OF run] by blast
  let ?acc = "max (cur_clk (root t)) (nextc (root t) cmd)"
  have g: "get_next_loop sp cmd a 0 ?acc t = ok v"
    using nxt tree_ok_root [OF ok] by (simp add: get_next_def)
  have "?acc \<le> v \<and> (?acc \<le> clk \<longrightarrow> (b \<longleftrightarrow> v \<le> clk))"
    by (rule check_get_next_loop [OF ok _ _ _ g chk]) (use assms(3) in simp_all)
  moreover have "\<not> b" if "\<not> nextc (root t) cmd \<le> clk"
    using that chk assms(3) by (cases t) auto
  ultimately show ?thesis using assms(2) by fastforce
qed

lemma run_update_timing:
  assumes "dram_run sp tr t" and "height t \<le> length addr"
  shows "\<exists>t'. update_timing sp cmd addr clk t = ok t'"
  using update_timing_total [of 0 t addr cmd clk] run_inv [OF assms(1)] assms(2)
  by (auto simp: res_ok_def)

end

end
