(* ===== verification/DDRTables.thy ===== *)
theory DDRTables
  imports DRAMTiming
begin

text \<open>
  The parts that the standards \<^verbatim>\<open>src/dram/DDR3.{h,cpp}\<close> and \<^verbatim>\<open>src/dram/DDR4.{h,cpp}\<close> write in the
  same way: the organisation entry, the prerequisite, row-hit and row-open tables, the state
  transitions, and the \<^verbatim>\<open>scope\<close> table. They differ in the depth of a bank, which is the
  argument \<open>bl\<close> here: the loops over all banks of a rank visit the nodes at that level.
\<close>

record org_entry =
  osize :: int
  dq :: int
  ocount :: "int list"

definition entry :: "Command \<Rightarrow> nat \<Rightarrow> int \<Rightarrow> bool \<Rightarrow> timing_entry" where
  "entry c d v s = \<lparr>te_cmd = c, dist = d, val = v, sibling = s\<rparr>"

lemma entry_simps [simp]:
  "te_cmd (entry c d v s) = c" "dist (entry c d v s) = d" "val (entry c d v s) = v"
  "sibling (entry c d v s) = s"
  by (simp_all add: entry_def)

text \<open>The vector \<^verbatim>\<open>timing[level][cmd]\<close> of a level's entries, in the order they were pushed.\<close>

definition timing_of :: "(Command \<times> timing_entry) list \<Rightarrow> Command \<Rightarrow> timing_entry list" where
  "timing_of es c = map snd (filter (\<lambda>(c', e). c' = c) es)"

lemma set_timing_of: "e \<in> set (timing_of es c) \<longleftrightarrow> (c, e) \<in> set es"
  by (force simp: timing_of_def)

section \<open>Prerequisites and row hits\<close>

fun rank_access_prereq :: "dram \<Rightarrow> Command \<Rightarrow> int \<Rightarrow> Command option res" where
  "rank_access_prereq t cmd i =
     (case nstate (root t) of
        PowerUp \<Rightarrow> ok None
      | ActPowerDown \<Rightarrow> ok (Some C_PDX)
      | PrePowerDown \<Rightarrow> ok (Some C_PDX)
      | SelfRefresh \<Rightarrow> ok (Some C_SRX)
      | _ \<Rightarrow> fail AssertFailed)"

fun bank_access_prereq :: "dram \<Rightarrow> Command \<Rightarrow> int \<Rightarrow> Command option res" where
  "bank_access_prereq t cmd i =
     (case nstate (root t) of
        Closed \<Rightarrow> ok (Some C_ACT)
      | Opened \<Rightarrow> if row_state (root t) i \<noteq> None then ok (Some cmd) else ok (Some C_PRE)
      | _ \<Rightarrow> fail AssertFailed)"

definition all_closed :: "nat \<Rightarrow> dram \<Rightarrow> bool" where
  "all_closed bl t \<longleftrightarrow> (\<forall>b \<in> set (banks_below (bl - level (root t)) t). nstate b = Closed)"

definition refresh_prereq :: "nat \<Rightarrow> dram \<Rightarrow> Command \<Rightarrow> int \<Rightarrow> Command option res" where
  "refresh_prereq bl t cmd i = (if all_closed bl t then ok (Some C_REF) else ok (Some C_PREA))"

fun power_down_prereq :: "dram \<Rightarrow> Command \<Rightarrow> int \<Rightarrow> Command option res" where
  "power_down_prereq t cmd i =
     (case nstate (root t) of
        PowerUp \<Rightarrow> ok (Some C_PDE)
      | ActPowerDown \<Rightarrow> ok (Some C_PDE)
      | PrePowerDown \<Rightarrow> ok (Some C_PDE)
      | SelfRefresh \<Rightarrow> ok (Some C_SRX)
      | _ \<Rightarrow> fail AssertFailed)"

fun self_refresh_prereq :: "dram \<Rightarrow> Command \<Rightarrow> int \<Rightarrow> Command option res" where
  "self_refresh_prereq t cmd i =
     (case nstate (root t) of
        PowerUp \<Rightarrow> ok (Some C_SRE)
      | ActPowerDown \<Rightarrow> ok (Some C_PDX)
      | PrePowerDown \<Rightarrow> ok (Some C_PDX)
      | SelfRefresh \<Rightarrow> ok (Some C_SRE)
      | _ \<Rightarrow> fail AssertFailed)"

definition ddr_prereq ::
  "nat \<Rightarrow> nat \<Rightarrow> Command \<Rightarrow> (dram \<Rightarrow> Command \<Rightarrow> int \<Rightarrow> Command option res) option" where
  "ddr_prereq bl lv cmd =
     (if lv = 1 \<and> cmd \<in> {C_RD, C_WR} then Some rank_access_prereq
      else if lv = bl \<and> cmd \<in> {C_RD, C_WR} then Some bank_access_prereq
      else if lv = 1 \<and> cmd = C_REF then Some (refresh_prereq bl)
      else if lv = 1 \<and> cmd = C_PDE then Some power_down_prereq
      else if lv = 1 \<and> cmd = C_SRE then Some self_refresh_prereq
      else None)"

fun bank_rowhit :: "dram \<Rightarrow> int \<Rightarrow> bool res" where
  "bank_rowhit t i =
     (case nstate (root t) of
        Closed \<Rightarrow> ok False
      | Opened \<Rightarrow> ok (row_state (root t) i \<noteq> None)
      | _ \<Rightarrow> fail AssertFailed)"

fun bank_rowopen :: "dram \<Rightarrow> int \<Rightarrow> bool res" where
  "bank_rowopen t i =
     (case nstate (root t) of
        Closed \<Rightarrow> ok False
      | Opened \<Rightarrow> ok True
      | _ \<Rightarrow> fail AssertFailed)"

definition ddr_rowhit :: "nat \<Rightarrow> nat \<Rightarrow> Command \<Rightarrow> (dram \<Rightarrow> int \<Rightarrow> bool res) option" where
  "ddr_rowhit bl lv cmd = (if lv = bl \<and> cmd \<in> {C_RD, C_WR} then Some bank_rowhit else None)"

definition ddr_rowopen :: "nat \<Rightarrow> nat \<Rightarrow> Command \<Rightarrow> (dram \<Rightarrow> int \<Rightarrow> bool res) option" where
  "ddr_rowopen bl lv cmd = (if lv = bl \<and> cmd \<in> {C_RD, C_WR} then Some bank_rowopen else None)"

section \<open>State transitions\<close>

definition ddr_lambda :: "nat \<Rightarrow> nat \<Rightarrow> Command \<Rightarrow> lambda_fn option" where
  "ddr_lambda bl lv cmd =
     (if lv = bl \<and> cmd \<in> {C_ACT, C_ACT_R, C_ACT_W} then Some L_open
      else if lv = bl \<and> cmd = C_PRE then Some L_close
      else if lv = 1 \<and> cmd = C_PREA then Some L_close_banks
      else if lv = 1 \<and> cmd = C_REF then Some L_nop
      else if lv = bl \<and> cmd \<in> {C_RD, C_WR} then Some L_nop
      else if lv = bl \<and> cmd \<in> {C_RDA, C_WRA} then Some L_close
      else if lv = 1 \<and> cmd = C_PDE then Some (L_power_down bl)
      else if lv = 1 \<and> cmd = C_PDX then Some (L_set PowerUp)
      else if lv = 1 \<and> cmd = C_SRE then Some (L_set SelfRefresh)
      else if lv = 1 \<and> cmd = C_SRX then Some (L_set PowerUp)
      else None)"

text \<open>
  The initialiser of \<^verbatim>\<open>scope[int(Command::MAX)]\<close> lists twelve levels for fourteen commands; the
  elements it does not mention are zero, which is the level \<^verbatim>\<open>Channel\<close>.
\<close>

definition scope_of :: "nat list \<Rightarrow> Command \<Rightarrow> nat" where
  "scope_of ls c = (if command_index c < length ls then ls ! command_index c else 0)"

lemma timing_of_entry_ok:
  "list_all (\<lambda>(c, e). entry_ok c e) es \<Longrightarrow> e \<in> set (timing_of es c) \<Longrightarrow> entry_ok c e"
  by (auto simp: set_timing_of list_all_iff)

lemma entry_ok_entry:
  "entry_ok c (entry c' d v s) \<longleftrightarrow>
     1 \<le> d \<and> (s \<longrightarrow> d = 1) \<and> (c \<in> {C_REF, C_REFPB} \<and> c' \<in> {C_ACT, C_ACT_R, C_ACT_W} \<and> \<not> s \<longrightarrow> d = 1)"
  by (simp add: entry_ok_def is_refreshing_def is_opening_def)

end
