(* ===== verification/DDR3.thy ===== *)
theory DDR3
  imports DDRTables
begin

text \<open>
  \<^verbatim>\<open>src/dram/DDR3.{h,cpp}\<close>: organisations, speed grades and the timing table of DDR3. The
  fields \<^verbatim>\<open>freq\<close> and \<^verbatim>\<open>tCK\<close> of a speed entry, which no timing computation reads, are left
  out. The levels are Channel 0, Rank 1, Bank 2, Row 3 and Column 4.
\<close>

section \<open>Tables\<close>

record speed3 =
  rate :: int
  nBL :: int
  nCCD :: int
  nRTRS :: int
  nCL :: int
  nRCD :: int
  nRP :: int
  nCWL :: int
  nRAS :: int
  nRC :: int
  nRTP :: int
  nWTR :: int
  nWR :: int
  nRRD :: int
  nFAW :: int
  nRFC :: int
  nREFI :: int
  nPD :: int
  nXP :: int
  nXPDLL :: int
  nCKESR :: int
  nXS :: int
  nXSDLL :: int

definition speed3_of ::
  "int \<Rightarrow> int \<Rightarrow> int \<Rightarrow> int \<Rightarrow> int \<Rightarrow> int \<Rightarrow> int \<Rightarrow> int \<Rightarrow> int \<Rightarrow> int \<Rightarrow> int \<Rightarrow> int \<Rightarrow> int \<Rightarrow> int \<Rightarrow> int \<Rightarrow> int \<Rightarrow> int \<Rightarrow> int \<Rightarrow> int \<Rightarrow> int \<Rightarrow> int \<Rightarrow> int \<Rightarrow> int \<Rightarrow> speed3" where
  "speed3_of a0 a1 a2 a3 a4 a5 a6 a7 a8 a9 a10 a11 a12 a13 a14 a15 a16 a17 a18 a19 a20 a21 a22 =
     \<lparr>rate = a0, nBL = a1, nCCD = a2, nRTRS = a3, nCL = a4, nRCD = a5, nRP = a6, nCWL = a7, nRAS = a8, nRC = a9, nRTP = a10, nWTR = a11, nWR = a12, nRRD = a13, nFAW = a14, nRFC = a15, nREFI = a16, nPD = a17, nXP = a18, nXPDLL = a19, nCKESR = a20, nXS = a21, nXSDLL = a22\<rparr>"

definition ddr3_org_table :: "org_entry list" where
  "ddr3_org_table =
     [\<lparr>osize = 512, dq = 4, ocount = [0, 0, 8, 8192, 2048]\<rparr>,
      \<lparr>osize = 512, dq = 8, ocount = [0, 0, 8, 8192, 1024]\<rparr>,
      \<lparr>osize = 512, dq = 16, ocount = [0, 0, 8, 4096, 1024]\<rparr>,
      \<lparr>osize = 1024, dq = 4, ocount = [0, 0, 8, 16384, 2048]\<rparr>,
      \<lparr>osize = 1024, dq = 8, ocount = [0, 0, 8, 16384, 1024]\<rparr>,
      \<lparr>osize = 1024, dq = 16, ocount = [0, 0, 8, 8192, 1024]\<rparr>,
      \<lparr>osize = 2048, dq = 4, ocount = [0, 0, 8, 32768, 2048]\<rparr>,
      \<lparr>osize = 2048, dq = 8, ocount = [0, 0, 8, 32768, 1024]\<rparr>,
      \<lparr>osize = 2048, dq = 16, ocount = [0, 0, 8, 16384, 1024]\<rparr>,
      \<lparr>osize = 4096, dq = 4, ocount = [0, 0, 8, 65536, 2048]\<rparr>,
      \<lparr>osize = 4096, dq = 8, ocount = [0, 0, 8, 65536, 1024]\<rparr>,
      \<lparr>osize = 4096, dq = 16, ocount = [0, 0, 8, 32768, 1024]\<rparr>,
      \<lparr>osize = 8192, dq = 4, ocount = [0, 0, 8, 65536, 4096]\<rparr>,
      \<lparr>osize = 8192, dq = 8, ocount = [0, 0, 8, 65536, 2048]\<rparr>,
      \<lparr>osize = 8192, dq = 16, ocount = [0, 0, 8, 65536, 1024]\<rparr>]"

definition ddr3_speed_table :: "speed3 list" where
  "ddr3_speed_table =
     [speed3_of 800 4 4 2 5 5 5 5 15 20 4 4 6 0 0 0 3120 3 3 10 4 0 512,
      speed3_of 800 4 4 2 6 6 6 5 15 21 4 4 6 0 0 0 3120 3 3 10 4 0 512,
      speed3_of 1066 4 4 2 6 6 6 6 20 26 4 4 8 0 0 0 4160 3 4 13 4 0 512,
      speed3_of 1066 4 4 2 7 7 7 6 20 27 4 4 8 0 0 0 4160 3 4 13 4 0 512,
      speed3_of 1066 4 4 2 8 8 8 6 20 28 4 4 8 0 0 0 4160 3 4 13 4 0 512,
      speed3_of 1333 4 4 2 8 8 8 7 24 32 5 5 10 0 0 0 5200 4 4 16 5 0 512,
      speed3_of 1333 4 4 2 9 9 9 7 24 33 5 5 10 0 0 0 5200 4 4 16 5 0 512,
      speed3_of 1600 4 4 2 9 9 9 8 28 37 6 6 12 0 0 0 6240 4 5 20 5 0 512,
      speed3_of 1600 4 4 2 10 10 10 8 28 38 6 6 12 0 0 0 6240 4 5 20 5 0 512,
      speed3_of 1600 4 4 2 11 11 11 8 28 39 6 6 12 0 0 0 6240 4 5 20 5 0 512,
      speed3_of 1866 4 4 2 11 11 11 9 32 43 7 7 14 0 0 0 7280 5 6 23 6 0 512,
      speed3_of 1866 4 4 2 12 12 12 9 32 44 7 7 14 0 0 0 7280 5 6 23 6 0 512,
      speed3_of 2133 4 4 2 12 12 12 10 36 48 8 8 16 0 0 0 8320 6 7 26 7 0 512,
      speed3_of 2133 4 4 2 13 13 13 10 36 49 8 8 16 0 0 0 8320 6 7 26 7 0 512]"

definition ddr3_org_map :: "(string \<times> nat) list" where
  "ddr3_org_map =
     zip [''DDR3_512Mb_x4'',
      ''DDR3_512Mb_x8'',
      ''DDR3_512Mb_x16'',
      ''DDR3_1Gb_x4'',
      ''DDR3_1Gb_x8'',
      ''DDR3_1Gb_x16'',
      ''DDR3_2Gb_x4'',
      ''DDR3_2Gb_x8'',
      ''DDR3_2Gb_x16'',
      ''DDR3_4Gb_x4'',
      ''DDR3_4Gb_x8'',
      ''DDR3_4Gb_x16'',
      ''DDR3_8Gb_x4'',
      ''DDR3_8Gb_x8'',
      ''DDR3_8Gb_x16''] [0..<15]"

definition ddr3_speed_map :: "(string \<times> nat) list" where
  "ddr3_speed_map =
     zip [''DDR3_800D'',
      ''DDR3_800E'',
      ''DDR3_1066E'',
      ''DDR3_1066F'',
      ''DDR3_1066G'',
      ''DDR3_1333G'',
      ''DDR3_1333H'',
      ''DDR3_1600H'',
      ''DDR3_1600J'',
      ''DDR3_1600K'',
      ''DDR3_1866K'',
      ''DDR3_1866L'',
      ''DDR3_2133L'',
      ''DDR3_2133M''] [0..<14]"

section \<open>Initialisation\<close>

record ddr3 =
  org3 :: org_entry
  speed_entry3 :: speed3
  read_latency3 :: int

text \<open>
  \<^verbatim>\<open>init_speed\<close>: the parameters that depend on the page size and the chip size. An unknown data
  rate fails the assertion.
\<close>

definition pick_rate :: "int \<Rightarrow> (int \<times> 'a) list \<Rightarrow> 'a res" where
  "pick_rate r cases = (case map_of cases r of None \<Rightarrow> fail AssertFailed | Some v \<Rightarrow> ok v)"

definition by_chip :: "int \<Rightarrow> int \<Rightarrow> int \<Rightarrow> int \<Rightarrow> int \<Rightarrow> int \<Rightarrow> int" where
  "by_chip chip a b c d e =
     (if chip = 512 then a else if chip = 1024 then b else if chip = 2048 then c
      else if chip = 4096 then d else e)"

definition ddr3_init_speed :: "org_entry \<Rightarrow> speed3 \<Rightarrow> speed3 res" where
  "ddr3_init_speed og s =
     (let page = (dq og * ocount og ! 4) div 8192; chip = osize og;
          p = (\<lambda>a b. if page = 1 then a else b :: int)
      in bind_res (pick_rate (rate s)
           [(800, (p 4 4, p 16 20)), (1066, (p 4 6, p 20 27)), (1333, (p 4 5, p 20 30)),
            (1600, (p 5 6, p 24 32)), (1866, (p 5 6, p 26 33)), (2133, (p 5 6, p 27 34))]) (\<lambda>(rrd, faw).
         bind_res (pick_rate (rate s)
           [(800, by_chip chip 36 44 64 104 140), (1066, by_chip chip 48 59 86 139 187),
            (1333, by_chip chip 60 74 107 174 234), (1600, by_chip chip 72 88 128 208 280),
            (1866, by_chip chip 84 103 150 243 327), (2133, by_chip chip 96 118 171 278 374)]) (\<lambda>rfc.
         bind_res (pick_rate (rate s)
           [(800, by_chip chip 40 48 68 108 144), (1066, by_chip chip 54 64 91 144 192),
            (1333, by_chip chip 67 80 114 180 240), (1600, by_chip chip 80 96 136 216 288),
            (1866, by_chip chip 94 112 159 252 336), (2133, by_chip chip 107 128 182 288 384)]) (\<lambda>xs.
           ok (s\<lparr>nRRD := rrd, nFAW := faw, nRFC := rfc, nXS := xs\<rparr>)))))"

definition new_DDR3 :: "nat \<Rightarrow> nat \<Rightarrow> ddr3 res" where
  "new_DDR3 org speed =
     bind_res (nth_res ddr3_org_table org) (\<lambda>og.
     bind_res (nth_res ddr3_speed_table speed) (\<lambda>sp.
     bind_res (ddr3_init_speed og sp) (\<lambda>sp'.
       ok \<lparr>org3 = og, speed_entry3 = sp', read_latency3 = nCL sp + nBL sp\<rparr>)))"

text \<open>\<^verbatim>\<open>org_map[org_str]\<close>: a name that is not in the map selects the enumerator 0.\<close>

definition new_DDR3_named :: "string \<Rightarrow> string \<Rightarrow> ddr3 res" where
  "new_DDR3_named org speed =
     new_DDR3 (map_get 0 (map_of ddr3_org_map) org) (map_get 0 (map_of ddr3_speed_map) speed)"

definition ddr3_set_rank_number :: "int \<Rightarrow> ddr3 \<Rightarrow> ddr3" where
  "ddr3_set_rank_number r d = d\<lparr>org3 := (org3 d)\<lparr>ocount := (ocount (org3 d))[1 := r]\<rparr>\<rparr>"

definition ddr3_set_channel_number :: "int \<Rightarrow> ddr3 \<Rightarrow> ddr3" where
  "ddr3_set_channel_number c d = d\<lparr>org3 := (org3 d)\<lparr>ocount := (ocount (org3 d))[0 := c]\<rparr>\<rparr>"

definition ddr3_scope :: "Command \<Rightarrow> nat" where
  "ddr3_scope = scope_of [3, 2, 1, 4, 4, 4, 4, 1, 1, 1, 1, 1]"

definition ddr3_start :: "dstate list" where
  "ddr3_start = [State_MAX, PowerUp, Closed, Closed, State_MAX]"

definition ddr3_prereq ::
  "nat \<Rightarrow> Command \<Rightarrow> (dram \<Rightarrow> Command \<Rightarrow> int \<Rightarrow> Command option res) option" where
  "ddr3_prereq = ddr_prereq 2"

definition ddr3_rowhit :: "nat \<Rightarrow> Command \<Rightarrow> (dram \<Rightarrow> int \<Rightarrow> bool res) option" where
  "ddr3_rowhit = ddr_rowhit 2"

definition ddr3_rowopen :: "nat \<Rightarrow> Command \<Rightarrow> (dram \<Rightarrow> int \<Rightarrow> bool res) option" where
  "ddr3_rowopen = ddr_rowopen 2"

definition ddr3_lambda :: "nat \<Rightarrow> Command \<Rightarrow> lambda_fn option" where
  "ddr3_lambda = ddr_lambda 2"

section \<open>The timing table\<close>

definition ddr3_channel_timing :: "speed3 \<Rightarrow> (Command \<times> timing_entry) list" where
  "ddr3_channel_timing s =
     [(C_RD, entry C_RD 1 (nBL s) False),
      (C_RD, entry C_RDA 1 (nBL s) False),
      (C_RDA, entry C_RD 1 (nBL s) False),
      (C_RDA, entry C_RDA 1 (nBL s) False),
      (C_WR, entry C_WR 1 (nBL s) False),
      (C_WR, entry C_WRA 1 (nBL s) False),
      (C_WRA, entry C_WR 1 (nBL s) False),
      (C_WRA, entry C_WRA 1 (nBL s) False)]"

definition ddr3_rank_timing :: "speed3 \<Rightarrow> (Command \<times> timing_entry) list" where
  "ddr3_rank_timing s =
     [(C_RD, entry C_RD 1 (nCCD s) False),
      (C_RD, entry C_RDA 1 (nCCD s) False),
      (C_RDA, entry C_RD 1 (nCCD s) False),
      (C_RDA, entry C_RDA 1 (nCCD s) False),
      (C_WR, entry C_WR 1 (nCCD s) False),
      (C_WR, entry C_WRA 1 (nCCD s) False),
      (C_WRA, entry C_WR 1 (nCCD s) False),
      (C_WRA, entry C_WRA 1 (nCCD s) False),
      (C_RD, entry C_WR 1 (nCL s + nCCD s + 2 - nCWL s) False),
      (C_RD, entry C_WRA 1 (nCL s + nCCD s + 2 - nCWL s) False),
      (C_RDA, entry C_WR 1 (nCL s + nCCD s + 2 - nCWL s) False),
      (C_RDA, entry C_WRA 1 (nCL s + nCCD s + 2 - nCWL s) False),
      (C_WR, entry C_RD 1 (nCWL s + nBL s + nWTR s) False),
      (C_WR, entry C_RDA 1 (nCWL s + nBL s + nWTR s) False),
      (C_WRA, entry C_RD 1 (nCWL s + nBL s + nWTR s) False),
      (C_WRA, entry C_RDA 1 (nCWL s + nBL s + nWTR s) False),
      (C_RD, entry C_RD 1 (nBL s + nRTRS s) True),
      (C_RD, entry C_RDA 1 (nBL s + nRTRS s) True),
      (C_RDA, entry C_RD 1 (nBL s + nRTRS s) True),
      (C_RDA, entry C_RDA 1 (nBL s + nRTRS s) True),
      (C_RD, entry C_WR 1 (nBL s + nRTRS s) True),
      (C_RD, entry C_WRA 1 (nBL s + nRTRS s) True),
      (C_RDA, entry C_WR 1 (nBL s + nRTRS s) True),
      (C_RDA, entry C_WRA 1 (nBL s + nRTRS s) True),
      (C_RD, entry C_WR 1 (nCL s + nBL s + nRTRS s - nCWL s) True),
      (C_RD, entry C_WRA 1 (nCL s + nBL s + nRTRS s - nCWL s) True),
      (C_RDA, entry C_WR 1 (nCL s + nBL s + nRTRS s - nCWL s) True),
      (C_RDA, entry C_WRA 1 (nCL s + nBL s + nRTRS s - nCWL s) True),
      (C_WR, entry C_RD 1 (nCWL s + nBL s + nRTRS s - nCL s) True),
      (C_WR, entry C_RDA 1 (nCWL s + nBL s + nRTRS s - nCL s) True),
      (C_WRA, entry C_RD 1 (nCWL s + nBL s + nRTRS s - nCL s) True),
      (C_WRA, entry C_RDA 1 (nCWL s + nBL s + nRTRS s - nCL s) True),
      (C_RD, entry C_PREA 1 (nRTP s) False),
      (C_WR, entry C_PREA 1 (nCWL s + nBL s + nWR s) False),
      (C_RD, entry C_PDE 1 (nCL s + nBL s + 1) False),
      (C_RDA, entry C_PDE 1 (nCL s + nBL s + 1) False),
      (C_WR, entry C_PDE 1 (nCWL s + nBL s + nWR s) False),
      (C_WRA, entry C_PDE 1 (nCWL s + nBL s + nWR s + 1) False),
      (C_PDX, entry C_RD 1 (nXP s) False),
      (C_PDX, entry C_RDA 1 (nXP s) False),
      (C_PDX, entry C_WR 1 (nXP s) False),
      (C_PDX, entry C_WRA 1 (nXP s) False),
      (C_ACT, entry C_ACT 1 (nRRD s) False),
      (C_ACT, entry C_ACT 4 (nFAW s) False),
      (C_ACT, entry C_PREA 1 (nRAS s) False),
      (C_PREA, entry C_ACT 1 (nRP s) False),
      (C_ACT_R, entry C_ACT_R 1 (nRRD s) False),
      (C_ACT_W, entry C_ACT_W 1 (nRRD s) False),
      (C_ACT_R, entry C_ACT_W 1 (nRRD s) False),
      (C_ACT_W, entry C_ACT_R 1 (nRRD s) False),
      (C_ACT_R, entry C_ACT_W 4 (nFAW s) False),
      (C_ACT_R, entry C_ACT_R 4 (nFAW s) False),
      (C_ACT_W, entry C_ACT_W 4 (nFAW s) False),
      (C_ACT_W, entry C_ACT_R 4 (nFAW s) False),
      (C_ACT_R, entry C_PREA 1 (nRAS s) False),
      (C_ACT_W, entry C_PREA 1 (nRAS s) False),
      (C_PREA, entry C_ACT_R 1 (nRP s) False),
      (C_PREA, entry C_ACT_W 1 (nRP s) False),
      (C_PRE, entry C_REF 1 (nRP s) False),
      (C_PREA, entry C_REF 1 (nRP s) False),
      (C_REF, entry C_ACT 1 (nRFC s) False),
      (C_REF, entry C_ACT_R 1 (nRFC s) False),
      (C_REF, entry C_ACT_W 1 (nRFC s) False),
      (C_ACT_R, entry C_PDE 1 (1) False),
      (C_ACT_W, entry C_PDE 1 (1) False),
      (C_PDX, entry C_ACT_R 1 (nXP s) False),
      (C_PDX, entry C_ACT_W 1 (nXP s) False),
      (C_ACT, entry C_PDE 1 (1) False),
      (C_PDX, entry C_ACT 1 (nXP s) False),
      (C_PDX, entry C_PRE 1 (nXP s) False),
      (C_PDX, entry C_PREA 1 (nXP s) False),
      (C_PRE, entry C_SRE 1 (nRP s) False),
      (C_PREA, entry C_SRE 1 (nRP s) False),
      (C_SRX, entry C_ACT 1 (nXS s) False),
      (C_SRX, entry C_ACT_R 1 (nXS s) False),
      (C_SRX, entry C_ACT_W 1 (nXS s) False),
      (C_REF, entry C_REF 1 (nRFC s) False),
      (C_REF, entry C_PDE 1 (1) False),
      (C_PDX, entry C_REF 1 (nXP s) False),
      (C_SRX, entry C_REF 1 (nXS s) False),
      (C_PDE, entry C_PDX 1 (nPD s) False),
      (C_PDX, entry C_PDE 1 (nXP s) False),
      (C_PDX, entry C_SRE 1 (nXP s) False),
      (C_SRX, entry C_PDE 1 (nXS s) False),
      (C_SRE, entry C_SRX 1 (nCKESR s) False),
      (C_SRX, entry C_SRE 1 (nXS s) False)]"

definition ddr3_bank_timing :: "speed3 \<Rightarrow> (Command \<times> timing_entry) list" where
  "ddr3_bank_timing s =
     [(C_ACT, entry C_RD 1 (nRCD s) False),
      (C_ACT, entry C_RDA 1 (nRCD s) False),
      (C_ACT, entry C_WR 1 (nRCD s) False),
      (C_ACT, entry C_WRA 1 (nRCD s) False),
      (C_ACT_R, entry C_RD 1 (nRCD s) False),
      (C_ACT_W, entry C_RD 1 (nRCD s) False),
      (C_ACT_R, entry C_RDA 1 (nRCD s) False),
      (C_ACT_W, entry C_RDA 1 (nRCD s) False),
      (C_ACT_R, entry C_WR 1 (nRCD s) False),
      (C_ACT_W, entry C_WR 1 (nRCD s) False),
      (C_ACT_R, entry C_WRA 1 (nRCD s) False),
      (C_ACT_W, entry C_WRA 1 (nRCD s) False),
      (C_RD, entry C_PRE 1 (nRTP s) False),
      (C_WR, entry C_PRE 1 (nCWL s + nBL s + nWR s) False),
      (C_RDA, entry C_ACT_R 1 (nRTP s + nRP s) False),
      (C_RDA, entry C_ACT_W 1 (nRTP s + nRP s) False),
      (C_WRA, entry C_ACT_R 1 (nCWL s + nBL s + nWR s + nRP s) False),
      (C_WRA, entry C_ACT_W 1 (nCWL s + nBL s + nWR s + nRP s) False),
      (C_RD, entry C_PRE 1 (nRTP s) False),
      (C_WR, entry C_PRE 1 (nCWL s + nBL s + nWR s) False),
      (C_RDA, entry C_ACT 1 (nRTP s + nRP s) False),
      (C_WRA, entry C_ACT 1 (nCWL s + nBL s + nWR s + nRP s) False),
      (C_ACT, entry C_ACT 1 (nRC s) False),
      (C_ACT, entry C_PRE 1 (nRAS s) False),
      (C_PRE, entry C_ACT 1 (nRP s) False),
      (C_ACT_R, entry C_ACT_R 1 (nRC s) False),
      (C_ACT_R, entry C_ACT_W 1 (nRC s) False),
      (C_ACT_W, entry C_ACT_W 1 (nRC s) False),
      (C_ACT_W, entry C_ACT_R 1 (nRC s) False),
      (C_ACT_R, entry C_PRE 1 (nRAS s) False),
      (C_ACT_W, entry C_PRE 1 (nRAS s) False),
      (C_PRE, entry C_ACT_R 1 (nRP s) False),
      (C_PRE, entry C_ACT_W 1 (nRP s) False)]"

definition ddr3_timing :: "speed3 \<Rightarrow> nat \<Rightarrow> Command \<Rightarrow> timing_entry list" where
  "ddr3_timing s lv =
     timing_of (if lv = 0 then ddr3_channel_timing s else if lv = 1 then ddr3_rank_timing s
                else if lv = 2 then ddr3_bank_timing s else [])"

definition ddr3_spec :: "ddr3 \<Rightarrow> dram_spec" where
  "ddr3_spec d =
     \<lparr>scope = ddr3_scope, start = ddr3_start, prereq = ddr3_prereq, rowhit = ddr3_rowhit,
      rowopen = ddr3_rowopen, lambda = ddr3_lambda, timing = ddr3_timing (speed_entry3 d),
      org_count = ocount (org3 d), bankLevel = 2, rowLevel = 3\<rparr>"

section \<open>The table is well formed\<close>

lemma ddr3_timing_ok: "e \<in> set (ddr3_timing s lv c) \<Longrightarrow> entry_ok c e"
proof -
  have "list_all (\<lambda>(c, e). entry_ok c e) (ddr3_channel_timing s)"
    by (simp add: ddr3_channel_timing_def entry_ok_entry)
  moreover have "list_all (\<lambda>(c, e). entry_ok c e) (ddr3_rank_timing s)"
    by (simp add: ddr3_rank_timing_def entry_ok_entry)
  moreover have "list_all (\<lambda>(c, e). entry_ok c e) (ddr3_bank_timing s)"
    by (simp add: ddr3_bank_timing_def entry_ok_entry)
  ultimately show "e \<in> set (ddr3_timing s lv c) \<Longrightarrow> entry_ok c e"
    unfolding ddr3_timing_def by (elim timing_of_entry_ok [rotated]) simp
qed

interpretation ddr3: dram_standard "ddr3_spec d" for d
  by unfold_locales (simp add: ddr3_spec_def ddr3_timing_ok)

lemma ddr3_spec_simps [simp]:
  "scope (ddr3_spec d) = ddr3_scope" "timing (ddr3_spec d) = ddr3_timing (speed_entry3 d)"
  by (simp_all add: ddr3_spec_def)

lemma ddr3_scope_simps [simp]:
  "ddr3_scope C_ACT = 1" "ddr3_scope C_RD = 4" "ddr3_scope C_WR = 4" "ddr3_scope C_PRE = 4"
  "ddr3_scope C_RDA = 1" "ddr3_scope C_WRA = 1"
  by (simp_all add: ddr3_scope_def scope_of_def)

lemma ddr3_entries:
  "entry C_ACT 1 (nRRD s) False \<in> set (ddr3_timing s 1 C_ACT)"
  "entry C_ACT 4 (nFAW s) False \<in> set (ddr3_timing s 1 C_ACT)"
  "entry C_RD 1 (nRCD s) False \<in> set (ddr3_timing s 2 C_ACT)"
  "entry C_WR 1 (nRCD s) False \<in> set (ddr3_timing s 2 C_ACT)"
  "entry C_PRE 1 (nRAS s) False \<in> set (ddr3_timing s 2 C_ACT)"
  by (simp_all add: ddr3_timing_def set_timing_of ddr3_rank_timing_def ddr3_bank_timing_def)

section \<open>Properties\<close>

definition ddr3_sample :: ddr3 where
  "ddr3_sample = ddr3_set_rank_number 1 (projr (new_DDR3_named ''DDR3_2Gb_x8'' ''DDR3_1600K''))"

text \<open>An activation of bank 0 at cycle 10, on a fresh device.\<close>

definition ddr3_after_act :: "dram res" where
  "ddr3_after_act = update (ddr3_spec ddr3_sample) C_ACT [0, 0, 0, 5, 0] 10 (new_DRAM (ddr3_spec ddr3_sample) 0 0)"

lemma ddr3_after_act_run:
  "\<exists>t. ddr3_after_act = ok t \<and> dram_run (ddr3_spec ddr3_sample) [(C_ACT, [0, 0, 0, 5, 0], 10)] t
     \<and> check (ddr3_spec ddr3_sample) C_RD [0, 0, 0, 5, 0] 30 t = ok True
     \<and> get_next (ddr3_spec ddr3_sample) C_RD [0, 0, 0, 5, 0] t = ok 21
     \<and> node_at [0, 0, 0, 5, 0] 1 t \<noteq> None \<and> node_at [0, 0, 0, 5, 0] 2 t \<noteq> None \<and> cur_clk (root t) = 10 \<and> height t = 3"
proof -
  let ?sp = "ddr3_spec ddr3_sample" and ?a = "[0, 0, 0, 5, 0] :: int list"
  have e: "case ddr3_after_act of Inl _ \<Rightarrow> False | Inr t \<Rightarrow> check ?sp C_RD ?a 30 t = ok True
     \<and> get_next ?sp C_RD ?a t = ok 21 \<and> node_at ?a 1 t \<noteq> None \<and> node_at ?a 2 t \<noteq> None \<and> cur_clk (root t) = 10
     \<and> height t = 3"
    by code_simp
  then obtain t where t: "ddr3_after_act = ok t" by (auto split: sum.splits)
  have "check ?sp C_ACT ?a 10 (new_DRAM ?sp 0 0) = ok True" by code_simp
  moreover have "height (new_DRAM ?sp 0 0) \<le> length ?a" by code_simp
  ultimately have "dram_run ?sp [(C_ACT, ?a, 10)] t"
    using t dram_run.issue [OF dram_run.power_on, of ?sp C_ACT ?a 10 t] by (simp add: ddr3_after_act_def)
  moreover from e have "check ?sp C_RD ?a 30 t = ok True
     \<and> get_next ?sp C_RD ?a t = ok 21 \<and> node_at ?a 1 t \<noteq> None \<and> node_at ?a 2 t \<noteq> None \<and> cur_clk (root t) = 10
     \<and> height t = 3"
    by (subst (asm) t) simp
  ultimately show ?thesis using t by blast
qed



text \<open>
  The rules between activations, accesses and precharges: an accepted activation keeps \<open>nRRD\<close>
  from the last one on its rank and \<open>nFAW\<close> from the fourth last, an accepted read or write keeps
  \<open>nRCD\<close> from the activation of its bank, and an accepted precharge keeps \<open>nRAS\<close> from it.
\<close>

theorem ddr3_activation_rules:
  assumes "dram_run (ddr3_spec d) tr t" and "check (ddr3_spec d) cmd addr clk t = ok True"
    and "0 \<le> clk" and "addr ! 0 = 0" and "node_at addr 1 t = Some rk" and "node_at addr 2 t = Some bk"
  shows "(cmd = C_ACT \<and> issued C_ACT addr 1 tr \<noteq> [] \<longrightarrow>
            issued C_ACT addr 1 tr ! 0 + nRRD (speed_entry3 d) \<le> clk)
       \<and> (cmd = C_ACT \<and> 4 \<le> length (issued C_ACT addr 1 tr) \<longrightarrow>
            issued C_ACT addr 1 tr ! 3 + nFAW (speed_entry3 d) \<le> clk)
       \<and> (cmd \<in> {C_RD, C_WR} \<and> issued C_ACT addr 2 tr \<noteq> [] \<longrightarrow>
            issued C_ACT addr 2 tr ! 0 + nRCD (speed_entry3 d) \<le> clk)
       \<and> (cmd = C_PRE \<and> issued C_ACT addr 2 tr \<noteq> [] \<longrightarrow>
            issued C_ACT addr 2 tr ! 0 + nRAS (speed_entry3 d) \<le> clk)"
proof -
  have one: "1 \<le> length xs" if "xs \<noteq> []" for xs :: "int list" using that by (cases xs) auto
  note R = ddr3.timing_enforced(1) [OF assms(1,2,3,4)]
  have "issued C_ACT addr 1 tr ! 0 + nRRD (speed_entry3 d) \<le> clk"
    if "cmd = C_ACT" "issued C_ACT addr 1 tr \<noteq> []"
    using R [OF assms(5), of "entry C_ACT 1 (nRRD (speed_entry3 d)) False" C_ACT] that one ddr3_entries(1) by simp
  moreover have "issued C_ACT addr 1 tr ! 3 + nFAW (speed_entry3 d) \<le> clk"
    if "cmd = C_ACT" "4 \<le> length (issued C_ACT addr 1 tr)"
    using R [OF assms(5), of "entry C_ACT 4 (nFAW (speed_entry3 d)) False" C_ACT] that ddr3_entries(2) by simp
  moreover have "issued C_ACT addr 2 tr ! 0 + nRCD (speed_entry3 d) \<le> clk"
    if "cmd \<in> {C_RD, C_WR}" "issued C_ACT addr 2 tr \<noteq> []"
    using R [OF assms(6), of "entry cmd 1 (nRCD (speed_entry3 d)) False" C_ACT] that one ddr3_entries(3,4) by auto
  moreover have "issued C_ACT addr 2 tr ! 0 + nRAS (speed_entry3 d) \<le> clk"
    if "cmd = C_PRE" "issued C_ACT addr 2 tr \<noteq> []"
    using R [OF assms(6), of "entry C_PRE 1 (nRAS (speed_entry3 d)) False" C_ACT] that one ddr3_entries(5) by simp
  ultimately show ?thesis by blast
qed

theorem ddr3_activation_rules_witness:
  "\<exists>t. dram_run (ddr3_spec ddr3_sample) [(C_ACT, [0, 0, 0, 5, 0], 10)] t
      \<and> check (ddr3_spec ddr3_sample) C_RD [0, 0, 0, 5, 0] 30 t = ok True
      \<and> issued C_ACT [0, 0, 0, 5, 0] 2 [(C_ACT, [0, 0, 0, 5, 0], 10)] = [10]
      \<and> 10 + nRCD (speed_entry3 ddr3_sample) \<le> 30"
proof -
  let ?a = "[0, 0, 0, 5, 0] :: int list"
  obtain t rk n where t: "dram_run (ddr3_spec ddr3_sample) [(C_ACT, ?a, 10)] t"
      "check (ddr3_spec ddr3_sample) C_RD ?a 30 t = ok True" "node_at ?a 1 t = Some rk" "node_at ?a 2 t = Some n"
    using ddr3_after_act_run by blast
  have i: "issued C_ACT ?a 2 [(C_ACT, ?a, 10)] = [10]" by (simp add: issued_def agree_def)
  with t ddr3_activation_rules [OF t(1,2) _ _ t(3,4)] show ?thesis by auto
qed

text \<open>
  (C18) \<^verbatim>\<open>check\<close> and \<^verbatim>\<open>get_next\<close> agree: on every reachable device, for a cycle not before the last
  update, a command passes \<^verbatim>\<open>check\<close> exactly when the earliest cycle computed by \<^verbatim>\<open>get_next\<close> has
  come.
\<close>

theorem ddr3_check_iff_get_next:
  assumes "dram_run (ddr3_spec d) tr t" and "cur_clk (root t) \<le> clk" and "0 \<le> clk"
    and "check (ddr3_spec d) cmd addr clk t = ok b" and "get_next (ddr3_spec d) cmd addr t = ok v"
  shows "b \<longleftrightarrow> v \<le> clk"
  by (rule ddr3.run_check_iff_get_next [OF assms])

theorem ddr3_check_iff_get_next_witness:
  "\<exists>t. dram_run (ddr3_spec ddr3_sample) [(C_ACT, [0, 0, 0, 5, 0], 10)] t
      \<and> check (ddr3_spec ddr3_sample) C_RD [0, 0, 0, 5, 0] 30 t = ok True
      \<and> get_next (ddr3_spec ddr3_sample) C_RD [0, 0, 0, 5, 0] t = ok 21 \<and> (True \<longleftrightarrow> (21 :: int) \<le> 30)"
  using ddr3_after_act_run ddr3_check_iff_get_next [of ddr3_sample _ _ 30 C_RD "[0, 0, 0, 5, 0]" True 21]
  by auto

text \<open>
  (C19) Recording a command never fails: on every reachable device and for every address vector
  with a component per level, \<^verbatim>\<open>update_timing\<close> returns, so neither of its assertions fires and no
  history is read outside its bounds.
\<close>

theorem ddr3_update_timing_total:
  assumes "dram_run (ddr3_spec d) tr t" and "height t \<le> length addr"
  shows "\<exists>t'. update_timing (ddr3_spec d) cmd addr clk t = ok t'"
  by (rule ddr3.run_update_timing [OF assms])

theorem ddr3_update_timing_total_witness:
  "\<exists>t t'. dram_run (ddr3_spec ddr3_sample) [(C_ACT, [0, 0, 0, 5, 0], 10)] t
      \<and> update_timing (ddr3_spec ddr3_sample) C_REF [0, 0, 0, 5, 0] 200 t = ok t'"
proof -
  obtain t where t: "dram_run (ddr3_spec ddr3_sample) [(C_ACT, [0, 0, 0, 5, 0], 10)] t" "height t = 3"
    using ddr3_after_act_run by blast
  then have "\<exists>t'. update_timing (ddr3_spec ddr3_sample) C_REF [0, 0, 0, 5, 0] 200 t = ok t'"
    by (intro ddr3_update_timing_total) simp_all
  with t show ?thesis by blast
qed


end
