(* ===== verification/DDR4.thy ===== *)
theory DDR4
  imports DDRTables
begin

text \<open>
  \<^verbatim>\<open>src/dram/DDR4.{h,cpp}\<close>: organisations, speed grades and the timing table of DDR4, with its
  additional level of bank groups. The fields \<^verbatim>\<open>freq\<close> and \<^verbatim>\<open>tCK\<close> of a speed entry are left out.
  The levels are Channel 0, Rank 1, BankGroup 2, Bank 3, Row 4 and Column 5. A field that the
  DDR3 entry also has carries a \<open>4\<close>.
\<close>

section \<open>Tables\<close>

record speed4 =
  rate4 :: int
  nBL4 :: int
  nCCDS :: int
  nCCDL :: int
  nRTRS4 :: int
  nCL4 :: int
  nRCD4 :: int
  nRP4 :: int
  nCWL4 :: int
  nRAS4 :: int
  nRC4 :: int
  nRTP4 :: int
  nWTRS :: int
  nWTRL :: int
  nWR4 :: int
  nRRDS :: int
  nRRDL :: int
  nFAW4 :: int
  nRFC4 :: int
  nREFI4 :: int
  nPD4 :: int
  nXP4 :: int
  nXPDLL4 :: int
  nCKESR4 :: int
  nXS4 :: int
  nXSDLL4 :: int

definition speed4_of ::
  "int \<Rightarrow> int \<Rightarrow> int \<Rightarrow> int \<Rightarrow> int \<Rightarrow> int \<Rightarrow> int \<Rightarrow> int \<Rightarrow> int \<Rightarrow> int \<Rightarrow> int \<Rightarrow> int \<Rightarrow> int \<Rightarrow> int \<Rightarrow> int \<Rightarrow> int \<Rightarrow> int \<Rightarrow> int \<Rightarrow> int \<Rightarrow> int \<Rightarrow> int \<Rightarrow> int \<Rightarrow> int \<Rightarrow> int \<Rightarrow> int \<Rightarrow> int \<Rightarrow> speed4" where
  "speed4_of a0 a1 a2 a3 a4 a5 a6 a7 a8 a9 a10 a11 a12 a13 a14 a15 a16 a17 a18 a19 a20 a21 a22 a23 a24 a25 =
     \<lparr>rate4 = a0, nBL4 = a1, nCCDS = a2, nCCDL = a3, nRTRS4 = a4, nCL4 = a5, nRCD4 = a6, nRP4 = a7, nCWL4 = a8, nRAS4 = a9, nRC4 = a10, nRTP4 = a11, nWTRS = a12, nWTRL = a13, nWR4 = a14, nRRDS = a15, nRRDL = a16, nFAW4 = a17, nRFC4 = a18, nREFI4 = a19, nPD4 = a20, nXP4 = a21, nXPDLL4 = a22, nCKESR4 = a23, nXS4 = a24, nXSDLL4 = a25\<rparr>"

definition ddr4_org_table :: "org_entry list" where
  "ddr4_org_table =
     [\<lparr>osize = 2048, dq = 4, ocount = [0, 0, 4, 4, 32768, 1024]\<rparr>,
      \<lparr>osize = 2048, dq = 8, ocount = [0, 0, 4, 16, 16384, 16384]\<rparr>,
      \<lparr>osize = 2048, dq = 16, ocount = [0, 0, 2, 4, 16384, 1024]\<rparr>,
      \<lparr>osize = 4096, dq = 4, ocount = [0, 0, 4, 4, 65536, 1024]\<rparr>,
      \<lparr>osize = 4096, dq = 8, ocount = [0, 0, 4, 4, 32768, 1024]\<rparr>,
      \<lparr>osize = 4096, dq = 16, ocount = [0, 0, 2, 4, 32768, 1024]\<rparr>,
      \<lparr>osize = 8192, dq = 4, ocount = [0, 0, 4, 4, 131072, 1024]\<rparr>,
      \<lparr>osize = 8192, dq = 8, ocount = [0, 0, 4, 4, 65536, 1024]\<rparr>,
      \<lparr>osize = 8192, dq = 16, ocount = [0, 0, 2, 4, 65536, 1024]\<rparr>]"

definition ddr4_speed_table :: "speed4 list" where
  "ddr4_speed_table =
     [speed4_of 1600 4 4 5 2 11 11 11 9 28 39 6 2 6 12 0 0 0 0 0 4 5 0 5 0 0,
      speed4_of 1600 4 4 5 2 12 12 12 9 28 40 6 2 6 12 0 0 0 0 0 4 5 0 5 0 0,
      speed4_of 1866 4 4 5 2 13 13 13 10 32 45 7 3 7 14 0 0 0 0 0 5 6 0 6 0 0,
      speed4_of 1866 4 4 5 2 14 14 14 10 32 46 7 3 7 14 0 0 0 0 0 5 6 0 6 0 0,
      speed4_of 2133 4 4 6 2 15 15 15 11 36 51 8 3 8 16 0 0 0 0 0 6 7 0 7 0 0,
      speed4_of 2133 4 4 6 2 16 16 16 11 36 52 8 3 8 16 0 0 0 0 0 6 7 0 7 0 0,
      speed4_of 2400 4 4 6 2 16 16 16 12 39 55 9 3 9 18 0 0 0 0 0 6 8 0 7 0 0,
      speed4_of 2400 4 4 6 2 18 18 18 12 39 57 9 3 9 18 0 0 0 0 0 6 8 0 7 0 0]"

definition ddr4_org_map :: "(string \<times> nat) list" where
  "ddr4_org_map =
     zip [''DDR4_2Gb_x4'',
      ''DDR4_2Gb_x8'',
      ''DDR4_2Gb_x16'',
      ''DDR4_4Gb_x4'',
      ''DDR4_4Gb_x8'',
      ''DDR4_4Gb_x16'',
      ''DDR4_8Gb_x4'',
      ''DDR4_8Gb_x8'',
      ''DDR4_8Gb_x16''] [0..<9]"

definition ddr4_speed_map :: "(string \<times> nat) list" where
  "ddr4_speed_map =
     zip [''DDR4_1600K'',
      ''DDR4_1600L'',
      ''DDR4_1866M'',
      ''DDR4_1866N'',
      ''DDR4_2133P'',
      ''DDR4_2133R'',
      ''DDR4_2400R'',
      ''DDR4_2400U''] [0..<8]"

section \<open>Initialisation\<close>

record ddr4 =
  org4 :: org_entry
  speed_entry4 :: speed4
  read_latency4 :: int
  refresh_mode :: nat

definition RRDS_TABLE :: "int list list" where
  "RRDS_TABLE = [[4, 4, 4, 4], [5, 5, 6, 7]]"

definition RRDL_TABLE :: "int list list" where
  "RRDL_TABLE = [[5, 5, 6, 6], [6, 6, 7, 8]]"

definition FAW_TABLE :: "int list list" where
  "FAW_TABLE = [[16, 16, 16, 16], [20, 22, 23, 26], [28, 28, 32, 36]]"

definition RFC_TABLE :: "int list list list" where
  "RFC_TABLE =
     [[[128, 150, 171, 192], [208, 243, 278, 312], [280, 327, 374, 420]],
      [[88, 103, 118, 132], [128, 150, 171, 192], [208, 243, 278, 312]],
      [[72, 84, 96, 108], [88, 103, 118, 132], [128, 150, 171, 192]]]"

definition REFI_TABLE :: "int list" where
  "REFI_TABLE = [6240, 7280, 8320, 9360]"

definition XS_TABLE :: "int list list" where
  "XS_TABLE = [[136, 159, 182, 204], [216, 252, 288, 324], [288, 336, 384, 432]]"

definition index_of :: "int \<Rightarrow> (int \<times> nat) list \<Rightarrow> nat res" where
  "index_of r cases = (case map_of cases r of None \<Rightarrow> fail AssertFailed | Some v \<Rightarrow> ok v)"

definition ddr4_init_speed :: "nat \<Rightarrow> org_entry \<Rightarrow> speed4 \<Rightarrow> speed4 res" where
  "ddr4_init_speed mode og s =
     bind_res (index_of (rate4 s) [(1600, 0), (1866, 1), (2133, 2), (2400, 3)]) (\<lambda>speed.
     bind_res (index_of (osize og div 1024) [(2, 0), (4, 1), (8, 2)]) (\<lambda>density.
       let w = (if dq og = 16 then 1 else 0 :: nat);
           f = (if dq og = 4 then 0 else if dq og = 8 then 1 else 2 :: nat)
       in ok (s\<lparr>nRRDS := RRDS_TABLE ! w ! speed, nRRDL := RRDL_TABLE ! w ! speed,
                nFAW4 := FAW_TABLE ! f ! speed, nRFC4 := RFC_TABLE ! mode ! density ! speed,
                nREFI4 := REFI_TABLE ! speed div 2 ^ mode, nXS4 := XS_TABLE ! density ! speed\<rparr>)))"

definition new_DDR4 :: "nat \<Rightarrow> nat \<Rightarrow> ddr4 res" where
  "new_DDR4 org speed =
     bind_res (nth_res ddr4_org_table org) (\<lambda>og.
     bind_res (nth_res ddr4_speed_table speed) (\<lambda>sp.
     bind_res (ddr4_init_speed 0 og sp) (\<lambda>sp'.
       ok \<lparr>org4 = og, speed_entry4 = sp', read_latency4 = nCL4 sp + nBL4 sp, refresh_mode = 0\<rparr>)))"

definition new_DDR4_named :: "string \<Rightarrow> string \<Rightarrow> ddr4 res" where
  "new_DDR4_named org speed =
     new_DDR4 (map_get 0 (map_of ddr4_org_map) org) (map_get 0 (map_of ddr4_speed_map) speed)"

definition ddr4_set_rank_number :: "int \<Rightarrow> ddr4 \<Rightarrow> ddr4" where
  "ddr4_set_rank_number r d = d\<lparr>org4 := (org4 d)\<lparr>ocount := (ocount (org4 d))[1 := r]\<rparr>\<rparr>"

definition ddr4_set_channel_number :: "int \<Rightarrow> ddr4 \<Rightarrow> ddr4" where
  "ddr4_set_channel_number c d = d\<lparr>org4 := (org4 d)\<lparr>ocount := (ocount (org4 d))[0 := c]\<rparr>\<rparr>"

definition ddr4_scope :: "Command \<Rightarrow> nat" where
  "ddr4_scope = scope_of [4, 3, 1, 5, 5, 5, 5, 1, 1, 1, 1, 1]"

definition ddr4_start :: "dstate list" where
  "ddr4_start = [State_MAX, PowerUp, State_MAX, Closed, Closed, State_MAX]"

definition ddr4_prereq ::
  "nat \<Rightarrow> Command \<Rightarrow> (dram \<Rightarrow> Command \<Rightarrow> int \<Rightarrow> Command option res) option" where
  "ddr4_prereq = ddr_prereq 3"

definition ddr4_rowhit :: "nat \<Rightarrow> Command \<Rightarrow> (dram \<Rightarrow> int \<Rightarrow> bool res) option" where
  "ddr4_rowhit = ddr_rowhit 3"

definition ddr4_rowopen :: "nat \<Rightarrow> Command \<Rightarrow> (dram \<Rightarrow> int \<Rightarrow> bool res) option" where
  "ddr4_rowopen = ddr_rowopen 3"

definition ddr4_lambda :: "nat \<Rightarrow> Command \<Rightarrow> lambda_fn option" where
  "ddr4_lambda = ddr_lambda 3"

section \<open>The timing table\<close>

definition ddr4_channel_timing :: "speed4 \<Rightarrow> (Command \<times> timing_entry) list" where
  "ddr4_channel_timing s =
     [(C_RD, entry C_RD 1 (nBL4 s) False),
      (C_RD, entry C_RDA 1 (nBL4 s) False),
      (C_RDA, entry C_RD 1 (nBL4 s) False),
      (C_RDA, entry C_RDA 1 (nBL4 s) False),
      (C_WR, entry C_WR 1 (nBL4 s) False),
      (C_WR, entry C_WRA 1 (nBL4 s) False),
      (C_WRA, entry C_WR 1 (nBL4 s) False),
      (C_WRA, entry C_WRA 1 (nBL4 s) False)]"

definition ddr4_rank_timing :: "speed4 \<Rightarrow> (Command \<times> timing_entry) list" where
  "ddr4_rank_timing s =
     [(C_RD, entry C_RD 1 (nCCDS s) False),
      (C_RD, entry C_RDA 1 (nCCDS s) False),
      (C_RDA, entry C_RD 1 (nCCDS s) False),
      (C_RDA, entry C_RDA 1 (nCCDS s) False),
      (C_WR, entry C_WR 1 (nCCDS s) False),
      (C_WR, entry C_WRA 1 (nCCDS s) False),
      (C_WRA, entry C_WR 1 (nCCDS s) False),
      (C_WRA, entry C_WRA 1 (nCCDS s) False),
      (C_RD, entry C_WR 1 (nCL4 s + nCCDS s + 2 - nCWL4 s) False),
      (C_RD, entry C_WRA 1 (nCL4 s + nCCDS s + 2 - nCWL4 s) False),
      (C_RDA, entry C_WR 1 (nCL4 s + nCCDS s + 2 - nCWL4 s) False),
      (C_RDA, entry C_WRA 1 (nCL4 s + nCCDS s + 2 - nCWL4 s) False),
      (C_WR, entry C_RD 1 (nCWL4 s + nBL4 s + nWTRS s) False),
      (C_WR, entry C_RDA 1 (nCWL4 s + nBL4 s + nWTRS s) False),
      (C_WRA, entry C_RD 1 (nCWL4 s + nBL4 s + nWTRS s) False),
      (C_WRA, entry C_RDA 1 (nCWL4 s + nBL4 s + nWTRS s) False),
      (C_RD, entry C_RD 1 (nBL4 s + nRTRS4 s) True),
      (C_RD, entry C_RDA 1 (nBL4 s + nRTRS4 s) True),
      (C_RDA, entry C_RD 1 (nBL4 s + nRTRS4 s) True),
      (C_RDA, entry C_RDA 1 (nBL4 s + nRTRS4 s) True),
      (C_RD, entry C_WR 1 (nBL4 s + nRTRS4 s) True),
      (C_RD, entry C_WRA 1 (nBL4 s + nRTRS4 s) True),
      (C_RDA, entry C_WR 1 (nBL4 s + nRTRS4 s) True),
      (C_RDA, entry C_WRA 1 (nBL4 s + nRTRS4 s) True),
      (C_RD, entry C_WR 1 (nCL4 s + nBL4 s + nRTRS4 s - nCWL4 s) True),
      (C_RD, entry C_WRA 1 (nCL4 s + nBL4 s + nRTRS4 s - nCWL4 s) True),
      (C_RDA, entry C_WR 1 (nCL4 s + nBL4 s + nRTRS4 s - nCWL4 s) True),
      (C_RDA, entry C_WRA 1 (nCL4 s + nBL4 s + nRTRS4 s - nCWL4 s) True),
      (C_WR, entry C_RD 1 (nCWL4 s + nBL4 s + nRTRS4 s - nCL4 s) True),
      (C_WR, entry C_RDA 1 (nCWL4 s + nBL4 s + nRTRS4 s - nCL4 s) True),
      (C_WRA, entry C_RD 1 (nCWL4 s + nBL4 s + nRTRS4 s - nCL4 s) True),
      (C_WRA, entry C_RDA 1 (nCWL4 s + nBL4 s + nRTRS4 s - nCL4 s) True),
      (C_RD, entry C_PREA 1 (nRTP4 s) False),
      (C_WR, entry C_PREA 1 (nCWL4 s + nBL4 s + nWR4 s) False),
      (C_RD, entry C_PDE 1 (nCL4 s + nBL4 s + 1) False),
      (C_RDA, entry C_PDE 1 (nCL4 s + nBL4 s + 1) False),
      (C_WR, entry C_PDE 1 (nCWL4 s + nBL4 s + nWR4 s) False),
      (C_WRA, entry C_PDE 1 (nCWL4 s + nBL4 s + nWR4 s + 1) False),
      (C_PDX, entry C_RD 1 (nXP4 s) False),
      (C_PDX, entry C_RDA 1 (nXP4 s) False),
      (C_PDX, entry C_WR 1 (nXP4 s) False),
      (C_PDX, entry C_WRA 1 (nXP4 s) False),
      (C_ACT, entry C_ACT 1 (nRRDS s) False),
      (C_ACT, entry C_ACT 4 (nFAW4 s) False),
      (C_ACT, entry C_PREA 1 (nRAS4 s) False),
      (C_PREA, entry C_ACT 1 (nRP4 s) False),
      (C_ACT_R, entry C_ACT_R 1 (nRRDS s) False),
      (C_ACT_W, entry C_ACT_W 1 (nRRDS s) False),
      (C_ACT_R, entry C_ACT_W 1 (nRRDS s) False),
      (C_ACT_W, entry C_ACT_R 1 (nRRDS s) False),
      (C_ACT_R, entry C_ACT_W 4 (nFAW4 s) False),
      (C_ACT_R, entry C_ACT_R 4 (nFAW4 s) False),
      (C_ACT_W, entry C_ACT_W 4 (nFAW4 s) False),
      (C_ACT_W, entry C_ACT_R 4 (nFAW4 s) False),
      (C_ACT_R, entry C_PREA 1 (nRAS4 s) False),
      (C_ACT_W, entry C_PREA 1 (nRAS4 s) False),
      (C_PREA, entry C_ACT_R 1 (nRP4 s) False),
      (C_PREA, entry C_ACT_W 1 (nRP4 s) False),
      (C_PRE, entry C_REF 1 (nRP4 s) False),
      (C_PREA, entry C_REF 1 (nRP4 s) False),
      (C_REF, entry C_ACT 1 (nRFC4 s) False),
      (C_REF, entry C_ACT_R 1 (nRFC4 s) False),
      (C_REF, entry C_ACT_W 1 (nRFC4 s) False),
      (C_ACT_R, entry C_PDE 1 (1) False),
      (C_ACT_W, entry C_PDE 1 (1) False),
      (C_PDX, entry C_ACT_R 1 (nXP4 s) False),
      (C_PDX, entry C_ACT_W 1 (nXP4 s) False),
      (C_ACT, entry C_PDE 1 (1) False),
      (C_PDX, entry C_ACT 1 (nXP4 s) False),
      (C_PDX, entry C_PRE 1 (nXP4 s) False),
      (C_PDX, entry C_PREA 1 (nXP4 s) False),
      (C_PRE, entry C_SRE 1 (nRP4 s) False),
      (C_PREA, entry C_SRE 1 (nRP4 s) False),
      (C_SRX, entry C_ACT 1 (nXS4 s) False),
      (C_SRX, entry C_ACT_R 1 (nXS4 s) False),
      (C_SRX, entry C_ACT_W 1 (nXS4 s) False),
      (C_REF, entry C_REF 1 (nRFC4 s) False),
      (C_REF, entry C_PDE 1 (1) False),
      (C_PDX, entry C_REF 1 (nXP4 s) False),
      (C_SRX, entry C_REF 1 (nXS4 s) False),
      (C_PDE, entry C_PDX 1 (nPD4 s) False),
      (C_PDX, entry C_PDE 1 (nXP4 s) False),
      (C_PDX, entry C_SRE 1 (nXP4 s) False),
      (C_SRX, entry C_PDE 1 (nXS4 s) False),
      (C_SRE, entry C_SRX 1 (nCKESR4 s) False),
      (C_SRX, entry C_SRE 1 (nXS4 s) False)]"

definition ddr4_bankgroup_timing :: "speed4 \<Rightarrow> (Command \<times> timing_entry) list" where
  "ddr4_bankgroup_timing s =
     [(C_RD, entry C_RD 1 (nCCDL s) False),
      (C_RD, entry C_RDA 1 (nCCDL s) False),
      (C_RDA, entry C_RD 1 (nCCDL s) False),
      (C_RDA, entry C_RDA 1 (nCCDL s) False),
      (C_WR, entry C_WR 1 (nCCDL s) False),
      (C_WR, entry C_WRA 1 (nCCDL s) False),
      (C_WRA, entry C_WR 1 (nCCDL s) False),
      (C_WRA, entry C_WRA 1 (nCCDL s) False),
      (C_WR, entry C_WR 1 (nCCDL s) False),
      (C_WR, entry C_WRA 1 (nCCDL s) False),
      (C_WRA, entry C_WR 1 (nCCDL s) False),
      (C_WRA, entry C_WRA 1 (nCCDL s) False),
      (C_WR, entry C_RD 1 (nCWL4 s + nBL4 s + nWTRL s) False),
      (C_WR, entry C_RDA 1 (nCWL4 s + nBL4 s + nWTRL s) False),
      (C_WRA, entry C_RD 1 (nCWL4 s + nBL4 s + nWTRL s) False),
      (C_WRA, entry C_RDA 1 (nCWL4 s + nBL4 s + nWTRL s) False),
      (C_ACT, entry C_ACT 1 (nRRDL s) False),
      (C_ACT_R, entry C_ACT_R 1 (nRRDL s) False),
      (C_ACT_W, entry C_ACT_W 1 (nRRDL s) False),
      (C_ACT_W, entry C_ACT_R 1 (nRRDL s) False),
      (C_ACT_R, entry C_ACT_W 1 (nRRDL s) False)]"

definition ddr4_bank_timing :: "speed4 \<Rightarrow> (Command \<times> timing_entry) list" where
  "ddr4_bank_timing s =
     [(C_ACT, entry C_RD 1 (nRCD4 s) False),
      (C_ACT, entry C_RDA 1 (nRCD4 s) False),
      (C_ACT, entry C_WR 1 (nRCD4 s) False),
      (C_ACT, entry C_WRA 1 (nRCD4 s) False),
      (C_ACT_R, entry C_RD 1 (nRCD4 s) False),
      (C_ACT_W, entry C_RD 1 (nRCD4 s) False),
      (C_ACT_R, entry C_RDA 1 (nRCD4 s) False),
      (C_ACT_W, entry C_RDA 1 (nRCD4 s) False),
      (C_ACT_R, entry C_WR 1 (nRCD4 s) False),
      (C_ACT_W, entry C_WR 1 (nRCD4 s) False),
      (C_ACT_R, entry C_WRA 1 (nRCD4 s) False),
      (C_ACT_W, entry C_WRA 1 (nRCD4 s) False),
      (C_RD, entry C_PRE 1 (nRTP4 s) False),
      (C_WR, entry C_PRE 1 (nCWL4 s + nBL4 s + nWR4 s) False),
      (C_RDA, entry C_ACT 1 (nRTP4 s + nRP4 s) False),
      (C_RDA, entry C_ACT_R 1 (nRTP4 s + nRP4 s) False),
      (C_RDA, entry C_ACT_W 1 (nRTP4 s + nRP4 s) False),
      (C_WRA, entry C_ACT 1 (nCWL4 s + nBL4 s + nWR4 s + nRP4 s) False),
      (C_WRA, entry C_ACT_R 1 (nCWL4 s + nBL4 s + nWR4 s + nRP4 s) False),
      (C_WRA, entry C_ACT_W 1 (nCWL4 s + nBL4 s + nWR4 s + nRP4 s) False),
      (C_ACT, entry C_ACT 1 (nRC4 s) False),
      (C_ACT, entry C_PRE 1 (nRAS4 s) False),
      (C_PRE, entry C_ACT 1 (nRP4 s) False),
      (C_ACT_R, entry C_ACT_R 1 (nRC4 s) False),
      (C_ACT_R, entry C_ACT_W 1 (nRC4 s) False),
      (C_ACT_W, entry C_ACT_W 1 (nRC4 s) False),
      (C_ACT_W, entry C_ACT_R 1 (nRC4 s) False),
      (C_ACT_R, entry C_PRE 1 (nRAS4 s) False),
      (C_ACT_W, entry C_PRE 1 (nRAS4 s) False),
      (C_PRE, entry C_ACT_R 1 (nRP4 s) False),
      (C_PRE, entry C_ACT_W 1 (nRP4 s) False)]"

definition ddr4_timing :: "speed4 \<Rightarrow> nat \<Rightarrow> Command \<Rightarrow> timing_entry list" where
  "ddr4_timing s lv =
     timing_of (if lv = 0 then ddr4_channel_timing s else if lv = 1 then ddr4_rank_timing s
                else if lv = 2 then ddr4_bankgroup_timing s else if lv = 3 then ddr4_bank_timing s
                else [])"

definition ddr4_spec :: "ddr4 \<Rightarrow> dram_spec" where
  "ddr4_spec d =
     \<lparr>scope = ddr4_scope, start = ddr4_start, prereq = ddr4_prereq, rowhit = ddr4_rowhit,
      rowopen = ddr4_rowopen, lambda = ddr4_lambda, timing = ddr4_timing (speed_entry4 d),
      org_count = ocount (org4 d), bankLevel = 3, rowLevel = 4\<rparr>"

section \<open>The table is well formed\<close>

lemma ddr4_timing_ok: "e \<in> set (ddr4_timing s lv c) \<Longrightarrow> entry_ok c e"
proof -
  have "list_all (\<lambda>(c, e). entry_ok c e) (ddr4_channel_timing s)"
    by (simp add: ddr4_channel_timing_def entry_ok_entry)
  moreover have "list_all (\<lambda>(c, e). entry_ok c e) (ddr4_rank_timing s)"
    by (simp add: ddr4_rank_timing_def entry_ok_entry)
  moreover have "list_all (\<lambda>(c, e). entry_ok c e) (ddr4_bankgroup_timing s)"
    by (simp add: ddr4_bankgroup_timing_def entry_ok_entry)
  moreover have "list_all (\<lambda>(c, e). entry_ok c e) (ddr4_bank_timing s)"
    by (simp add: ddr4_bank_timing_def entry_ok_entry)
  ultimately show "e \<in> set (ddr4_timing s lv c) \<Longrightarrow> entry_ok c e"
    unfolding ddr4_timing_def by (elim timing_of_entry_ok [rotated]) simp
qed

interpretation ddr4: dram_standard "ddr4_spec d" for d
  by unfold_locales (simp add: ddr4_spec_def ddr4_timing_ok)

lemma ddr4_spec_simps [simp]:
  "scope (ddr4_spec d) = ddr4_scope" "timing (ddr4_spec d) = ddr4_timing (speed_entry4 d)"
  by (simp_all add: ddr4_spec_def)

lemma ddr4_scope_simps [simp]: "ddr4_scope C_RD = 5"
  by (simp add: ddr4_scope_def scope_of_def)

lemma ddr4_entries: "entry C_RD 1 (nRCD4 s) False \<in> set (ddr4_timing s 3 C_ACT)"
  by (simp add: ddr4_timing_def set_timing_of ddr4_bank_timing_def)

section \<open>Properties\<close>

definition ddr4_sample :: ddr4 where
  "ddr4_sample = ddr4_set_rank_number 1 (projr (new_DDR4_named ''DDR4_4Gb_x8'' ''DDR4_2400R''))"

text \<open>An activation of bank 0 of bank group 0 at cycle 10, on a fresh device.\<close>

definition ddr4_after_act :: "dram res" where
  "ddr4_after_act = update (ddr4_spec ddr4_sample) C_ACT [0, 0, 0, 0, 5, 0] 10 (new_DRAM (ddr4_spec ddr4_sample) 0 0)"

lemma ddr4_after_act_run:
  "\<exists>t. ddr4_after_act = ok t \<and> dram_run (ddr4_spec ddr4_sample) [(C_ACT, [0, 0, 0, 0, 5, 0], 10)] t
     \<and> check (ddr4_spec ddr4_sample) C_RD [0, 0, 0, 0, 5, 0] 30 t = ok True
     \<and> node_at [0, 0, 0, 0, 5, 0] 3 t \<noteq> None"
proof -
  let ?sp = "ddr4_spec ddr4_sample" and ?a = "[0, 0, 0, 0, 5, 0] :: int list"
  have e: "case ddr4_after_act of Inl _ \<Rightarrow> False | Inr t \<Rightarrow> check ?sp C_RD ?a 30 t = ok True
     \<and> node_at ?a 3 t \<noteq> None"
    by code_simp
  then obtain t where t: "ddr4_after_act = ok t" by (auto split: sum.splits)
  have "check ?sp C_ACT ?a 10 (new_DRAM ?sp 0 0) = ok True" by code_simp
  moreover have "height (new_DRAM ?sp 0 0) \<le> length ?a" by code_simp
  ultimately have "dram_run ?sp [(C_ACT, ?a, 10)] t"
    using t dram_run.issue [OF dram_run.power_on, of ?sp C_ACT ?a 10 t] by (simp add: ddr4_after_act_def)
  moreover from e have "check ?sp C_RD ?a 30 t = ok True
     \<and> node_at ?a 3 t \<noteq> None"
    by (subst (asm) t) simp
  ultimately show ?thesis using t by blast
qed

text \<open>
  A DDR4 device enforces its timing table: whatever commands it has accepted since power-on,
  a command that passes \<^verbatim>\<open>check\<close> comes at least \<open>val\<close> cycles after the \<open>dist\<close>-th most recent command
  that an entry of the table relates it to, at every level (channel, rank, bank group, bank) down
  to the scope of the command.
\<close>

theorem ddr4_constraints_respected:
  assumes "dram_run (ddr4_spec d) tr t" and "check (ddr4_spec d) cmd addr clk t = ok True"
    and "0 \<le> clk" and "addr ! 0 = 0" and "node_at addr k t = Some n" and "k \<le> ddr4_scope cmd"
    and "e \<in> set (ddr4_timing (speed_entry4 d) k c)" and "te_cmd e = cmd" and "\<not> sibling e"
    and "dist e \<le> length (issued c addr k tr)"
  shows "issued c addr k tr ! (dist e - 1) + val e \<le> clk"
  by (rule ddr4.timing_enforced(1) [of d tr t cmd addr clk k n]) (use assms in simp_all)

theorem ddr4_constraints_respected_witness:
  "\<exists>t. dram_run (ddr4_spec ddr4_sample) [(C_ACT, [0, 0, 0, 0, 5, 0], 10)] t
      \<and> check (ddr4_spec ddr4_sample) C_RD [0, 0, 0, 0, 5, 0] 30 t = ok True
      \<and> 10 + nRCD4 (speed_entry4 ddr4_sample) \<le> 30"
proof -
  let ?a = "[0, 0, 0, 0, 5, 0] :: int list"
  obtain t n where t: "dram_run (ddr4_spec ddr4_sample) [(C_ACT, ?a, 10)] t"
      "check (ddr4_spec ddr4_sample) C_RD ?a 30 t = ok True" "node_at ?a 3 t = Some n"
    using ddr4_after_act_run by blast
  have i: "issued C_ACT ?a 3 [(C_ACT, ?a, 10)] = [10]" by (simp add: issued_def agree_def)
  have "issued C_ACT ?a 3 [(C_ACT, ?a, 10)] ! (1 - 1) + nRCD4 (speed_entry4 ddr4_sample) \<le> 30"
    using ddr4_constraints_respected [OF t(1,2) _ _ t(3) _ ddr4_entries] by (simp add: i)
  with t i show ?thesis by auto
qed

end
