(* ===== verification/DSARP.thy ===== *)
theory DSARP
  imports DDRTables
begin

text \<open>
  \<^verbatim>\<open>src/dram/DSARP.{h,cpp}\<close>: a DDR3-like standard with subarrays, built to overlap refreshes with
  accesses. The type of a device selects the refresh mechanism; with \<^verbatim>\<open>SARP\<close> and \<^verbatim>\<open>DSARP\<close> a bank
  serves accesses while one of its subarrays is refreshed. The levels are Channel 0, Rank 1,
  Bank 2, SubArray 3, Row 4 and Column 5; a bank keeps the subarray that holds the open row in
  its \<^verbatim>\<open>row_state\<close>, a subarray the row. Fields and constants that other standards also have carry
  a \<open>_d\<close>. The fields \<^verbatim>\<open>freq\<close> and \<^verbatim>\<open>tCK\<close>, which are floating-point numbers, and the static string
  \<^verbatim>\<open>standard_name\<close> are left out.
\<close>

section \<open>Tables\<close>

datatype dsarp_type = Type_REFAB | Type_REFPB | Type_DARP | Type_SARP | Type_DSARP | Type_MAX

record speed_d =
  rate_d :: int
  nBL_d :: int
  nCCD_d :: int
  nRTRS_d :: int
  nCL_d :: int
  nRCD_d :: int
  nRPpb_d :: int
  nRPab_d :: int
  nCWL_d :: int
  nRAS_d :: int
  nRC_d :: int
  nRTP_d :: int
  nWTR_d :: int
  nWR_d :: int
  nRRD_d :: int
  nFAW_d :: int
  nRFCab_d :: int
  nRFCpb_d :: int
  nREFI_d :: int
  nREFIpb_d :: int
  nPD_d :: int
  nXP_d :: int
  nXPDLL_d :: int
  nCKESR_d :: int
  nXS_d :: int
  nXSDLL_d :: int

definition speed_d_of ::
  "int \<Rightarrow> int \<Rightarrow> int \<Rightarrow> int \<Rightarrow> int \<Rightarrow> int \<Rightarrow> int \<Rightarrow> int \<Rightarrow> int \<Rightarrow> int \<Rightarrow> int \<Rightarrow> int \<Rightarrow> int \<Rightarrow> int \<Rightarrow> int \<Rightarrow> int \<Rightarrow> int \<Rightarrow> int \<Rightarrow> int \<Rightarrow> int \<Rightarrow> int \<Rightarrow> int \<Rightarrow> int \<Rightarrow> int \<Rightarrow> int \<Rightarrow> int \<Rightarrow>  speed_d" where
  "speed_d_of a0 a1 a2 a3 a4 a5 a6 a7 a8 a9 a10 a11 a12 a13 a14 a15 a16 a17 a18 a19 a20 a21 a22 a23 a24 a25 =
     \<lparr>rate_d = a0, nBL_d = a1, nCCD_d = a2, nRTRS_d = a3, nCL_d = a4, nRCD_d = a5, nRPpb_d = a6, nRPab_d = a7, nCWL_d = a8, nRAS_d = a9, nRC_d = a10, nRTP_d = a11, nWTR_d = a12, nWR_d = a13, nRRD_d = a14, nFAW_d = a15, nRFCab_d = a16, nRFCpb_d = a17, nREFI_d = a18, nREFIpb_d = a19, nPD_d = a20, nXP_d = a21, nXPDLL_d = a22, nCKESR_d = a23, nXS_d = a24, nXSDLL_d = a25\<rparr>"

definition dsarp_org_table :: "org_entry list" where
  "dsarp_org_table =
     [\<lparr>osize = 8192, dq = 8, ocount = [0, 0, 8, 0, 65536, 2048]\<rparr>,
      \<lparr>osize = 16384, dq = 8, ocount = [0, 0, 8, 0, 131072, 2048]\<rparr>,
      \<lparr>osize = 32768, dq = 8, ocount = [0, 0, 8, 0, 262144, 2048]\<rparr>]"

definition dsarp_speed_table :: "speed_d list" where
  "dsarp_speed_table = [speed_d_of 1333 4 4 2 9 9 8 9 7 24 33 5 5 10 5 30 0 0 0 0 4 4 16 5 114 512]"

text \<open>The second name really is written with \<^verbatim>\<open>x9\<close>.\<close>

definition dsarp_org_map :: "(string \<times> nat) list" where
  "dsarp_org_map = [(''DSARP_8Gb_x8'', 0), (''DSARP_16Gb_x9'', 1), (''DSARP_32Gb_x8'', 2)]"

definition dsarp_speed_map :: "(string \<times> nat) list" where
  "dsarp_speed_map = [(''DSARP_1333'', 0)]"

section \<open>Initialisation\<close>

record dsarp =
  dsarpType :: dsarp_type
  org_d :: org_entry
  speed_entry_d :: speed_d
  read_latency_d :: int
  n_sa :: int
  b_ref_rank :: bool
  translate_d :: "Command list"

definition dsarp_init_speed :: "org_entry \<Rightarrow> speed_d \<Rightarrow> speed_d res" where
  "dsarp_init_speed og s =
     bind_res (case map_of [(1333, 0)] (rate_d s) of None \<Rightarrow> fail AssertFailed | Some v \<Rightarrow> ok (v :: nat)) (\<lambda>speed.
     bind_res (case map_of [(8, 0), (16, 1), (32, 2)] (osize og div 1024) of
                 None \<Rightarrow> fail AssertFailed | Some v \<Rightarrow> ok (v :: nat)) (\<lambda>density.
       ok (s\<lparr>nRFCpb_d := [[109], [164], [275]] ! density ! speed,
             nRFCab_d := [[234], [354], [594]] ! density ! speed,
             nREFI_d := [2600] ! speed, nREFIpb_d := [325] ! speed\<rparr>)))"

text \<open>
  The constructor: \<^verbatim>\<open>n_sa\<close> has to be a power of two up to 128, and the rows of the organisation
  entry are replaced by those of one subarray. A negative \<^verbatim>\<open>n_sa\<close> fails the assertion too. The
  last element of \<^verbatim>\<open>translate\<close> has no initialiser and is zero, \<^verbatim>\<open>ACT\<close>.
\<close>

definition sa_count_ok :: "int \<Rightarrow> bool" where
  "sa_count_ok n \<longleftrightarrow> n \<noteq> 0 \<and> n \<le> 128 \<and> and n (n - 1) = 0"

definition new_DSARP :: "nat \<Rightarrow> nat \<Rightarrow> dsarp_type \<Rightarrow> int \<Rightarrow> dsarp res" where
  "new_DSARP org speed ty nsa =
     bind_res (nth_res dsarp_org_table org) (\<lambda>og.
     bind_res (nth_res dsarp_speed_table speed) (\<lambda>sp.
     bind_res (dsarp_init_speed og sp) (\<lambda>sp'.
       if \<not> sa_count_ok nsa then fail AssertFailed
       else let refRank = (ty = Type_REFAB);
                tmp = dq og * ocount og ! 2 * nsa * ocount og ! 5;
                cnt = (ocount og)[3 := nsa, 4 := osize og * 2 ^ 20 div tmp]
            in ok \<lparr>dsarpType = ty, org_d = og\<lparr>ocount := cnt\<rparr>, speed_entry_d = sp',
                   read_latency_d = nCL_d sp + nBL_d sp, n_sa = nsa, b_ref_rank = refRank,
                   translate_d = [C_RD, C_WR, if refRank then C_REF else C_REFPB, C_PDE, C_SRE, C_ACT]\<rparr>)))"

definition new_DSARP_named :: "string \<Rightarrow> string \<Rightarrow> dsarp_type \<Rightarrow> int \<Rightarrow> dsarp res" where
  "new_DSARP_named org speed ty nsa =
     new_DSARP (map_get 0 (map_of dsarp_org_map) org) (map_get 0 (map_of dsarp_speed_map) speed) ty nsa"

definition dsarp_set_rank_number :: "int \<Rightarrow> dsarp \<Rightarrow> dsarp" where
  "dsarp_set_rank_number r d = d\<lparr>org_d := (org_d d)\<lparr>ocount := (ocount (org_d d))[1 := r]\<rparr>\<rparr>"

definition dsarp_set_channel_number :: "int \<Rightarrow> dsarp \<Rightarrow> dsarp" where
  "dsarp_set_channel_number c d = d\<lparr>org_d := (org_d d)\<lparr>ocount := (ocount (org_d d))[0 := c]\<rparr>\<rparr>"

text \<open>The order of the enumeration; \<^verbatim>\<open>ACT_R\<close> and \<^verbatim>\<open>ACT_W\<close> are not among its commands.\<close>

fun dsarp_index :: "Command \<Rightarrow> nat" where
  "dsarp_index C_ACT = 0"
| "dsarp_index C_PRE = 1"
| "dsarp_index C_PREA = 2"
| "dsarp_index C_RD = 3"
| "dsarp_index C_WR = 4"
| "dsarp_index C_RDA = 5"
| "dsarp_index C_WRA = 6"
| "dsarp_index C_REF = 7"
| "dsarp_index C_REFPB = 8"
| "dsarp_index C_PDE = 9"
| "dsarp_index C_PDX = 10"
| "dsarp_index C_SRE = 11"
| "dsarp_index C_SRX = 12"
| "dsarp_index _ = 13"

definition dsarp_scope :: "Command \<Rightarrow> nat" where
  "dsarp_scope c =
     (let ls = [4, 2, 1, 5, 5, 5, 5, 1, 2, 1, 1, 1, 1]
      in if dsarp_index c < length ls then ls ! dsarp_index c else 0)"

text \<open>The initialiser lists five states for six levels; the last one is zero, \<^verbatim>\<open>Opened\<close>.\<close>

definition dsarp_start :: "dstate list" where
  "dsarp_start = [State_MAX, PowerUp, Closed, Closed, State_MAX, Opened]"

section \<open>Prerequisites, row hits and state transitions\<close>

text \<open>At a bank: the subarray that holds the open row decides whether to descend or to precharge.\<close>

fun subarray_prereq :: "dram \<Rightarrow> Command \<Rightarrow> int \<Rightarrow> Command option res" where
  "subarray_prereq t cmd i =
     (case nstate (root t) of
        Closed \<Rightarrow> ok (Some C_ACT)
      | Opened \<Rightarrow> if row_state (root t) i \<noteq> None then ok None else ok (Some C_PRE)
      | _ \<Rightarrow> fail AssertFailed)"

definition bank_refresh_prereq :: "dram \<Rightarrow> Command \<Rightarrow> int \<Rightarrow> Command option res" where
  "bank_refresh_prereq t cmd i = (if nstate (root t) = Closed then ok (Some C_REFPB) else ok (Some C_PRE))"

definition dsarp_prereq ::
  "nat \<Rightarrow> Command \<Rightarrow> (dram \<Rightarrow> Command \<Rightarrow> int \<Rightarrow> Command option res) option" where
  "dsarp_prereq lv cmd =
     (if lv = 1 \<and> cmd \<in> {C_RD, C_WR} then Some rank_access_prereq
      else if lv = 2 \<and> cmd \<in> {C_RD, C_WR} then Some subarray_prereq
      else if lv = 3 \<and> cmd \<in> {C_RD, C_WR} then Some bank_access_prereq
      else if lv = 1 \<and> cmd = C_REF then Some (refresh_prereq 2)
      else if lv = 2 \<and> cmd = C_REFPB then Some bank_refresh_prereq
      else if lv = 1 \<and> cmd = C_PDE then Some power_down_prereq
      else if lv = 1 \<and> cmd = C_SRE then Some self_refresh_prereq
      else None)"

definition dsarp_rowhit :: "nat \<Rightarrow> Command \<Rightarrow> (dram \<Rightarrow> int \<Rightarrow> bool res) option" where
  "dsarp_rowhit = ddr_rowhit 3"

definition dsarp_rowopen :: "nat \<Rightarrow> Command \<Rightarrow> (dram \<Rightarrow> int \<Rightarrow> bool res) option" where
  "dsarp_rowopen = ddr_rowopen 3"

text \<open>The entry of \<^verbatim>\<open>PDE\<close> is assigned twice; the second function, which looks at the subarrays, remains.\<close>

definition dsarp_lambda :: "nat \<Rightarrow> Command \<Rightarrow> lambda_fn option" where
  "dsarp_lambda lv cmd =
     (if lv = 1 \<and> cmd = C_PREA then Some L_close_rank
      else if lv = 1 \<and> cmd = C_REF then Some L_nop
      else if lv = 1 \<and> cmd = C_PDX then Some (L_set PowerUp)
      else if lv = 1 \<and> cmd = C_SRE then Some (L_set SelfRefresh)
      else if lv = 1 \<and> cmd = C_SRX then Some (L_set PowerUp)
      else if lv \<in> {2, 3} \<and> cmd = C_ACT then Some L_open
      else if lv = 2 \<and> cmd = C_PRE then Some L_close_subarrays
      else if lv = 2 \<and> cmd \<in> {C_RD, C_WR} then Some L_nop
      else if lv \<in> {2, 3} \<and> cmd \<in> {C_RDA, C_WRA} then Some L_close
      else if lv = 1 \<and> cmd = C_PDE then Some (L_power_down 3)
      else None)"

section \<open>The timing table\<close>

text \<open>
  \<^verbatim>\<open>(int)ceil(((double)s.nRRD)*nRRD_factor)\<close> with the factor 1.138. The only speed entry has
  \<^verbatim>\<open>nRRD = 5\<close>, where the product is 5.69, so that rounding in the multiplication cannot matter.
\<close>

definition refresh_RRD :: "speed_d \<Rightarrow> int" where
  "refresh_RRD s = - ((- (nRRD_d s * 1138)) div 1000)"

definition dsarp_channel_timing :: "speed_d \<Rightarrow> (Command \<times> timing_entry) list" where
  "dsarp_channel_timing s =
     [(C_RD, entry C_RD 1 (nBL_d s) False),
      (C_RD, entry C_RDA 1 (nBL_d s) False),
      (C_RDA, entry C_RD 1 (nBL_d s) False),
      (C_RDA, entry C_RDA 1 (nBL_d s) False),
      (C_WR, entry C_WR 1 (nBL_d s) False),
      (C_WR, entry C_WRA 1 (nBL_d s) False),
      (C_WRA, entry C_WR 1 (nBL_d s) False),
      (C_WRA, entry C_WRA 1 (nBL_d s) False)]"

definition dsarp_rank_timing :: "speed_d \<Rightarrow> (Command \<times> timing_entry) list" where
  "dsarp_rank_timing s =
     [(C_RD, entry C_RD 1 (nCCD_d s) False),
      (C_RD, entry C_RDA 1 (nCCD_d s) False),
      (C_RDA, entry C_RD 1 (nCCD_d s) False),
      (C_RDA, entry C_RDA 1 (nCCD_d s) False),
      (C_WR, entry C_WR 1 (nCCD_d s) False),
      (C_WR, entry C_WRA 1 (nCCD_d s) False),
      (C_WRA, entry C_WR 1 (nCCD_d s) False),
      (C_WRA, entry C_WRA 1 (nCCD_d s) False),
      (C_RD, entry C_WR 1 (nCL_d s + nCCD_d s + 2 - nCWL_d s) False),
      (C_RD, entry C_WRA 1 (nCL_d s + nCCD_d s + 2 - nCWL_d s) False),
      (C_RDA, entry C_WR 1 (nCL_d s + nCCD_d s + 2 - nCWL_d s) False),
      (C_RDA, entry C_WRA 1 (nCL_d s + nCCD_d s + 2 - nCWL_d s) False),
      (C_WR, entry C_RD 1 (nCWL_d s + nBL_d s + nWTR_d s) False),
      (C_WR, entry C_RDA 1 (nCWL_d s + nBL_d s + nWTR_d s) False),
      (C_WRA, entry C_RD 1 (nCWL_d s + nBL_d s + nWTR_d s) False),
      (C_WRA, entry C_RDA 1 (nCWL_d s + nBL_d s + nWTR_d s) False),
      (C_RD, entry C_RD 1 (nBL_d s + nRTRS_d s) True),
      (C_RD, entry C_RDA 1 (nBL_d s + nRTRS_d s) True),
      (C_RDA, entry C_RD 1 (nBL_d s + nRTRS_d s) True),
      (C_RDA, entry C_RDA 1 (nBL_d s + nRTRS_d s) True),
      (C_RD, entry C_WR 1 (nBL_d s + nRTRS_d s) True),
      (C_RD, entry C_WRA 1 (nBL_d s + nRTRS_d s) True),
      (C_RDA, entry C_WR 1 (nBL_d s + nRTRS_d s) True),
      (C_RDA, entry C_WRA 1 (nBL_d s + nRTRS_d s) True),
      (C_RD, entry C_WR 1 (nCL_d s + nBL_d s + nRTRS_d s - nCWL_d s) True),
      (C_RD, entry C_WRA 1 (nCL_d s + nBL_d s + nRTRS_d s - nCWL_d s) True),
      (C_RDA, entry C_WR 1 (nCL_d s + nBL_d s + nRTRS_d s - nCWL_d s) True),
      (C_RDA, entry C_WRA 1 (nCL_d s + nBL_d s + nRTRS_d s - nCWL_d s) True),
      (C_WR, entry C_RD 1 (nCWL_d s + nBL_d s + nRTRS_d s - nCL_d s) True),
      (C_WR, entry C_RDA 1 (nCWL_d s + nBL_d s + nRTRS_d s - nCL_d s) True),
      (C_WRA, entry C_RD 1 (nCWL_d s + nBL_d s + nRTRS_d s - nCL_d s) True),
      (C_WRA, entry C_RDA 1 (nCWL_d s + nBL_d s + nRTRS_d s - nCL_d s) True),
      (C_RD, entry C_PREA 1 (nRTP_d s) False),
      (C_WR, entry C_PREA 1 (nCWL_d s + nBL_d s + nWR_d s) False),
      (C_RD, entry C_PDE 1 (nCL_d s + nBL_d s + 1) False),
      (C_RDA, entry C_PDE 1 (nCL_d s + nBL_d s + 1) False),
      (C_WR, entry C_PDE 1 (nCWL_d s + nBL_d s + nWR_d s) False),
      (C_WRA, entry C_PDE 1 (nCWL_d s + nBL_d s + nWR_d s + 1) False),
      (C_PDX, entry C_RD 1 (nXP_d s) False),
      (C_PDX, entry C_RDA 1 (nXP_d s) False),
      (C_PDX, entry C_WR 1 (nXP_d s) False),
      (C_PDX, entry C_WRA 1 (nXP_d s) False),
      (C_ACT, entry C_ACT 1 (nRRD_d s) False),
      (C_ACT, entry C_ACT 4 (nFAW_d s) False),
      (C_ACT, entry C_PREA 1 (nRAS_d s) False),
      (C_PREA, entry C_ACT 1 (nRPab_d s) False),
      (C_PRE, entry C_REF 1 (nRPpb_d s) False),
      (C_PREA, entry C_REF 1 (nRPab_d s) False),
      (C_REF, entry C_ACT 1 (nRFCab_d s) False),
      (C_ACT, entry C_PDE 1 (1) False),
      (C_PDX, entry C_ACT 1 (nXP_d s) False),
      (C_PDX, entry C_PRE 1 (nXP_d s) False),
      (C_PDX, entry C_PREA 1 (nXP_d s) False),
      (C_PRE, entry C_SRE 1 (nRPpb_d s) False),
      (C_PREA, entry C_SRE 1 (nRPab_d s) False),
      (C_SRX, entry C_ACT 1 (nXS_d s) False),
      (C_REF, entry C_REF 1 (nRFCab_d s) False),
      (C_REF, entry C_REFPB 1 (nRFCab_d s) False),
      (C_REFPB, entry C_REF 1 (nRFCpb_d s) False),
      (C_REF, entry C_PDE 1 (1) False),
      (C_REFPB, entry C_PDE 1 (1) False),
      (C_PDX, entry C_REF 1 (nXP_d s) False),
      (C_PDX, entry C_REFPB 1 (nXP_d s) False),
      (C_SRX, entry C_REF 1 (nXS_d s) False),
      (C_SRX, entry C_REFPB 1 (nXS_d s) False),
      (C_PDE, entry C_PDX 1 (nPD_d s) False),
      (C_PDX, entry C_PDE 1 (nXP_d s) False),
      (C_PDX, entry C_SRE 1 (nXP_d s) False),
      (C_SRX, entry C_PDE 1 (nXS_d s) False),
      (C_SRE, entry C_SRX 1 (nCKESR_d s) False),
      (C_SRX, entry C_SRE 1 (nXS_d s) False),
      (C_REFPB, entry C_REFPB 1 (nRFCpb_d s) False)]"

definition dsarp_bank_timing :: "speed_d \<Rightarrow> (Command \<times> timing_entry) list" where
  "dsarp_bank_timing s =
     [(C_ACT, entry C_RD 1 (nRCD_d s) False),
      (C_ACT, entry C_RDA 1 (nRCD_d s) False),
      (C_ACT, entry C_WR 1 (nRCD_d s) False),
      (C_ACT, entry C_WRA 1 (nRCD_d s) False),
      (C_RD, entry C_PRE 1 (nRTP_d s) False),
      (C_WR, entry C_PRE 1 (nCWL_d s + nBL_d s + nWR_d s) False),
      (C_RDA, entry C_ACT 1 (nRTP_d s + nRPpb_d s) False),
      (C_WRA, entry C_ACT 1 (nCWL_d s + nBL_d s + nWR_d s + nRPpb_d s) False),
      (C_ACT, entry C_ACT 1 (nRC_d s) False),
      (C_ACT, entry C_PRE 1 (nRAS_d s) False),
      (C_PRE, entry C_ACT 1 (nRPpb_d s) False),
      (C_PRE, entry C_REFPB 1 (nRPpb_d s) False),
      (C_REFPB, entry C_REFPB 1 (nRFCpb_d s) False),
      (C_REFPB, entry C_REFPB 1 (nRFCpb_d s) True),
      (C_ACT, entry C_REFPB 1 (nRRD_d s) True),
      (C_REFPB, entry C_ACT 1 (nRRD_d s) True)]"

text \<open>Pushed at the bank level unless the type is \<^verbatim>\<open>SARP\<close> or \<^verbatim>\<open>DSARP\<close>.\<close>

definition dsarp_bank_refresh_timing :: "speed_d \<Rightarrow> (Command \<times> timing_entry) list" where
  "dsarp_bank_refresh_timing s =
     [(C_REFPB, entry C_ACT 1 (nRFCpb_d s) False),
      (C_REFPB, entry C_RD 1 (nRFCpb_d s) False),
      (C_REFPB, entry C_RDA 1 (nRFCpb_d s) False),
      (C_REFPB, entry C_WR 1 (nRFCpb_d s) False),
      (C_REFPB, entry C_WRA 1 (nRFCpb_d s) False),
      (C_REFPB, entry C_PRE 1 (nRFCpb_d s) False),
      (C_REFPB, entry C_PREA 1 (nRFCpb_d s) False)]"

text \<open>Pushed at the subarray level if the type is \<^verbatim>\<open>SARP\<close> or \<^verbatim>\<open>DSARP\<close>.\<close>

definition dsarp_subarray_timing :: "speed_d \<Rightarrow> (Command \<times> timing_entry) list" where
  "dsarp_subarray_timing s =
     [(C_ACT, entry C_REFPB 1 (refresh_RRD s) True),
      (C_REFPB, entry C_ACT 1 (refresh_RRD s) True),
      (C_REF, entry C_ACT 1 (nRFCab_d s) False),
      (C_REFPB, entry C_ACT 1 (nRFCpb_d s) False),
      (C_ACT, entry C_RD 1 (nRCD_d s) False),
      (C_ACT, entry C_RDA 1 (nRCD_d s) False),
      (C_ACT, entry C_WR 1 (nRCD_d s) False),
      (C_ACT, entry C_WRA 1 (nRCD_d s) False),
      (C_RD, entry C_PRE 1 (nRTP_d s) False),
      (C_WR, entry C_PRE 1 (nCWL_d s + nBL_d s + nWR_d s) False),
      (C_RDA, entry C_ACT 1 (nRTP_d s + nRPpb_d s) False),
      (C_WRA, entry C_ACT 1 (nCWL_d s + nBL_d s + nWR_d s + nRPpb_d s) False),
      (C_ACT, entry C_ACT 1 (nRC_d s) False),
      (C_ACT, entry C_PRE 1 (nRAS_d s) False),
      (C_PRE, entry C_ACT 1 (nRPpb_d s) False),
      (C_PRE, entry C_REFPB 1 (nRPpb_d s) False),
      (C_PRE, entry C_REF 1 (nRPpb_d s) False),
      (C_ACT, entry C_ACT 1 (nRC_d s) True),
      (C_PRE, entry C_ACT 1 (nRPpb_d s) True),
      (C_RDA, entry C_ACT 1 (nRTP_d s + nRPpb_d s) True),
      (C_WRA, entry C_ACT 1 (nCWL_d s + nBL_d s + nWR_d s + nRPpb_d s) True)]"

definition sarp_enabled :: "dsarp_type \<Rightarrow> bool" where
  "sarp_enabled ty \<longleftrightarrow> ty \<in> {Type_DSARP, Type_SARP}"

definition dsarp_timing :: "dsarp_type \<Rightarrow> speed_d \<Rightarrow> nat \<Rightarrow> Command \<Rightarrow> timing_entry list" where
  "dsarp_timing ty s lv =
     timing_of (if lv = 0 then dsarp_channel_timing s else if lv = 1 then dsarp_rank_timing s
                else if lv = 2 then dsarp_bank_timing s @ (if \<not> sarp_enabled ty then dsarp_bank_refresh_timing s else [])
                else if lv = 3 \<and> sarp_enabled ty then dsarp_subarray_timing s
                else [])"

definition dsarp_spec :: "dsarp \<Rightarrow> dram_spec" where
  "dsarp_spec d =
     \<lparr>scope = dsarp_scope, start = dsarp_start, prereq = dsarp_prereq, rowhit = dsarp_rowhit,
      rowopen = dsarp_rowopen, lambda = dsarp_lambda, timing = dsarp_timing (dsarpType d) (speed_entry_d d),
      org_count = ocount (org_d d), bankLevel = 2, rowLevel = 4\<rparr>"

section \<open>The table is well formed\<close>

lemma dsarp_timing_ok: "e \<in> set (dsarp_timing ty s lv c) \<Longrightarrow> entry_ok c e"
proof -
  have "list_all (\<lambda>(c, e). entry_ok c e) (dsarp_channel_timing s)"
    by (simp add: dsarp_channel_timing_def entry_ok_entry)
  moreover have "list_all (\<lambda>(c, e). entry_ok c e) (dsarp_rank_timing s)"
    by (simp add: dsarp_rank_timing_def entry_ok_entry)
  moreover have "list_all (\<lambda>(c, e). entry_ok c e) (dsarp_bank_timing s)"
    "list_all (\<lambda>(c, e). entry_ok c e) (dsarp_bank_refresh_timing s)"
    by (simp_all add: dsarp_bank_timing_def dsarp_bank_refresh_timing_def entry_ok_entry)
  moreover have "list_all (\<lambda>(c, e). entry_ok c e) (dsarp_subarray_timing s)"
    by (simp add: dsarp_subarray_timing_def entry_ok_entry)
  ultimately show "e \<in> set (dsarp_timing ty s lv c) \<Longrightarrow> entry_ok c e"
    unfolding dsarp_timing_def by (elim timing_of_entry_ok [rotated]) simp
qed

interpretation dsarp: dram_standard "dsarp_spec d" for d
  by unfold_locales (simp add: dsarp_spec_def dsarp_timing_ok)

lemma dsarp_spec_simps [simp]:
  "scope (dsarp_spec d) = dsarp_scope" "timing (dsarp_spec d) = dsarp_timing (dsarpType d) (speed_entry_d d)"
  by (simp_all add: dsarp_spec_def)

lemma dsarp_scope_simps [simp]: "dsarp_scope C_ACT = 4" "dsarp_scope C_REFPB = 2"
  by (simp_all add: dsarp_scope_def)

lemma dsarp_entries:
  "sarp_enabled ty \<Longrightarrow> entry C_ACT 1 (nRFCpb_d s) False \<in> set (dsarp_timing ty s 3 C_REFPB)"
  "sarp_enabled ty \<Longrightarrow> entry C_ACT 1 (refresh_RRD s) True \<in> set (dsarp_timing ty s 3 C_REFPB)"
  "\<not> sarp_enabled ty \<Longrightarrow> entry C_ACT 1 (nRFCpb_d s) False \<in> set (dsarp_timing ty s 2 C_REFPB)"
  "entry C_ACT 1 (nRRD_d s) True \<in> set (dsarp_timing ty s 2 C_REFPB)"
  by (simp_all add: dsarp_timing_def set_timing_of dsarp_bank_timing_def dsarp_bank_refresh_timing_def
      dsarp_subarray_timing_def)

section \<open>The organisation\<close>

lemma sa_count_ok_iff: "sa_count_ok n \<longleftrightarrow> n \<in> {1, 2, 4, 8, 16, 32, 64, 128}"
proof -
  have "\<forall>n \<in> set [1..128]. sa_count_ok n \<longrightarrow> n \<in> {1, 2, 4, 8, 16, 32, 64, 128}" by code_simp
  moreover have "n \<in> set [1..128]" if "sa_count_ok n"
    using that and_negative_int_iff [of n "n - 1"] by (auto simp: sa_count_ok_def)
  moreover have "\<forall>n \<in> set [1, 2, 4, 8, 16, 32, 64, 128]. sa_count_ok n" by code_simp
  ultimately show ?thesis by auto
qed

text \<open>
  However many subarrays a bank is divided into, the organisation of a DSARP device has
  exactly the capacity of its density: banks times subarrays times rows times columns times the
  width of a cell row is the size of the organisation entry in bits.
\<close>

theorem dsarp_capacity:
  assumes "new_DSARP org speed ty nsa = ok d"
  shows "ocount (org_d d) ! 2 * ocount (org_d d) ! 3 * ocount (org_d d) ! 4 * ocount (org_d d) ! 5 * dq (org_d d)
           = osize (org_d d) * 2 ^ 20 \<and> ocount (org_d d) ! 3 = nsa"
proof -
  from assms have "org < 3" "sa_count_ok nsa"
    by (auto simp: new_DSARP_def res_simps dsarp_org_table_def split: if_splits)
  then have "org \<in> {0, 1, 2}" "nsa \<in> {1, 2, 4, 8, 16, 32, 64, 128}" by (auto simp: sa_count_ok_iff)
  with assms show ?thesis
    by (auto simp: new_DSARP_def res_simps dsarp_org_table_def Let_def split: if_splits)
qed

theorem dsarp_capacity_witness:
  "\<exists>d. new_DSARP 0 0 Type_DSARP 64 = ok d
     \<and> ocount (org_d d) ! 2 * 64 * ocount (org_d d) ! 4 * ocount (org_d d) ! 5 * dq (org_d d) = 8192 * 2 ^ 20"
proof -
  have "case new_DSARP 0 0 Type_DSARP 64 of Inl _ \<Rightarrow> False | Inr d \<Rightarrow> osize (org_d d) = 8192" by code_simp
  then obtain d where d: "new_DSARP 0 0 Type_DSARP 64 = ok d" "osize (org_d d) = 8192" by (auto split: sum.splits)
  from dsarp_capacity [OF d(1)] d show ?thesis by metis
qed

section \<open>Refreshes and accesses\<close>


definition dsarp_sample :: dsarp where
  "dsarp_sample = dsarp_set_rank_number 1 (projr (new_DSARP 0 0 Type_DSARP 2))"

text \<open>The command \<open>c\<close> for the address \<open>a\<close> at cycle 10, on a fresh device.\<close>

definition dsarp_after :: "Command \<Rightarrow> int list \<Rightarrow> dram res" where
  "dsarp_after c a = update (dsarp_spec dsarp_sample) c a 10 (new_DRAM (dsarp_spec dsarp_sample) 0 0)"

lemma dsarp_after_run:
  assumes "dsarp_after c a = ok t" and "a ! 0 = 0" and "length a = 6"
    and "check (dsarp_spec dsarp_sample) c a 10 (new_DRAM (dsarp_spec dsarp_sample) 0 0) = ok True"
  shows "dram_run (dsarp_spec dsarp_sample) [(c, a, 10)] t"
proof -
  have "height (new_DRAM (dsarp_spec dsarp_sample) 0 0) = 4" by code_simp
  then show ?thesis using assms dram_run.issue [OF dram_run.power_on, of "dsarp_spec dsarp_sample" c a 10 t]
    by (simp add: dsarp_after_def)
qed



end
