(* ===== verification/MemoryDevice.thy ===== *)
theory MemoryDevice
  imports DDR3 DDR4 DSARP
begin

text \<open>
  \<^verbatim>\<open>src/src/MemoryDevice.{h,cpp}\<close>, \<^verbatim>\<open>src/src/Ramulator_DDR3.h\<close>, \<^verbatim>\<open>src/src/Ramulator_DDR4.h\<close> and
  \<^verbatim>\<open>src/src/Ramulator_DSARP.h\<close>: the device the controller talks to. It translates bus packets to
  commands of the timing tree, holds back posted commands, and returns the data of a read after
  the read latency. The three Ramulator templates differ in their tables of parameters and
  distances, in the packets they translate and in the rank they use: DDR3 and DDR4 always address
  rank 0, DSARP the rank of the packet. The record \<open>device_std\<close> holds these differences and what a
  template takes from the standard it is instantiated with. \<^verbatim>\<open>memoryController->receiveData\<close> does not
  touch the device, so \<open>dev_update\<close> returns the packet it hands to the controller. The command
  trace that \<^verbatim>\<open>receiveFromBus\<close> writes is the list of its lines: cycle, bank and command.
\<close>

section \<open>What a device takes from its standard\<close>

record speed_view =
  vRP :: int
  vRC :: int
  vRAS :: int
  vRCD :: int
  vCL :: int
  vBL :: int
  vCWL :: int
  vRTP :: int
  vWR :: int

definition view3 :: "speed3 \<Rightarrow> speed_view" where
  "view3 s = \<lparr>vRP = nRP s, vRC = nRC s, vRAS = nRAS s, vRCD = nRCD s, vCL = nCL s, vBL = nBL s,
              vCWL = nCWL s, vRTP = nRTP s, vWR = nWR s\<rparr>"

definition view4 :: "speed4 \<Rightarrow> speed_view" where
  "view4 s = \<lparr>vRP = nRP4 s, vRC = nRC4 s, vRAS = nRAS4 s, vRCD = nRCD4 s, vCL = nCL4 s, vBL = nBL4 s,
              vCWL = nCWL4 s, vRTP = nRTP4 s, vWR = nWR4 s\<rparr>"

text \<open>
  \<^verbatim>\<open>get_constraints\<close>: the parameters counted in cycles. The parameter \<^verbatim>\<open>tCK\<close>, a length in
  nanoseconds that is used to print bandwidths and to set up the clock domains, is not a cycle
  count and is left out of the domain considered; an unknown parameter reads as 0.
\<close>

definition get_constraints3 :: "speed3 \<Rightarrow> string \<Rightarrow> int" where
  "get_constraints3 s p =
     (if p = ''tRCD'' then nRCD s
      else if p = ''tWL'' then nCWL s
      else if p = ''tRL'' then nCL s
      else if p = ''tWTR'' then nWTR s
      else if p = ''tRTW'' then nCL s + nBL s + 2 - nCWL s
      else if p = ''tBus'' then nBL s
      else if p = ''tREFI'' then nREFI s
      else if p = ''tRFC'' then nRFC s
      else if p = ''tRRD'' then nRRD s
      else if p = ''tFAW'' then nFAW s
      else 0)"

definition get_constraints4 :: "speed4 \<Rightarrow> string \<Rightarrow> int" where
  "get_constraints4 s p =
     (if p = ''tRCD'' then nRCD4 s
      else if p = ''tWL'' then nCWL4 s
      else if p = ''tRL'' then nCL4 s
      else if p = ''tWTR'' then nWTRS s
      else if p = ''tRTW'' then nCL4 s + nBL4 s + 2 - nCWL4 s
      else if p = ''tBus'' then nBL4 s
      else if p = ''tREFI'' then nREFI4 s
      else if p = ''tRFC'' then nRFC4 s
      else if p = ''tCCDL'' then nCCDL s
      else if p = ''tCCDS'' then nCCDS s
      else if p = ''tRRDS'' then nRRDS s
      else if p = ''tRRDL'' then nRRDL s
      else if p = ''tXS'' then nXS4 s
      else if p = ''tFAW'' then nFAW4 s
      else 0)"

text \<open>\<^verbatim>\<open>command_timing(command, type)\<close>: the distance the controller's own timers keep.\<close>

definition act_timing :: "speed_view \<Rightarrow> BusPacketType set \<Rightarrow> BusPacketType \<Rightarrow> int" where
  "act_timing v acts type =
     (if type \<in> acts then vRC v
      else if type \<in> {PREA, PRE} then vRAS v
      else if type \<in> {RD, RDA, WR, WRA} then vRCD v
      else 1)"

fun command_timing_of :: "speed_view \<Rightarrow> BusPacketType \<Rightarrow> BusPacketType \<Rightarrow> int" where
  "command_timing_of v PRE type = (if type \<in> {ACT, ACT_R, ACT_W} then vRP v else 0)"
| "command_timing_of v PREA type = (if type \<in> {ACT, ACT_R, ACT_W} then vRP v else 0)"
| "command_timing_of v ACT type = act_timing v {ACT} type"
| "command_timing_of v ACT_R type = act_timing v {ACT_R, ACT_W} type"
| "command_timing_of v ACT_W type = act_timing v {ACT_R, ACT_W} type"
| "command_timing_of v RD type =
     (if type \<in> {RD, RDA} then 4
      else if type \<in> {WR, WRA} then vCL v + vBL v + 2 - vCWL v
      else if type = PRE then vRTP v
      else if type = PREA then vRTP v
      else 1)"
| "command_timing_of v RDA type = (if type = ACT then vRTP v + vRP v else 1)"
| "command_timing_of v WR type =
     (if type \<in> {RD, RDA} then vCWL v + 4 + 6
      else if type \<in> {WR, WRA} then 4
      else if type = PREA then vCWL v + 4 + vWR v
      else if type = PRE then vCWL v + 4 + vWR v
      else 1)"
| "command_timing_of v WRA type = (if type = ACT then vCWL v + 4 + vWR v + vRP v else 1)"
| "command_timing_of v _ type = 1"

text \<open>The table of either template, read from the speed entry of its standard.\<close>

definition ramulator3_timing :: "speed3 \<Rightarrow> BusPacketType \<Rightarrow> BusPacketType \<Rightarrow> int" where
  "ramulator3_timing s = command_timing_of (view3 s)"

definition ramulator4_timing :: "speed4 \<Rightarrow> BusPacketType \<Rightarrow> BusPacketType \<Rightarrow> int" where
  "ramulator4_timing s = command_timing_of (view4 s)"

definition get_constraints_d :: "speed_d \<Rightarrow> string \<Rightarrow> int" where
  "get_constraints_d s p =
     (if p = ''tRCD'' then nRCD_d s
      else if p = ''tWL'' then nCWL_d s
      else if p = ''tRL'' then nCL_d s
      else if p = ''tWTR'' then nWTR_d s
      else if p = ''tRTW'' then nCL_d s + nBL_d s + 2 - nCWL_d s
      else if p = ''tBus'' then nBL_d s
      else if p = ''tREFI'' then nREFI_d s
      else if p = ''tREFIpb'' then nREFIpb_d s
      else if p = ''tRFCpb'' then nRFCpb_d s
      else if p = ''tRFCab'' then nRFCab_d s
      else if p = ''tRRD'' then nRRD_d s
      else if p = ''tFAW'' then nFAW_d s
      else 0)"

fun ramulator_d_timing :: "speed_d \<Rightarrow> BusPacketType \<Rightarrow> BusPacketType \<Rightarrow> int" where
  "ramulator_d_timing s PRE type = (if type \<in> {ACT, REF} then nRPpb_d s else 0)"
| "ramulator_d_timing s PREA type = (if type \<in> {ACT, REF} then nRPab_d s else 0)"
| "ramulator_d_timing s ACT type =
     (if type = ACT then nRC_d s
      else if type \<in> {PREA, PRE} then nRAS_d s
      else if type \<in> {RD, RDA, WR, WRA} then nRCD_d s
      else 1)"
| "ramulator_d_timing s RD type =
     (if type \<in> {RD, RDA} then 4
      else if type \<in> {WR, WRA} then nCL_d s + nBL_d s + 2 - nCWL_d s
      else if type = PRE then nRTP_d s
      else if type = PREA then nRTP_d s
      else 1)"
| "ramulator_d_timing s RDA type = (if type = ACT then nRTP_d s + nRPpb_d s else 1)"
| "ramulator_d_timing s WR type =
     (if type \<in> {RD, RDA} then nCWL_d s + 4 + 6
      else if type \<in> {WR, WRA} then 4
      else if type = PREA then nCWL_d s + 4 + nWR_d s
      else if type = PRE then nCWL_d s + 4 + nWR_d s
      else 1)"
| "ramulator_d_timing s REF type = (if type \<in> {ACT, REF, REFPB} then nRFCab_d s else 1)"
| "ramulator_d_timing s REFPB type =
     (if type = ACT then nRRD_d s else if type = REF then nRFCpb_d s else if type = REFPB then nRFCpb_d s else 1)"
| "ramulator_d_timing s WRA type = (if type = ACT then nCWL_d s + 4 + nWR_d s + nRPpb_d s else 1)"
| "ramulator_d_timing s _ type = 1"

text \<open>\<^verbatim>\<open>convert_cmd\<close>, of DDR3 and DDR4 and of DSARP.\<close>

fun convert_cmd :: "BusPacketType \<Rightarrow> Command res" where
  "convert_cmd RD = ok C_RD"
| "convert_cmd WR = ok C_WR"
| "convert_cmd RDA = ok C_RDA"
| "convert_cmd WRA = ok C_WRA"
| "convert_cmd ACT = ok C_ACT"
| "convert_cmd ACT_R = ok C_ACT_R"
| "convert_cmd ACT_W = ok C_ACT_W"
| "convert_cmd PRE = ok C_PRE"
| "convert_cmd PREA = ok C_PREA"
| "convert_cmd REF = ok C_REF"
| "convert_cmd _ = fail Abort"

fun convert_cmd_d :: "BusPacketType \<Rightarrow> Command res" where
  "convert_cmd_d RD = ok C_RD"
| "convert_cmd_d WR = ok C_WR"
| "convert_cmd_d RDA = ok C_RDA"
| "convert_cmd_d WRA = ok C_WRA"
| "convert_cmd_d ACT = ok C_ACT"
| "convert_cmd_d PRE = ok C_PRE"
| "convert_cmd_d PREA = ok C_PREA"
| "convert_cmd_d REF = ok C_REF"
| "convert_cmd_d REFPB = ok C_REFPB"
| "convert_cmd_d _ = fail Abort"

record device_std =
  std_spec :: dram_spec
  std_constraints :: "string \<Rightarrow> int"
  std_timing :: "BusPacketType \<Rightarrow> BusPacketType \<Rightarrow> int"
  std_dq :: int
  std_convert :: "BusPacketType \<Rightarrow> Command res"
  std_rank :: "packet \<Rightarrow> int"

definition ddr3_std :: "ddr3 \<Rightarrow> device_std" where
  "ddr3_std d =
     \<lparr>std_spec = ddr3_spec d, std_constraints = get_constraints3 (speed_entry3 d),
      std_timing = ramulator3_timing (speed_entry3 d), std_dq = dq (org3 d), std_convert = convert_cmd,
      std_rank = (\<lambda>_. 0)\<rparr>"

definition ddr4_std :: "ddr4 \<Rightarrow> device_std" where
  "ddr4_std d =
     \<lparr>std_spec = ddr4_spec d, std_constraints = get_constraints4 (speed_entry4 d),
      std_timing = ramulator4_timing (speed_entry4 d), std_dq = dq (org4 d), std_convert = convert_cmd,
      std_rank = (\<lambda>_. 0)\<rparr>"

definition dsarp_std :: "dsarp \<Rightarrow> device_std" where
  "dsarp_std d =
     \<lparr>std_spec = dsarp_spec d, std_constraints = get_constraints_d (speed_entry_d d),
      std_timing = ramulator_d_timing (speed_entry_d d), std_dq = dq (org_d d), std_convert = convert_cmd_d,
      std_rank = (\<lambda>p. sint (pRank p))\<rparr>"

section \<open>The device\<close>

record mem_device =
  devClock :: u32
  devRanks :: u32
  bankGroups :: u32
  banks :: u32
  subArrays :: u32
  rows :: u64
  columns :: u64
  dataBusWidth :: u32
  dataCycles :: "u32 list"
  pendingReadData :: "packet list"
  postBuffer :: "packet list"
  postCounters :: "int list"
  channel :: dram
  addr_vec :: "int list"
  commandTrace :: "(u32 \<times> u32 \<times> BusPacketType) list"

text \<open>
  The constructors, after \<^verbatim>\<open>spec->set_rank_number(ranks)\<close>, which is part of the argument. The
  level numbers of a standard are \<^verbatim>\<open>Channel = 0\<close>, \<^verbatim>\<open>Rank = 1\<close>, \<^verbatim>\<open>Bank = bankLevel\<close>,
  \<^verbatim>\<open>Row = rowLevel\<close>, \<^verbatim>\<open>Column = rowLevel + 1\<close> and \<^verbatim>\<open>MAX = rowLevel + 2\<close>.
\<close>

definition new_Ramulator :: "device_std \<Rightarrow> u32 \<Rightarrow> mem_device" where
  "new_Ramulator std ranks =
     (let sp = std_spec std; cnt = (\<lambda>l. org_count sp ! l)
      in \<lparr>devClock = 0, devRanks = ranks,
          bankGroups = (if bankLevel sp \<noteq> 2 then word_of_int (cnt (bankLevel sp - 1)) else 1),
          banks = word_of_int (cnt (bankLevel sp)),
          subArrays = (if rowLevel sp \<noteq> bankLevel sp + 1 then word_of_int (cnt (rowLevel sp - 1)) else 1),
          rows = word_of_int (cnt (rowLevel sp)), columns = word_of_int (cnt (rowLevel sp + 1)),
          dataBusWidth = word_of_int (std_dq std), dataCycles = [], pendingReadData = [],
          postBuffer = [], postCounters = [], channel = new_DRAM sp 0 0,
          addr_vec = replicate (rowLevel sp + 2) (-1), commandTrace = []\<rparr>)"

definition new_Ramulator_DDR3 :: "ddr3 \<Rightarrow> u32 \<Rightarrow> device_std \<times> mem_device" where
  "new_Ramulator_DDR3 d ranks =
     (let std = ddr3_std (ddr3_set_rank_number (sint ranks) d) in (std, new_Ramulator std ranks))"

definition new_Ramulator_DDR4 :: "ddr4 \<Rightarrow> u32 \<Rightarrow> device_std \<times> mem_device" where
  "new_Ramulator_DDR4 d ranks =
     (let std = ddr4_std (ddr4_set_rank_number (sint ranks) d) in (std, new_Ramulator std ranks))"

definition new_Ramulator_DSARP :: "dsarp \<Rightarrow> u32 \<Rightarrow> device_std \<times> mem_device" where
  "new_Ramulator_DSARP d ranks =
     (let std = dsarp_std (dsarp_set_rank_number (sint ranks) d) in (std, new_Ramulator std ranks))"

definition get_DataBus :: "mem_device \<Rightarrow> u32" where "get_DataBus d = dataBusWidth d * 8"
definition get_Rank :: "mem_device \<Rightarrow> u32" where "get_Rank d = devRanks d"
definition get_BankGroup :: "mem_device \<Rightarrow> u32" where "get_BankGroup d = bankGroups d"
definition get_Bank :: "mem_device \<Rightarrow> u32" where "get_Bank d = banks d"
definition get_Row :: "mem_device \<Rightarrow> u64" where "get_Row d = rows d"
definition get_Column :: "mem_device \<Rightarrow> u64" where "get_Column d = columns d"

text \<open>
  \<^verbatim>\<open>convert_addr\<close> fills the scratch vector \<^verbatim>\<open>addr_vec\<close>. It writes every element, so its result
  does not depend on the old contents (\<open>convert_addr_no_groups\<close>, \<open>convert_addr_groups\<close>,
  \<open>convert_addr_subarrays\<close>) and the callers below need not store it. No standard with bank groups
  reads the bank group of a packet.
\<close>

definition convert_addr :: "device_std \<Rightarrow> packet \<Rightarrow> int list \<Rightarrow> int list" where
  "convert_addr std command av =
     (let sp = std_spec std;
          av1 = av[0 := 0, 1 := std_rank std command];
          av2 = (if bankLevel sp = 2 then av1[bankLevel sp := sint (pBank command)]
                 else av1[bankLevel sp - 1 := 0, bankLevel sp := sint (pBank command)]);
          av3 = (if rowLevel sp = bankLevel sp + 1 then av2[rowLevel sp := sint (pRow command)]
                 else av2[rowLevel sp - 1 := sint (pSubArray command), rowLevel sp := sint (pRow command)])
      in av3[rowLevel sp + 1 := sint (column command)])"

definition command_timing :: "device_std \<Rightarrow> packet \<Rightarrow> mem_device \<Rightarrow> int res" where
  "command_timing std command d =
     bind_res (std_convert std (busPacketType command)) (\<lambda>c.
     bind_res (get_next (std_spec std) c (convert_addr std command (addr_vec d)) (channel d)) (\<lambda>n.
       ok (n - uint (devClock d))))"

definition command_timing_type :: "device_std \<Rightarrow> packet \<Rightarrow> BusPacketType \<Rightarrow> u32" where
  "command_timing_type std command type = word_of_int (std_timing std (busPacketType command) type)"

definition command_check :: "device_std \<Rightarrow> packet \<Rightarrow> mem_device \<Rightarrow> bool res" where
  "command_check std command d =
     (if postCommand command then ok True
      else bind_res (std_convert std (busPacketType command)) (\<lambda>c.
             check (std_spec std) c (convert_addr std command (addr_vec d))
               (uint (devClock d)) (channel d)))"

definition generateData :: "device_std \<Rightarrow> packet \<Rightarrow> mem_device \<Rightarrow> mem_device" where
  "generateData std cmd d =
     (if busPacketType cmd = DATA then d
      else if busPacketType cmd = RD \<or> busPacketType cmd = RDA
      then d\<lparr>pendingReadData := pendingReadData d
                @ [new_BusPacket DATA (pRequestorID cmd) (pAddress cmd) 0 0 0 0 0 (pData cmd) (pArriveTime cmd)],
             dataCycles := dataCycles d
                @ [word_of_int (std_constraints std ''tRL'' + std_constraints std ''tBus'')]\<rparr>
      else d)"

lemma generateData_frame [simp]:
  "channel (generateData std p d) = channel d" "addr_vec (generateData std p d) = addr_vec d"
  "postBuffer (generateData std p d) = postBuffer d" "commandTrace (generateData std p d) = commandTrace d"
  "devClock (generateData std p d) = devClock d"
  "length (dataCycles (generateData std p d)) = length (pendingReadData (generateData std p d)) \<longleftrightarrow>
     length (dataCycles d) = length (pendingReadData d)"
  by (simp_all add: generateData_def)

definition receiveFromBus :: "device_std \<Rightarrow> packet \<Rightarrow> mem_device \<Rightarrow> mem_device res" where
  "receiveFromBus std p d =
     (if postCommand p
      then ok (d\<lparr>postBuffer := postBuffer d
                    @ [new_BusPacket (busPacketType p) (pRequestorID p) (pAddress p) (column p) (pRow p)
                         (pBank p) 0 (pSubArray p) (pData p) (pArriveTime p)],
                 postCounters := postCounters d @ [std_constraints std ''tRCD'']\<rparr>)
      else bind_res
             (if busPacketType p \<noteq> DATA
              then bind_res (std_convert std (busPacketType p)) (\<lambda>c.
                   bind_res (update (std_spec std) c (convert_addr std p (addr_vec d))
                               (uint (devClock d)) (channel d)) (\<lambda>t.
                     ok (d\<lparr>channel := t, commandTrace := commandTrace d @ [(devClock d, pBank p, busPacketType p)]\<rparr>)))
              else ok d)
             (\<lambda>d'. ok (generateData std p d')))"

definition deliver :: "mem_device \<Rightarrow> (packet option \<times> mem_device) res" where
  "deliver d =
     (if pendingReadData d = [] then ok (None, d)
      else let dc = map (\<lambda>c. if c > 0 then c - 1 else c) (dataCycles d)
           in bind_res (nth_res dc 0) (\<lambda>c.
                if c = 0
                then ok (Some (hd (pendingReadData d)),
                         d\<lparr>dataCycles := tl dc, pendingReadData := tl (pendingReadData d)\<rparr>)
                else ok (None, d\<lparr>dataCycles := dc\<rparr>)))"

definition release_post :: "device_std \<Rightarrow> mem_device \<Rightarrow> mem_device res" where
  "release_post std d =
     (if postBuffer d = [] then ok d
      else let pc = map (\<lambda>c. if c > 0 then c - 1 else c) (postCounters d);
               d1 = d\<lparr>postCounters := pc\<rparr>
           in bind_res (nth_res pc 0) (\<lambda>c.
                if c = 0
                then bind_res (receiveFromBus std (hd (postBuffer d1)) d1) (\<lambda>d2.
                       ok (d2\<lparr>postCounters := tl (postCounters d2), postBuffer := tl (postBuffer d2)\<rparr>))
                else ok d1))"

definition dev_update :: "device_std \<Rightarrow> mem_device \<Rightarrow> (packet option \<times> mem_device) res" where
  "dev_update std d =
     bind_res (deliver d) (\<lambda>(p, d1).
     bind_res (release_post std d1) (\<lambda>d2.
       ok (p, d2\<lparr>devClock := devClock d2 + 1\<rparr>)))"

section \<open>Addresses\<close>

lemma length_convert_addr [simp]: "length (convert_addr std p av) = length av"
  by (simp add: convert_addr_def Let_def)

lemma convert_addr_0:
  "2 \<le> bankLevel (std_spec std) \<Longrightarrow> bankLevel (std_spec std) < rowLevel (std_spec std) \<Longrightarrow> av \<noteq> [] \<Longrightarrow>
    convert_addr std p av ! 0 = 0"
  by (simp add: convert_addr_def Let_def)

lemma convert_addr_no_groups:
  assumes "bankLevel (std_spec std) = 2" "rowLevel (std_spec std) = 3" "length av = 5"
  shows "convert_addr std p av = [0, std_rank std p, sint (pBank p), sint (pRow p), sint (column p)]"
proof -
  from assms(3) obtain a b c d e where "av = [a, b, c, d, e]"
    by (auto simp: numeral_eq_Suc length_Suc_conv)
  with assms(1,2) show ?thesis by (simp add: convert_addr_def Let_def numeral_eq_Suc)
qed

lemma convert_addr_groups:
  assumes "bankLevel (std_spec std) = 3" "rowLevel (std_spec std) = 4" "length av = 6"
  shows "convert_addr std p av = [0, std_rank std p, 0, sint (pBank p), sint (pRow p), sint (column p)]"
proof -
  from assms(3) obtain a b c d e f where "av = [a, b, c, d, e, f]"
    by (auto simp: numeral_eq_Suc length_Suc_conv)
  with assms(1,2) show ?thesis by (simp add: convert_addr_def Let_def numeral_eq_Suc)
qed

lemma convert_addr_subarrays:
  assumes "bankLevel (std_spec std) = 2" "rowLevel (std_spec std) = 4" "length av = 6"
  shows "convert_addr std p av =
           [0, std_rank std p, sint (pBank p), sint (pSubArray p), sint (pRow p), sint (column p)]"
proof -
  from assms(3) obtain a b c d e f where "av = [a, b, c, d, e, f]"
    by (auto simp: numeral_eq_Suc length_Suc_conv)
  with assms(1,2) show ?thesis by (simp add: convert_addr_def Let_def numeral_eq_Suc)
qed

section \<open>Device runs: every read returns its data once, after the read latency\<close>

definition is_read :: "packet \<Rightarrow> bool" where
  "is_read p \<longleftrightarrow> busPacketType p = RD \<or> busPacketType p = RDA"

text \<open>The data burst that answers a read.\<close>

definition data_of :: "packet \<Rightarrow> packet" where
  "data_of p = new_BusPacket DATA (pRequestorID p) (pAddress p) 0 0 0 0 0 (pData p) (pArriveTime p)"

definition read_latency :: "device_std \<Rightarrow> nat" where
  "read_latency std = unat (word_of_int (std_constraints std ''tRL'' + std_constraints std ''tBus'') :: u32)"

text \<open>
  A run of a device: packets arrive on the bus, at most one read between two cycles and none of
  them posted, and \<^verbatim>\<open>update\<close> advances the cycle. \<open>sent\<close> collects the reads with the number of cycles
  passed when they arrived, \<open>got\<close> the data handed to the controller with the cycle of delivery.
\<close>

inductive read_run ::
  "device_std \<Rightarrow> u32 \<Rightarrow> nat \<Rightarrow> (packet \<times> nat) list \<Rightarrow> (packet \<times> nat) list \<Rightarrow> mem_device \<Rightarrow> bool"
  for std ranks where
  power_on: "read_run std ranks 0 [] [] (new_Ramulator std ranks)"
| bus: "read_run std ranks now sent got d \<Longrightarrow> \<not> postCommand p \<Longrightarrow> receiveFromBus std p d = ok d' \<Longrightarrow>
     (is_read p \<longrightarrow> (\<forall>(q, t) \<in> set sent. t < now)) \<Longrightarrow>
     read_run std ranks now (if is_read p then sent @ [(p, now)] else sent) got d'"
| tick: "read_run std ranks now sent got d \<Longrightarrow> dev_update std d = ok (r, d') \<Longrightarrow>
     read_run std ranks (Suc now) sent (got @ (case r of None \<Rightarrow> [] | Some q \<Rightarrow> [(q, Suc now)])) d'"

text \<open>The reads not answered yet and the counters that hold their data back.\<close>

definition in_flight :: "nat \<Rightarrow> nat \<Rightarrow> (packet \<times> nat) list \<Rightarrow> mem_device \<Rightarrow> bool" where
  "in_flight L now ws d \<longleftrightarrow>
     postBuffer d = [] \<and> pendingReadData d = map (data_of \<circ> fst) ws
   \<and> map unat (dataCycles d) = map (\<lambda>(p, t). t + L - now) ws
   \<and> (\<forall>(p, t) \<in> set ws. now < t + L \<and> t \<le> now) \<and> sorted_wrt (<) (map snd ws)"

lemma in_flight_bus:
  assumes "in_flight (read_latency std) now ws d" and "\<not> postCommand p" and "receiveFromBus std p d = ok d'"
    and "is_read p \<longrightarrow> (\<forall>(q, t) \<in> set ws. t < now)" and "0 < read_latency std"
  shows "in_flight (read_latency std) now (if is_read p then ws @ [(p, now)] else ws) d'"
proof -
  obtain t ls where d': "d' = generateData std p (d\<lparr>channel := t, commandTrace := ls\<rparr>)"
    using assms(2,3) by (auto simp: receiveFromBus_def res_simps split: if_splits intro: that [of "commandTrace d" "channel d"])
  show ?thesis
    using assms(1,4,5)
    by (auto simp: d' in_flight_def generateData_def is_read_def data_of_def read_latency_def sorted_wrt_append)
qed

lemma unat_dec_if: "unat (if c > 0 then c - 1 else c :: u32) = unat c - 1"
  by (cases "c = 0") (simp_all add: unat_dec_u32 word_neq_0_conv)

lemma in_flight_deliver:
  assumes "in_flight L now ws d" and "deliver d = ok (r, d')"
  shows "(r = None \<and> in_flight L (Suc now) ws d')
       \<or> (\<exists>p t ws'. ws = (p, t) # ws' \<and> r = Some (data_of p) \<and> Suc now = t + L \<and> in_flight L (Suc now) ws' d')"
proof (cases ws)
  case Nil
  with assms show ?thesis by (auto simp: in_flight_def deliver_def)
next
  case (Cons x ws')
  obtain p t where x: "x = (p, t)" by fastforce
  from assms(1) obtain c cs where dc: "dataCycles d = c # cs" and c: "unat c = t + L - now"
    and cs: "map unat cs = map (\<lambda>(p, t). t + L - now) ws'"
    by (auto simp: in_flight_def Cons x)
  let ?f = "\<lambda>c :: u32. if c > 0 then c - 1 else c"
  have ws': "\<forall>(q, u) \<in> set ws'. t < u \<and> u \<le> now" "now < t + L" "t \<le> now"
    using assms(1) by (auto simp: in_flight_def Cons x)
  have dec: "map unat (map ?f (dataCycles d)) = map (\<lambda>(p, t). t + L - Suc now) ws"
  proof -
    have "map unat (map ?f (dataCycles d)) = map (\<lambda>n. n - 1) (map unat (dataCycles d))"
      by (simp add: unat_dec_if comp_def)
    also have "map unat (dataCycles d) = map (\<lambda>(p, t). t + L - now) ws"
      using assms(1) by (simp add: in_flight_def)
    finally show ?thesis by (simp add: comp_def case_prod_unfold)
  qed
  have zero: "?f c = 0 \<longleftrightarrow> Suc now = t + L"
    using c ws'(2) unat_dec_if [of c] by (auto simp: unat_eq_0 [symmetric] simp del: unat_eq_0)
  show ?thesis
  proof (cases "Suc now = t + L")
    case True
    then have "r = Some (data_of p) \<and> d' = d\<lparr>dataCycles := map ?f cs, pendingReadData := tl (pendingReadData d)\<rparr>"
      using assms zero by (auto simp: deliver_def dc in_flight_def Cons x Let_def)
    moreover have "in_flight L (Suc now) ws' (d\<lparr>dataCycles := map ?f cs, pendingReadData := tl (pendingReadData d)\<rparr>)"
      using assms(1) dec True ws'(1) by (auto simp: in_flight_def Cons x dc)
    ultimately show ?thesis using True Cons x by blast
  next
    case False
    then have "r = None \<and> d' = d\<lparr>dataCycles := map ?f (dataCycles d)\<rparr>"
      using assms zero by (auto simp: deliver_def dc in_flight_def Cons x Let_def)
    moreover have "in_flight L (Suc now) ws (d\<lparr>dataCycles := map ?f (dataCycles d)\<rparr>)"
      using assms(1) dec False ws' by (fastforce simp: in_flight_def Cons x)
    ultimately show ?thesis by blast
  qed
qed

lemma read_run_inv:
  assumes "read_run std ranks now sent got d" and L: "0 < read_latency std"
  shows "\<exists>old ws. sent = old @ ws \<and> got = map (\<lambda>(p, t). (data_of p, t + read_latency std)) old
     \<and> (\<forall>(p, t) \<in> set old. t + read_latency std \<le> now) \<and> in_flight (read_latency std) now ws d"
  using assms(1)
proof (induction rule: read_run.induct)
  case power_on
  then show ?case by (simp add: in_flight_def new_Ramulator_def Let_def)
next
  case (bus now sent got d p d')
  then obtain old ws where I: "sent = old @ ws" "got = map (\<lambda>(p, t). (data_of p, t + read_latency std)) old"
      "\<forall>(p, t) \<in> set old. t + read_latency std \<le> now" "in_flight (read_latency std) now ws d" by blast
  have "in_flight (read_latency std) now (if is_read p then ws @ [(p, now)] else ws) d'"
    by (rule in_flight_bus [OF I(4) bus.hyps(2,3) _ L]) (use bus.hyps(4) I(1) in auto)
  with I show ?case by (intro exI [of _ "old"] exI [of _ "if is_read p then ws @ [(p, now)] else ws"]) auto
next
  case (tick now sent got d r d')
  then obtain old ws where I: "sent = old @ ws" "got = map (\<lambda>(p, t). (data_of p, t + read_latency std)) old"
      "\<forall>(p, t) \<in> set old. t + read_latency std \<le> now" "in_flight (read_latency std) now ws d" by blast
  from tick.hyps(2) obtain d1 d2 where d1: "deliver d = ok (r, d1)" "release_post std d1 = ok d2"
      "d' = d2\<lparr>devClock := devClock d2 + 1\<rparr>" by (auto simp: dev_update_def res_simps)
  have same: "in_flight L m vs d1 \<Longrightarrow> in_flight L m vs d'" for L m vs
    using d1(2,3) by (auto simp: in_flight_def release_post_def)
  from in_flight_deliver [OF I(4) d1(1)] show ?case
  proof (elim disjE exE conjE)
    assume "r = None" "in_flight (read_latency std) (Suc now) ws d1"
    with I same show ?thesis by (intro exI [of _ "old"] exI [of _ ws]) auto
  next
    fix p t ws'
    assume "ws = (p, t) # ws'" "r = Some (data_of p)" "Suc now = t + read_latency std"
      "in_flight (read_latency std) (Suc now) ws' d1"
    with I same show ?thesis by (intro exI [of _ "old @ [(p, t)]"] exI [of _ ws']) fastforce
  qed
qed

text \<open>
  (C21) Every read is answered exactly once, after exactly \<open>tRL + tBus\<close> cycles: whatever other
  traffic there is, as long as no more than one read arrives per cycle and none is posted, the
  \<open>i\<close>-th read that arrived at cycle \<open>t\<close> has been answered with its own address, requestor and
  data at cycle \<open>t + tRL + tBus\<close> as soon as that many cycles have passed, and not before.
\<close>

theorem read_latency_exact:
  assumes "read_run std ranks now sent got d" and "0 < read_latency std" and "sent ! i = (p, t)" and "i < length sent"
  shows "if t + read_latency std \<le> now
         then i < length got \<and> got ! i = (data_of p, t + read_latency std)
         else length got \<le> i"
proof -
  obtain old ws where I: "sent = old @ ws" "got = map (\<lambda>(p, t). (data_of p, t + read_latency std)) old"
      "\<forall>(p, t) \<in> set old. t + read_latency std \<le> now" "in_flight (read_latency std) now ws d"
    using read_run_inv [OF assms(1,2)] by blast
  have late: "\<forall>(p, t) \<in> set ws. now < t + read_latency std" using I(4) by (auto simp: in_flight_def)
  show ?thesis
  proof (cases "i < length old")
    case True
    then have "old ! i = (p, t)" using assms(3) I(1) by (simp add: nth_append)
    then have "(p, t) \<in> set old" "old ! i = (p, t)" using nth_mem [OF True] by simp_all
    then show ?thesis using I(2,3) True by force
  next
    case False
    then have "i - length old < length ws" "ws ! (i - length old) = (p, t)"
      using assms(3,4) I(1) by (simp_all add: nth_append)
    then have "(p, t) \<in> set ws" using nth_mem by metis
    then show ?thesis using late I(2) False by force
  qed
qed


text \<open>A device without posted commands never fails to advance.\<close>

lemma in_flight_update: "in_flight L now ws d \<Longrightarrow> \<exists>r d'. dev_update std d = ok (r, d')"
  by (cases "dataCycles d")
    (auto simp: in_flight_def dev_update_def deliver_def release_post_def Let_def split: if_splits)

lemma read_run_progress:
  "read_run std ranks now sent got d \<Longrightarrow> 0 < read_latency std \<Longrightarrow>
     \<exists>got' d'. read_run std ranks (now + k) sent got' d'"
proof (induction k)
  case (Suc k)
  then obtain got' d' where r: "read_run std ranks (now + k) sent got' d'" by blast
  then obtain x d'' where "dev_update std d' = ok (x, d'')"
    using read_run_inv [OF r Suc.prems(2)] in_flight_update by blast
  from read_run.tick [OF r this] show ?case by auto
qed auto

definition sample_read :: packet where
  "sample_read = new_BusPacket RD 5 0xABC 3 7 2 0 0 0 9"

definition sample_std :: device_std where
  "sample_std = ddr3_std ddr3_sample"

theorem read_latency_exact_witness:
  "\<exists>got d. read_run sample_std 1 20 [(sample_read, 0)] got d \<and> got ! 0 = (data_of sample_read, 15)"
proof -
  have "\<not> isl (receiveFromBus sample_std sample_read (new_Ramulator sample_std 1))" by code_simp
  then obtain d where d: "receiveFromBus sample_std sample_read (new_Ramulator sample_std 1) = ok d"
    by (auto simp: isl_def) (metis sum.exhaust)
  have r: "is_read sample_read" "\<not> postCommand sample_read"
    by (simp_all add: is_read_def sample_read_def new_BusPacket_def)
  have L: "read_latency sample_std = 15" by code_simp
  have "read_run sample_std 1 0 [(sample_read, 0)] [] d"
    using read_run.bus [OF read_run.power_on r(2) d] r(1) by simp
  from read_run_progress [OF this, of 20] L obtain got d'
    where run: "read_run sample_std 1 20 [(sample_read, 0)] got d'" by auto
  with read_latency_exact [OF run, of 0 sample_read 0] L show ?thesis by auto
qed


section \<open>The commands of the bus are a trace of the timing tree\<close>

fun packet_of :: "Command \<Rightarrow> BusPacketType" where
  "packet_of C_RD = RD"
| "packet_of C_WR = WR"
| "packet_of C_RDA = RDA"
| "packet_of C_WRA = WRA"
| "packet_of C_ACT = ACT"
| "packet_of C_ACT_R = ACT_R"
| "packet_of C_ACT_W = ACT_W"
| "packet_of C_PRE = PRE"
| "packet_of C_PREA = PREA"
| "packet_of C_REF = REF"
| "packet_of C_PDE = PDE"
| "packet_of C_PDX = PDX"
| "packet_of C_SRE = SRE"
| "packet_of C_SRX = SRX"
| "packet_of C_REFPB = REFPB"

lemma convert_cmd_packet_of: "convert_cmd a = ok c \<Longrightarrow> a = packet_of c"
  by (cases a) auto

lemma convert_cmd_d_packet_of: "convert_cmd_d a = ok c \<Longrightarrow> a = packet_of c"
  by (cases a) auto

text \<open>The line of the command trace that a command of the timing tree leaves.\<close>

definition line_of :: "dram_spec \<Rightarrow> issue \<Rightarrow> u32 \<times> u32 \<times> BusPacketType" where
  "line_of sp x = (case x of (c, a, clk) \<Rightarrow> (word_of_int clk, word_of_int (a ! bankLevel sp), packet_of c))"

definition bus_address :: "device_std \<Rightarrow> int list \<Rightarrow> bool" where
  "bus_address std a \<longleftrightarrow> (\<exists>p av. length av = rowLevel (std_spec std) + 2 \<and> a = convert_addr std p av)"

lemma convert_addr_bank:
  "2 \<le> bankLevel (std_spec std) \<Longrightarrow> bankLevel (std_spec std) < rowLevel (std_spec std) \<Longrightarrow>
     length av = rowLevel (std_spec std) + 2 \<Longrightarrow> convert_addr std p av ! bankLevel (std_spec std) = sint (pBank p)"
  by (auto simp: convert_addr_def Let_def nth_list_update)

text \<open>
  What the device promises to the command scheduler: a command that passes \<^verbatim>\<open>command_check\<close> and
  is then put on the bus extends the trace of commands the channel has accepted.
\<close>

definition dev_ok :: "device_std \<Rightarrow> issue list \<Rightarrow> mem_device \<Rightarrow> bool" where
  "dev_ok std tr d \<longleftrightarrow>
     dram_run (std_spec std) tr (channel d) \<and> length (addr_vec d) = rowLevel (std_spec std) + 2
   \<and> height (channel d) \<le> rowLevel (std_spec std) \<and> postBuffer d = []
   \<and> length (dataCycles d) = length (pendingReadData d)
   \<and> commandTrace d = rev (map (line_of (std_spec std)) tr)
   \<and> (\<forall>(c, a, clk) \<in> set tr. bus_address std a \<and> clk < 2 ^ 32)"

definition bus_entry :: "device_std \<Rightarrow> Command \<Rightarrow> packet \<Rightarrow> mem_device \<Rightarrow> issue" where
  "bus_entry std c p d = (c, convert_addr std p (addr_vec d), uint (devClock d))"

locale memory_device = dram_standard "std_spec std" for std :: device_std +
  assumes levels: "2 \<le> bankLevel (std_spec std)" "bankLevel (std_spec std) < rowLevel (std_spec std)"
    and convert: "std_convert std a = ok c \<Longrightarrow> a = packet_of c"
    and convert_data: "std_convert std DATA = fail Abort"
begin

lemma dev_ok_new: "dev_ok std [] (new_Ramulator std ranks)"
  using height_new_DRAM [of 0 "std_spec std" 0] levels
  by (simp add: dev_ok_def new_Ramulator_def Let_def dram_run.power_on)

lemma dev_ok_receive:
  assumes ok: "dev_ok std tr d" and chk: "command_check std p d = ok True" and np: "\<not> postCommand p"
    and rc: "receiveFromBus std p d = ok d'"
  shows "\<exists>c. std_convert std (busPacketType p) = ok c \<and> dev_ok std (bus_entry std c p d # tr) d' \<and> devClock d' = devClock d"
proof -
  let ?sp = "std_spec std" and ?a = "convert_addr std p (addr_vec d)"
  from chk np obtain c where c: "std_convert std (busPacketType p) = ok c"
      "check ?sp c ?a (uint (devClock d)) (channel d) = ok True"
    by (auto simp: command_check_def res_simps)
  then have nd: "busPacketType p \<noteq> DATA" using convert_data by auto
  from rc np nd c(1) obtain t where t: "update ?sp c ?a (uint (devClock d)) (channel d) = ok t"
      "d' = generateData std p (d\<lparr>channel := t, commandTrace := commandTrace d @ [(devClock d, pBank p, busPacketType p)]\<rparr>)"
    by (auto simp: receiveFromBus_def res_simps)
  have a0: "?a ! 0 = 0" using ok levels by (intro convert_addr_0) (auto simp: dev_ok_def)
  have "dram_run ?sp (bus_entry std c p d # tr) t"
    unfolding bus_entry_def
    by (rule dram_run.issue [OF _ c(2) _ a0 _ t(1)]) (use ok in \<open>auto simp: dev_ok_def\<close>)
  moreover have "line_of ?sp (bus_entry std c p d) = (devClock d, pBank p, busPacketType p)"
    using convert_addr_bank [of std "addr_vec d" p] levels ok convert [OF c(1)]
    by (simp add: line_of_def bus_entry_def dev_ok_def)
  moreover have "bus_address std ?a" using ok by (auto simp: bus_address_def dev_ok_def)
  then have "case bus_entry std c p d of (c, a, clk) \<Rightarrow> bus_address std a \<and> clk < 2 ^ 32"
    using uint_lt2p [of "devClock d"] by (simp add: bus_entry_def)
  ultimately have "dev_ok std (bus_entry std c p d # tr) d'"
    using ok update_height [OF t(1)] by (simp add: dev_ok_def t(2))
  moreover have "devClock d' = devClock d" by (simp add: t(2) generateData_def)
  ultimately show ?thesis using c(1) by blast
qed

lemma dev_ok_data:
  assumes "dev_ok std tr d" and "busPacketType p = DATA" and "\<not> postCommand p"
  shows "receiveFromBus std p d = ok d"
  using assms by (simp add: receiveFromBus_def generateData_def)

lemma dev_ok_update:
  assumes "dev_ok std tr d"
  shows "\<exists>r d'. dev_update std d = ok (r, d') \<and> dev_ok std tr d' \<and> devClock d' = devClock d + 1"
proof -
  have "\<exists>r d'. deliver d = ok (r, d') \<and> dev_ok std tr d' \<and> devClock d' = devClock d"
    using assms by (cases "dataCycles d"; cases "pendingReadData d")
      (auto simp: dev_ok_def deliver_def Let_def split: if_splits)
  then obtain r d1 where d1: "deliver d = ok (r, d1)" "dev_ok std tr d1" "devClock d1 = devClock d" by blast
  have "release_post std d1 = ok d1" using d1(2) by (simp add: dev_ok_def release_post_def)
  with d1 show ?thesis by (auto simp: dev_update_def dev_ok_def)
qed

text \<open>The rule of the timing tree, for a device and a packet.\<close>

lemma device_timing:
  assumes "dev_ok std tr d" and "command_check std p d = ok True" and "\<not> postCommand p"
    and "std_convert std (busPacketType p) = ok c'" and "a = convert_addr std p (addr_vec d)"
    and "node_at a k (channel d) = Some n" and "k \<le> scope (std_spec std) c'"
    and "e \<in> set (timing (std_spec std) k c)" and "te_cmd e = c'" and "\<not> sibling e"
    and "dist e \<le> length (issued c a k tr)"
  shows "issued c a k tr ! (dist e - 1) + val e \<le> uint (devClock d)"
proof -
  have "check (std_spec std) c' a (uint (devClock d)) (channel d) = ok True"
    using assms(2-5) by (simp add: command_check_def)
  moreover have "a ! 0 = 0" unfolding assms(5) using assms(1) levels
    by (intro convert_addr_0) (auto simp: dev_ok_def)
  ultimately show ?thesis
    using timing_enforced(1) [of tr "channel d" c' a "uint (devClock d)" k n e c] assms
    by (simp add: dev_ok_def)
qed

end

interpretation dev3: memory_device "ddr3_std d" for d
  by unfold_locales (simp_all add: ddr3_std_def ddr3.entries_ok ddr3_spec_def [of d] convert_cmd_packet_of)

interpretation dev4: memory_device "ddr4_std d" for d
  by unfold_locales (simp_all add: ddr4_std_def ddr4.entries_ok ddr4_spec_def [of d] convert_cmd_packet_of)

interpretation dev_d: memory_device "dsarp_std d" for d
  by unfold_locales (simp_all add: dsarp_std_def dsarp.entries_ok dsarp_spec_def [of d] convert_cmd_d_packet_of)

section \<open>The controller's timers and the bank table\<close>



end
