(* ===== verification/RefreshMachine.thy ===== *)
theory RefreshMachine
  imports CommandQueue
begin

text \<open>
  \<^verbatim>\<open>src/src/RefreshMachine.h\<close>: the counter that asks for refreshes, the buffer of refresh
  commands and the table of banks blocked by a refresh. The constructor leaves
  \<^verbatim>\<open>targetbank\<close>, \<^verbatim>\<open>bank_release\<close> and \<^verbatim>\<open>refreshCounting\<close> indeterminate: they keep the value they
  have in \<open>mem\<close>. \<^verbatim>\<open>refresh_mechanism\<close> is the string \<^verbatim>\<open>none\<close> after construction and nothing
  assigns it later; the model keeps it as a field so that the two other mechanisms are modelled
  too. \<^verbatim>\<open>size_t\<close> is 64 bits wide.
\<close>

record refresh_machine =
  rmBuffer :: "packet list"
  isRefreshingBank :: "u32 \<rightharpoonup> bool"
  rmRanks :: u64
  rmBanks :: u64
  tREFI :: u64
  tRFCpb :: u64
  tRFCab :: u64
  tRFC :: u64
  tRCD :: u64
  refresh_mechanism :: string
  isRefreshing :: bool
  isInterval :: bool
  Round_robin :: u32
  targetbank :: bool
  rmFlag :: bool
  bank_release :: u32
  interval_pb :: u32
  globeRefreshCountdown :: u32
  refreshCounting :: u32

definition new_RefreshMachine ::
  "refresh_machine \<Rightarrow> u64 \<Rightarrow> u64 \<Rightarrow> u64 \<Rightarrow> u64 \<Rightarrow> u64 \<Rightarrow> u64 \<Rightarrow> u64 \<Rightarrow> refresh_machine" where
  "new_RefreshMachine mem ranks banks refi rfcpb rfcab rfc rcd =
     mem\<lparr>rmBuffer := [], isRefreshingBank := Map.empty, rmRanks := ranks, rmBanks := banks,
         tREFI := refi, tRFCpb := rfcpb, tRFCab := rfcab, tRFC := rfc, tRCD := rcd,
         interval_pb := ucast (refi div 8), Round_robin := 0,
         globeRefreshCountdown := ucast (refi div 8), isRefreshing := False, isInterval := False,
         rmFlag := False, refresh_mechanism := ''none''\<rparr>"

definition rm_refreshing :: "refresh_machine \<Rightarrow> bool" where
  "rm_refreshing r = isRefreshing r"

definition reachInterval :: "refresh_machine \<Rightarrow> bool" where
  "reachInterval r = isInterval r"

definition busyBank :: "u32 \<Rightarrow> refresh_machine \<Rightarrow> bool" where
  "busyBank b r = map_get False (isRefreshingBank r) b"

text \<open>The loop that sets the flag of every bank.\<close>

definition mark_banks :: "bool \<Rightarrow> refresh_machine \<Rightarrow> refresh_machine" where
  "mark_banks v r =
     r\<lparr>isRefreshingBank := fold (\<lambda>i m. m(of_nat i \<mapsto> v)) [0..<unat (rmBanks r)] (isRefreshingBank r)\<rparr>"

text \<open>\<^verbatim>\<open>refresh(refCmd)\<close>, called with a null pointer: the command it hands out, if any.\<close>

definition rm_refresh :: "refresh_machine \<Rightarrow> packet option \<times> refresh_machine" where
  "rm_refresh r =
     (let cmd = (if rmBuffer r \<noteq> [] \<and> \<not> rmFlag r then Some (hd (rmBuffer r)) else None)
      in if refreshCounting r = 0 \<and> rmFlag r
         then let r1 = r\<lparr>rmFlag := False, isInterval := False, isRefreshing := False\<rparr>;
                  cmd1 = (if rmBuffer r1 \<noteq> [] then Some (hd (rmBuffer r1)) else cmd);
                  r2 = (if refresh_mechanism r1 = ''per-bank''
                        then r1\<lparr>isRefreshingBank := (isRefreshingBank r1)(bank_release r1 \<mapsto> False)\<rparr> else r1);
                  r3 = (if refresh_mechanism r2 = ''distributed'' then mark_banks False r2 else r2)
              in (cmd1, r3)
         else (cmd, r))"

definition popCommand :: "refresh_machine \<Rightarrow> refresh_machine res" where
  "popCommand r =
     bind_res (nth_res (rmBuffer r) 0) (\<lambda>p.
       let r1 = (if busPacketType p = REFPB
                 then r\<lparr>bank_release := pBank p, refreshCounting := ucast (tRFCpb r), rmFlag := True\<rparr>
                 else if busPacketType p = REF
                 then r\<lparr>bank_release := pBank p, refreshCounting := ucast (tRFC r), rmFlag := True\<rparr>
                 else r);
           r2 = r1\<lparr>rmBuffer := tl (rmBuffer r1)\<rparr>
       in bind_res (nth_res (rmBuffer r2) 0) (\<lambda>q.
            if busPacketType q = ACT
            then ok (r2\<lparr>refreshCounting := ucast (ucast (refreshCounting r2) + tRCD r2)\<rparr>)
            else ok r2))"

definition rm_push :: "packet list \<Rightarrow> refresh_machine \<Rightarrow> refresh_machine" where
  "rm_push ps r = r\<lparr>rmBuffer := rmBuffer r @ ps\<rparr>"

definition ref_packet :: "BusPacketType \<Rightarrow> u32 \<Rightarrow> u32 \<Rightarrow> u32 \<Rightarrow> packet" where
  "ref_packet t rw b rk = new_BusPacket t 0 0 0 rw b rk 0 0 0"

text \<open>
  One queue of the loop over the command queues: reading its head selects the critical buffer
  of the queue.
\<close>

definition refresh_queue ::
  "command_queue \<Rightarrow> command_queue list \<times> refresh_machine \<Rightarrow> (command_queue list \<times> refresh_machine) res" where
  "refresh_queue q s =
     (case s of (qs, r) \<Rightarrow>
        if cq_getSize True q > 0
        then bind_res (cq_getCommand True q) (\<lambda>(p, q').
               ok (qs @ [q'],
                   if busPacketType p < ACT
                   then let r1 = (if refresh_mechanism r = ''distributed''
                                  then rm_push [ref_packet ACT (pRow p) (pBank p) (pRank p)] r else r)
                        in if refresh_mechanism r1 = ''per-bank'' \<and> pBank p = Round_robin r1
                           then (rm_push [ref_packet PRE 0 (Round_robin r1) 0,
                                          ref_packet REFPB 0 (Round_robin r1) 0,
                                          ref_packet ACT (pRow p) (pBank p) (pRank p)] r1)
                                  \<lparr>targetbank := True,
                                   isRefreshingBank := (isRefreshingBank r1)(Round_robin r1 \<mapsto> True)\<rparr>
                           else r1
                   else r))
        else ok (qs @ [q], r))"

definition rm_commandGenerate ::
  "command_queue list \<Rightarrow> refresh_machine \<Rightarrow> (command_queue list \<times> refresh_machine) res" where
  "rm_commandGenerate qs r =
     (let r1 = r\<lparr>targetbank := False\<rparr>;
          r2 = (if refresh_mechanism r1 = ''distributed''
                then fold (\<lambda>rk r. mark_banks True (rm_push [ref_packet PREA 0 0 (of_nat rk), ref_packet REF 0 0 (of_nat rk)] r))
                       [0..<unat (rmRanks r1)] r1
                else r1)
      in bind_res (fold_res refresh_queue qs ([], r2)) (\<lambda>(qs', r3).
           ok (qs',
               if refresh_mechanism r3 = ''per-bank''
               then let r4 = (if \<not> targetbank r3
                              then (rm_push [ref_packet REFPB 0 (Round_robin r3) 0] r3)
                                     \<lparr>isRefreshingBank := (isRefreshingBank r3)(Round_robin r3 \<mapsto> True)\<rparr>
                              else r3);
                        n = Round_robin r4 + 1
                    in r4\<lparr>Round_robin := (if n = 8 then 0 else n)\<rparr>
               else r3)))"

definition rm_step :: "command_queue list \<Rightarrow> refresh_machine \<Rightarrow> (command_queue list \<times> refresh_machine) res" where
  "rm_step qs r =
     (let r1 = (if refresh_mechanism r \<noteq> ''none''
                then r\<lparr>globeRefreshCountdown := globeRefreshCountdown r - 1\<rparr> else r)
      in bind_res
           (if globeRefreshCountdown r1 = 0
            then let r2 = r1\<lparr>isRefreshing := True, isInterval := True\<rparr>;
                     r3 = (if refresh_mechanism r2 = ''per-bank''
                           then r2\<lparr>globeRefreshCountdown := interval_pb r2\<rparr> else r2);
                     r4 = (if refresh_mechanism r3 = ''distributed''
                           then r3\<lparr>globeRefreshCountdown := ucast (tREFI r3)\<rparr> else r3)
                 in rm_commandGenerate qs r4
            else ok (qs, r1))
           (\<lambda>(qs', r5). ok (qs', if refreshCounting r5 \<noteq> 0
                                 then r5\<lparr>refreshCounting := refreshCounting r5 - 1\<rparr> else r5)))"

section \<open>Refresh is switched off\<close>

text \<open>What the mechanism \<^verbatim>\<open>none\<close> keeps: nothing buffered, no bank blocked.\<close>

definition rm_off :: "refresh_machine \<Rightarrow> bool" where
  "rm_off r \<longleftrightarrow> refresh_mechanism r = ''none'' \<and> rmBuffer r = [] \<and> \<not> rmFlag r \<and> isRefreshingBank r = Map.empty"

lemma rm_off_new: "rm_off (new_RefreshMachine mem ranks banks refi rfcpb rfcab rfc rcd)"
  by (simp add: rm_off_def new_RefreshMachine_def)

lemma rm_off_busy: "rm_off r \<Longrightarrow> \<not> busyBank b r"
  by (simp add: rm_off_def busyBank_def)

lemma rm_off_refresh: "rm_off r \<Longrightarrow> rm_refresh r = (None, r)"
  by (simp add: rm_off_def rm_refresh_def)

text \<open>Reading the head of a queue only changes which of its buffers was read last.\<close>

definition same_commands :: "command_queue \<Rightarrow> command_queue \<Rightarrow> bool" where
  "same_commands q q' \<longleftrightarrow> (\<exists>b. q' = q\<lparr>scheduledQueue := b\<rparr>)"

lemma same_commands_refl: "same_commands q q"
  by (auto simp: same_commands_def intro: exI [of _ "scheduledQueue q"])

lemma refresh_queue_off:
  assumes "rm_off r"
  shows "res_ok (\<lambda>(qs', r'). r' = r \<and> (\<exists>q'. qs' = qs @ [q'] \<and> same_commands q q')) (refresh_queue q (qs, r))"
proof (cases "hrtBuffer q = []")
  case True
  then show ?thesis by (auto simp: refresh_queue_def cq_getSize_def same_commands_refl)
next
  case False
  then show ?thesis
    using assms
    by (auto simp: refresh_queue_def cq_getSize_def cq_getCommand_def Let_def rm_off_def same_commands_def)
qed

lemma refresh_queues_off:
  assumes "rm_off r"
  shows "res_ok (\<lambda>(qs', r'). r' = r \<and> (\<exists>ys. qs' = done_qs @ ys \<and> list_all2 same_commands qs ys))
           (fold_res refresh_queue qs (done_qs, r))"
proof (induction qs arbitrary: done_qs)
  case (Cons q qs)
  from refresh_queue_off [OF assms, of done_qs q] obtain q' where
    q': "refresh_queue q (done_qs, r) = ok (done_qs @ [q'], r)" "same_commands q q'"
    by (auto simp: res_ok_def)
  from Cons.IH [of "done_qs @ [q']"] q' show ?case by (force simp: res_ok_def)
qed simp

lemma rm_off_step:
  assumes "rm_off r"
  shows "res_ok (\<lambda>(qs', r'). rm_off r' \<and> list_all2 same_commands qs qs') (rm_step qs r)"
proof -
  have gen: "res_ok (\<lambda>(qs', r'). rm_off r' \<and> list_all2 same_commands qs qs') (rm_commandGenerate qs r)"
    if "rm_off r" for r
  proof -
    have "rm_off (r\<lparr>targetbank := False\<rparr>)" using that by (simp add: rm_off_def)
    from refresh_queues_off [OF this, of "[]" qs] obtain ys where
      "fold_res refresh_queue qs ([], r\<lparr>targetbank := False\<rparr>) = ok (ys, r\<lparr>targetbank := False\<rparr>)"
      "list_all2 same_commands qs ys" by (auto simp: res_ok_def)
    then show ?thesis using that by (simp add: rm_commandGenerate_def rm_off_def)
  qed
  have id: "list_all2 same_commands qs qs" by (simp add: list_all2_refl same_commands_refl)
  show ?thesis
  proof (cases "globeRefreshCountdown r = 0")
    case True
    have "rm_off (r\<lparr>isRefreshing := True, isInterval := True\<rparr>)" using assms by (simp add: rm_off_def)
    from gen [OF this] obtain qs' r' where
      "rm_commandGenerate qs (r\<lparr>isRefreshing := True, isInterval := True\<rparr>) = ok (qs', r')"
      "rm_off r'" "list_all2 same_commands qs qs'" by (auto simp: res_ok_def)
    then show ?thesis using assms True by (simp add: rm_step_def rm_off_def Let_def)
  next
    case False
    then show ?thesis using assms id by (simp add: rm_step_def rm_off_def Let_def)
  qed
qed

section \<open>Properties\<close>

text \<open>Cycles of the refresh machine: the controller asks it for a command, then steps it.\<close>

fun rm_cycles :: "nat \<Rightarrow> command_queue list \<Rightarrow> refresh_machine \<Rightarrow> (packet option list \<times> refresh_machine) res" where
  "rm_cycles 0 qs r = ok ([], r)"
| "rm_cycles (Suc k) qs r =
     (let (cmd, r1) = rm_refresh r
      in bind_res (rm_step qs r1) (\<lambda>(qs', r2).
         bind_res (rm_cycles k qs' r2) (\<lambda>(cs, r3). ok (cmd # cs, r3))))"

text \<open>
  (C23) Refresh is switched off by construction: whatever the timing parameters, the contents of
  the queues and the uninitialised members are, in every cycle after construction the refresh
  machine hands out no command and blocks no bank.
\<close>

theorem refresh_never_issued:
  "\<exists>r. rm_cycles k qs (new_RefreshMachine mem ranks banks refi rfcpb rfcab rfc rcd) = ok (replicate k None, r)
     \<and> (\<forall>b. \<not> busyBank b r)"
proof -
  have "\<exists>r'. rm_cycles k qs r = ok (replicate k None, r') \<and> rm_off r'" if "rm_off r" for k qs r
    using that
  proof (induction k arbitrary: qs r)
    case (Suc k)
    from rm_off_step [OF Suc.prems, of qs] obtain qs' r1 where
      "rm_step qs r = ok (qs', r1)" "rm_off r1" by (auto simp: res_ok_def)
    with Suc.IH [of r1 qs'] Suc.prems show ?case by (auto simp: rm_off_refresh)
  qed simp
  from this [OF rm_off_new] obtain r where
    "rm_cycles k qs (new_RefreshMachine mem ranks banks refi rfcpb rfcab rfc rcd) = ok (replicate k None, r)" "rm_off r"
    by blast
  then show ?thesis by (auto simp: rm_off_busy)
qed

section \<open>Distributed refresh\<close>

lemma mark_fold: "j < n \<Longrightarrow> fold (\<lambda>i m. m(of_nat i \<mapsto> v)) [0..<n] m (of_nat j :: u32) = Some v"
proof (induction n)
  case (Suc n)
  then show ?case by (cases "j = n") simp_all
qed simp

definition rank_refresh :: "nat \<Rightarrow> packet list" where
  "rank_refresh rk = [ref_packet PREA 0 0 (of_nat rk), ref_packet REF 0 0 (of_nat rk)]"

lemma rank_loop:
  "let r' = fold (\<lambda>rk r. mark_banks True (rm_push [ref_packet PREA 0 0 (of_nat rk), ref_packet REF 0 0 (of_nat rk)] r)) ks r
   in rmBuffer r' = rmBuffer r @ concat (map rank_refresh ks)
    \<and> refresh_mechanism r' = refresh_mechanism r \<and> rmBanks r' = rmBanks r
    \<and> (ks \<noteq> [] \<longrightarrow> (\<forall>j < unat (rmBanks r). isRefreshingBank r' (of_nat j) = Some True))"
proof (induction ks rule: rev_induct)
  case (snoc k ks)
  then show ?case by (simp add: Let_def mark_banks_def rm_push_def rank_refresh_def mark_fold)
qed simp

lemma refresh_queue_distributed:
  assumes "refresh_mechanism r = ''distributed''" and "refresh_queue q (qs, r) = ok (qs', r')"
  shows "refresh_mechanism r' = ''distributed'' \<and> isRefreshingBank r' = isRefreshingBank r
       \<and> (\<exists>acts. rmBuffer r' = rmBuffer r @ acts \<and> (\<forall>p \<in> set acts. busPacketType p = ACT))"
  using assms
  by (auto simp: refresh_queue_def res_simps rm_push_def ref_packet_def new_BusPacket_def Let_def split: if_splits)

lemma refresh_queues_distributed:
  assumes "refresh_mechanism r = ''distributed''" and "fold_res refresh_queue qs (q0, r) = ok (qs', r')"
  shows "refresh_mechanism r' = ''distributed'' \<and> isRefreshingBank r' = isRefreshingBank r
       \<and> (\<exists>acts. rmBuffer r' = rmBuffer r @ acts \<and> (\<forall>p \<in> set acts. busPacketType p = ACT))"
  using assms
proof (induction qs arbitrary: q0 r)
  case (Cons q qs)
  then obtain q1 r1 where 1: "refresh_queue q (q0, r) = ok (q1, r1)" "fold_res refresh_queue qs (q1, r1) = ok (qs', r')"
    by (auto simp: res_simps)
  note A = refresh_queue_distributed [OF Cons.prems(1) 1(1)]
  from A obtain a1 where "rmBuffer r1 = rmBuffer r @ a1" "\<forall>p \<in> set a1. busPacketType p = ACT" by blast
  moreover from Cons.IH [OF conjunct1 [OF A] 1(2)] obtain a2 where
    "rmBuffer r' = rmBuffer r1 @ a2" "\<forall>p \<in> set a2. busPacketType p = ACT" by blast
  ultimately have "rmBuffer r' = rmBuffer r @ (a1 @ a2) \<and> (\<forall>p \<in> set (a1 @ a2). busPacketType p = ACT)" by auto
  with A Cons.IH [OF conjunct1 [OF A] 1(2)] show ?case by metis
qed simp

text \<open>
  A distributed refresh blocks every bank and announces, after what was buffered before, a
  precharge of all banks followed by a refresh for each rank in turn, and after them only
  activations that reopen rows.
\<close>

theorem distributed_refresh_blocks_all:
  assumes "refresh_mechanism r = ''distributed''" and "0 < unat (rmRanks r)"
    and "rm_commandGenerate qs r = ok (qs', r')" and "j < unat (rmBanks r)"
  shows "busyBank (of_nat j) r' \<and>
         (\<exists>acts. rmBuffer r' = rmBuffer r @ concat (map rank_refresh [0..<unat (rmRanks r)]) @ acts
               \<and> (\<forall>p \<in> set acts. busPacketType p = ACT))"
proof -
  let ?r1 = "r\<lparr>targetbank := False\<rparr>"
  define r2 where "r2 = fold (\<lambda>rk r. mark_banks True (rm_push [ref_packet PREA 0 0 (of_nat rk), ref_packet REF 0 0 (of_nat rk)] r))
                       [0..<unat (rmRanks r)] ?r1"
  have L: "rmBuffer r2 = rmBuffer r @ concat (map rank_refresh [0..<unat (rmRanks r)])"
      "refresh_mechanism r2 = ''distributed''" "isRefreshingBank r2 (of_nat j) = Some True"
    using rank_loop [of "[0..<unat (rmRanks r)]" ?r1] assms(1,2,4) by (simp_all add: r2_def Let_def)
  from assms(1,3) have F: "fold_res refresh_queue qs ([], r2) = ok (qs', r')"
  proof -
    from assms(1,3) obtain q3 r3 where 3: "fold_res refresh_queue qs ([], r2) = ok (q3, r3)"
      and e: "qs' = q3" "r' = (if refresh_mechanism r3 = ''per-bank'' then r' else r3)"
      by (auto simp: rm_commandGenerate_def r2_def res_simps split: if_splits)
    have "refresh_mechanism r3 = ''distributed''" using refresh_queues_distributed [OF L(2) 3] by blast
    with 3 e show ?thesis by simp
  qed
  from refresh_queues_distributed [OF L(2) F] L show ?thesis
    by (auto simp: busyBank_def map_get_def)
qed

definition sample_refresh :: refresh_machine where
  "sample_refresh =
     \<lparr>rmBuffer = [], isRefreshingBank = Map.empty, rmRanks = 1, rmBanks = 8, tREFI = 6240, tRFCpb = 0,
      tRFCab = 0, tRFC = 128, tRCD = 11, refresh_mechanism = ''distributed'', isRefreshing = False,
      isInterval = False, Round_robin = 0, targetbank = False, rmFlag = False, bank_release = 0,
      interval_pb = 780, globeRefreshCountdown = 1, refreshCounting = 0\<rparr>"

theorem distributed_refresh_blocks_all_witness:
  "\<exists>r'. rm_commandGenerate [] sample_refresh = ok ([], r') \<and> busyBank 5 r'
     \<and> hd (rmBuffer r') = ref_packet PREA 0 0 0"
proof -
  have "\<not> isl (rm_commandGenerate [] sample_refresh)"
    by (simp add: rm_commandGenerate_def sample_refresh_def Let_def split: prod.split)
  then obtain qs' r' where g: "rm_commandGenerate [] sample_refresh = ok (qs', r')"
    by (cases "rm_commandGenerate [] sample_refresh") auto
  then have "qs' = []" by (auto simp: rm_commandGenerate_def Let_def)
  moreover have "busyBank (of_nat 5) r' \<and>
         (\<exists>acts. rmBuffer r' = rmBuffer sample_refresh @ concat (map rank_refresh [0..<unat (rmRanks sample_refresh)]) @ acts
               \<and> (\<forall>p \<in> set acts. busPacketType p = ACT))"
    by (rule distributed_refresh_blocks_all [OF _ _ g]) (simp_all add: sample_refresh_def)
  ultimately show ?thesis using g by (auto simp: sample_refresh_def rank_refresh_def)
qed

text \<open>
  The end of a distributed refresh is not handled: with no row to reopen, a rank's refresh is
  the precharge and the refresh command, and after issuing both \<^verbatim>\<open>popCommand\<close> reads the front of
  the buffer it has just emptied.
\<close>

theorem distributed_refresh_overruns:
  "bind_res (popCommand (r\<lparr>rmBuffer := rank_refresh 0\<rparr>)) popCommand = fail OutOfRange"
  by (simp add: popCommand_def rank_refresh_def ref_packet_def new_BusPacket_def)

end
