(* ===== verification/CommandScheduler.thy ===== *)
theory CommandScheduler
  imports MemoryDevice RefreshMachine
begin

text \<open>
  \<^verbatim>\<open>src/src/CommandScheduler.{h,cpp}\<close>: the base class of the command schedulers. The record
  holds its members, the references to the controller's command queues and to the memory device
  among them. Timers are kept per queue, or per queue and requestor; a \<^verbatim>\<open>std::map\<close> is a partial
  function whose missing entries read as the default value, so the empty entries that
  \<^verbatim>\<open>operator[]\<close> creates in \<^verbatim>\<open>isReady\<close> and \<^verbatim>\<open>busyBank\<close> are left out and the two are queries.
  \<^verbatim>\<open>checkCommand\<close> and its two siblings only carry values within one call of \<^verbatim>\<open>commandSchedule\<close> and
  are local there. The command trace printed on the terminal is not modelled.
\<close>

type_synonym timers = "BusPacketType \<rightharpoonup> u32"

record cmd_sched =
  csQueues :: "command_queue list"
  csDevice :: mem_device
  csCritical :: "u32 \<rightharpoonup> bool"
  cmdQueueTimer :: "nat \<rightharpoonup> timers"
  reqCmdQueueTimer :: "(u32 \<rightharpoonup> timers) list"
  refreshMachine :: refresh_machine
  scheduledCommand :: "packet option"
  csClock :: u64
  csRanks :: u32
  csBanks :: u32

text \<open>The constructor and \<^verbatim>\<open>connectMemoryDevice\<close>, which the controller calls one after the other.\<close>

definition new_CommandScheduler ::
  "'a cmd_sched_scheme \<Rightarrow> command_queue list \<Rightarrow> (u32 \<rightharpoonup> bool) \<Rightarrow> 'a cmd_sched_scheme" where
  "new_CommandScheduler mem qs table =
     mem\<lparr>csQueues := qs, csCritical := table, cmdQueueTimer := Map.empty,
         reqCmdQueueTimer := replicate (length qs) Map.empty, scheduledCommand := None,
         csClock := 1, csRanks := 0, csBanks := 0\<rparr>"

definition getTiming :: "device_std \<Rightarrow> string \<Rightarrow> u32" where
  "getTiming std param = word_of_int (std_constraints std param)"

definition cs_connectMemoryDevice :: "device_std \<Rightarrow> mem_device \<Rightarrow> 'a cmd_sched_scheme \<Rightarrow> 'a cmd_sched_scheme" where
  "cs_connectMemoryDevice std d s =
     s\<lparr>csDevice := d, csRanks := get_Rank d, csBanks := get_Bank d,
       refreshMachine := new_RefreshMachine (refreshMachine s) (ucast (get_Rank d)) (ucast (get_Bank d))
         (ucast (getTiming std ''tREFI'')) (ucast (getTiming std ''tRFCpb'')) (ucast (getTiming std ''tRFCab''))
         (ucast (getTiming std ''tRFC'')) (ucast (getTiming std ''tRCD''))\<rparr>"

definition cs_refreshing :: "'a cmd_sched_scheme \<Rightarrow> bool" where
  "cs_refreshing s = rm_refreshing (refreshMachine s)"

section \<open>Access to the queues\<close>

definition cq_at :: "nat \<Rightarrow> 'a cmd_sched_scheme \<Rightarrow> command_queue res" where
  "cq_at i s = nth_res (csQueues s) i"

definition put_cq :: "nat \<Rightarrow> command_queue \<Rightarrow> 'a cmd_sched_scheme \<Rightarrow> 'a cmd_sched_scheme" where
  "put_cq i q s = s\<lparr>csQueues := (csQueues s)[i := q]\<rparr>"

text \<open>\<^verbatim>\<open>commandQueue[i]->getCommand(critical)\<close>, which notes the buffer it read.\<close>

definition read_head :: "bool \<Rightarrow> nat \<Rightarrow> 'a cmd_sched_scheme \<Rightarrow> (packet \<times> 'a cmd_sched_scheme) res" where
  "read_head critical i s =
     bind_res (cq_at i s) (\<lambda>q. bind_res (cq_getCommand critical q) (\<lambda>(p, q'). ok (p, put_cq i q' s)))"

section \<open>Methods of the base class\<close>

definition timer_zero :: "timers \<Rightarrow> BusPacketType \<Rightarrow> bool" where
  "timer_zero m t = (case m t of None \<Rightarrow> True | Some c \<Rightarrow> c = 0)"

definition isReady :: "packet \<Rightarrow> nat \<Rightarrow> 'a cmd_sched_scheme \<Rightarrow> bool res" where
  "isReady cmd index s =
     bind_res (cq_at index s) (\<lambda>q.
       if cq_isPerRequestor q
       then bind_res (nth_res (reqCmdQueueTimer s) index) (\<lambda>m.
              ok (timer_zero (map_get Map.empty m (ucast (pRequestorID cmd))) (busPacketType cmd)))
       else ok (timer_zero (map_get Map.empty (cmdQueueTimer s) index) (busPacketType cmd)))"

definition isIssuableRefresh :: "device_std \<Rightarrow> packet \<Rightarrow> 'a cmd_sched_scheme \<Rightarrow> bool res" where
  "isIssuableRefresh std cmd s = command_check std cmd (csDevice s)"

definition isIssuable :: "device_std \<Rightarrow> packet \<Rightarrow> 'a cmd_sched_scheme \<Rightarrow> bool res" where
  "isIssuable std cmd s =
     (if busyBank (pBank cmd) (refreshMachine s) = False then command_check std cmd (csDevice s) else ok False)"

text \<open>The loop \<^verbatim>\<open>type = RD; type != PDE\<close> that raises the timers to the distance from \<open>cmd\<close>.\<close>

definition raise_timer :: "device_std \<Rightarrow> packet \<Rightarrow> BusPacketType \<Rightarrow> timers \<Rightarrow> timers" where
  "raise_timer std cmd t m = m(t \<mapsto> max (map_get 0 m t) (command_timing_type std cmd t))"

definition raise_timers :: "device_std \<Rightarrow> packet \<Rightarrow> timers \<Rightarrow> timers" where
  "raise_timers std cmd m = fold (raise_timer std cmd) timed_types m"

definition sendCommand :: "device_std \<Rightarrow> packet \<Rightarrow> nat \<Rightarrow> bool \<Rightarrow> 'a cmd_sched_scheme \<Rightarrow> 'a cmd_sched_scheme res" where
  "sendCommand std cmd index bypass s =
     bind_res (cq_at index s) (\<lambda>q.
     bind_res
       (if cq_isPerRequestor q
        then bind_res (nth_res (reqCmdQueueTimer s) index) (\<lambda>m.
               let k = (ucast (pRequestorID cmd) :: u32);
                   s1 = s\<lparr>reqCmdQueueTimer := (reqCmdQueueTimer s)
                            [index := m(k \<mapsto> raise_timers std cmd (map_get Map.empty m k))]\<rparr>
               in bind_res (removeCommand_requestor (pRequestorID cmd) q) (\<lambda>q'. ok (put_cq index q' s1)))
        else let s1 = s\<lparr>cmdQueueTimer := (cmdQueueTimer s)
                          (index \<mapsto> raise_timers std cmd (map_get Map.empty (cmdQueueTimer s) index))\<rparr>
             in if \<not> bypass then bind_res (removeCommand q) (\<lambda>q'. ok (put_cq index q' s1)) else ok s1)
       (\<lambda>s2.
     bind_res (case scheduledCommand s2 of None \<Rightarrow> fail NullDeref | Some p \<Rightarrow> receiveFromBus std p (csDevice s2)) (\<lambda>d.
       ok (s2\<lparr>csDevice := d\<rparr>))))"

definition commandClear :: "'a cmd_sched_scheme \<Rightarrow> 'a cmd_sched_scheme" where
  "commandClear s = s\<lparr>scheduledCommand := None\<rparr>"

definition cs_refresh :: "device_std \<Rightarrow> 'a cmd_sched_scheme \<Rightarrow> 'a cmd_sched_scheme res" where
  "cs_refresh std s =
     (if reachInterval (refreshMachine s)
      then let (tempCmd, rm) = rm_refresh (refreshMachine s); s1 = s\<lparr>refreshMachine := rm\<rparr>
           in case tempCmd of
                None \<Rightarrow> ok s1
              | Some p \<Rightarrow>
                  bind_res (isIssuableRefresh std p s1) (\<lambda>b.
                    if b
                    then bind_res (receiveFromBus std p (csDevice s1)) (\<lambda>d.
                         bind_res (popCommand (refreshMachine s1)) (\<lambda>rm'.
                           ok (s1\<lparr>csDevice := d, refreshMachine := rm'\<rparr>)))
                    else ok s1)
      else ok s)"

definition count_down :: "timers \<Rightarrow> timers" where
  "count_down m = (\<lambda>t. map_option (\<lambda>c. if c > 0 then c - 1 else c) (m t))"

definition tick_queue :: "nat \<Rightarrow> 'a cmd_sched_scheme \<Rightarrow> 'a cmd_sched_scheme res" where
  "tick_queue index s =
     bind_res (cq_at index s) (\<lambda>q.
       if cq_isPerRequestor q
       then bind_res (nth_res (reqCmdQueueTimer s) index) (\<lambda>m.
              ok (s\<lparr>reqCmdQueueTimer := (reqCmdQueueTimer s)[index := (\<lambda>k. map_option count_down (m k))]\<rparr>))
       else ok (s\<lparr>cmdQueueTimer := (cmdQueueTimer s)
                    (index \<mapsto> count_down (map_get Map.empty (cmdQueueTimer s) index))\<rparr>))"

definition cs_tick :: "'a cmd_sched_scheme \<Rightarrow> 'a cmd_sched_scheme res" where
  "cs_tick s =
     bind_res (fold_res tick_queue [0..<length (csQueues s)] s) (\<lambda>s1.
     bind_res (rm_step (csQueues s1) (refreshMachine s1)) (\<lambda>(qs, rm).
       ok (s1\<lparr>csQueues := qs, refreshMachine := rm, csClock := csClock s1 + 1\<rparr>)))"

section \<open>Timers\<close>

lemma raise_timers_other: "t \<notin> set timed_types \<Longrightarrow> raise_timers std cmd m t = m t"
proof -
  have "t \<notin> set ts \<Longrightarrow> fold (\<lambda>t m. m(t \<mapsto> max (map_get 0 m t) (f t))) ts m t = m t" for ts f and m :: timers
    by (induction ts arbitrary: m) auto
  then show "t \<notin> set timed_types \<Longrightarrow> raise_timers std cmd m t = m t" by (simp add: raise_timers_def raise_timer_def [abs_def])
qed

lemma raise_timers_timed:
  assumes "t \<in> set timed_types"
  shows "raise_timers std cmd m t = Some (max (map_get 0 m t) (command_timing_type std cmd t))"
proof -
  have nin: "t \<notin> set ts \<Longrightarrow> fold (\<lambda>t m. m(t \<mapsto> max (map_get 0 m t) (f t))) ts m t = m t" for ts f and m :: timers
    by (induction ts arbitrary: m) auto
  have "distinct ts \<Longrightarrow> t \<in> set ts \<Longrightarrow>
      fold (\<lambda>t m. m(t \<mapsto> max (map_get 0 m t) (f t))) ts m t = Some (max (map_get 0 m t) (f t))" for ts f and m :: timers
    by (induction ts arbitrary: m) (auto simp: nin)
  moreover have "distinct timed_types" by (simp add: timed_types_def)
  ultimately show ?thesis using assms by (simp add: raise_timers_def raise_timer_def [abs_def])
qed

lemma count_down_get: "unat (map_get 0 (count_down m) t) = unat (map_get 0 m t) - 1"
  by (cases "m t") (simp_all add: count_down_def map_get_def unat_dec_if)

lemma timer_zero_iff: "timer_zero m t \<longleftrightarrow> map_get 0 m t = 0"
  by (simp add: timer_zero_def map_get_def split: option.split)

text \<open>
  A timer holds a command back for exactly the distance it was raised to: right after
  \<open>cmd\<close> was sent, a command of type \<open>t\<close> of the same queue is not ready before as many cycles have
  passed as the larger of the timer's old value and \<^verbatim>\<open>command_timing(cmd, t)\<close>, and it is ready from
  then on.
\<close>

theorem timer_holds_back_exactly:
  assumes "t \<in> set timed_types"
  shows "timer_zero ((count_down ^^ k) (raise_timers std cmd m)) t \<longleftrightarrow>
         max (unat (map_get 0 m t)) (unat (command_timing_type std cmd t)) \<le> k"
proof -
  have "unat (map_get 0 ((count_down ^^ k) m') t) = unat (map_get 0 m' t) - k" for m'
    by (induction k) (simp_all add: count_down_get)
  then have "unat (map_get 0 ((count_down ^^ k) (raise_timers std cmd m)) t)
      = unat (max (map_get 0 m t) (command_timing_type std cmd t)) - k"
    by (simp add: raise_timers_timed [OF assms] map_get_def)
  moreover have "unat (max a b) = max (unat a) (unat b)" for a b :: u32
    by (simp add: max_def word_le_nat_alt)
  ultimately show ?thesis by (auto simp: timer_zero_iff unat_eq_zero [symmetric])
qed

theorem timer_holds_back_exactly_witness:
  "timer_zero ((count_down ^^ 11) (raise_timers sample_std (new_BusPacket ACT 1 0 0 0 0 0 0 0 0) Map.empty)) RD
   \<and> \<not> timer_zero ((count_down ^^ 10) (raise_timers sample_std (new_BusPacket ACT 1 0 0 0 0 0 0 0 0) Map.empty)) RD"
proof -
  have "unat (command_timing_type sample_std (new_BusPacket ACT 1 0 0 0 0 0 0 0 0) RD) = 11" by code_simp
  then show ?thesis
    using timer_holds_back_exactly [of RD 11 sample_std "new_BusPacket ACT 1 0 0 0 0 0 0 0 0" Map.empty]
      timer_holds_back_exactly [of RD 10 sample_std "new_BusPacket ACT 1 0 0 0 0 0 0 0 0" Map.empty]
    by (simp add: timed_types_def)
qed

section \<open>The commands in the queues\<close>

definition cq_cmds :: "command_queue \<Rightarrow> packet set" where
  "cq_cmds q = {p. \<exists>k buf. requestorCmds q k = Some buf \<and> p \<in> set buf} \<union> set (hrtBuffer q) \<union> set (srtBuffer q)"

definition cs_cmds :: "'a cmd_sched_scheme \<Rightarrow> packet set" where
  "cs_cmds s = (\<Union>q \<in> set (csQueues s). cq_cmds q)"

lemma cs_cmds_nth: "i < length (csQueues s) \<Longrightarrow> cq_cmds (csQueues s ! i) \<subseteq> cs_cmds s"
  using nth_mem by (fastforce simp: cs_cmds_def)

lemma cs_cmds_put: "cs_cmds (put_cq i q s) \<subseteq> cs_cmds s \<union> cq_cmds q"
  using set_update_subset_insert [of "csQueues s" i q] by (auto simp: cs_cmds_def put_cq_def)

lemma cq_cmds_scheduledQueue [simp]: "cq_cmds (q\<lparr>scheduledQueue := b\<rparr>) = cq_cmds q"
  by (simp add: cq_cmds_def)

lemma cq_getCommand_cmds:
  "cq_getCommand c q = ok (p, q') \<Longrightarrow> p \<in> cq_cmds q \<and> q' = q\<lparr>scheduledQueue := c\<rparr>"
  by (auto simp: cq_getCommand_def cq_cmds_def Let_def split: if_splits)

lemma getRequestorCommand_cmds: "getRequestorCommand num q = ok p \<Longrightarrow> p \<in> cq_cmds q"
  by (fastforce simp: getRequestorCommand_def cq_cmds_def res_simps map_get_def split: option.splits)

lemma erase_0: "erase_res 0 xs = ok ys \<Longrightarrow> set ys \<subseteq> set xs"
  by (auto simp: res_simps)

lemma removeCommand_cmds: "removeCommand q = ok q' \<Longrightarrow> cq_cmds q' \<subseteq> cq_cmds q"
  by (fastforce simp: removeCommand_def cq_cmds_def res_simps split: if_splits)

lemma removeCommand_requestor_cmds: "removeCommand_requestor i q = ok q' \<Longrightarrow> cq_cmds q' \<subseteq> cq_cmds q"
  by (fastforce simp: removeCommand_requestor_def cq_cmds_def Let_def res_simps map_get_def split: if_splits option.splits)

lemma insertCommand_cmds: "cq_cmds (insertCommand p c q) \<subseteq> insert p (cq_cmds q)"
  by (auto simp: insertCommand_def cq_cmds_def Let_def map_get_def split: if_splits option.splits)

section \<open>What a command scheduler may do\<close>

text \<open>
  A call of \<^verbatim>\<open>commandSchedule\<close> leaves the device alone, or puts one command on the bus that has
  just been found issuable and that comes from a queue or from the commands \<open>held\<close> back by the
  scheduler. Nothing else in the system changes but the queues, which only lose commands.
\<close>

definition quiet :: "'a cmd_sched_scheme \<Rightarrow> 'a cmd_sched_scheme \<Rightarrow> bool" where
  "quiet s s' \<longleftrightarrow> csDevice s' = csDevice s \<and> refreshMachine s' = refreshMachine s \<and> cs_cmds s' \<subseteq> cs_cmds s"

definition sends :: "device_std \<Rightarrow> packet \<Rightarrow> 'a cmd_sched_scheme \<Rightarrow> 'a cmd_sched_scheme \<Rightarrow> bool" where
  "sends std p s s' \<longleftrightarrow>
     isIssuable std p s = ok True \<and> receiveFromBus std p (csDevice s) = ok (csDevice s')
   \<and> refreshMachine s' = refreshMachine s \<and> cs_cmds s' \<subseteq> cs_cmds s"

definition bus_step :: "device_std \<Rightarrow> packet set \<Rightarrow> 'a cmd_sched_scheme \<Rightarrow> 'a cmd_sched_scheme \<Rightarrow> bool" where
  "bus_step std held s s' \<longleftrightarrow> quiet s s' \<or> (\<exists>p \<in> cs_cmds s \<union> held. sends std p s s')"

lemma quiet_refl [simp]: "quiet s s"
  by (simp add: quiet_def)

lemma quiet_trans: "quiet s t \<Longrightarrow> quiet t u \<Longrightarrow> quiet s u"
  by (auto simp: quiet_def)

lemma quiet_scheduled [simp]: "quiet s (t\<lparr>scheduledCommand := x\<rparr>) = quiet s t" "quiet (s\<lparr>scheduledCommand := x\<rparr>) t = quiet s t"
  by (simp_all add: quiet_def cs_cmds_def)

lemma quiet_isIssuable: "quiet s s' \<Longrightarrow> isIssuable std p s' = isIssuable std p s"
  by (simp add: quiet_def isIssuable_def)

lemma quiet_bus_step: "quiet s t \<Longrightarrow> bus_step std H t u \<Longrightarrow> H \<subseteq> H' \<Longrightarrow> bus_step std H' s u"
proof -
  assume q: "quiet s t" and b: "bus_step std H t u" and H: "H \<subseteq> H'"
  from b show "bus_step std H' s u"
    unfolding bus_step_def
  proof (elim disjE bexE)
    assume "quiet t u"
    then show "quiet s u \<or> (\<exists>p\<in>cs_cmds s \<union> H'. sends std p s u)" using quiet_trans [OF q] by blast
  next
    fix p assume p: "p \<in> cs_cmds t \<union> H" and "sends std p t u"
    then have "sends std p s u" using q by (auto simp: sends_def quiet_isIssuable [OF q]) (auto simp: quiet_def)
    moreover have "p \<in> cs_cmds s \<union> H'" using p q H by (auto simp: quiet_def)
    ultimately show "quiet s u \<or> (\<exists>p\<in>cs_cmds s \<union> H'. sends std p s u)" by blast
  qed
qed

lemma read_head_quiet: "read_head c i s = ok (p, s') \<Longrightarrow> p \<in> cs_cmds s \<and> quiet s s'"
proof -
  assume "read_head c i s = ok (p, s')"
  then obtain q where q: "i < length (csQueues s)" "q = csQueues s ! i" and g: "cq_getCommand c q = ok (p, q\<lparr>scheduledQueue := c\<rparr>)"
    and s': "s' = put_cq i (q\<lparr>scheduledQueue := c\<rparr>) s"
    by (auto simp: read_head_def cq_at_def res_simps dest: cq_getCommand_cmds)
  have "cq_cmds q \<subseteq> cs_cmds s" using q by (simp add: cs_cmds_nth)
  then have "p \<in> cs_cmds s" "cs_cmds s' \<subseteq> cs_cmds s"
    using cq_getCommand_cmds [OF g] cs_cmds_put [of i "q\<lparr>scheduledQueue := c\<rparr>" s] by (auto simp: s')
  then show ?thesis by (simp add: quiet_def s') (simp add: put_cq_def)
qed

lemma cs_cmds_frame [simp]:
  "cs_cmds (s\<lparr>csDevice := d\<rparr>) = cs_cmds s" "cs_cmds (s\<lparr>cmdQueueTimer := m\<rparr>) = cs_cmds s"
  "cs_cmds (s\<lparr>reqCmdQueueTimer := ms\<rparr>) = cs_cmds s" "cs_cmds (s\<lparr>refreshMachine := r\<rparr>) = cs_cmds s"
  "cs_cmds (s\<lparr>scheduledCommand := x\<rparr>) = cs_cmds s" "cs_cmds (s\<lparr>csClock := c\<rparr>) = cs_cmds s"
  by (simp_all add: cs_cmds_def)

lemma sendCommand_sends:
  assumes "sendCommand std c i b s = ok s'" and "scheduledCommand s = Some p" and "isIssuable std p s = ok True"
  shows "sends std p s s'"
proof -
  from assms(1) obtain q s2 d where q: "i < length (csQueues s)" "q = csQueues s ! i"
    and s2: "(\<exists>m q'. removeCommand_requestor (pRequestorID c) q = ok q' \<and> s2 = put_cq i q' (s\<lparr>reqCmdQueueTimer := m\<rparr>))
       \<or> (\<exists>m q'. removeCommand q = ok q' \<and> s2 = put_cq i q' (s\<lparr>cmdQueueTimer := m\<rparr>))
       \<or> (\<exists>m. s2 = s\<lparr>cmdQueueTimer := m\<rparr>)"
    and r: "(case scheduledCommand s2 of None \<Rightarrow> fail NullDeref | Some p \<Rightarrow> receiveFromBus std p (csDevice s2)) = ok d"
    and s': "s' = s2\<lparr>csDevice := d\<rparr>"
    by (fastforce simp: sendCommand_def cq_at_def res_simps Let_def split: if_splits)
  have same: "csDevice s2 = csDevice s" "refreshMachine s2 = refreshMachine s" "scheduledCommand s2 = scheduledCommand s"
    using s2 by (auto simp: put_cq_def)
  have q_in: "cq_cmds q \<subseteq> cs_cmds s" using q by (simp add: cs_cmds_nth)
  have put: "cs_cmds (put_cq i q' t) \<subseteq> cs_cmds s"
    if "cq_cmds q' \<subseteq> cq_cmds q" "cs_cmds t = cs_cmds s" for q' and t :: "'a cmd_sched_scheme"
    using cs_cmds_put [of i q' t] that q_in by blast
  from s2 have "cs_cmds s2 \<subseteq> cs_cmds s"
    by (elim disjE exE conjE) (simp_all add: put removeCommand_cmds removeCommand_requestor_cmds)
  then show ?thesis using same r assms(2,3) by (auto simp: sends_def s')
qed

end
