(* ===== verification/CommandBus.thy ===== *)
theory CommandBus
  imports CommandScheduler
begin

text \<open>
  The interface between a command scheduler and the rest of the channel, as a locale: what
  \<^verbatim>\<open>commandSchedule\<close> promises, and what follows for every run of the channel in which commands
  arrive, the criticality table changes, the scheduler is called, write data is sent and cycles pass, in any order. Each
  concrete scheduler interprets the locale.
\<close>

inductive chan_run ::
  "(device_std \<Rightarrow> 'a cmd_sched_scheme \<Rightarrow> (packet option \<times> 'a cmd_sched_scheme) res) \<Rightarrow>
     ('a cmd_sched_scheme \<Rightarrow> bool) \<Rightarrow> device_std \<Rightarrow> u32 \<Rightarrow> 'a cmd_sched_scheme \<Rightarrow> bool"
  for schedule initial std ranks where
  start: "initial s \<Longrightarrow> (\<forall>q \<in> set qs. \<exists>b. q = new_CommandQueue b) \<Longrightarrow>
     chan_run schedule initial std ranks
       (cs_connectMemoryDevice std (new_Ramulator std ranks) (new_CommandScheduler s qs table))"
| arrive: "chan_run schedule initial std ranks s \<Longrightarrow> i < length (csQueues s) \<Longrightarrow> \<not> postCommand p \<Longrightarrow>
     chan_run schedule initial std ranks (put_cq i (insertCommand p critical (csQueues s ! i)) s)"
| table: "chan_run schedule initial std ranks s \<Longrightarrow> chan_run schedule initial std ranks (s\<lparr>csCritical := m\<rparr>)"
| refresh: "chan_run schedule initial std ranks s \<Longrightarrow> cs_refresh std s = ok s' \<Longrightarrow>
     chan_run schedule initial std ranks s'"
| issue: "chan_run schedule initial std ranks s \<Longrightarrow> schedule std s = ok (r, s') \<Longrightarrow>
     chan_run schedule initial std ranks s'"
| data: "chan_run schedule initial std ranks s \<Longrightarrow> busPacketType p = DATA \<Longrightarrow> \<not> postCommand p \<Longrightarrow>
     receiveFromBus std p (csDevice s) = ok d \<Longrightarrow> chan_run schedule initial std ranks (s\<lparr>csDevice := d\<rparr>)"
| tick: "chan_run schedule initial std ranks s \<Longrightarrow> cs_tick s = ok s' \<Longrightarrow> chan_run schedule initial std ranks s'"
| cycle: "chan_run schedule initial std ranks s \<Longrightarrow> dev_update std (csDevice s) = ok (r, d) \<Longrightarrow>
     chan_run schedule initial std ranks (s\<lparr>csDevice := d\<rparr>)"

section \<open>Steps of the base class\<close>

lemma same_commands_cmds: "same_commands q q' \<Longrightarrow> cq_cmds q' = cq_cmds q"
  by (auto simp: same_commands_def)

lemma same_commands_all:
  "list_all2 same_commands qs qs' \<Longrightarrow> (\<Union>q \<in> set qs'. cq_cmds q) = (\<Union>q \<in> set qs. cq_cmds q)"
  by (induction rule: list_all2_induct) (simp_all add: same_commands_cmds)

text \<open>The fields the timers' countdown leaves alone, together with the subclass part.\<close>

definition tick_frame :: "'a cmd_sched_scheme \<Rightarrow> 'a cmd_sched_scheme \<Rightarrow> bool" where
  "tick_frame s t \<longleftrightarrow> csQueues t = csQueues s \<and> csDevice t = csDevice s \<and> refreshMachine t = refreshMachine s
     \<and> cmd_sched.more t = cmd_sched.more s"

lemma tick_queues_frame:
  assumes "fold_res tick_queue ks s = ok s'"
  shows "tick_frame s s'"
  by (rule fold_res_preserves [OF assms])
    (auto simp: tick_frame_def tick_queue_def cq_at_def res_simps split: if_splits)

lemma cs_tick_off:
  assumes "cs_tick s = ok s'" and "rm_off (refreshMachine s)"
  shows "csDevice s' = csDevice s \<and> rm_off (refreshMachine s') \<and> cs_cmds s' = cs_cmds s
       \<and> cmd_sched.more s' = cmd_sched.more s"
proof -
  from assms(1) obtain s1 qs rm where 1: "fold_res tick_queue [0..<length (csQueues s)] s = ok s1"
    and 2: "rm_step (csQueues s1) (refreshMachine s1) = ok (qs, rm)"
    and s': "s' = s1\<lparr>csQueues := qs, refreshMachine := rm, csClock := csClock s1 + 1\<rparr>"
    by (auto simp: cs_tick_def res_simps)
  have f: "tick_frame s s1" by (rule tick_queues_frame [OF 1])
  then have "rm_off (refreshMachine s1)" using assms(2) by (simp add: tick_frame_def)
  from rm_off_step [OF this, of "csQueues s1"] 2 have "rm_off rm" "list_all2 same_commands (csQueues s1) qs"
    by (auto simp: res_ok_def)
  then show ?thesis using f same_commands_all [of "csQueues s1" qs]
    by (simp add: s' tick_frame_def cs_cmds_def)
qed

lemma cs_refresh_off: "cs_refresh std s = ok s' \<Longrightarrow> rm_off (refreshMachine s) \<Longrightarrow> s' = s"
  by (auto simp: cs_refresh_def rm_off_refresh split: if_splits)

section \<open>The interface\<close>

locale command_scheduler =
  fixes schedule :: "device_std \<Rightarrow> 'a cmd_sched_scheme \<Rightarrow> (packet option \<times> 'a cmd_sched_scheme) res"
    and initial :: "'a cmd_sched_scheme \<Rightarrow> bool"
    and held :: "'a cmd_sched_scheme \<Rightarrow> packet set"
  assumes schedule_step: "schedule std s = ok (r, s') \<Longrightarrow> bus_step std (held s) s s'"
    and schedule_held: "schedule std s = ok (r, s') \<Longrightarrow> held s' \<subseteq> held s \<union> cs_cmds s"
    and initial_held: "initial s \<Longrightarrow> p \<in> held s \<Longrightarrow> \<not> postCommand p"
    and held_more: "cmd_sched.more s' = cmd_sched.more s \<Longrightarrow> held s' = held s"
begin

text \<open>No posted command is around, refresh is off, and the bus log is a trace of the channel.\<close>

definition chan_ok :: "device_std \<Rightarrow> issue list \<Rightarrow> 'a cmd_sched_scheme \<Rightarrow> bool" where
  "chan_ok std tr s \<longleftrightarrow> dev_ok std tr (csDevice s) \<and> rm_off (refreshMachine s)
     \<and> (\<forall>p \<in> cs_cmds s \<union> held s. \<not> postCommand p)"

lemma chan_ok_issue:
  assumes "memory_device std" and I: "chan_ok std tr s" and r: "schedule std s = ok (r, s')"
  shows "\<exists>tr'. chan_ok std tr' s'"
proof -
  have H: "\<forall>p \<in> cs_cmds s' \<union> held s'. \<not> postCommand p"
    using I schedule_step [OF r] schedule_held [OF r]
    by (fastforce simp: chan_ok_def bus_step_def quiet_def sends_def)
  from schedule_step [OF r] show ?thesis
    unfolding bus_step_def
  proof (elim disjE bexE)
    assume "quiet s s'"
    then have "chan_ok std tr s'" using I H by (simp add: chan_ok_def quiet_def)
    then show ?thesis ..
  next
    fix p assume p: "p \<in> cs_cmds s \<union> held s" and s: "sends std p s s'"
    have "command_check std p (csDevice s) = ok True"
      using s by (auto simp: sends_def isIssuable_def split: if_splits)
    moreover have "\<not> postCommand p" using I p by (auto simp: chan_ok_def)
    ultimately obtain tr' where "dev_ok std tr' (csDevice s')"
      using memory_device.dev_ok_receive [OF assms(1)] I s by (metis chan_ok_def sends_def)
    then have "chan_ok std tr' s'" using I H s by (simp add: chan_ok_def sends_def)
    then show ?thesis ..
  qed
qed

theorem chan_run_ok:
  assumes dev: "memory_device std" and run: "chan_run schedule initial std ranks s"
  shows "\<exists>tr. chan_ok std tr s"
  using run
proof (induction rule: chan_run.induct)
  case (start s qs table)
  have "cs_cmds (cs_connectMemoryDevice std (new_Ramulator std ranks) (new_CommandScheduler s qs table)) = {}"
    using start(2) by (force simp: cs_cmds_def cs_connectMemoryDevice_def new_CommandScheduler_def cq_cmds_def new_CommandQueue_def)
  moreover have "held (cs_connectMemoryDevice std (new_Ramulator std ranks) (new_CommandScheduler s qs table)) = held s"
    by (rule held_more) (simp add: cs_connectMemoryDevice_def new_CommandScheduler_def)
  ultimately have "chan_ok std [] (cs_connectMemoryDevice std (new_Ramulator std ranks) (new_CommandScheduler s qs table))"
    using memory_device.dev_ok_new [OF dev] initial_held [OF start(1)]
    by (simp add: chan_ok_def) (simp add: cs_connectMemoryDevice_def rm_off_new)
  then show ?case ..
next
  case (arrive s i p critical)
  then obtain tr where I: "chan_ok std tr s" by blast
  let ?q = "insertCommand p critical (csQueues s ! i)"
  have "cs_cmds (put_cq i ?q s) \<subseteq> insert p (cs_cmds s)"
    using cs_cmds_put [of i ?q s] insertCommand_cmds [of p critical "csQueues s ! i"] cs_cmds_nth [OF arrive.hyps(2)] by blast
  moreover have "held (put_cq i ?q s) = held s" by (rule held_more) (simp add: put_cq_def)
  ultimately have "chan_ok std tr (put_cq i ?q s)"
    using I arrive.hyps(3) by (auto simp: chan_ok_def) (auto simp: put_cq_def)
  then show ?case ..
next
  case (table s m)
  then obtain tr where I: "chan_ok std tr s" by blast
  have "held (s\<lparr>csCritical := m\<rparr>) = held s" by (rule held_more) simp
  with I have "chan_ok std tr (s\<lparr>csCritical := m\<rparr>)" by (simp add: chan_ok_def cs_cmds_def)
  then show ?case ..
next
  case (refresh s s')
  then show ?case using cs_refresh_off by (metis chan_ok_def)
next
  case (issue s r s')
  then show ?case using chan_ok_issue [OF dev] by blast
next
  case (data s p d)
  then obtain tr where I: "chan_ok std tr s" by blast
  then have "d = csDevice s"
    using memory_device.dev_ok_data [OF dev _ data.hyps(2,3)] data.hyps(4) by (fastforce simp: chan_ok_def)
  with I show ?case by auto
next
  case (tick s s')
  then obtain tr where I: "chan_ok std tr s" by blast
  with cs_tick_off [OF tick.hyps(2)] have "chan_ok std tr s'"
    using held_more [of s' s] by (simp add: chan_ok_def)
  then show ?case ..
next
  case (cycle s r d)
  then obtain tr where I: "chan_ok std tr s" by blast
  have h: "held (s\<lparr>csDevice := d\<rparr>) = held s" by (rule held_more) simp
  from I memory_device.dev_ok_update [OF dev] cycle.hyps(2) have "dev_ok std tr d"
    by (fastforce simp: chan_ok_def)
  then have "chan_ok std tr (s\<lparr>csDevice := d\<rparr>)" using I h by (simp add: chan_ok_def)
  then show ?case ..
qed

lemma chan_run_trace:
  assumes "memory_device std" and "chan_run schedule initial std ranks s"
  shows "\<exists>tr. dev_ok std tr (csDevice s)"
  using chan_run_ok [OF assms] by (auto simp: chan_ok_def)

end

section \<open>Reading the command trace\<close>

text \<open>
  The cycles at which a command was sent, most recent first: to any bank if the level \<open>k\<close> is
  above the banks, to the bank \<open>b\<close> otherwise.
\<close>

definition sent_to :: "BusPacketType \<Rightarrow> nat \<Rightarrow> u32 \<Rightarrow> (u32 \<times> u32 \<times> BusPacketType) list \<Rightarrow> int list" where
  "sent_to t k b ls = map (\<lambda>(clk, _). uint clk) (filter (\<lambda>(_, b', t'). t' = t \<and> (k < 2 \<or> b' = b)) (rev ls))"

lemma packet_of_inj [simp]: "packet_of c = packet_of c' \<longleftrightarrow> c = c'"
  by (cases c; cases c') simp_all

lemma bus_address_ddr3:
  assumes "bus_address (ddr3_std d) a"
  shows "\<exists>(b :: u32) (r :: u32) (c :: u32). a = [0, 0, sint b, sint r, sint c]"
proof -
  have l: "bankLevel (std_spec (ddr3_std d)) = 2" "rowLevel (std_spec (ddr3_std d)) = 3" "std_rank (ddr3_std d) = (\<lambda>_. 0)"
    by (simp_all add: ddr3_spec_def ddr3_std_def)
  from assms obtain p av where "length av = 5" "a = convert_addr (ddr3_std d) p av"
    by (auto simp: bus_address_def l)
  then show ?thesis using convert_addr_no_groups [OF l(1,2), of av p] by (auto simp: l(3))
qed

lemma issued_sent_to:
  assumes "\<forall>(c, a, clk) \<in> set tr. bus_address (ddr3_std d) a \<and> 0 \<le> clk \<and> clk < 2 ^ 32"
    and a: "a = [0, 0, sint b, r, cl]" and k: "k \<le> 2"
  shows "issued c a k tr = sent_to (packet_of c) k b (rev (map (line_of (ddr3_spec d)) tr))"
  using assms(1)
proof (induction tr)
  case (Cons x tr)
  obtain c' a' clk where x: "x = (c', a', clk)" by (cases x)
  from Cons.prems obtain b' r' cl' :: u32 where a': "a' = [0, 0, sint b', sint r', sint cl']"
    and clk: "0 \<le> clk" "clk < 2 ^ 32"
    using bus_address_ddr3 by (fastforce simp: x)
  have u: "uint (word_of_int clk :: u32) = clk" using clk by (simp add: uint_word_of_int)
  have si: "sint b = sint b' \<longleftrightarrow> b' = b" by (metis signed_word_eqI)
  have ag: "agree a a' 0 (Suc k) \<longleftrightarrow> k < 2 \<or> b' = b"
    using k by (auto simp: agree_def a a' si less_Suc_eq numeral_2_eq_2 le_Suc_eq)
  have bl: "bankLevel (ddr3_spec d) = 2" by (simp add: ddr3_spec_def)
  from Cons show ?case
    by (simp add: x issued_def sent_to_def line_of_def ag [unfolded a'] bl a' u eq_commute [of c])
qed (simp add: issued_def sent_to_def)

lemma ddr3_nodes:
  assumes "0 < ocount (org3 d) ! 1" and "0 \<le> i" "i < ocount (org3 d) ! 2" and "k \<le> 2"
  shows "node_at [0, 0, i, r, c] k (new_DRAM (ddr3_spec d) 0 0) \<noteq> None"
proof -
  let ?sp = "ddr3_spec d"
  have l: "rowLevel ?sp = 3" "org_count ?sp = ocount (org3 d)" by (simp_all add: ddr3_spec_def)
  have bank: "node_at [0, 0, i, r, c] 1 (new_DRAM ?sp 1 0) \<noteq> None"
    using assms by (subst new_DRAM.simps) (auto simp: node_at_Suc l child_of_def new_node_def child_at_def numeral_2_eq_2)
  have rank: "node_at [0, 0, i, r, c] (Suc k) (new_DRAM ?sp 0 0) = node_at [0, 0, i, r, c] k (new_DRAM ?sp 1 0)" for k
    using assms by (subst new_DRAM.simps) (auto simp: node_at.simps(2) l child_of_def new_node_def child_at_def)
  show ?thesis using assms(4) bank by (cases k rule: nat.exhaust; cases "k - 1") (auto simp: rank numeral_2_eq_2 le_Suc_eq)
qed

lemma ddr3_trace_distance:
  assumes dev: "dev_ok (ddr3_std d) tr dv" and ls: "commandTrace dv = pre @ (clk, b, packet_of c') # post"
    and e: "e \<in> set (ddr3_timing (speed_entry3 d) k c)" "te_cmd e = c'" "\<not> sibling e" and k: "k \<le> 2" "k \<le> ddr3_scope c'"
    and banks: "0 < ocount (org3 d) ! 1" "0 \<le> sint b" "sint b < ocount (org3 d) ! 2"
    and n: "dist e \<le> length (sent_to (packet_of c) k b pre)"
  shows "sent_to (packet_of c) k b pre ! (dist e - 1) + val e \<le> uint clk"
proof -
  let ?sp = "ddr3_spec d"
  have std: "std_spec (ddr3_std d) = ?sp" by (simp add: ddr3_std_def)
  have run: "dram_run ?sp tr (channel dv)" and "map (line_of ?sp) tr = rev (commandTrace dv)"
    and addr: "\<forall>(c, a, clk) \<in> set tr. bus_address (ddr3_std d) a \<and> clk < 2 ^ 32"
    using dev by (simp_all add: dev_ok_def std)
  then have tr: "map (line_of ?sp) tr = rev post @ (clk, b, packet_of c') # rev pre" by (simp add: ls)
  from tr obtain newer x older where sp: "tr = newer @ x # older"
    and x: "line_of ?sp x = (clk, b, packet_of c')" "map (line_of ?sp) older = rev pre"
    by (auto simp: map_eq_append_conv map_eq_Cons_conv)
  obtain c1 a clk' where x': "x = (c1, a, clk')" by (cases x)
  from dram_run_split [OF run, of newer c1 a clk' older] sp x' obtain t0 where
    t0: "dram_run ?sp older t0" "check ?sp c1 a clk' t0 = ok True" "0 \<le> clk'" "a ! 0 = 0" by auto
  have pos: "\<forall>(c, a, clk) \<in> set older. bus_address (ddr3_std d) a \<and> 0 \<le> clk \<and> clk < 2 ^ 32"
    using conjunct1 [OF conjunct2 [OF conjunct2 [OF ddr3.run_inv [OF t0(1)]]]] addr sp by fastforce
  from addr sp x' have "bus_address (ddr3_std d) a" "clk' < 2 ^ 32" by auto
  then obtain b' r cl :: u32 where a: "a = [0, 0, sint b', sint r, sint cl]" using bus_address_ddr3 by blast
  have eq: "c1 = c'" "b' = b" "uint clk = clk'"
    using x(1) \<open>clk' < 2 ^ 32\<close> t0(3) by (auto simp: x' line_of_def a ddr3_spec_def uint_word_of_int)
  have "node_at a k (new_DRAM ?sp 0 0) \<noteq> None" unfolding a using ddr3_nodes banks k eq by blast
  then obtain nd where nd: "node_at a k t0 = Some nd" using node_at_shape [OF dram_run_shape [OF t0(1)], of a k] by auto
  have iss: "issued c a k older = sent_to (packet_of c) k b pre"
    using issued_sent_to [OF pos, of a b "sint r" "sint cl" k c] k(1) by (simp add: a eq x(2))
  show ?thesis
    using ddr3.timing_enforced(1) [OF t0(1) t0(2) t0(3) t0(4) nd, of e c] e k(2) n by (simp add: iss eq)
qed

end
