(* ===== verification/CommandPolicies.thy ===== *)
theory CommandPolicies
  imports CommandBus
begin

text \<open>
  The command schedulers that pick directly from the queues:
  \<^verbatim>\<open>src/generalScheduler/CommandScheduler_FCFS.h\<close> and \<^verbatim>\<open>CommandScheduler_PUSH.h\<close>,
  \<^verbatim>\<open>src/system/FRFCFS/CommandScheduler_FRFCFS.h\<close> and \<^verbatim>\<open>src/system/RTMem/CommandScheduler_RTMem.h\<close>.
  They add no members to the base class. Each interprets the locale \<open>command_scheduler\<close>.
\<close>

section \<open>Shared loops\<close>

text \<open>A command is a candidate when its queue's timer and the channel both let it go.\<close>

definition candidate :: "device_std \<Rightarrow> packet \<Rightarrow> nat \<Rightarrow> 'a cmd_sched_scheme \<Rightarrow> bool res" where
  "candidate std p index s = bind_res (isReady p index s) (\<lambda>r. if r then isIssuable std p s else ok False)"

text \<open>\<^verbatim>\<open>scheduledCommand = p; sendCommand(scheduledCommand, index, false); return scheduledCommand;\<close>\<close>

definition issue_cmd ::
  "device_std \<Rightarrow> packet \<Rightarrow> nat \<Rightarrow> 'a cmd_sched_scheme \<Rightarrow> (packet option \<times> 'a cmd_sched_scheme) res" where
  "issue_cmd std p index s =
     bind_res (sendCommand std p index False (s\<lparr>scheduledCommand := Some p\<rparr>)) (\<lambda>s'. ok (scheduledCommand s', s'))"

text \<open>\<^verbatim>\<open>if (getRequestorSize(num) > 0) checkCommand = getRequestorCommand(num)\<close>\<close>

definition lane_head :: "nat \<Rightarrow> command_queue \<Rightarrow> packet option res" where
  "lane_head num q =
     bind_res (getRequestorSize num q) (\<lambda>n.
       if n > 0 then bind_res (getRequestorCommand num q) (\<lambda>p. ok (Some p)) else ok None)"

definition lane_candidate ::
  "device_std \<Rightarrow> (packet \<Rightarrow> bool) \<Rightarrow> nat \<Rightarrow> nat \<Rightarrow> 'a cmd_sched_scheme \<Rightarrow> packet option res" where
  "lane_candidate std want index num s =
     bind_res (cq_at index s) (\<lambda>q.
     bind_res (lane_head num q) (\<lambda>h.
       case h of
         None \<Rightarrow> ok None
       | Some p \<Rightarrow>
           if want p then bind_res (candidate std p index s) (\<lambda>b. ok (if b then Some p else None)) else ok None))"

text \<open>Over the requestors of a queue: the first candidate, the last one, and the oldest.\<close>

fun first_lane :: "device_std \<Rightarrow> (packet \<Rightarrow> bool) \<Rightarrow> nat \<Rightarrow> nat list \<Rightarrow> 'a cmd_sched_scheme \<Rightarrow> packet option res" where
  "first_lane std want index [] s = ok None"
| "first_lane std want index (num # nums) s =
     bind_res (lane_candidate std want index num s) (\<lambda>c.
       case c of Some p \<Rightarrow> ok (Some p) | None \<Rightarrow> first_lane std want index nums s)"

fun last_lane ::
  "device_std \<Rightarrow> (packet \<Rightarrow> bool) \<Rightarrow> nat \<Rightarrow> nat list \<Rightarrow> packet option \<Rightarrow> 'a cmd_sched_scheme \<Rightarrow> packet option res" where
  "last_lane std want index [] temp s = ok temp"
| "last_lane std want index (num # nums) temp s =
     bind_res (lane_candidate std want index num s) (\<lambda>c.
       last_lane std want index nums (case c of Some p \<Rightarrow> Some p | None \<Rightarrow> temp) s)"

text \<open>\<open>older p t\<close>: the comparison of arrival times with which \<open>p\<close> replaces the command held, \<open>t\<close>.\<close>

fun oldest_lane ::
  "device_std \<Rightarrow> (packet \<Rightarrow> bool) \<Rightarrow> (packet \<Rightarrow> packet \<Rightarrow> bool) \<Rightarrow> nat \<Rightarrow> nat list \<Rightarrow> packet option \<Rightarrow>
     'a cmd_sched_scheme \<Rightarrow> packet option res" where
  "oldest_lane std want older index [] temp s = ok temp"
| "oldest_lane std want older index (num # nums) temp s =
     bind_res (lane_candidate std want index num s) (\<lambda>c.
       case c of
         None \<Rightarrow> oldest_lane std want older index nums temp s
       | Some p \<Rightarrow>
           (case temp of
              None \<Rightarrow> fail NullDeref
            | Some t \<Rightarrow> oldest_lane std want older index nums (if older p t then Some p else temp) s))"

section \<open>FCFS\<close>

fun fcfs_loop :: "device_std \<Rightarrow> nat list \<Rightarrow> 'a cmd_sched_scheme \<Rightarrow> (packet option \<times> 'a cmd_sched_scheme) res" where
  "fcfs_loop std [] s = ok (scheduledCommand s, s)"
| "fcfs_loop std (index # rest) s =
     bind_res (cq_at index s) (\<lambda>q.
       if cq_isPerRequestor q
       then if getRequestorIndex q > 0
            then let nums = [0..<getRequestorIndex q]
                 in bind_res (first_lane std (\<lambda>_. True) index nums s) (\<lambda>t.
                    bind_res (oldest_lane std (\<lambda>_. True) (\<lambda>p t. pArriveTime t \<ge> pArriveTime p) index nums t s) (\<lambda>t'.
                      case t' of
                        Some p \<Rightarrow> issue_cmd std p index s
                      | None \<Rightarrow> fcfs_loop std rest s))
            else fcfs_loop std rest s
       else let s0 = s\<lparr>scheduledCommand := None\<rparr>
            in if cq_getSize True q > 0
               then bind_res (read_head True index s0) (\<lambda>(p, s1).
                    bind_res (candidate std p index s1) (\<lambda>b.
                      if b then issue_cmd std p index s1 else fcfs_loop std rest s1))
               else fcfs_loop std rest s0)"

definition commandSchedule_FCFS :: "device_std \<Rightarrow> 'a cmd_sched_scheme \<Rightarrow> (packet option \<times> 'a cmd_sched_scheme) res" where
  "commandSchedule_FCFS std s = fcfs_loop std [0..<length (csQueues s)] s"

section \<open>PUSH\<close>

definition push_head ::
  "device_std \<Rightarrow> nat \<Rightarrow> 'a cmd_sched_scheme \<Rightarrow> (packet option \<times> 'a cmd_sched_scheme) res" where
  "push_head std index s =
     (let s0 = s\<lparr>scheduledCommand := None\<rparr>
      in bind_res (cq_at index s0) (\<lambda>q.
           if cq_getSize True q > 0
           then bind_res (read_head True index s0) (\<lambda>(p, s1).
                bind_res (candidate std p index s1) (\<lambda>b. ok (if b then Some p else None, s1)))
           else ok (None, s0)))"

fun push_first ::
  "device_std \<Rightarrow> nat list \<Rightarrow> (packet \<times> nat) option \<Rightarrow> 'a cmd_sched_scheme \<Rightarrow>
     ((packet \<times> nat) option \<times> 'a cmd_sched_scheme) res" where
  "push_first std [] temp s = ok (temp, s)"
| "push_first std (index # rest) temp s =
     bind_res (push_head std index s) (\<lambda>(c, s1).
       push_first std rest (case c of Some p \<Rightarrow> Some (p, index) | None \<Rightarrow> temp) s1)"

fun push_oldest ::
  "device_std \<Rightarrow> nat list \<Rightarrow> (packet \<times> nat) option \<Rightarrow> 'a cmd_sched_scheme \<Rightarrow>
     ((packet \<times> nat) option \<times> 'a cmd_sched_scheme) res" where
  "push_oldest std [] temp s = ok (temp, s)"
| "push_oldest std (index # rest) temp s =
     bind_res (push_head std index s) (\<lambda>(c, s1).
       case c of
         None \<Rightarrow> push_oldest std rest temp s1
       | Some p \<Rightarrow>
           (case temp of
              None \<Rightarrow> fail NullDeref
            | Some (t, i) \<Rightarrow>
                push_oldest std rest (if pArriveTime t \<ge> pArriveTime p then Some (p, index) else temp) s1))"

definition commandSchedule_PUSH :: "device_std \<Rightarrow> 'a cmd_sched_scheme \<Rightarrow> (packet option \<times> 'a cmd_sched_scheme) res" where
  "commandSchedule_PUSH std s =
     (let idxs = [0..<length (csQueues s)]
      in bind_res (push_first std idxs None s) (\<lambda>(t, s1).
         bind_res (push_oldest std idxs t s1) (\<lambda>(t', s2).
           case t' of
             Some (p, i) \<Rightarrow> issue_cmd std p i s2
           | None \<Rightarrow> ok (scheduledCommand s2, s2))))"

section \<open>FR-FCFS\<close>

definition is_access :: "packet \<Rightarrow> bool" where
  "is_access p \<longleftrightarrow> busPacketType p = RD \<or> busPacketType p = WR"

definition is_row_cmd :: "packet \<Rightarrow> bool" where
  "is_row_cmd p \<longleftrightarrow> busPacketType p = ACT \<or> busPacketType p = PRE"

definition arrived_before :: "packet \<Rightarrow> packet \<Rightarrow> bool" where
  "arrived_before p t \<longleftrightarrow> pArriveTime p < pArriveTime t"

text \<open>When the head of a shared queue replaces the command held so far.\<close>

definition fr_replaces :: "packet \<Rightarrow> packet \<Rightarrow> bool" where
  "fr_replaces p t =
     (if is_access p then arrived_before p t
      else if busPacketType p = ACT
      then if busPacketType t = ACT then arrived_before p t
           else if busPacketType t = PRE then True else False
      else if busPacketType p = PRE
      then if busPacketType t = PRE then arrived_before p t else False
      else False)"

fun fr_loop ::
  "device_std \<Rightarrow> nat \<Rightarrow> nat list \<Rightarrow> (packet \<times> nat) option \<Rightarrow> 'a cmd_sched_scheme \<Rightarrow>
     (packet option \<times> 'a cmd_sched_scheme) res" where
  "fr_loop std sz [] temp s = ok (scheduledCommand s, s)"
| "fr_loop std sz (index # rest) temp s =
     bind_res (cq_at index s) (\<lambda>q.
       if cq_isPerRequestor q
       then if getRequestorIndex q > 0
            then let nums = [0..<getRequestorIndex q]
                 in bind_res (first_lane std is_access index nums s) (\<lambda>t1.
                      case t1 of
                        Some p1 \<Rightarrow>
                          bind_res (oldest_lane std is_access arrived_before index nums (Some p1) s) (\<lambda>t2.
                            case t2 of Some p \<Rightarrow> issue_cmd std p index s | None \<Rightarrow> fr_loop std sz rest temp s)
                      | None \<Rightarrow>
                          bind_res (last_lane std is_row_cmd index nums None s) (\<lambda>a1.
                          bind_res (oldest_lane std is_row_cmd arrived_before index nums a1 s) (\<lambda>a2.
                            case a2 of Some p \<Rightarrow> issue_cmd std p index s | None \<Rightarrow> fr_loop std sz rest temp s)))
            else fr_loop std sz rest temp s
       else bind_res
              (if cq_getSize True q > 0
               then bind_res (read_head True index s) (\<lambda>(p, s1).
                    bind_res (candidate std p index s1) (\<lambda>b.
                      ok (if b then (case temp of
                                       None \<Rightarrow> Some (p, index)
                                     | Some (t, i) \<Rightarrow> if fr_replaces p t then Some (p, index) else temp)
                          else temp, s1)))
               else ok (temp, s))
              (\<lambda>(temp1, s1).
                 if index = sz - 1
                 then (case temp1 of
                         Some (p, i) \<Rightarrow> issue_cmd std p i s1
                       | None \<Rightarrow> fr_loop std sz rest temp1 s1)
                 else fr_loop std sz rest temp1 s1))"

definition commandSchedule_FRFCFS :: "device_std \<Rightarrow> 'a cmd_sched_scheme \<Rightarrow> (packet option \<times> 'a cmd_sched_scheme) res" where
  "commandSchedule_FRFCFS std s =
     (let n = length (csQueues s) in fr_loop std n [0..<n] None (s\<lparr>scheduledCommand := None\<rparr>))"

section \<open>RTMem\<close>

definition keep_older :: "packet option \<Rightarrow> packet \<Rightarrow> packet option" where
  "keep_older temp p = (case temp of None \<Rightarrow> Some p | Some t \<Rightarrow> if arrived_before p t then Some p else temp)"

definition rt_head :: "nat \<Rightarrow> 'a cmd_sched_scheme \<Rightarrow> (packet option \<times> 'a cmd_sched_scheme) res" where
  "rt_head index s =
     bind_res (cq_at index s) (\<lambda>q.
       if cq_getSize True q > 0 then bind_res (read_head True index s) (\<lambda>(p, s1). ok (Some p, s1))
       else if cq_getSize False q > 0 then bind_res (read_head False index s) (\<lambda>(p, s1). ok (Some p, s1))
       else ok (None, s))"

fun rt_loop ::
  "nat list \<Rightarrow> packet option \<Rightarrow> packet option \<Rightarrow> 'a cmd_sched_scheme \<Rightarrow>
     (packet option \<times> packet option \<times> 'a cmd_sched_scheme) res" where
  "rt_loop [] tempCAS tempACT s = ok (tempCAS, tempACT, s)"
| "rt_loop (index # rest) tempCAS tempACT s =
     bind_res (rt_head index s) (\<lambda>(h, s1).
       case h of
         None \<Rightarrow> rt_loop rest tempCAS tempACT s1
       | Some p \<Rightarrow>
           bind_res (isReady p (unat (pBank p)) s1) (\<lambda>r.
             if r
             then if busPacketType p < ACT then rt_loop rest (keep_older tempCAS p) tempACT s1
                  else rt_loop rest tempCAS (keep_older tempACT p) s1
             else rt_loop rest tempCAS tempACT s1))"

definition rt_issuable :: "device_std \<Rightarrow> packet option \<Rightarrow> 'a cmd_sched_scheme \<Rightarrow> packet option res" where
  "rt_issuable std temp s =
     (case temp of
        None \<Rightarrow> ok None
      | Some p \<Rightarrow> bind_res (isIssuable std p s) (\<lambda>b. ok (if b then Some p else None)))"

definition commandSchedule_RTMem :: "device_std \<Rightarrow> 'a cmd_sched_scheme \<Rightarrow> (packet option \<times> 'a cmd_sched_scheme) res" where
  "commandSchedule_RTMem std s =
     bind_res (rt_loop [0..<length (csQueues s)] None None (s\<lparr>scheduledCommand := None\<rparr>)) (\<lambda>(tempCAS, tempACT, s1).
     bind_res (rt_issuable std tempCAS s1) (\<lambda>c.
     bind_res (case c of Some p \<Rightarrow> ok (Some p) | None \<Rightarrow> rt_issuable std tempACT s1) (\<lambda>c'.
       case c' of
         Some p \<Rightarrow> issue_cmd std p (unat (pBank p)) s1
       | None \<Rightarrow> ok (None, s1))))"

section \<open>They put only checked commands on the bus\<close>

lemma isIssuable_scheduled [simp]: "isIssuable std p (s\<lparr>scheduledCommand := x\<rparr>) = isIssuable std p s"
  by (simp add: isIssuable_def)

lemma issue_cmd_step:
  assumes "issue_cmd std p i s = ok (r, s')" and "isIssuable std p s = ok True" and "p \<in> cs_cmds s \<union> H"
  shows "bus_step std H s s'"
proof -
  from assms(1) have "sendCommand std p i False (s\<lparr>scheduledCommand := Some p\<rparr>) = ok s'"
    by (auto simp: issue_cmd_def res_simps)
  then have "sends std p (s\<lparr>scheduledCommand := Some p\<rparr>) s'"
    by (rule sendCommand_sends) (use assms(2) in simp_all)
  then have "sends std p s s'" by (simp add: sends_def)
  with assms(3) show ?thesis by (auto simp: bus_step_def)
qed

text \<open>What the selection loops return: a command of some queue that is issuable.\<close>

definition may_go :: "device_std \<Rightarrow> 'a cmd_sched_scheme \<Rightarrow> packet \<Rightarrow> bool" where
  "may_go std s p \<longleftrightarrow> p \<in> cs_cmds s \<and> isIssuable std p s = ok True"

lemma candidate_True: "candidate std p i s = ok True \<Longrightarrow> isIssuable std p s = ok True"
  by (auto simp: candidate_def res_simps split: if_splits)

lemma lane_candidate_go: "lane_candidate std want i num s = ok (Some p) \<Longrightarrow> may_go std s p \<and> want p"
  by (auto simp: lane_candidate_def lane_head_def cq_at_def may_go_def res_simps split: if_splits option.splits
      dest!: candidate_True getRequestorCommand_cmds cs_cmds_nth)

definition temp_go :: "device_std \<Rightarrow> 'a cmd_sched_scheme \<Rightarrow> packet option \<Rightarrow> bool" where
  "temp_go std s t \<longleftrightarrow> (\<forall>p. t = Some p \<longrightarrow> may_go std s p)"

lemma temp_go_simps [simp]: "temp_go std s None" "temp_go std s (Some p) \<longleftrightarrow> may_go std s p"
  by (simp_all add: temp_go_def)

lemma first_lane_go: "res_all (temp_go std s) (first_lane std want i nums s)"
proof (induction nums)
  case (Cons num nums)
  show ?case unfolding first_lane.simps
    by (intro res_wp Cons.IH) (simp add: lane_candidate_go)
qed simp

lemma last_lane_go: "temp_go std s temp \<Longrightarrow> res_all (temp_go std s) (last_lane std want i nums temp s)"
proof (induction nums arbitrary: temp)
  case (Cons num nums)
  show ?case unfolding last_lane.simps
    by (intro res_wp Cons.IH) (use Cons.prems in \<open>auto dest: lane_candidate_go split: option.split\<close>)
qed simp

lemma oldest_lane_go: "temp_go std s temp \<Longrightarrow> res_all (temp_go std s) (oldest_lane std want older i nums temp s)"
proof (induction nums arbitrary: temp)
  case (Cons num nums)
  show ?case unfolding oldest_lane.simps
    by (intro res_wp Cons.IH) (use Cons.prems in \<open>auto dest: lane_candidate_go\<close>)
qed simp

text \<open>Composition: selection loops are quiet, issuing a command that may go is a bus step.\<close>

definition steps_to :: "device_std \<Rightarrow> packet set \<Rightarrow> 'a cmd_sched_scheme \<Rightarrow> packet option \<times> 'a cmd_sched_scheme \<Rightarrow> bool" where
  "steps_to std H s = (\<lambda>(r, s'). bus_step std H s s')"

lemma steps_to_quiet [simp]: "quiet s t \<Longrightarrow> steps_to std H s (r, t)"
  by (simp add: steps_to_def bus_step_def)

lemma steps_to_trans: "quiet s t \<Longrightarrow> res_all (steps_to std H t) m \<Longrightarrow> res_all (steps_to std H s) m"
  by (auto simp: res_all_def steps_to_def intro: quiet_bus_step)

lemma issue_cmd_go:
  assumes "quiet s t" and "isIssuable std p t = ok True" and "p \<in> cs_cmds s \<union> H"
  shows "res_all (steps_to std H s) (issue_cmd std p i t)"
proof (rule res_allI)
  fix x assume x: "issue_cmd std p i t = ok x"
  obtain r u where xu: "x = (r, u)" by (cases x)
  have "bus_step std {p} t u" by (rule issue_cmd_step) (use x xu assms(2) in auto)
  then have "bus_step std {p} s u" by (rule quiet_bus_step [OF assms(1)]) simp
  then show "steps_to std H s x" using assms(3) by (auto simp: steps_to_def bus_step_def xu)
qed

lemma issue_cmd_may_go: "quiet s t \<Longrightarrow> may_go std t p \<Longrightarrow> res_all (steps_to std H s) (issue_cmd std p i t)"
  by (rule issue_cmd_go) (auto simp: may_go_def quiet_def)

lemma may_go_quiet: "may_go std t p \<Longrightarrow> quiet s t \<Longrightarrow> may_go std s p"
  by (auto simp: may_go_def quiet_isIssuable quiet_def dest: subsetD)

text \<open>Reading a head and testing it.\<close>

lemma read_head_go:
  assumes "read_head c i s0 = ok (p, t)" and "candidate std p j t = ok True" and "quiet s s0"
  shows "res_all (steps_to std H s) (issue_cmd std p i t)"
proof (rule issue_cmd_go)
  show "quiet s t" using read_head_quiet [OF assms(1)] assms(3) quiet_trans by blast
  show "isIssuable std p t = ok True" by (rule candidate_True [OF assms(2)])
  show "p \<in> cs_cmds s \<union> H" using read_head_quiet [OF assms(1)] assms(3) by (auto simp: quiet_def)
qed

lemma may_go_scheduled [simp]: "may_go std (s\<lparr>scheduledCommand := x\<rparr>) p = may_go std s p"
  by (simp add: may_go_def)

lemma read_head_may_go:
  "read_head c i s = ok (p, t) \<Longrightarrow> candidate std p j t = ok True \<Longrightarrow> may_go std s p"
  using read_head_quiet [of c i s p t] candidate_True [of std p j t] quiet_isIssuable [of s t std p] by (simp add: may_go_def)

lemma read_head_still: "read_head c i s0 = ok (p, t) \<Longrightarrow> quiet s s0 \<Longrightarrow> quiet s t"
  using read_head_quiet quiet_trans by blast

lemma lanes_go:
  "first_lane std want i nums s = ok t \<Longrightarrow> oldest_lane std want older i nums t s = ok (Some p) \<Longrightarrow> may_go std s p"
  "last_lane std want i nums None s = ok t \<Longrightarrow> oldest_lane std want older i nums t s = ok (Some p) \<Longrightarrow> may_go std s p"
  using res_allD [OF oldest_lane_go [of std s t]] res_allD [OF first_lane_go] res_allD [OF last_lane_go [of std s None]]
  by fastforce+

lemma fcfs_loop_step: "res_all (steps_to std H s) (fcfs_loop std idxs s)"
proof (induction idxs arbitrary: s)
  case (Cons i rest)
  have IH: "res_all (steps_to std H s) (fcfs_loop std rest t)" if "quiet s t" for t
    by (rule steps_to_trans [OF that Cons.IH])
  show ?case unfolding fcfs_loop.simps
    by (intro res_wp IH)
      (auto intro: issue_cmd_may_go read_head_go dest: read_head_still [where s = s] lanes_go)
qed simp

lemma push_head_go:
  assumes "push_head std i s = ok (c, t)"
  shows "quiet s t \<and> temp_go std s c"
  using assms
  by (auto simp: push_head_def Let_def res_simps temp_go_def split: if_splits
      intro: read_head_still dest: read_head_may_go)

text \<open>The held command stays issuable while the loops only read queue heads.\<close>

definition pair_go :: "device_std \<Rightarrow> 'a cmd_sched_scheme \<Rightarrow> (packet \<times> nat) option \<times> 'a cmd_sched_scheme \<Rightarrow> bool" where
  "pair_go std s = (\<lambda>(t, s'). quiet s s' \<and> temp_go std s (map_option fst t))"

lemma push_first_go:
  "quiet s t \<Longrightarrow> temp_go std s (map_option fst temp) \<Longrightarrow> res_all (pair_go std s) (push_first std idxs temp t)"
proof (induction idxs arbitrary: temp t)
  case (Cons i rest)
  show ?case unfolding push_first.simps
  proof (intro res_wp Cons.IH)
    fix x c u assume h: "push_head std i t = ok x" "x = (c, u)"
    then have q: "quiet t u" "temp_go std t c" using push_head_go [of std i t c u] by simp_all
    then show "quiet s u" using quiet_trans Cons.prems(1) by blast
    show "temp_go std s (map_option fst (case c of Some p \<Rightarrow> Some (p, i) | None \<Rightarrow> temp))"
      using q(2) Cons.prems may_go_quiet by (auto simp: temp_go_def split: option.splits)
  qed
qed (simp add: pair_go_def)

lemma push_oldest_go:
  "quiet s t \<Longrightarrow> temp_go std s (map_option fst temp) \<Longrightarrow> res_all (pair_go std s) (push_oldest std idxs temp t)"
proof (induction idxs arbitrary: temp t)
  case (Cons i rest)
  have h: "quiet s u \<and> temp_go std s c" if "push_head std i t = ok (c, u)" for c u
    using push_head_go [OF that] Cons.prems(1) quiet_trans may_go_quiet by (fastforce simp: temp_go_def)
  show ?case unfolding push_oldest.simps
    by (intro res_wp Cons.IH) (use h Cons.prems(2) in \<open>auto dest: h\<close>)
qed (simp add: pair_go_def)

lemma commandSchedule_PUSH_step: "res_all (steps_to std H s) (commandSchedule_PUSH std s)"
  unfolding commandSchedule_PUSH_def
proof (intro res_wp)
  fix idxs x t s1 y t' s2
  assume *: "push_first std idxs None s = ok x" "x = (t, s1)" "push_oldest std idxs t s1 = ok y" "y = (t', s2)"
  have 1: "pair_go std s (t, s1)" using res_allD [OF push_first_go *(1), of s] *(2) by simp
  then have 2: "pair_go std s (t', s2)"
    using res_allD [OF push_oldest_go *(3), of s] *(4) by (simp add: pair_go_def)
  show "steps_to std H s (scheduledCommand s2, s2)" using 2 by (simp add: pair_go_def)
  fix z p i assume "t' = Some z" "z = (p, i)"
  with 2 have "quiet s s2" "may_go std s p" by (simp_all add: pair_go_def)
  then show "res_all (steps_to std H s) (issue_cmd std p i s2)"
    by (intro issue_cmd_go) (auto simp: may_go_def quiet_isIssuable)
qed

lemma fr_loop_step:
  "quiet s t \<Longrightarrow> temp_go std s (map_option fst temp) \<Longrightarrow> res_all (steps_to std H s) (fr_loop std n idxs temp t)"
proof (induction idxs arbitrary: temp t)
  case (Cons i rest)
  note q = Cons.prems(1) and g = Cons.prems(2)
  have issue: "res_all (steps_to std H s) (issue_cmd std p j u)" if "quiet s u" "temp_go std s (Some p)" for p j u
    using that by (intro issue_cmd_go) (auto simp: may_go_def quiet_isIssuable)
  have head: "res_all (pair_go std s)
      (if cq_getSize True x > 0
       then bind_res (read_head True i t) (\<lambda>(p, s1).
            bind_res (candidate std p i s1) (\<lambda>b.
              ok (if b then (case temp of None \<Rightarrow> Some (p, i)
                             | Some (t, j) \<Rightarrow> if fr_replaces p t then Some (p, i) else temp)
                  else temp, s1)))
       else ok (temp, t))" for x
  proof (intro res_wp)
    fix y p s1 b assume h: "read_head True i t = ok y" "y = (p, s1)" "candidate std p i s1 = ok b"
    then have "quiet s s1" "b \<Longrightarrow> may_go std s p"
      using read_head_still [of True i t p s1 s] read_head_may_go [of True i t p s1 std i] may_go_quiet [of std t p s] q by auto
    then show "pair_go std s (if b then (case temp of None \<Rightarrow> Some (p, i)
                             | Some (t, j) \<Rightarrow> if fr_replaces p t then Some (p, i) else temp) else temp, s1)"
      using g by (auto simp: pair_go_def split: option.split)
  qed (use q g in \<open>simp add: pair_go_def\<close>)
  show ?case unfolding fr_loop.simps
  proof (intro res_all_bind2 [OF head] res_all_bind res_all_if)
    fix x assume x: "cq_at i t = ok x" "cq_isPerRequestor x" "0 < getRequestorIndex x"
    show "res_all (steps_to std H s)
        (let nums = [0..<getRequestorIndex x]
         in bind_res (first_lane std is_access i nums t) (\<lambda>t1.
              case t1 of
                None \<Rightarrow> bind_res (last_lane std is_row_cmd i nums None t) (\<lambda>a1.
                  bind_res (oldest_lane std is_row_cmd arrived_before i nums a1 t) (\<lambda>a2.
                    case a2 of None \<Rightarrow> fr_loop std n rest temp t | Some p \<Rightarrow> issue_cmd std p i t))
              | Some p1 \<Rightarrow> bind_res (oldest_lane std is_access arrived_before i nums (Some p1) t) (\<lambda>t2.
                    case t2 of None \<Rightarrow> fr_loop std n rest temp t | Some p \<Rightarrow> issue_cmd std p i t)))"
      by (intro res_wp Cons.IH q g) (auto intro!: issue_cmd_may_go q dest: lanes_go)
  next
    fix x y assume "pair_go std s y"
    then show "res_all (steps_to std H s) (case y of (temp1, s1) \<Rightarrow>
          if i = n - 1
          then case temp1 of None \<Rightarrow> fr_loop std n rest temp1 s1 | Some (p, j) \<Rightarrow> issue_cmd std p j s1
          else fr_loop std n rest temp1 s1)"
      by (intro res_wp Cons.IH issue) (auto simp: pair_go_def)
  qed (rule Cons.IH [OF q g])
qed simp

lemma commandSchedule_FRFCFS_step: "res_all (steps_to std H s) (commandSchedule_FRFCFS std s)"
  unfolding commandSchedule_FRFCFS_def by (intro res_wp fr_loop_step) simp_all

lemma rt_head_quiet: "rt_head i s = ok (h, t) \<Longrightarrow> quiet s t \<and> (\<forall>p. h = Some p \<longrightarrow> p \<in> cs_cmds s)"
  by (auto simp: rt_head_def res_simps split: if_splits dest: read_head_quiet)

definition from_queue :: "'a cmd_sched_scheme \<Rightarrow> packet option \<Rightarrow> bool" where
  "from_queue s h \<longleftrightarrow> (\<forall>p. h = Some p \<longrightarrow> p \<in> cs_cmds s)"

lemma keep_older_from: "from_queue s h \<Longrightarrow> p \<in> cs_cmds s \<Longrightarrow> from_queue s (keep_older h p)"
  by (auto simp: from_queue_def keep_older_def split: option.splits if_splits)

lemma rt_loop_quiet:
  "quiet s t \<Longrightarrow> from_queue s a \<Longrightarrow> from_queue s b \<Longrightarrow>
     res_all (\<lambda>(a', b', u). quiet s u \<and> from_queue s a' \<and> from_queue s b') (rt_loop idxs a b t)"
proof (induction idxs arbitrary: a b t)
  case (Cons i rest)
  have h: "quiet s u" "h = Some p \<Longrightarrow> p \<in> cs_cmds s" if "rt_head i t = ok (h, u)" for h u p
    using rt_head_quiet [OF that] Cons.prems(1) quiet_trans by (auto simp: quiet_def)
  show ?case unfolding rt_loop.simps
    by (intro res_wp Cons.IH keep_older_from) (use Cons.prems(2,3) in \<open>auto dest: h\<close>)
qed simp

lemma commandSchedule_RTMem_step: "res_all (steps_to std H s) (commandSchedule_RTMem std s)"
  unfolding commandSchedule_RTMem_def
proof (rule res_all_bind2 [OF rt_loop_quiet [of s]])
  fix x assume "case x of (a', b', u) \<Rightarrow> quiet s u \<and> from_queue s a' \<and> from_queue s b'"
  then obtain a b u where x: "x = (a, b, u)" "quiet s u" "from_queue s a" "from_queue s b" by auto
  have iss: "c = None \<or> (\<exists>p. c = Some p \<and> h = Some p \<and> isIssuable std p u = ok True)"
    if "rt_issuable std h u = ok c" for h c
    using that by (auto simp: rt_issuable_def res_simps split: option.splits if_splits)
  show "res_all (steps_to std H s) (case x of (tempCAS, tempACT, s1) \<Rightarrow>
     bind_res (rt_issuable std tempCAS s1) (\<lambda>c.
     bind_res (case c of Some p \<Rightarrow> ok (Some p) | None \<Rightarrow> rt_issuable std tempACT s1) (\<lambda>c'.
       case c' of
         Some p \<Rightarrow> issue_cmd std p (unat (pBank p)) s1
       | None \<Rightarrow> ok (None, s1))))"
    unfolding x(1) prod.case
  proof (intro res_wp)
    fix c c' p assume "rt_issuable std a u = ok c" "(case c of Some p \<Rightarrow> ok (Some p) | None \<Rightarrow> rt_issuable std b u) = ok c'" "c' = Some p"
    then have "isIssuable std p u = ok True \<and> p \<in> cs_cmds s"
      using iss [of a c] iss [of b c'] x(3,4) by (auto simp: from_queue_def split: option.splits)
    then show "res_all (steps_to std H s) (issue_cmd std p (unat (pBank p)) u)"
      by (intro issue_cmd_go x(2)) auto
  qed (simp add: x(2))
qed (simp_all add: from_queue_def)

section \<open>Interpretations\<close>

lemma steps_to_bus: "res_all (steps_to std H s) m \<Longrightarrow> m = ok (r, s') \<Longrightarrow> bus_step std H s s'"
  by (auto simp: res_all_def steps_to_def)

interpretation fcfs: command_scheduler commandSchedule_FCFS "\<lambda>_. True" "\<lambda>_. {}"
  by unfold_locales (auto simp: commandSchedule_FCFS_def intro: steps_to_bus [OF fcfs_loop_step])

interpretation push: command_scheduler commandSchedule_PUSH "\<lambda>_. True" "\<lambda>_. {}"
  by unfold_locales (auto intro: steps_to_bus [OF commandSchedule_PUSH_step])

interpretation frfcfs: command_scheduler commandSchedule_FRFCFS "\<lambda>_. True" "\<lambda>_. {}"
  by unfold_locales (auto intro: steps_to_bus [OF commandSchedule_FRFCFS_step])

interpretation rtmem: command_scheduler commandSchedule_RTMem "\<lambda>_. True" "\<lambda>_. {}"
  by unfold_locales (auto intro: steps_to_bus [OF commandSchedule_RTMem_step])

end
