(* ===== verification/FifoPolicies.thy ===== *)
theory FifoPolicies
  imports CommandPolicies
begin

text \<open>
  The command schedulers that hold ready commands in buffers of their own:
  \<^verbatim>\<open>src/system/DCmc/CommandScheduler_DCmc.h\<close>, \<^verbatim>\<open>src/system/ORP/CommandScheduler_ORP.h\<close> and
  \<^verbatim>\<open>src/system/RankReOrder/CommandScheduler_RankReOrder.h\<close>. The record holds the members of the
  three subclasses; each uses its own. A command in a buffer is still in its queue, as the
  sources share the pointer, and leaves the queue when it is sent.
\<close>

record policy_sched = cmd_sched +
  cmdFIFO :: "(packet \<times> nat) list"
  srtFIFO :: "(packet \<times> nat) list"
  queuePending :: "bool list"
  pendingBy :: "u32 \<rightharpoonup> bool"
  bundlingType :: BusPacketType
  rankIndex :: nat
  rank_num :: nat
  CASBuffer :: "packet list list"
  CASQueueIndex :: "nat list list"
  ACT_PREBuffer :: "packet list"
  CMDQueueIndex :: "nat list"
  servedFlag :: "bool list"

definition new_CommandScheduler_DCmc :: "'a policy_sched_scheme \<Rightarrow> 'a policy_sched_scheme" where
  "new_CommandScheduler_DCmc s =
     s\<lparr>cmdFIFO := [], srtFIFO := [], queuePending := replicate (length (csQueues s)) False\<rparr>"

definition new_CommandScheduler_ORP :: "'a policy_sched_scheme \<Rightarrow> 'a policy_sched_scheme" where
  "new_CommandScheduler_ORP s = s\<lparr>cmdFIFO := [], srtFIFO := [], pendingBy := Map.empty\<rparr>"

definition new_CommandScheduler_RankReOrder :: "'a policy_sched_scheme \<Rightarrow> 'a policy_sched_scheme" where
  "new_CommandScheduler_RankReOrder s =
     s\<lparr>rankIndex := 0, rank_num := 2, bundlingType := RD,
       queuePending := replicate (length (csQueues s)) False,
       servedFlag := replicate (length (csQueues s)) False,
       CASBuffer := [[], []], CASQueueIndex := [[], []], ACT_PREBuffer := [], CMDQueueIndex := []\<rparr>"

text \<open>\<^verbatim>\<open>v[i] = x\<close>, undefined outside the bounds.\<close>

definition update_res :: "'b list \<Rightarrow> nat \<Rightarrow> 'b \<Rightarrow> 'b list res" where
  "update_res xs i x = (if i < length xs then ok (xs[i := x]) else fail OutOfRange)"

text \<open>
  The loops over a FIFO: the position of the first issuable entry, skipping accesses behind an
  access that could not go when \<open>block\<close> is set, and whether one could not go.
\<close>

fun fifo_scan ::
  "device_std \<Rightarrow> bool \<Rightarrow> bool \<Rightarrow> nat \<Rightarrow> (packet \<times> nat) list \<Rightarrow> 'a cmd_sched_scheme \<Rightarrow>
     ((nat \<times> packet \<times> nat) option \<times> bool) res" where
  "fifo_scan std block casBlocking index [] s = ok (None, casBlocking)"
| "fifo_scan std block casBlocking index ((p, qi) # rest) s =
     (if busPacketType p < ACT \<and> casBlocking then fifo_scan std block casBlocking (Suc index) rest s
      else bind_res (isIssuable std p s) (\<lambda>b.
             if b then ok (Some (index, p, qi), casBlocking)
             else fifo_scan std block (casBlocking \<or> block \<and> busPacketType p < ACT) (Suc index) rest s))"

section \<open>DCmc\<close>

definition critical_at :: "packet \<Rightarrow> 'a cmd_sched_scheme \<Rightarrow> bool res" where
  "critical_at p s =
     (case csCritical s (ucast (pRequestorID p)) of None \<Rightarrow> fail OutOfRange | Some b \<Rightarrow> ok b)"

definition dcmc_collect :: "nat \<Rightarrow> 'a policy_sched_scheme \<Rightarrow> 'a policy_sched_scheme res" where
  "dcmc_collect index s =
     bind_res (nth_res (queuePending s) index) (\<lambda>pending.
       if \<not> pending
       then bind_res (rt_head index s) (\<lambda>(h, s1).
              case h of
                None \<Rightarrow> ok s1
              | Some p \<Rightarrow>
                  bind_res (isReady p index s1) (\<lambda>r.
                    if r
                    then bind_res (critical_at p s1) (\<lambda>c.
                           let s2 = (if c then s1\<lparr>cmdFIFO := cmdFIFO s1 @ [(p, index)]\<rparr>
                                     else s1\<lparr>srtFIFO := srtFIFO s1 @ [(p, index)]\<rparr>)
                           in ok (s2\<lparr>queuePending := (queuePending s2)[index := True]\<rparr>))
                    else ok s1))
       else ok s)"

text \<open>The second half of \<^verbatim>\<open>commandSchedule\<close>: pick from the FIFOs, which hold critical and other commands.\<close>

definition dcmc_pick ::
  "device_std \<Rightarrow> 'a policy_sched_scheme \<Rightarrow> (packet option \<times> 'a policy_sched_scheme) res" where
  "dcmc_pick std s =
     (if cmdFIFO s \<noteq> []
      then bind_res (fifo_scan std True False 0 (cmdFIFO s) s) (\<lambda>(c, _).
             case c of
               None \<Rightarrow> ok (None, s)
             | Some (pos, p, qi) \<Rightarrow>
                 bind_res (issue_cmd std p qi s) (\<lambda>(r, s').
                 bind_res (update_res (queuePending s') qi False) (\<lambda>pend.
                   ok (r, s'\<lparr>queuePending := pend, cmdFIFO := erase_at pos (cmdFIFO s')\<rparr>))))
      else bind_res (fifo_scan std False False 0 (srtFIFO s) s) (\<lambda>(c, _).
             case c of
               None \<Rightarrow> ok (None, s)
             | Some (pos, p, qi) \<Rightarrow>
                 bind_res (issue_cmd std p qi s) (\<lambda>(r, s').
                 bind_res (update_res (queuePending s') qi False) (\<lambda>pend.
                   ok (r, s'\<lparr>queuePending := pend, srtFIFO := erase_at pos (srtFIFO s')\<rparr>)))))"

definition commandSchedule_DCmc ::
  "device_std \<Rightarrow> 'a policy_sched_scheme \<Rightarrow> (packet option \<times> 'a policy_sched_scheme) res" where
  "commandSchedule_DCmc std s =
     bind_res (fold_res dcmc_collect [0..<length (csQueues s)] s) (\<lambda>s1.
       dcmc_pick std (s1\<lparr>scheduledCommand := None\<rparr>))"

section \<open>ORP\<close>

definition orp_lane :: "nat \<Rightarrow> nat \<Rightarrow> 'a policy_sched_scheme \<Rightarrow> 'a policy_sched_scheme res" where
  "orp_lane index num s =
     bind_res (cq_at index s) (\<lambda>q.
     bind_res (lane_head num q) (\<lambda>h.
       case h of
         None \<Rightarrow> ok s
       | Some p \<Rightarrow>
           let k = (ucast (pRequestorID p) :: u32);
               s1 = (if pendingBy s k = None then s\<lparr>pendingBy := (pendingBy s)(k \<mapsto> False)\<rparr> else s)
           in if map_get False (pendingBy s1) k = False
              then bind_res (isReady p index s1) (\<lambda>r.
                     if r
                     then bind_res (critical_at p s1) (\<lambda>_.
                            ok (s1\<lparr>cmdFIFO := cmdFIFO s1 @ [(p, index)],
                                   pendingBy := (pendingBy s1)(k \<mapsto> True)\<rparr>))
                     else ok s1)
              else ok s1))"

definition orp_shared :: "nat \<Rightarrow> 'a policy_sched_scheme \<Rightarrow> 'a policy_sched_scheme res" where
  "orp_shared index s =
     bind_res (cq_at index s) (\<lambda>q.
     bind_res
       (if cq_getSize True q > 0 \<and> map_get False (pendingBy s) (of_nat index) = False
        then bind_res (read_head True index s) (\<lambda>(p, s1). ok (Some p, s1))
        else if cq_getSize False q > 0
        then bind_res (read_head False index s) (\<lambda>(p, s1). ok (Some p, s1))
        else ok (None, s))
       (\<lambda>(h, s1).
          case h of
            None \<Rightarrow> ok s1
          | Some p \<Rightarrow>
              bind_res (isReady p index s1) (\<lambda>r.
                if r then ok (s1\<lparr>cmdFIFO := cmdFIFO s1 @ [(p, index)],
                                pendingBy := (pendingBy s1)(of_nat index \<mapsto> True)\<rparr>)
                else ok s1)))"

definition orp_collect :: "nat \<Rightarrow> 'a policy_sched_scheme \<Rightarrow> 'a policy_sched_scheme res" where
  "orp_collect index s =
     bind_res (cq_at index s) (\<lambda>q.
       if cq_isPerRequestor q
       then (if getRequestorIndex q > 0 then fold_res (orp_lane index) [0..<getRequestorIndex q] s else ok s)
       else orp_shared index s)"

definition orp_pick ::
  "device_std \<Rightarrow> 'a policy_sched_scheme \<Rightarrow> (packet option \<times> 'a policy_sched_scheme) res" where
  "orp_pick std s =
     bind_res (fifo_scan std True False 0 (cmdFIFO s) s) (\<lambda>(c, casBlocking).
       case c of
         Some (pos, p, qi) \<Rightarrow>
           bind_res (issue_cmd std p qi s) (\<lambda>(r, s').
           bind_res (cq_at qi s') (\<lambda>q.
             let k = (if cq_isPerRequestor q then ucast (pRequestorID p) else of_nat qi) :: u32
             in ok (r, s'\<lparr>pendingBy := (pendingBy s')(k \<mapsto> False), cmdFIFO := erase_at pos (cmdFIFO s')\<rparr>)))
       | None \<Rightarrow>
           if srtFIFO s \<noteq> [] \<and> \<not> casBlocking
           then bind_res (fifo_scan std False False 0 (srtFIFO s) s) (\<lambda>(c, _).
                  case c of
                    None \<Rightarrow> ok (None, s)
                  | Some (pos, p, qi) \<Rightarrow>
                      bind_res (issue_cmd std p qi s) (\<lambda>(r, s').
                        ok (r, s'\<lparr>pendingBy := (pendingBy s')(ucast (pRequestorID p) \<mapsto> False),
                                  srtFIFO := erase_at pos (srtFIFO s')\<rparr>)))
           else ok (None, s))"

definition commandSchedule_ORP ::
  "device_std \<Rightarrow> 'a policy_sched_scheme \<Rightarrow> (packet option \<times> 'a policy_sched_scheme) res" where
  "commandSchedule_ORP std s =
     bind_res (fold_res orp_collect [0..<length (csQueues s)] s) (\<lambda>s1.
       orp_pick std (s1\<lparr>scheduledCommand := None\<rparr>))"

section \<open>RankReOrder\<close>

definition new_round :: "'a policy_sched_scheme \<Rightarrow> bool" where
  "new_round s \<longleftrightarrow> (\<forall>b \<in> set (CASBuffer s). b = [])"

definition new_type :: "'a policy_sched_scheme \<Rightarrow> bool" where
  "new_type s \<longleftrightarrow> (\<forall>b \<in> set (CASBuffer s). \<forall>p \<in> set b. busPacketType p \<noteq> bundlingType s)"

definition switch_round :: "'a policy_sched_scheme \<Rightarrow> 'a policy_sched_scheme" where
  "switch_round s =
     (let s1 = (if new_round s then s\<lparr>servedFlag := replicate (length (servedFlag s)) False\<rparr> else s)
      in if \<not> new_round s \<and> new_type s
         then s1\<lparr>bundlingType := (if bundlingType s1 = RD then WR else RD)\<rparr> else s1)"

definition rank_collect :: "nat \<Rightarrow> 'a policy_sched_scheme \<Rightarrow> 'a policy_sched_scheme res" where
  "rank_collect index s =
     bind_res (nth_res (queuePending s) index) (\<lambda>pending.
       if pending then ok s
       else bind_res (rt_head index s) (\<lambda>(h, s1).
              case h of
                None \<Rightarrow> ok s1
              | Some p \<Rightarrow>
                  bind_res (isReady p index s1) (\<lambda>r.
                    if \<not> r then ok s1
                    else if busPacketType p \<ge> ACT
                    then ok (s1\<lparr>queuePending := (queuePending s1)[index := True],
                                ACT_PREBuffer := ACT_PREBuffer s1 @ [p],
                                CMDQueueIndex := CMDQueueIndex s1 @ [index]\<rparr>)
                    else bind_res (nth_res (servedFlag s1) index) (\<lambda>served.
                           if served then ok s1
                           else let rk = unat (pRank p)
                                in bind_res (nth_res (CASBuffer s1) rk) (\<lambda>b.
                                   bind_res (nth_res (CASQueueIndex s1) rk) (\<lambda>qi.
                                     ok (s1\<lparr>queuePending := (queuePending s1)[index := True],
                                            CASBuffer := (CASBuffer s1)[rk := b @ [p]],
                                            CASQueueIndex := (CASQueueIndex s1)[rk := qi @ [index]]\<rparr>)))))))"

text \<open>
  The loop over the ranks: of the rank in turn, the first access of the bundled type is sent if
  it is issuable; otherwise the next rank has its turn. The result is the command and its queue.
\<close>

fun rank_loop_cas ::
  "device_std \<Rightarrow> nat \<Rightarrow> 'a policy_sched_scheme \<Rightarrow> ((packet \<times> nat) option \<times> 'a policy_sched_scheme) res" where
  "rank_loop_cas std 0 s = ok (None, s)"
| "rank_loop_cas std (Suc n) s =
     bind_res (nth_res (CASBuffer s) (rankIndex s)) (\<lambda>b.
     bind_res
       (case first_index (\<lambda>p. busPacketType p = bundlingType s) b of
          None \<Rightarrow> ok None
        | Some i \<Rightarrow> bind_res (isIssuable std (b ! i) s) (\<lambda>g. ok (if g then Some i else None)))
       (\<lambda>c.
          case c of
            Some i \<Rightarrow>
              bind_res (nth_res (CASQueueIndex s) (rankIndex s)) (\<lambda>qis.
              bind_res (nth_res qis i) (\<lambda>qi.
                ok (Some (b ! i, qi),
                    s\<lparr>CASBuffer := (CASBuffer s)[rankIndex s := erase_at i b],
                      CASQueueIndex := (CASQueueIndex s)[rankIndex s := erase_at i qis]\<rparr>)))
          | None \<Rightarrow>
              rank_loop_cas std n (s\<lparr>rankIndex := (if Suc (rankIndex s) = rank_num s then 0 else Suc (rankIndex s))\<rparr>)))"

fun act_pre_scan :: "device_std \<Rightarrow> nat \<Rightarrow> packet list \<Rightarrow> 'a cmd_sched_scheme \<Rightarrow> (nat \<times> packet) option res" where
  "act_pre_scan std index [] s = ok None"
| "act_pre_scan std index (p # ps) s =
     bind_res (isIssuable std p s) (\<lambda>b. if b then ok (Some (index, p)) else act_pre_scan std (Suc index) ps s)"

text \<open>With no access to send, the first issuable activate or precharge of its buffer.\<close>

definition rank_pick_row ::
  "device_std \<Rightarrow> 'a policy_sched_scheme \<Rightarrow> ((packet \<times> nat) option \<times> 'a policy_sched_scheme) res" where
  "rank_pick_row std s =
     bind_res (act_pre_scan std 0 (ACT_PREBuffer s) s) (\<lambda>a.
       case a of
         None \<Rightarrow> ok (None, s)
       | Some (i, p) \<Rightarrow>
           bind_res (nth_res (CMDQueueIndex s) i) (\<lambda>qi.
             ok (Some (p, qi), s\<lparr>ACT_PREBuffer := erase_at i (ACT_PREBuffer s),
                                 CMDQueueIndex := erase_at i (CMDQueueIndex s)\<rparr>)))"

definition rank_send ::
  "device_std \<Rightarrow> (packet \<times> nat) option \<Rightarrow> 'a policy_sched_scheme \<Rightarrow> (packet option \<times> 'a policy_sched_scheme) res" where
  "rank_send std c s =
     (case c of
        None \<Rightarrow> ok (None, s)
      | Some (p, qi) \<Rightarrow>
          bind_res (if busPacketType p < ACT then update_res (servedFlag s) qi True else ok (servedFlag s)) (\<lambda>served.
          bind_res (update_res (queuePending s) qi False) (\<lambda>pend.
            issue_cmd std p qi (s\<lparr>servedFlag := served, queuePending := pend\<rparr>))))"

definition commandSchedule_RankReOrder ::
  "device_std \<Rightarrow> 'a policy_sched_scheme \<Rightarrow> (packet option \<times> 'a policy_sched_scheme) res" where
  "commandSchedule_RankReOrder std s =
     bind_res (fold_res rank_collect [0..<length (csQueues s)] (switch_round (s\<lparr>scheduledCommand := None\<rparr>))) (\<lambda>s1.
     bind_res (rank_loop_cas std (rank_num s1) s1) (\<lambda>(c, s2).
     bind_res (case c of Some x \<Rightarrow> ok (Some x, s2) | None \<Rightarrow> rank_pick_row std s2) (\<lambda>(c', s3).
       rank_send std c' s3)))"

section \<open>They put only checked commands on the bus\<close>

definition held_fifo :: "'a policy_sched_scheme \<Rightarrow> packet set" where
  "held_fifo s = fst ` set (cmdFIFO s) \<union> fst ` set (srtFIFO s)"

definition held_rank :: "'a policy_sched_scheme \<Rightarrow> packet set" where
  "held_rank s = (\<Union>b \<in> set (CASBuffer s). set b) \<union> set (ACT_PREBuffer s)"

text \<open>Collecting commands is quiet, and what is held afterwards was held or comes from a queue.\<close>

definition collects :: "('s cmd_sched_scheme \<Rightarrow> packet set) \<Rightarrow> 's cmd_sched_scheme \<Rightarrow> 's cmd_sched_scheme \<Rightarrow> bool" where
  "collects held s t \<longleftrightarrow> quiet s t \<and> held t \<subseteq> held s \<union> cs_cmds s"

lemma collects_refl [simp]: "collects held s s"
  by (simp add: collects_def)

lemma collects_trans: "collects held s t \<Longrightarrow> collects held t u \<Longrightarrow> collects held s u"
  by (auto simp: collects_def quiet_def)

lemma collects_fold:
  assumes "\<And>i t. res_all (collects held t) (f i t)"
  shows "res_all (collects held s) (fold_res f is s)"
proof (rule res_all_fold)
  fix i t assume "collects held s t"
  with assms [of t i] show "res_all (collects held s) (f i t)"
    by (auto intro: collects_trans simp: res_all_def)
qed simp

lemma quiet_more: "cmd_sched.truncate s' = cmd_sched.truncate s \<Longrightarrow> quiet s s'"
  by (cases s; cases s') (simp add: quiet_def cs_cmds_def cmd_sched.truncate_def)

lemma more_fields:
  "cmd_sched.more s' = cmd_sched.more s \<Longrightarrow> cmdFIFO s' = cmdFIFO s \<and> srtFIFO s' = srtFIFO s
     \<and> CASBuffer s' = CASBuffer s \<and> ACT_PREBuffer s' = ACT_PREBuffer s"
  by (cases s; cases s') simp

lemma held_more_fields:
  "cmd_sched.more s' = cmd_sched.more s \<Longrightarrow> held_fifo s' = held_fifo s \<and> held_rank s' = held_rank s"
  using more_fields [of s' s] by (simp add: held_fifo_def held_rank_def)

lemma read_head_more: "read_head c i s = ok (p, t) \<Longrightarrow> cmd_sched.more t = cmd_sched.more s"
  by (auto simp: read_head_def res_simps put_cq_def)

lemma rt_head_more: "rt_head i s = ok (h, t) \<Longrightarrow> cmd_sched.more t = cmd_sched.more s"
  by (auto simp: rt_head_def res_simps split: if_splits dest: read_head_more)

lemma issue_cmd_more: "issue_cmd std p i s = ok (r, t) \<Longrightarrow> cmd_sched.more t = cmd_sched.more s"
  by (auto simp: issue_cmd_def sendCommand_def Let_def put_cq_def res_simps split: if_splits)

lemma fifo_scan_go:
  "res_all (\<lambda>(c, _). \<forall>i p q. c = Some (i, p, q) \<longrightarrow> p \<in> fst ` set fifo \<and> isIssuable std p s = ok True)
     (fifo_scan std block blk index fifo s)"
proof (induction fifo arbitrary: blk index)
  case (Cons x fifo)
  obtain p q where x: "x = (p, q)" by (cases x)
  have IH: "res_all (\<lambda>(c, _). \<forall>i p q. c = Some (i, p, q) \<longrightarrow> p \<in> fst ` set (x # fifo) \<and> isIssuable std p s = ok True)
      (fifo_scan std block blk index fifo s)" for blk index
    by (rule res_all_mono [OF Cons.IH]) auto
  show ?case unfolding x fifo_scan.simps by (intro res_wp IH [unfolded x]) auto
qed simp

lemma act_pre_scan_go:
  "res_all (\<lambda>c. \<forall>i p. c = Some (i, p) \<longrightarrow> p \<in> set ps \<and> isIssuable std p s = ok True) (act_pre_scan std index ps s)"
proof (induction ps arbitrary: index)
  case (Cons x ps)
  have IH: "res_all (\<lambda>c. \<forall>i p. c = Some (i, p) \<longrightarrow> p \<in> set (x # ps) \<and> isIssuable std p s = ok True)
      (act_pre_scan std index ps s)" for index
    by (rule res_all_mono [OF Cons.IH]) auto
  show ?case unfolding act_pre_scan.simps by (intro res_wp IH) auto
qed simp

text \<open>A whole call: a bus step, after which nothing is held that was not known before.\<close>

definition sched_post ::
  "device_std \<Rightarrow> ('s cmd_sched_scheme \<Rightarrow> packet set) \<Rightarrow> 's cmd_sched_scheme \<Rightarrow> packet option \<times> 's cmd_sched_scheme \<Rightarrow> bool" where
  "sched_post std held s = (\<lambda>(r, s'). bus_step std (held s) s s' \<and> held s' \<subseteq> held s \<union> cs_cmds s)"

lemma sched_post_quiet: "collects held s t \<Longrightarrow> sched_post std held s (r, t)"
  by (simp add: collects_def sched_post_def bus_step_def)

lemma sched_post_issue:
  assumes "collects held s t" and "isIssuable std p t = ok True" and "p \<in> held t"
    and "issue_cmd std p i t = ok (r, u)" and "held u' \<subseteq> held t" and "quiet u u'" and "csDevice u' = csDevice u"
  shows "sched_post std held s (r', u')"
proof -
  have "steps_to std (held s) s (r, u)"
    by (rule res_allD [OF issue_cmd_go assms(4)]) (use assms(1-3) in \<open>auto simp: collects_def\<close>)
  then have "bus_step std (held s) s u" by (simp add: steps_to_def)
  then have "bus_step std (held s) s u'"
    using assms(6,7) by (auto simp: bus_step_def quiet_def sends_def)
  then show ?thesis using assms(1,5) by (auto simp: sched_post_def collects_def)
qed

subsection \<open>DCmc and ORP\<close>

lemma policy_quiet [simp]:
  "quiet s (t\<lparr>cmdFIFO := f\<rparr>) = quiet s t" "quiet s (t\<lparr>srtFIFO := f\<rparr>) = quiet s t"
  "quiet s (t\<lparr>queuePending := p\<rparr>) = quiet s t" "quiet s (t\<lparr>pendingBy := m\<rparr>) = quiet s t"
  "quiet s (t\<lparr>CASBuffer := b\<rparr>) = quiet s t" "quiet s (t\<lparr>CASQueueIndex := b'\<rparr>) = quiet s t"
  "quiet s (t\<lparr>ACT_PREBuffer := a\<rparr>) = quiet s t" "quiet s (t\<lparr>CMDQueueIndex := a'\<rparr>) = quiet s t"
  "quiet s (t\<lparr>servedFlag := v\<rparr>) = quiet s t" "quiet s (t\<lparr>bundlingType := y\<rparr>) = quiet s t"
  "quiet s (t\<lparr>rankIndex := ri\<rparr>) = quiet s t"
  by (simp_all add: quiet_def cs_cmds_def)

lemma dcmc_collect_ok: "res_all (collects held_fifo s) (dcmc_collect i s)"
  unfolding dcmc_collect_def
proof (intro res_wp)
  fix x h s1 assume h: "rt_head i s = ok x" "x = (h, s1)"
  then have q: "quiet s s1" "cmdFIFO s1 = cmdFIFO s" "srtFIFO s1 = srtFIFO s"
    using rt_head_quiet [of i s h s1] rt_head_more [of i s h s1] more_fields [of s1 s] by auto
  then show "collects held_fifo s s1" "collects held_fifo s s1" by (simp_all add: collects_def held_fifo_def)
  fix p c s2 assume "h = Some p" "s2 = (if c then s1\<lparr>cmdFIFO := cmdFIFO s1 @ [(p, i)]\<rparr> else s1\<lparr>srtFIFO := srtFIFO s1 @ [(p, i)]\<rparr>)"
  with h q show "collects held_fifo s (s2\<lparr>queuePending := (queuePending s2)[i := True]\<rparr>)"
    using rt_head_quiet [of i s h s1] by (auto simp: collects_def held_fifo_def)
qed simp

text \<open>Sending the entry of a FIFO and erasing it there.\<close>

lemma fifo_issue_post:
  assumes c: "collects held_fifo s t" and "isIssuable std p t = ok True" and "p \<in> held_fifo t"
    and i: "issue_cmd std p qi t = ok (r, u)"
  shows "sched_post std held_fifo s (r, u\<lparr>queuePending := pend, cmdFIFO := erase_at pos (cmdFIFO u)\<rparr>)"
    "sched_post std held_fifo s (r, u\<lparr>queuePending := pend, srtFIFO := erase_at pos (srtFIFO u)\<rparr>)"
    "sched_post std held_fifo s (r, u\<lparr>pendingBy := m, cmdFIFO := erase_at pos (cmdFIFO u)\<rparr>)"
    "sched_post std held_fifo s (r, u\<lparr>pendingBy := m, srtFIFO := erase_at pos (srtFIFO u)\<rparr>)"
  using more_fields [OF issue_cmd_more [OF i]]
  by (intro sched_post_issue [OF assms]; force simp: held_fifo_def)+

lemma fst_in_image: "(p, q) \<in> set xs \<Longrightarrow> p \<in> fst ` set xs"
  by force

lemma dcmc_pick_post: "collects held_fifo s t \<Longrightarrow> res_all (sched_post std held_fifo s) (dcmc_pick std t)"
  unfolding dcmc_pick_def
  by (intro res_all_if res_all_bind2 [OF fifo_scan_go] res_wp)
    (auto intro!: fifo_issue_post sched_post_quiet [where t = t] simp: held_fifo_def dest: fst_in_image)

lemma collects_unscheduled: "collects held_fifo s t \<Longrightarrow> collects held_fifo s (t\<lparr>scheduledCommand := None\<rparr>)"
  by (simp add: collects_def held_fifo_def)

lemma commandSchedule_DCmc_post: "res_all (sched_post std held_fifo s) (commandSchedule_DCmc std s)"
  unfolding commandSchedule_DCmc_def
  by (rule res_all_bind2 [OF collects_fold [OF dcmc_collect_ok, where s = s]])
    (intro dcmc_pick_post collects_unscheduled)

lemma orp_lane_ok: "res_all (collects held_fifo s) (orp_lane i num s)"
  unfolding orp_lane_def
proof (intro res_wp)
  fix q h p k s1 assume h: "cq_at i s = ok q" "lane_head num q = ok h" "h = Some p"
    and s1: "s1 = (if pendingBy s k = None then s\<lparr>pendingBy := (pendingBy s)(k \<mapsto> False)\<rparr> else s)"
  have p: "p \<in> cs_cmds s"
    using h by (auto simp: lane_head_def cq_at_def res_simps split: if_splits dest: getRequestorCommand_cmds cs_cmds_nth)
  show q: "collects held_fifo s s1" "collects held_fifo s s1" by (auto simp: s1 collects_def held_fifo_def)
  show "collects held_fifo s (s1\<lparr>cmdFIFO := cmdFIFO s1 @ [(p, i)], pendingBy := (pendingBy s1)(k \<mapsto> True)\<rparr>)"
    using p by (auto simp: s1 collects_def held_fifo_def)
qed simp

lemma orp_shared_ok: "res_all (collects held_fifo s) (orp_shared i s)"
  unfolding orp_shared_def
proof (intro res_all_bind)
  fix q x assume x: "(if cq_getSize True q > 0 \<and> map_get False (pendingBy s) (of_nat i) = False
        then bind_res (read_head True i s) (\<lambda>(p, s1). ok (Some p, s1))
        else if cq_getSize False q > 0
        then bind_res (read_head False i s) (\<lambda>(p, s1). ok (Some p, s1))
        else ok (None, s)) = ok x"
  obtain h s1 where hs: "x = (h, s1)" by (cases x)
  have q: "quiet s s1" "cmd_sched.more s1 = cmd_sched.more s" "\<And>p. h = Some p \<Longrightarrow> p \<in> cs_cmds s"
    using x by (auto simp: hs res_simps split: if_splits dest: read_head_quiet read_head_more)
  note f = more_fields [OF q(2)]
  show "res_all (collects held_fifo s) (case x of (h, s1) \<Rightarrow>
          case h of
            None \<Rightarrow> ok s1
          | Some p \<Rightarrow>
              bind_res (isReady p i s1) (\<lambda>r.
                if r then ok (s1\<lparr>cmdFIFO := cmdFIFO s1 @ [(p, i)],
                                pendingBy := (pendingBy s1)(of_nat i \<mapsto> True)\<rparr>)
                else ok s1))"
    unfolding hs prod.case by (intro res_wp) (use q f in \<open>auto simp: collects_def held_fifo_def\<close>)
qed

lemma orp_collect_ok: "res_all (collects held_fifo s) (orp_collect i s)"
  unfolding orp_collect_def by (intro res_wp collects_fold orp_lane_ok orp_shared_ok) simp_all

lemma orp_pick_post: "collects held_fifo s t \<Longrightarrow> res_all (sched_post std held_fifo s) (orp_pick std t)"
  unfolding orp_pick_def
  by (intro res_all_if res_all_bind2 [OF fifo_scan_go] res_wp)
    (auto intro!: fifo_issue_post sched_post_quiet [where t = t] simp: held_fifo_def dest: fst_in_image)

lemma commandSchedule_ORP_post: "res_all (sched_post std held_fifo s) (commandSchedule_ORP std s)"
  unfolding commandSchedule_ORP_def
  by (rule res_all_bind2 [OF collects_fold [OF orp_collect_ok, where s = s]])
    (intro orp_pick_post collects_unscheduled)

subsection \<open>RankReOrder\<close>

lemma switch_round_frame: "collects held_rank s (switch_round s)" "held_rank (switch_round s) = held_rank s"
  by (auto simp: switch_round_def Let_def collects_def held_rank_def)

lemma erase_at_subset: "set (erase_at i xs) \<subseteq> set xs"
  by (auto simp: erase_at_def dest: in_set_takeD in_set_dropD)

lemma rank_collect_ok: "res_all (collects held_rank s) (rank_collect i s)"
  unfolding rank_collect_def
proof (intro res_wp)
  fix x h s1 assume h: "rt_head i s = ok x" "x = (h, s1)"
  then have q: "quiet s s1" "CASBuffer s1 = CASBuffer s" "ACT_PREBuffer s1 = ACT_PREBuffer s"
    "\<And>p. h = Some p \<Longrightarrow> p \<in> cs_cmds s"
    using rt_head_quiet [of i s h s1] rt_head_more [of i s h s1] more_fields [of s1 s] by auto
  then show c: "collects held_rank s s1" "collects held_rank s s1" "collects held_rank s s1"
    by (simp_all add: collects_def held_rank_def)
  fix p assume p: "h = Some p"
  then show "collects held_rank s (s1\<lparr>queuePending := (queuePending s1)[i := True],
                                ACT_PREBuffer := ACT_PREBuffer s1 @ [p],
                                CMDQueueIndex := CMDQueueIndex s1 @ [i]\<rparr>)"
    using q by (auto simp: collects_def held_rank_def)
  fix rk b qi assume "nth_res (CASBuffer s1) rk = ok b"
  then have "(\<Union>b \<in> set ((CASBuffer s1)[rk := b @ [p]]). set b) \<subseteq> (\<Union>b \<in> set (CASBuffer s). set b) \<union> cs_cmds s"
    using set_update_subset_insert [of "CASBuffer s1" rk "b @ [p]"] p q(2,4) by (fastforce simp: nth_res_def split: if_splits)
  then show "collects held_rank s (s1\<lparr>queuePending := (queuePending s1)[i := True],
                                            CASBuffer := (CASBuffer s1)[rk := b @ [p]],
                                            CASQueueIndex := (CASQueueIndex s1)[rk := qi @ [i]]\<rparr>)"
    using q by (auto simp: collects_def held_rank_def)
qed simp

text \<open>Taking a command out of a buffer: it may go, and nothing new is held.\<close>

definition takes :: "device_std \<Rightarrow> 'a policy_sched_scheme \<Rightarrow> (packet \<times> nat) option \<times> 'a policy_sched_scheme \<Rightarrow> bool" where
  "takes std s = (\<lambda>(c, t). quiet s t \<and> held_rank t \<subseteq> held_rank s
     \<and> (\<forall>p q. c = Some (p, q) \<longrightarrow> p \<in> held_rank s \<and> isIssuable std p s = ok True))"

lemma rank_loop_takes: "res_all (takes std s) (rank_loop_cas std n s)"
proof (induction n arbitrary: s)
  case (Suc n)
  have IH: "res_all (takes std s) (rank_loop_cas std n (s\<lparr>rankIndex := r\<rparr>))" for r
    by (rule res_all_mono [OF Suc.IH]) (auto simp: takes_def held_rank_def quiet_def cs_cmds_def isIssuable_def)
  show ?case unfolding rank_loop_cas.simps
  proof (intro res_wp IH)
    fix b c i qis qi assume b: "nth_res (CASBuffer s) (rankIndex s) = ok b" and i: "c = Some i"
      and c: "(case first_index (\<lambda>p. busPacketType p = bundlingType s) b of
          None \<Rightarrow> ok None
        | Some i \<Rightarrow> bind_res (isIssuable std (b ! i) s) (\<lambda>g. ok (if g then Some i else None))) = ok c"
    then have "i < length b" "isIssuable std (b ! i) s = ok True" "b \<in> set (CASBuffer s)"
      by (auto simp: nth_res_def res_simps first_index_Some_iff split: option.splits if_splits)
    moreover have "(\<Union>x \<in> set ((CASBuffer s)[rankIndex s := erase_at i b]). set x) \<subseteq> (\<Union>x \<in> set (CASBuffer s). set x)"
      using set_update_subset_insert [of "CASBuffer s" "rankIndex s" "erase_at i b"] erase_at_subset [of i b] \<open>b \<in> set (CASBuffer s)\<close>
      by fastforce
    ultimately show "takes std s (Some (b ! i, qi),
                    s\<lparr>CASBuffer := (CASBuffer s)[rankIndex s := erase_at i b],
                      CASQueueIndex := (CASQueueIndex s)[rankIndex s := erase_at i qis]\<rparr>)"
      by (force simp: takes_def held_rank_def)
  qed
qed (simp add: takes_def)

lemma rank_pick_row_takes:
  assumes "takes std s (None, t)"
  shows "res_all (takes std s) (rank_pick_row std t)"
  unfolding rank_pick_row_def
proof (intro res_all_bind2 [OF act_pre_scan_go] res_wp)
  fix a x i p qi assume "\<forall>(i :: nat) p. a = Some (i, p) \<longrightarrow> p \<in> set (ACT_PREBuffer t) \<and> isIssuable std p t = ok True"
    "a = Some x" "x = (i, p)"
  then have "p \<in> set (ACT_PREBuffer t)" "isIssuable std p t = ok True" by auto
  with assms erase_at_subset [of i "ACT_PREBuffer t"]
  show "takes std s (Some (p, qi), t\<lparr>ACT_PREBuffer := erase_at i (ACT_PREBuffer t), CMDQueueIndex := erase_at i (CMDQueueIndex t)\<rparr>)"
    by (auto simp: takes_def held_rank_def quiet_isIssuable [of s t])
qed (rule assms)

lemma rank_issue_post:
  assumes c: "collects held_rank s s1" and t: "takes std s1 (Some (p, q), t)"
  shows "res_all (sched_post std held_rank s) (issue_cmd std p qi (t\<lparr>servedFlag := v, queuePending := w\<rparr>))"
proof (rule res_allI)
  let ?t = "t\<lparr>servedFlag := v, queuePending := w\<rparr>"
  fix x assume x: "issue_cmd std p qi ?t = ok x"
  obtain r u where xu: "x = (r, u)" by (cases x)
  have q: "quiet s ?t" using c t quiet_trans by (auto simp: collects_def takes_def)
  have "res_all (steps_to std (held_rank s) s) (issue_cmd std p qi ?t)"
    by (rule issue_cmd_go [OF q]) (use c t in \<open>auto simp: collects_def takes_def isIssuable_def quiet_def\<close>)
  then have "steps_to std (held_rank s) s (r, u)" using x xu by (simp add: res_all_def)
  moreover have "held_rank u = held_rank t"
    using more_fields [OF issue_cmd_more [OF x [unfolded xu]]] by (simp add: held_rank_def)
  ultimately show "sched_post std held_rank s x"
    using c t by (auto simp: xu sched_post_def steps_to_def collects_def takes_def)
qed

lemma rank_send_post:
  assumes c: "collects held_rank s s1" and t: "takes std s1 (o', t)"
  shows "res_all (sched_post std held_rank s) (rank_send std o' t)"
  unfolding rank_send_def
proof (intro res_wp)
  assume "o' = None"
  with c t show "sched_post std held_rank s (None, t)"
    by (intro sched_post_quiet) (auto simp: collects_def takes_def quiet_def)
next
  fix x p qi v w assume "o' = Some x" "x = (p, qi)"
  with t show "res_all (sched_post std held_rank s) (issue_cmd std p qi (t\<lparr>servedFlag := v, queuePending := w\<rparr>))"
    by (intro rank_issue_post [OF c]) simp
qed

lemma commandSchedule_RankReOrder_post: "res_all (sched_post std held_rank s) (commandSchedule_RankReOrder std s)"
proof -
  let ?s0 = "switch_round (s\<lparr>scheduledCommand := None\<rparr>)"
  have 0: "collects held_rank s ?s0"
    using switch_round_frame [of "s\<lparr>scheduledCommand := None\<rparr>"] by (simp add: collects_def held_rank_def quiet_def cs_cmds_def)
  have "res_all (collects held_rank ?s0) (fold_res rank_collect [0..<length (csQueues s)] ?s0)"
    by (rule collects_fold [OF rank_collect_ok])
  then have 1: "res_all (collects held_rank s) (fold_res rank_collect [0..<length (csQueues s)] ?s0)"
    by (rule res_all_mono) (rule collects_trans [OF 0])
  have 2: "res_all (takes std s1) (case c of Some x \<Rightarrow> ok (Some x, t) | None \<Rightarrow> rank_pick_row std t)"
    if "takes std s1 (c, t)" for s1 c t
    using that rank_pick_row_takes [of std s1 t] by (cases c) simp_all
  show ?thesis unfolding commandSchedule_RankReOrder_def
    by (intro res_all_bind2 [OF 1] res_all_bind2 [OF rank_loop_takes] res_all_prod res_all_bind2 [OF 2] rank_send_post)
      auto
qed

section \<open>Interpretations\<close>

text \<open>The constructors leave the buffers empty.\<close>

definition fifo_initial :: "'a policy_sched_scheme \<Rightarrow> bool" where
  "fifo_initial s \<longleftrightarrow> held_fifo s = {}"

definition rank_initial :: "'a policy_sched_scheme \<Rightarrow> bool" where
  "rank_initial s \<longleftrightarrow> held_rank s = {}"

lemma constructors_initial:
  "fifo_initial (new_CommandScheduler_DCmc s)" "fifo_initial (new_CommandScheduler_ORP s)"
  "rank_initial (new_CommandScheduler_RankReOrder s)"
  by (simp_all add: fifo_initial_def rank_initial_def held_fifo_def held_rank_def new_CommandScheduler_DCmc_def
      new_CommandScheduler_ORP_def new_CommandScheduler_RankReOrder_def)

lemma command_schedulerI:
  assumes post: "\<And>std s. res_all (sched_post std held s) (schedule std s)"
    and init: "\<And>s p. initial s \<Longrightarrow> p \<in> held s \<Longrightarrow> \<not> postCommand p"
    and more: "\<And>s s'. cmd_sched.more s' = cmd_sched.more s \<Longrightarrow> held s' = held s"
  shows "command_scheduler schedule initial held"
proof
  fix std s r s' assume "schedule std s = ok (r, s')"
  with post [of std s] have "sched_post std held s (r, s')" by (simp add: res_all_def)
  then show "bus_step std (held s) s s'" "held s' \<subseteq> held s \<union> cs_cmds s" by (simp_all add: sched_post_def)
qed (fact init, fact more)

interpretation dcmc: command_scheduler commandSchedule_DCmc fifo_initial held_fifo
  by (rule command_schedulerI [OF commandSchedule_DCmc_post])
    (use held_more_fields in \<open>unfold fifo_initial_def, blast+\<close>)

interpretation orp: command_scheduler commandSchedule_ORP fifo_initial held_fifo
  by (rule command_schedulerI [OF commandSchedule_ORP_post])
    (use held_more_fields in \<open>unfold fifo_initial_def, blast+\<close>)

interpretation rankreorder: command_scheduler commandSchedule_RankReOrder rank_initial held_rank
  by (rule command_schedulerI [OF commandSchedule_RankReOrder_post])
    (use held_more_fields in \<open>unfold rank_initial_def, blast+\<close>)

end
