(* ===== verification/BundlePolicies.thy ===== *)
theory BundlePolicies
  imports FifoPolicies
begin

text \<open>
  Two more command schedulers with buffers of their own: \<^verbatim>\<open>src/system/ReOrder/CommandScheduler_ReOrder.h\<close>,
  which bundles accesses of one type, and \<^verbatim>\<open>src/system/MAG/CommandScheduler_MAG.h\<close>, which preempts
  non-critical requestors and makes up for it with commands of its own. The record holds the
  members of both; \<^verbatim>\<open>queuePending\<close>, \<^verbatim>\<open>srtFIFO\<close> and \<^verbatim>\<open>bundlingType\<close> are those of the record below. The
  entries that \<^verbatim>\<open>virMap[...]\<close> creates when it is read are left out: they hold the default value that
  a missing entry reads as.
\<close>

record bundle_sched = policy_sched +
  commandRegisters :: "(packet \<times> nat) list"
  servedFlags :: "bool list"
  virChannelRegister :: "bool list"
  virMap :: "u32 \<rightharpoonup> nat"
  indexRT :: nat
  indexHP :: nat
  bypass :: bool
  casBlocking :: bool
  compensateCommands :: "packet list list"

section \<open>ReOrder\<close>

text \<open>\<^verbatim>\<open>virChannel\<close> is 0, so there is no virtual channel.\<close>

definition new_CommandScheduler_ReOrder :: "'a bundle_sched_scheme \<Rightarrow> 'a bundle_sched_scheme" where
  "new_CommandScheduler_ReOrder s =
     s\<lparr>commandRegisters := [], srtFIFO := [], bundlingType := WR, virChannelRegister := [], virMap := Map.empty,
       queuePending := replicate (length (csQueues s)) False,
       servedFlags := replicate (length (csQueues s)) False\<rparr>"

definition reorder_collect :: "nat \<Rightarrow> 'a bundle_sched_scheme \<Rightarrow> 'a bundle_sched_scheme res" where
  "reorder_collect index s =
     bind_res (nth_res (queuePending s) index) (\<lambda>pending.
       if pending then ok s
       else bind_res (rt_head index s) (\<lambda>(h, s1).
              case h of
                None \<Rightarrow> ok s1
              | Some p \<Rightarrow>
                  bind_res (isReady p index s1) (\<lambda>r.
                    if r
                    then bind_res (critical_at p s1) (\<lambda>c.
                           let s2 = (if c then s1\<lparr>commandRegisters := commandRegisters s1 @ [(p, unat (pBank p))]\<rparr>
                                     else s1\<lparr>srtFIFO := srtFIFO s1 @ [(p, index)]\<rparr>)
                           in ok (s2\<lparr>queuePending := (queuePending s2)[index := True]\<rparr>))
                    else ok s1)))"

definition reorder_channel :: "nat \<Rightarrow> 'a bundle_sched_scheme \<Rightarrow> 'a bundle_sched_scheme" where
  "reorder_channel index s =
     (if \<not> virChannelRegister s ! index \<and> srtFIFO s \<noteq> []
      then let (p, qi) = hd (srtFIFO s)
           in s\<lparr>commandRegisters := commandRegisters s @ [(p, qi)],
                virMap := (virMap s)(ucast (pRequestorID p) \<mapsto> length (csQueues s) + index),
                virChannelRegister := (virChannelRegister s)[index := True], srtFIFO := tl (srtFIFO s)\<rparr>
      else s)"

text \<open>\<^verbatim>\<open>servedFlags\<close> of a command: of its virtual channel if it is not critical, else of the queue \<open>qi\<close>.\<close>

definition served_at :: "packet \<Rightarrow> nat \<Rightarrow> 'a bundle_sched_scheme \<Rightarrow> nat res" where
  "served_at p qi s =
     bind_res (critical_at p s) (\<lambda>c. ok (if c then qi else map_get 0 (virMap s) (ucast (pRequestorID p))))"

text \<open>The flags \<^verbatim>\<open>newRound\<close>, \<^verbatim>\<open>newType\<close>, \<^verbatim>\<open>newCAS\<close> and \<^verbatim>\<open>haveCAS\<close> after the scan of the registers.\<close>

fun round_flags ::
  "(packet \<times> nat) list \<Rightarrow> bool \<times> bool \<times> bool \<times> bool \<Rightarrow> 'a bundle_sched_scheme \<Rightarrow> (bool \<times> bool \<times> bool \<times> bool) res" where
  "round_flags [] fl s = ok fl"
| "round_flags ((p, qi) # rest) (newRound, newType, newCAS, haveCAS) s =
     (if busPacketType p < ACT
      then bind_res (served_at p qi s) (\<lambda>i.
           bind_res (nth_res (servedFlags s) i) (\<lambda>isServed.
             if \<not> isServed
             then if busPacketType p = bundlingType s then ok (False, False, newCAS, True)
                  else round_flags rest (False, newType, True, True) s
             else round_flags rest (newRound, newType, newCAS, True) s))
      else round_flags rest (newRound, newType, newCAS, haveCAS) s)"

definition reorder_switch :: "'a bundle_sched_scheme \<Rightarrow> 'a bundle_sched_scheme res" where
  "reorder_switch s =
     (if commandRegisters s = [] then ok s
      else bind_res (round_flags (commandRegisters s) (True, True, False, False) s)
             (\<lambda>(newRound, newType, newCAS, haveCAS).
                let s1 = (if newRound then s\<lparr>servedFlags := replicate (length (servedFlags s)) False\<rparr> else s)
                in ok (if haveCAS \<and> newType \<and> newCAS
                       then s1\<lparr>bundlingType := (if bundlingType s1 = WR then RD else WR)\<rparr> else s1)))"

text \<open>The register to serve: an access of the bundled type, else an activate, else a precharge.\<close>

fun reorder_cas ::
  "device_std \<Rightarrow> nat \<Rightarrow> (packet \<times> nat) list \<Rightarrow> 'a bundle_sched_scheme \<Rightarrow> (nat \<times> packet \<times> nat) option res" where
  "reorder_cas std pos [] s = ok None"
| "reorder_cas std pos ((p, qi) # rest) s =
     bind_res (served_at p (unat (pBank p)) s) (\<lambda>i.
     bind_res (nth_res (servedFlags s) i) (\<lambda>isServed.
       if \<not> isServed \<and> busPacketType p = bundlingType s
       then bind_res (isIssuable std p s) (\<lambda>b.
              if b then ok (Some (pos, p, qi)) else reorder_cas std (Suc pos) rest s)
       else reorder_cas std (Suc pos) rest s))"

fun reorder_row ::
  "device_std \<Rightarrow> BusPacketType \<Rightarrow> nat \<Rightarrow> (packet \<times> nat) list \<Rightarrow> 'a cmd_sched_scheme \<Rightarrow> (nat \<times> packet \<times> nat) option res" where
  "reorder_row std ty pos [] s = ok None"
| "reorder_row std ty pos ((p, qi) # rest) s =
     (if busPacketType p = ty
      then bind_res (isIssuable std p s) (\<lambda>b.
             if b then ok (Some (pos, p, qi)) else reorder_row std ty (Suc pos) rest s)
      else reorder_row std ty (Suc pos) rest s)"

definition reorder_pick :: "device_std \<Rightarrow> 'a bundle_sched_scheme \<Rightarrow> (nat \<times> packet \<times> nat) option res" where
  "reorder_pick std s =
     bind_res (reorder_cas std 0 (commandRegisters s) s) (\<lambda>c.
     bind_res (case c of Some x \<Rightarrow> ok (Some x) | None \<Rightarrow> reorder_row std ACT 0 (commandRegisters s) s) (\<lambda>c'.
       case c' of Some x \<Rightarrow> ok (Some x) | None \<Rightarrow> reorder_row std PRE 0 (commandRegisters s) s))"

definition reorder_send ::
  "device_std \<Rightarrow> nat \<Rightarrow> packet \<Rightarrow> nat \<Rightarrow> 'a bundle_sched_scheme \<Rightarrow> (packet option \<times> 'a bundle_sched_scheme) res" where
  "reorder_send std pos p qi s =
     bind_res (served_at p (unat (pBank p)) s) (\<lambda>i.
     bind_res (if busPacketType p < ACT then update_res (servedFlags s) i True else ok (servedFlags s)) (\<lambda>served.
     bind_res (update_res (queuePending s) qi False) (\<lambda>pend.
     bind_res (issue_cmd std p qi (s\<lparr>servedFlags := served, queuePending := pend\<rparr>)) (\<lambda>(r, s1).
     bind_res (critical_at p s1) (\<lambda>c.
     bind_res (if c then ok (virChannelRegister s1)
               else if i < length (csQueues s1) then fail OutOfRange
               else update_res (virChannelRegister s1) (i - length (csQueues s1)) False) (\<lambda>vc.
       ok (r, s1\<lparr>virChannelRegister := vc, commandRegisters := erase_at pos (commandRegisters s1)\<rparr>)))))))"

definition reorder_spare :: "device_std \<Rightarrow> 'a bundle_sched_scheme \<Rightarrow> (packet option \<times> 'a bundle_sched_scheme) res" where
  "reorder_spare std s =
     (if commandRegisters s = []
      then bind_res (fifo_scan std False False 0 (srtFIFO s) s) (\<lambda>(c, _).
             case c of
               None \<Rightarrow> ok (None, s)
             | Some (pos, p, qi) \<Rightarrow>
                 bind_res (issue_cmd std p qi s) (\<lambda>(r, s').
                 bind_res (update_res (queuePending s') qi False) (\<lambda>pend.
                   ok (r, s'\<lparr>queuePending := pend, srtFIFO := erase_at pos (srtFIFO s')\<rparr>))))
      else ok (None, s))"

definition commandSchedule_ReOrder ::
  "device_std \<Rightarrow> 'a bundle_sched_scheme \<Rightarrow> (packet option \<times> 'a bundle_sched_scheme) res" where
  "commandSchedule_ReOrder std s =
     bind_res (fold_res reorder_collect [0..<length (csQueues s)] (s\<lparr>scheduledCommand := None\<rparr>)) (\<lambda>s1.
     bind_res (reorder_switch (fold reorder_channel [0..<length (virChannelRegister s1)] s1)) (\<lambda>s2.
     bind_res (reorder_pick std s2) (\<lambda>c.
       case c of
         Some (pos, p, qi) \<Rightarrow> reorder_send std pos p qi s2
       | None \<Rightarrow> reorder_spare std s2)))"

subsection \<open>It puts only checked commands on the bus\<close>

definition held_reorder :: "'a bundle_sched_scheme \<Rightarrow> packet set" where
  "held_reorder s = fst ` set (commandRegisters s) \<union> fst ` set (srtFIFO s)"

lemma bundle_quiet [simp]:
  "quiet s (t\<lparr>commandRegisters := f\<rparr>) = quiet s t" "quiet s (t\<lparr>servedFlags := v\<rparr>) = quiet s t"
  "quiet s (t\<lparr>virChannelRegister := v\<rparr>) = quiet s t" "quiet s (t\<lparr>virMap := m\<rparr>) = quiet s t"
  "quiet s (t\<lparr>indexRT := n\<rparr>) = quiet s t" "quiet s (t\<lparr>indexHP := n\<rparr>) = quiet s t"
  "quiet s (t\<lparr>bypass := b\<rparr>) = quiet s t" "quiet s (t\<lparr>casBlocking := b\<rparr>) = quiet s t"
  "quiet s (t\<lparr>compensateCommands := c\<rparr>) = quiet s t"
  by (simp_all add: quiet_def cs_cmds_def)

lemma bundle_more:
  "cmd_sched.more s' = cmd_sched.more s \<Longrightarrow> commandRegisters s' = commandRegisters s \<and> srtFIFO s' = srtFIFO s
     \<and> compensateCommands s' = compensateCommands s \<and> casBlocking s' = casBlocking s
     \<and> indexRT s' = indexRT s \<and> indexHP s' = indexHP s \<and> bypass s' = bypass s"
  by (cases s; cases s') simp

lemma reorder_collect_ok: "res_all (collects held_reorder s) (reorder_collect i s)"
  unfolding reorder_collect_def
proof (intro res_wp)
  fix x h s1 assume h: "rt_head i s = ok x" "x = (h, s1)"
  then have q: "quiet s s1" "commandRegisters s1 = commandRegisters s" "srtFIFO s1 = srtFIFO s"
    using rt_head_quiet [of i s h s1] rt_head_more [of i s h s1] bundle_more [of s1 s] by auto
  then show "collects held_reorder s s1" "collects held_reorder s s1" by (simp_all add: collects_def held_reorder_def)
  fix p c s2 assume "h = Some p" "s2 = (if c then s1\<lparr>commandRegisters := commandRegisters s1 @ [(p, unat (pBank p))]\<rparr>
      else s1\<lparr>srtFIFO := srtFIFO s1 @ [(p, i)]\<rparr>)"
  with h q show "collects held_reorder s (s2\<lparr>queuePending := (queuePending s2)[i := True]\<rparr>)"
    using rt_head_quiet [of i s h s1] by (auto simp: collects_def held_reorder_def)
qed simp

lemma reorder_channel_ok: "collects held_reorder s (reorder_channel i s)"
  by (cases "srtFIFO s") (auto simp: reorder_channel_def collects_def held_reorder_def split: prod.splits)

lemma reorder_channels_ok: "collects held_reorder s (fold reorder_channel is s)"
  by (induction "is" arbitrary: s) (auto intro: collects_trans reorder_channel_ok)

lemma reorder_switch_ok: "res_all (collects held_reorder s) (reorder_switch s)"
  unfolding reorder_switch_def Let_def by (intro res_wp) (auto simp: collects_def held_reorder_def)

definition register_go :: "device_std \<Rightarrow> (packet \<times> nat) list \<Rightarrow> 'a cmd_sched_scheme \<Rightarrow> (nat \<times> packet \<times> nat) option \<Rightarrow> bool" where
  "register_go std regs s c \<longleftrightarrow> (\<forall>i p q. c = Some (i, p, q) \<longrightarrow> p \<in> fst ` set regs \<and> isIssuable std p s = ok True)"

lemma register_go_mono: "res_all (register_go std regs s) m \<Longrightarrow> set regs \<subseteq> set regs' \<Longrightarrow> res_all (register_go std regs' s) m"
  by (erule res_all_mono) (fastforce simp: register_go_def)

lemma reorder_cas_go: "res_all (register_go std regs s) (reorder_cas std pos regs s)"
proof (induction regs arbitrary: pos)
  case (Cons x regs)
  obtain p q where x: "x = (p, q)" by (cases x)
  have IH: "res_all (register_go std (x # regs) s) (reorder_cas std pos regs s)" for pos
    by (rule register_go_mono [OF Cons.IH]) auto
  show ?case unfolding x reorder_cas.simps by (intro res_wp IH [unfolded x]) (auto simp: register_go_def)
qed (simp add: register_go_def)

lemma reorder_row_go: "res_all (register_go std regs s) (reorder_row std ty pos regs s)"
proof (induction regs arbitrary: pos)
  case (Cons x regs)
  obtain p q where x: "x = (p, q)" by (cases x)
  have IH: "res_all (register_go std (x # regs) s) (reorder_row std ty pos regs s)" for pos
    by (rule register_go_mono [OF Cons.IH]) auto
  show ?case unfolding x reorder_row.simps by (intro res_wp IH [unfolded x]) (auto simp: register_go_def)
qed (simp add: register_go_def)

lemma reorder_pick_go: "res_all (register_go std (commandRegisters s) s) (reorder_pick std s)"
  unfolding reorder_pick_def
proof (rule res_all_bind2 [OF reorder_cas_go])
  let ?R = "register_go std (commandRegisters s) s"
  fix c assume "?R c"
  then have "res_all ?R (case c of Some x \<Rightarrow> ok (Some x) | None \<Rightarrow> reorder_row std ACT 0 (commandRegisters s) s)"
    using reorder_row_go by (cases c) auto
  then show "res_all ?R (bind_res (case c of Some x \<Rightarrow> ok (Some x) | None \<Rightarrow> reorder_row std ACT 0 (commandRegisters s) s)
      (\<lambda>c'. case c' of Some x \<Rightarrow> ok (Some x) | None \<Rightarrow> reorder_row std PRE 0 (commandRegisters s) s))"
  proof (rule res_all_bind2)
    fix c' assume "?R c'"
    then show "res_all ?R (case c' of Some x \<Rightarrow> ok (Some x) | None \<Rightarrow> reorder_row std PRE 0 (commandRegisters s) s)"
      using reorder_row_go by (cases c') auto
  qed
qed

lemma isIssuable_bundle [simp]:
  "isIssuable std p (s\<lparr>servedFlags := v, queuePending := w\<rparr>) = isIssuable std p s"
  by (simp add: isIssuable_def)

lemma held_reorder_flags [simp]: "held_reorder (s\<lparr>servedFlags := v, queuePending := w\<rparr>) = held_reorder s"
  by (simp add: held_reorder_def)

lemma reorder_send_post:
  assumes c: "collects held_reorder s t" and "isIssuable std p t = ok True" and "p \<in> fst ` set (commandRegisters t)"
  shows "res_all (sched_post std held_reorder s) (reorder_send std pos p qi t)"
  unfolding reorder_send_def
proof (intro res_wp)
  fix served pend x r u cr vc
  assume i: "issue_cmd std p qi (t\<lparr>servedFlags := served, queuePending := pend\<rparr>) = ok x" "x = (r, u)"
  have f: "commandRegisters u = commandRegisters t" "srtFIFO u = srtFIFO t"
    using issue_cmd_more [of std p qi _ r u] i bundle_more [of u "t\<lparr>servedFlags := served, queuePending := pend\<rparr>"] by auto
  have c': "collects held_reorder s (t\<lparr>servedFlags := served, queuePending := pend\<rparr>)"
    using c by (simp add: collects_def)
  have h: "held_reorder (u\<lparr>virChannelRegister := vc, commandRegisters := erase_at pos (commandRegisters u)\<rparr>) \<subseteq> held_reorder t"
    using erase_at_subset [of pos "commandRegisters t"] by (auto simp: held_reorder_def f intro: fst_in_image)
  show "sched_post std held_reorder s (r, u\<lparr>virChannelRegister := vc, commandRegisters := erase_at pos (commandRegisters u)\<rparr>)"
    by (rule sched_post_issue [OF c', where p = p and i = qi and r = r and u = u])
      (use assms(2,3) i h in \<open>simp_all add: held_reorder_def\<close>)
qed

lemma reorder_spare_post:
  assumes c: "collects held_reorder s t"
  shows "res_all (sched_post std held_reorder s) (reorder_spare std t)"
  unfolding reorder_spare_def
proof (intro res_all_if res_all_bind2 [OF fifo_scan_go] res_wp)
  fix x c' b y pos z p qi pend w r u
  assume "case x of (c, _) \<Rightarrow> \<forall>(i :: nat) p q. c = Some (i, p, q) \<longrightarrow> p \<in> fst ` set (srtFIFO t) \<and> isIssuable std p t = ok True"
    "x = (c', b)" "c' = Some y" "y = (pos, z)" "z = (p, qi)" and i: "issue_cmd std p qi t = ok w" "w = (r, u)"
  then have p: "p \<in> held_reorder t" "isIssuable std p t = ok True" by (auto simp: held_reorder_def)
  have f: "commandRegisters u = commandRegisters t" "srtFIFO u = srtFIFO t"
    using issue_cmd_more [of std p qi t r u] i bundle_more [of u t] by auto
  have h: "held_reorder (u\<lparr>queuePending := pend, srtFIFO := erase_at pos (srtFIFO u)\<rparr>) \<subseteq> held_reorder t"
    using erase_at_subset [of pos "srtFIFO t"] by (auto simp: held_reorder_def f intro: fst_in_image)
  show "sched_post std held_reorder s (r, u\<lparr>queuePending := pend, srtFIFO := erase_at pos (srtFIFO u)\<rparr>)"
    by (rule sched_post_issue [OF c p(2,1), where i = qi and r = r and u = u]) (use i h in simp_all)
qed (auto intro: sched_post_quiet c)

lemma commandSchedule_ReOrder_post: "res_all (sched_post std held_reorder s) (commandSchedule_ReOrder std s)"
proof -
  have 0: "collects held_reorder s (s\<lparr>scheduledCommand := None\<rparr>)" by (simp add: collects_def held_reorder_def)
  have 1: "res_all (collects held_reorder s) (fold_res reorder_collect is (s\<lparr>scheduledCommand := None\<rparr>))" for "is"
    by (rule res_all_mono [OF collects_fold [OF reorder_collect_ok]]) (rule collects_trans [OF 0])
  have 2: "res_all (collects held_reorder s) (reorder_switch (fold reorder_channel is t))" if "collects held_reorder s t" for t "is"
    by (rule res_all_mono [OF reorder_switch_ok]) (rule collects_trans [OF collects_trans [OF that reorder_channels_ok]])
  show ?thesis unfolding commandSchedule_ReOrder_def
    by (intro res_all_bind2 [OF 1] res_all_bind2 [OF 2] res_all_bind2 [OF reorder_pick_go] res_wp)
      (auto simp: register_go_def intro: reorder_send_post reorder_spare_post)
qed

section \<open>MAG\<close>

definition new_CommandScheduler_MAG :: "'a bundle_sched_scheme \<Rightarrow> 'a bundle_sched_scheme" where
  "new_CommandScheduler_MAG s =
     s\<lparr>casBlocking := False, indexRT := 0, indexHP := 0, bypass := False,
       compensateCommands := replicate (length (csQueues s)) []\<rparr>"

text \<open>The commands that bring a preempted bank back to where it was.\<close>

definition compensation :: "packet \<Rightarrow> packet list" where
  "compensation p =
     (let cmd = (\<lambda>t. new_BusPacket t 0 0 0 0 (pBank p) (pRank p) 0 0 0)
      in if busPacketType p < ACT then [cmd PRE, cmd ACT]
         else if busPacketType p = ACT then [cmd PRE] else [])"

definition compensateGenerator :: "nat \<Rightarrow> 'a bundle_sched_scheme \<Rightarrow> 'a bundle_sched_scheme res" where
  "compensateGenerator queueIndex s =
     bind_res (cq_at queueIndex s) (\<lambda>q.
       if cq_getSize False q > 0
       then bind_res (read_head False queueIndex s) (\<lambda>(p, s1).
            bind_res (nth_res (compensateCommands s1) queueIndex) (\<lambda>c.
              ok (s1\<lparr>compensateCommands := (compensateCommands s1)[queueIndex := c @ compensation p]\<rparr>)))
       else ok s)"

definition wrap_index :: "nat \<Rightarrow> nat \<Rightarrow> nat" where
  "wrap_index n i = (if Suc i = n then 0 else Suc i)"

text \<open>
  One round of the loop over the critical commands: what it reads is kept in \<^verbatim>\<open>tempCmd\<close> from round
  to round.
\<close>

definition mag_look ::
  "device_std \<Rightarrow> packet option \<Rightarrow> 'a bundle_sched_scheme \<Rightarrow> (packet option \<times> 'a bundle_sched_scheme) res" where
  "mag_look std temp s =
     bind_res (cq_at (indexRT s) s) (\<lambda>q.
       if \<not> casBlocking s
       then if cq_getSize True q > 0
            then bind_res (read_head True (indexRT s) s) (\<lambda>(p, s1).
                 bind_res (isReady p (indexRT s1) s1) (\<lambda>r.
                   if r
                   then bind_res (isIssuable std p s1) (\<lambda>b.
                          ok (Some p, if b then s1\<lparr>scheduledCommand := Some p\<rparr>
                                      else if busPacketType p < ACT then s1\<lparr>casBlocking := True\<rparr> else s1))
                   else ok (Some p, s1)))
            else ok (temp, s)
       else bind_res (read_head True (indexRT s) s) (\<lambda>(p, s1).
            bind_res (isIssuable std p s1) (\<lambda>b.
              ok (Some p, if b then s1\<lparr>scheduledCommand := Some p, casBlocking := False\<rparr> else s1))))"

definition mag_preempt :: "nat \<Rightarrow> packet option \<Rightarrow> 'a bundle_sched_scheme \<Rightarrow> 'a bundle_sched_scheme res" where
  "mag_preempt index temp s =
     bind_res (cq_at (indexRT s) s) (\<lambda>q.
       if temp \<noteq> None \<and> cq_getSize False q > 0
       then bind_res (nth_res (compensateCommands s) index) (\<lambda>c.
              if c = [] then compensateGenerator index s else ok s)
       else ok s)"

fun mag_rt ::
  "device_std \<Rightarrow> nat list \<Rightarrow> packet option \<Rightarrow> 'a bundle_sched_scheme \<Rightarrow> (packet option \<times> 'a bundle_sched_scheme) res" where
  "mag_rt std [] temp s = ok (temp, s)"
| "mag_rt std (index # rest) temp s =
     bind_res (mag_look std temp s) (\<lambda>(temp1, s1).
     bind_res (mag_preempt index temp1 s1) (\<lambda>s2.
       if casBlocking s2 then ok (temp1, s2)
       else let s3 = s2\<lparr>indexRT := wrap_index (length (csQueues s2)) (indexRT s2)\<rparr>
            in if scheduledCommand s3 \<noteq> None then ok (temp1, s3) else mag_rt std rest temp1 s3))"

text \<open>The loop over the other commands, with \<^verbatim>\<open>tempCmd\<close> and \<^verbatim>\<open>compCommand\<close>.\<close>

definition mag_next ::
  "packet option \<Rightarrow> bool \<Rightarrow> 'a bundle_sched_scheme \<Rightarrow> (packet option \<times> bool \<times> 'a bundle_sched_scheme) res" where
  "mag_next temp cc s =
     bind_res (nth_res (compensateCommands s) (indexHP s)) (\<lambda>c.
       if c \<noteq> [] then ok (Some (hd c), True, s)
       else bind_res (cq_at (indexHP s) s) (\<lambda>q.
              if cq_getSize False q > 0
              then bind_res (read_head False (indexHP s) s) (\<lambda>(p, s1). ok (Some p, False, s1))
              else ok (temp, cc, s)))"

definition mag_take ::
  "packet \<Rightarrow> bool \<Rightarrow> 'a bundle_sched_scheme \<Rightarrow> 'a bundle_sched_scheme res" where
  "mag_take p cc s =
     (if cc
      then bind_res (nth_res (compensateCommands s) (indexHP s)) (\<lambda>c.
           bind_res (erase_res 0 c) (\<lambda>c'.
             ok (s\<lparr>scheduledCommand := Some p, compensateCommands := (compensateCommands s)[indexHP s := c'], bypass := True\<rparr>)))
      else ok (s\<lparr>scheduledCommand := Some p\<rparr>))"

fun mag_hp ::
  "device_std \<Rightarrow> nat \<Rightarrow> packet option \<Rightarrow> bool \<Rightarrow> 'a bundle_sched_scheme \<Rightarrow> 'a bundle_sched_scheme res" where
  "mag_hp std 0 temp cc s = ok s"
| "mag_hp std (Suc n) temp cc s =
     bind_res (mag_next temp cc s) (\<lambda>(temp1, cc1, s1).
       case temp1 of
         None \<Rightarrow> mag_hp std n None cc1 s1
       | Some p \<Rightarrow>
           bind_res (isIssuable std p s1) (\<lambda>b.
           bind_res (if b then mag_take p cc1 s1 else ok s1) (\<lambda>s2.
             let s3 = s2\<lparr>indexHP := wrap_index (length (csQueues s2)) (indexHP s2)\<rparr>
             in if scheduledCommand s3 \<noteq> None then ok s3 else mag_hp std n temp1 cc1 s3)))"

definition commandSchedule_MAG ::
  "device_std \<Rightarrow> 'a bundle_sched_scheme \<Rightarrow> (packet option \<times> 'a bundle_sched_scheme) res" where
  "commandSchedule_MAG std s =
     (let n = length (csQueues s)
      in bind_res (mag_rt std [0..<n] None (s\<lparr>scheduledCommand := None\<rparr>)) (\<lambda>(temp, s1).
         bind_res (if scheduledCommand s1 = None \<and> \<not> casBlocking s1 then mag_hp std n temp False s1 else ok s1) (\<lambda>s2.
         bind_res (case scheduledCommand s2 of
                     None \<Rightarrow> ok s2
                   | Some p \<Rightarrow> sendCommand std p (unat (pBank p)) (bypass s2) s2) (\<lambda>s3.
           ok (scheduledCommand s3, s3\<lparr>bypass := False\<rparr>)))))"

subsection \<open>It puts only checked commands on the bus\<close>

text \<open>The commands MAG makes up are not posted, so they count as held from the start.\<close>

definition held_mag :: "'a bundle_sched_scheme \<Rightarrow> packet set" where
  "held_mag s = (\<Union>c \<in> set (compensateCommands s). set c) \<union> {p. \<not> postCommand p}"

text \<open>
  The state of a call before the command is sent: nothing was sent yet, what is held was known at
  the start, and so was the command that is scheduled, which the channel accepts.
\<close>

definition keeps :: "device_std \<Rightarrow> ('s cmd_sched_scheme \<Rightarrow> packet set) \<Rightarrow> 's cmd_sched_scheme \<Rightarrow> 's cmd_sched_scheme \<Rightarrow> bool" where
  "keeps std held s t \<longleftrightarrow> quiet s t \<and> held t \<subseteq> held s \<union> cs_cmds s
     \<and> (\<forall>p. scheduledCommand t = Some p \<longrightarrow> p \<in> held s \<union> cs_cmds s \<and> isIssuable std p s = ok True)"

lemma keeps_start: "(\<And>x. held (s\<lparr>scheduledCommand := x\<rparr>) = held s) \<Longrightarrow> keeps std held s (s\<lparr>scheduledCommand := None\<rparr>)"
  by (simp add: keeps_def)

lemma keeps_issuable: "keeps std held s t \<Longrightarrow> isIssuable std p t = isIssuable std p s"
  by (simp add: keeps_def quiet_isIssuable)

lemma keeps_read:
  assumes "keeps std held s t" and "read_head c i t = ok (p, u)" and "\<And>s s'. cmd_sched.more s' = cmd_sched.more s \<Longrightarrow> held s' = held s"
  shows "keeps std held s u" and "p \<in> cs_cmds s" and "scheduledCommand u = scheduledCommand t"
proof -
  have q: "p \<in> cs_cmds t" "quiet t u" using read_head_quiet [OF assms(2)] by auto
  have sc: "scheduledCommand u = scheduledCommand t" using assms(2) by (auto simp: read_head_def res_simps put_cq_def)
  then show "scheduledCommand u = scheduledCommand t" .
  show "p \<in> cs_cmds s" using q assms(1) by (auto simp: keeps_def quiet_def)
  show "keeps std held s u"
    using assms(1) q(2) assms(3) [OF read_head_more [OF assms(2)]] sc quiet_trans by (auto simp: keeps_def)
qed

lemma sched_post_send:
  assumes k: "keeps std held s t" and p: "scheduledCommand t = Some p" and u: "sendCommand std c i b t = ok u"
    and h: "held u' \<subseteq> held t" and "quiet u u'" "csDevice u' = csDevice u"
  shows "sched_post std held s (r, u')"
proof -
  have "isIssuable std p t = ok True" and ps: "p \<in> held s \<union> cs_cmds s" using k p by (auto simp: keeps_def quiet_isIssuable)
  then have "sends std p t u" using sendCommand_sends [OF u p] by blast
  then have "sends std p t u'" using assms(5,6) by (auto simp: sends_def quiet_def)
  then have "bus_step std {p} t u'" by (auto simp: bus_step_def)
  then have "bus_step std {p} s u'" by (rule quiet_bus_step [rotated]) (use k in \<open>auto simp: keeps_def\<close>)
  then have "bus_step std (held s) s u'" using ps by (auto simp: bus_step_def)
  then show ?thesis using h k by (auto simp: sched_post_def keeps_def)
qed

lemma held_mag_more: "cmd_sched.more s' = cmd_sched.more s \<Longrightarrow> held_mag s' = held_mag s"
  using bundle_more [of s' s] by (simp add: held_mag_def)

lemma held_mag_simps [simp]:
  "held_mag (s\<lparr>scheduledCommand := x\<rparr>) = held_mag s" "held_mag (s\<lparr>casBlocking := b\<rparr>) = held_mag s"
  "held_mag (s\<lparr>indexRT := n\<rparr>) = held_mag s" "held_mag (s\<lparr>indexHP := n\<rparr>) = held_mag s" "held_mag (s\<lparr>bypass := b\<rparr>) = held_mag s"
  by (simp_all add: held_mag_def)

lemmas mag_read = keeps_read [where held = held_mag, OF _ _ held_mag_more]

text \<open>The command in \<^verbatim>\<open>tempCmd\<close> is known as well.\<close>

definition mag_keeps :: "device_std \<Rightarrow> 'a bundle_sched_scheme \<Rightarrow> packet option \<times> 'a bundle_sched_scheme \<Rightarrow> bool" where
  "mag_keeps std s = (\<lambda>(temp, t). keeps std held_mag s t \<and> (\<forall>p. temp = Some p \<longrightarrow> p \<in> held_mag s \<union> cs_cmds s))"

lemma mag_look_keeps:
  assumes "mag_keeps std s (temp, t)"
  shows "res_all (mag_keeps std s) (mag_look std temp t)"
  unfolding mag_look_def
proof (intro res_wp)
  have k: "keeps std held_mag s t" using assms by (simp add: mag_keeps_def)
  fix x p u assume x: "read_head True (indexRT t) t = ok x" "x = (p, u)"
  note R = mag_read [OF k, of True "indexRT t" p u]
  have r: "keeps std held_mag s u" "p \<in> cs_cmds s" using R(1,2) x by auto
  then show "mag_keeps std s (Some p, u)" by (simp add: mag_keeps_def)
  fix b assume "isIssuable std p u = ok b"
  then have "b \<Longrightarrow> isIssuable std p s = ok True" using keeps_issuable [OF r(1)] by simp
  then show "mag_keeps std s (Some p, if b then u\<lparr>scheduledCommand := Some p\<rparr>
        else if busPacketType p < ACT then u\<lparr>casBlocking := True\<rparr> else u)"
    "mag_keeps std s (Some p, if b then u\<lparr>scheduledCommand := Some p, casBlocking := False\<rparr> else u)"
    using r by (auto simp: mag_keeps_def keeps_def)
qed (use assms in simp)

lemma set_update_union: "(\<Union>c \<in> set (xs[i := y]). set c) \<subseteq> (\<Union>c \<in> set xs. set c) \<union> set y"
  using set_update_subset_insert [of xs i y] by auto

lemma compensation_unposted: "p \<in> set (compensation q) \<Longrightarrow> \<not> postCommand p"
  by (auto simp: compensation_def Let_def new_BusPacket_def split: if_splits)

lemma compensateGenerator_keeps:
  assumes "keeps std held_mag s t"
  shows "res_all (keeps std held_mag s) (compensateGenerator i t)"
  unfolding compensateGenerator_def
proof (intro res_wp)
  fix x p u c assume x: "read_head False i t = ok x" "x = (p, u)" and c: "nth_res (compensateCommands u) i = ok c"
  have k: "keeps std held_mag s u" using mag_read(1) [OF assms, of False i p u] x by simp
  have "set c \<subseteq> held_mag u" using c by (fastforce simp: held_mag_def nth_res_def split: if_splits)
  then have "held_mag (u\<lparr>compensateCommands := (compensateCommands u)[i := c @ compensation p]\<rparr>) \<subseteq> held_mag u"
    using set_update_union [of "compensateCommands u" i "c @ compensation p"] compensation_unposted [of _ p]
    by (fastforce simp: held_mag_def)
  then show "keeps std held_mag s (u\<lparr>compensateCommands := (compensateCommands u)[i := c @ compensation p]\<rparr>)"
    using k by (auto simp: keeps_def)
qed (rule assms)

lemma mag_preempt_keeps:
  assumes "keeps std held_mag s t"
  shows "res_all (keeps std held_mag s) (mag_preempt i temp t)"
  unfolding mag_preempt_def by (intro res_wp compensateGenerator_keeps assms)

lemma mag_rt_keeps: "mag_keeps std s (temp, t) \<Longrightarrow> res_all (mag_keeps std s) (mag_rt std is temp t)"
proof (induction "is" arbitrary: temp t)
  case (Cons i "is")
  show ?case unfolding mag_rt.simps
  proof (rule res_all_bind2 [OF mag_look_keeps [OF Cons.prems]], intro res_all_prod)
    fix x temp1 t1 assume "mag_keeps std s x" "x = (temp1, t1)"
    then have k: "keeps std held_mag s t1" and p: "\<forall>p. temp1 = Some p \<longrightarrow> p \<in> held_mag s \<union> cs_cmds s"
      by (simp_all add: mag_keeps_def)
    show "res_all (mag_keeps std s) (bind_res (mag_preempt i temp1 t1) (\<lambda>s2.
       if casBlocking s2 then ok (temp1, s2)
       else let s3 = s2\<lparr>indexRT := wrap_index (length (csQueues s2)) (indexRT s2)\<rparr>
            in if scheduledCommand s3 \<noteq> None then ok (temp1, s3) else mag_rt std is temp1 s3))"
      unfolding Let_def
      by (rule res_all_bind2 [OF mag_preempt_keeps [OF k]], intro res_all_if Cons.IH res_all_ok)
        (use p in \<open>auto simp: mag_keeps_def keeps_def\<close>)
  qed
qed simp

lemma mag_next_keeps:
  assumes "mag_keeps std s (temp, t)"
  shows "res_all (\<lambda>(temp1, cc1, t1). mag_keeps std s (temp1, t1)) (mag_next temp cc t)"
  unfolding mag_next_def
proof (intro res_wp)
  have k: "keeps std held_mag s t" using assms by (simp add: mag_keeps_def)
  show "case (temp, cc, t) of (temp1, cc1, t1) \<Rightarrow> mag_keeps std s (temp1, t1)" using assms by simp
  fix c assume "nth_res (compensateCommands t) (indexHP t) = ok c" "c \<noteq> []"
  then have "c \<in> set (compensateCommands t)" "hd c \<in> set c" by (auto simp: nth_res_def split: if_splits)
  then have "hd c \<in> held_mag t" by (auto simp: held_mag_def)
  then show "case (Some (hd c), True, t) of (temp1, cc1, t1) \<Rightarrow> mag_keeps std s (temp1, t1)"
    using k by (auto simp: mag_keeps_def keeps_def)
next
  have k: "keeps std held_mag s t" using assms by (simp add: mag_keeps_def)
  fix x p u assume x: "read_head False (indexHP t) t = ok x" "x = (p, u)"
  show "case (Some p, False, u) of (temp1, cc1, t1) \<Rightarrow> mag_keeps std s (temp1, t1)"
    using mag_read(1,2) [OF k, of False "indexHP t" p u] x by (simp add: mag_keeps_def)
qed

lemma mag_take_keeps:
  assumes k: "keeps std held_mag s t" and p: "p \<in> held_mag s \<union> cs_cmds s" "isIssuable std p t = ok True"
  shows "res_all (keeps std held_mag s) (mag_take p cc t)"
  unfolding mag_take_def
proof (intro res_wp)
  have i: "isIssuable std p s = ok True" using p(2) keeps_issuable [OF k] by simp
  show "keeps std held_mag s (t\<lparr>scheduledCommand := Some p\<rparr>)" using k p(1) i by (simp add: keeps_def)
  fix c c' assume c: "nth_res (compensateCommands t) (indexHP t) = ok c" "erase_res 0 c = ok c'"
  then have "set c' \<subseteq> held_mag t"
    using erase_at_subset [of 0 c] by (fastforce simp: held_mag_def nth_res_def erase_res_def split: if_splits)
  then have "held_mag (t\<lparr>compensateCommands := (compensateCommands t)[indexHP t := c']\<rparr>) \<subseteq> held_mag t"
    using set_update_union [of "compensateCommands t" "indexHP t" c'] by (fastforce simp: held_mag_def)
  then show "keeps std held_mag s (t\<lparr>scheduledCommand := Some p, compensateCommands := (compensateCommands t)[indexHP t := c'], bypass := True\<rparr>)"
    using k p(1) i by (auto simp: keeps_def held_mag_def)
qed

lemma mag_hp_keeps: "mag_keeps std s (temp, t) \<Longrightarrow> res_all (keeps std held_mag s) (mag_hp std n temp cc t)"
proof (induction n arbitrary: temp cc t)
  case 0
  then show ?case by (simp add: mag_keeps_def)
next
  case (Suc n)
  show ?case unfolding mag_hp.simps
  proof (rule res_all_bind2 [OF mag_next_keeps [OF Suc.prems]], intro res_all_prod res_all_option)
    fix x temp1 y and cc1 :: bool and t1 assume "case x of (temp1, cc1, t1) \<Rightarrow> mag_keeps std s (temp1, t1)" "x = (temp1, y)" "y = (cc1, t1)"
    then have I: "mag_keeps std s (temp1, t1)" by simp
    {
      assume "temp1 = None"
      then show "res_all (keeps std held_mag s) (mag_hp std n None cc1 t1)" using Suc.IH I by blast
    }
    fix p assume p: "temp1 = Some p"
    have k: "keeps std held_mag s t1" and ps: "p \<in> held_mag s \<union> cs_cmds s" using I p by (auto simp: mag_keeps_def)
    show "res_all (keeps std held_mag s) (bind_res (isIssuable std p t1) (\<lambda>b.
           bind_res (if b then mag_take p cc1 t1 else ok t1) (\<lambda>s2.
             let s3 = s2\<lparr>indexHP := wrap_index (length (csQueues s2)) (indexHP s2)\<rparr>
             in if scheduledCommand s3 \<noteq> None then ok s3 else mag_hp std n temp1 cc1 s3)))"
    proof (rule res_all_bind)
      fix b assume b: "isIssuable std p t1 = ok b"
      have "res_all (keeps std held_mag s) (if b then mag_take p cc1 t1 else ok t1)"
        using mag_take_keeps [OF k ps] b k by auto
      then show "res_all (keeps std held_mag s) (bind_res (if b then mag_take p cc1 t1 else ok t1) (\<lambda>s2.
             let s3 = s2\<lparr>indexHP := wrap_index (length (csQueues s2)) (indexHP s2)\<rparr>
             in if scheduledCommand s3 \<noteq> None then ok s3 else mag_hp std n temp1 cc1 s3))"
        unfolding Let_def
        by (rule res_all_bind2, intro res_all_if Suc.IH res_all_ok) (use p ps in \<open>auto simp: mag_keeps_def keeps_def\<close>)
    qed
  qed
qed

lemma sendCommand_more: "sendCommand std c i b s = ok t \<Longrightarrow> cmd_sched.more t = cmd_sched.more s"
  by (auto simp: sendCommand_def Let_def put_cq_def res_simps split: if_splits option.splits)

lemma mag_finish_post:
  assumes k: "keeps std held_mag s t"
    and u: "(case scheduledCommand t of None \<Rightarrow> ok t | Some p \<Rightarrow> sendCommand std p (unat (pBank p)) (bypass t) t) = ok u"
  shows "sched_post std held_mag s (scheduledCommand u, u\<lparr>bypass := False\<rparr>)"
proof (cases "scheduledCommand t")
  case None
  then show ?thesis using u k by (intro sched_post_quiet) (simp add: collects_def keeps_def)
next
  case (Some p)
  then have u: "sendCommand std p (unat (pBank p)) (bypass t) t = ok u" using u by simp
  show ?thesis
    by (rule sched_post_send [OF k Some u]) (use held_mag_more [OF sendCommand_more [OF u]] in simp_all)
qed

lemma commandSchedule_MAG_post: "res_all (sched_post std held_mag s) (commandSchedule_MAG std s)"
proof -
  have start: "mag_keeps std s (None, s\<lparr>scheduledCommand := None\<rparr>)" by (simp add: mag_keeps_def keeps_start)
  have hp: "res_all (keeps std held_mag s)
      (if scheduledCommand s1 = None \<and> \<not> casBlocking s1 then mag_hp std (length (csQueues s)) temp False s1 else ok s1)"
    if "mag_keeps std s (temp, s1)" for temp s1
    using mag_hp_keeps [OF that] that by (simp add: mag_keeps_def)
  show ?thesis unfolding commandSchedule_MAG_def Let_def
    by (intro res_all_bind2 [OF mag_rt_keeps [OF start]] res_all_prod res_all_bind2 [OF hp] res_all_bind res_all_ok mag_finish_post)
      auto
qed

section \<open>Interpretations\<close>

definition reorder_initial :: "'a bundle_sched_scheme \<Rightarrow> bool" where
  "reorder_initial s \<longleftrightarrow> commandRegisters s = [] \<and> srtFIFO s = []"

definition mag_initial :: "'a bundle_sched_scheme \<Rightarrow> bool" where
  "mag_initial s \<longleftrightarrow> (\<forall>c \<in> set (compensateCommands s). c = [])"

lemma bundle_constructors_initial:
  "reorder_initial (new_CommandScheduler_ReOrder s)" "mag_initial (new_CommandScheduler_MAG s)"
  by (simp_all add: reorder_initial_def mag_initial_def new_CommandScheduler_ReOrder_def new_CommandScheduler_MAG_def)

lemma held_reorder_more: "cmd_sched.more s' = cmd_sched.more s \<Longrightarrow> held_reorder s' = held_reorder s"
  using bundle_more [of s' s] by (simp add: held_reorder_def)

interpretation reorder: command_scheduler commandSchedule_ReOrder reorder_initial held_reorder
  by (rule command_schedulerI [OF commandSchedule_ReOrder_post _ held_reorder_more])
    (auto simp: reorder_initial_def held_reorder_def)

interpretation mag: command_scheduler commandSchedule_MAG mag_initial held_mag
  by (rule command_schedulerI [OF commandSchedule_MAG_post _ held_mag_more]) (auto simp: mag_initial_def held_mag_def)

end
