(* ===== verification/RocPolicy.thy ===== *)
theory RocPolicy
  imports BundlePolicies
begin

text \<open>
  \<^verbatim>\<open>src/system/ROC/CommandScheduler_ROC.h\<close>: three levels of arbitration with one FIFO per rank and
  kind of command. The buffers and the timing parameters are set up by the first call, when the
  clock is 1. \<open>nreq\<close> is the number of entries of the table of requestors; \<^verbatim>\<open>prevRank\<close>, \<^verbatim>\<open>readToWrite\<close>
  and \<^verbatim>\<open>writeToRead\<close> are written and never read.
\<close>

record roc_sched = bundle_sched +
  rankFIFO_L3PA :: "packet list list"
  rankFIFO_L3CAS :: "packet list list"
  l2_PA :: "packet option list"
  l2_PAindex :: nat
  l2_CAS :: "packet option list"
  l2_CAStimer :: "u64 list"
  l2_CASindex :: nat
  prevEnd :: u64
  prevCmd :: BusPacketType
  prevRank :: u32
  roc_tCCD :: u32
  roc_tRTR :: u32
  readLatency :: u32
  writeLatency :: u32
  readToWrite :: u32
  writeToRead :: u32
  roc_ranks :: nat

definition new_CommandScheduler_ROC :: "'a roc_sched_scheme \<Rightarrow> 'a roc_sched_scheme" where
  "new_CommandScheduler_ROC s =
     s\<lparr>rankFIFO_L3PA := [], rankFIFO_L3CAS := [], l2_PA := [], l2_CAS := [], l2_CAStimer := [], queuePending := [],
       prevEnd := 0, prevCmd := RD, prevRank := 0, roc_ranks := 4\<rparr>"

definition roc_init :: "nat \<Rightarrow> device_std \<Rightarrow> 'a roc_sched_scheme \<Rightarrow> 'a roc_sched_scheme" where
  "roc_init nreq std s =
     (if csClock s = 1
      then let rl = getTiming std ''tRL''; wl = getTiming std ''tWL''; n = roc_ranks s
           in s\<lparr>roc_tCCD := getTiming std ''tCCD'', roc_tRTR := getTiming std ''tRTR'', readLatency := rl,
                writeLatency := wl, readToWrite := getTiming std ''tRTW'' + wl,
                writeToRead := wl + getTiming std ''tBus'' + getTiming std ''tWTR'' + rl,
                rankFIFO_L3PA := rankFIFO_L3PA s @ replicate n [], rankFIFO_L3CAS := rankFIFO_L3CAS s @ replicate n [],
                l2_PA := l2_PA s @ replicate n None, l2_PAindex := 0, l2_CAS := l2_CAS s @ replicate n None,
                l2_CAStimer := l2_CAStimer s @ replicate n 0, l2_CASindex := 0,
                queuePending := queuePending s @ replicate nreq False\<rparr>
      else s)"

text \<open>\<^verbatim>\<open>v[i].push_back(x)\<close>\<close>

definition push_at :: "nat \<Rightarrow> 'b \<Rightarrow> 'b list list \<Rightarrow> 'b list list res" where
  "push_at i x xss = bind_res (nth_res xss i) (\<lambda>xs. ok (xss[i := xs @ [x]]))"

section \<open>Level 3: from the queues to the FIFOs of the ranks\<close>

definition roc_lane :: "nat \<Rightarrow> nat \<Rightarrow> 'a roc_sched_scheme \<Rightarrow> 'a roc_sched_scheme res" where
  "roc_lane index req s =
     bind_res (cq_at index s) (\<lambda>q.
     bind_res (lane_head req q) (\<lambda>h.
       case h of
         None \<Rightarrow> ok s
       | Some p \<Rightarrow>
           bind_res (nth_res (queuePending s) (unat (pRequestorID p))) (\<lambda>pending.
             if pending then ok s
             else bind_res (isReady p index s) (\<lambda>r.
                    if \<not> r then ok s
                    else let s1 = s\<lparr>queuePending := (queuePending s)[unat (pRequestorID p) := True]\<rparr>
                         in if busPacketType p < ACT
                            then bind_res (push_at (unat (pRank p)) p (rankFIFO_L3CAS s1)) (\<lambda>f. ok (s1\<lparr>rankFIFO_L3CAS := f\<rparr>))
                            else bind_res (push_at (unat (pRank p)) p (rankFIFO_L3PA s1)) (\<lambda>f. ok (s1\<lparr>rankFIFO_L3PA := f\<rparr>))))))"

definition roc_collect :: "nat \<Rightarrow> 'a roc_sched_scheme \<Rightarrow> 'a roc_sched_scheme res" where
  "roc_collect index s =
     bind_res (nth_res (queuePending s) index) (\<lambda>pending.
       if pending then ok s
       else bind_res (cq_at index s) (\<lambda>q. fold_res (roc_lane index) [0..<getRequestorIndex q] s))"

section \<open>Level 2: one command of each kind per rank\<close>

definition roc_rank_PA :: "device_std \<Rightarrow> nat \<Rightarrow> 'a roc_sched_scheme \<Rightarrow> 'a roc_sched_scheme res" where
  "roc_rank_PA std rk s =
     bind_res (nth_res (rankFIFO_L3PA s) rk) (\<lambda>f.
     bind_res (nth_res (l2_PA s) rk) (\<lambda>l.
       if l \<noteq> None then ok s
       else bind_res (act_pre_scan std 0 f s) (\<lambda>c.
              case c of
                None \<Rightarrow> ok s
              | Some (i, p) \<Rightarrow> ok (s\<lparr>l2_PA := (l2_PA s)[rk := Some p],
                                   rankFIFO_L3PA := (rankFIFO_L3PA s)[rk := erase_at i f]\<rparr>))))"

definition roc_rank_CAS :: "nat \<Rightarrow> 'a roc_sched_scheme \<Rightarrow> 'a roc_sched_scheme res" where
  "roc_rank_CAS rk s =
     bind_res (nth_res (rankFIFO_L3CAS s) rk) (\<lambda>f.
     bind_res (nth_res (l2_CAS s) rk) (\<lambda>l.
       case f of
         [] \<Rightarrow> ok s
       | p # f' \<Rightarrow> if l \<noteq> None then ok s
                    else ok (s\<lparr>l2_CAS := (l2_CAS s)[rk := Some p], rankFIFO_L3CAS := (rankFIFO_L3CAS s)[rk := f']\<rparr>)))"

definition roc_rank :: "device_std \<Rightarrow> nat \<Rightarrow> 'a roc_sched_scheme \<Rightarrow> 'a roc_sched_scheme res" where
  "roc_rank std rk s = bind_res (roc_rank_PA std rk s) (roc_rank_CAS rk)"

section \<open>Level 1: one command\<close>

text \<open>
  The loop over the accesses of the ranks, in turn, with \<^verbatim>\<open>checkCommand\<close> and \<^verbatim>\<open>scheduledIndex\<close>. An
  access that is due and not issuable ends the loop.
\<close>

fun roc_turn :: "device_std \<Rightarrow> nat \<Rightarrow> bool \<Rightarrow> nat \<Rightarrow> 'a roc_sched_scheme \<Rightarrow> (bool \<times> nat \<times> 'a roc_sched_scheme) res" where
  "roc_turn std 0 found si s = ok (found, si, s)"
| "roc_turn std (Suc n) found si s =
     (let i = l2_CASindex s; s' = s\<lparr>l2_CASindex := wrap_index (length (l2_CAS s)) i\<rparr>
      in bind_res (nth_res (l2_CAS s) i) (\<lambda>c.
         bind_res (nth_res (l2_CAStimer s) i) (\<lambda>tm.
           case c of
             None \<Rightarrow> roc_turn std n found si s'
           | Some p \<Rightarrow>
               if tm \<le> prevEnd s + ucast (roc_tRTR s)
               then bind_res (isIssuable std p s) (\<lambda>b.
                      if b then ok (True, i, s'\<lparr>scheduledCommand := Some p\<rparr>) else ok (True, i, s))
               else roc_turn std n found si s')))"

text \<open>Without a due access, the one with the smallest deadline below that of rank 0.\<close>

fun roc_smallest :: "nat list \<Rightarrow> u64 \<Rightarrow> nat \<Rightarrow> 'a roc_sched_scheme \<Rightarrow> nat res" where
  "roc_smallest [] smallSD si s = ok si"
| "roc_smallest (i # rest) smallSD si s =
     bind_res (nth_res (l2_CAS s) i) (\<lambda>c.
     bind_res (nth_res (l2_CAStimer s) i) (\<lambda>tm.
       if c \<noteq> None \<and> tm < smallSD then roc_smallest rest tm i s else roc_smallest rest smallSD si s))"

definition roc_early :: "device_std \<Rightarrow> nat \<Rightarrow> 'a roc_sched_scheme \<Rightarrow> (nat \<times> 'a roc_sched_scheme) res" where
  "roc_early std si s =
     bind_res (nth_res (l2_CAStimer s) 0) (\<lambda>small.
     bind_res (roc_smallest [0..<length (l2_CAStimer s)] small si s) (\<lambda>i.
     bind_res (nth_res (l2_CAS s) i) (\<lambda>c.
       case c of
         None \<Rightarrow> ok (i, s)
       | Some p \<Rightarrow> bind_res (isIssuable std p s) (\<lambda>b. ok (i, if b then s\<lparr>scheduledCommand := Some p\<rparr> else s)))))"

definition roc_note :: "nat \<Rightarrow> 'a roc_sched_scheme \<Rightarrow> 'a roc_sched_scheme" where
  "roc_note si s =
     (case scheduledCommand s of
        None \<Rightarrow> s
      | Some p \<Rightarrow>
          let e = csClock s + ucast (if busPacketType p = RD then readLatency s else writeLatency s) + ucast (roc_tCCD s)
          in s\<lparr>prevCmd := busPacketType p, prevRank := 0, prevEnd := e,
               l2_CAStimer := map (\<lambda>(i, tm). if i < length (l2_CAS s) \<and> i \<noteq> si then e + ucast (roc_tRTR s) else tm)
                                (enumerate 0 (l2_CAStimer s)),
               l2_CAS := (l2_CAS s)[si := None]\<rparr>)"

fun roc_PA :: "device_std \<Rightarrow> nat \<Rightarrow> 'a roc_sched_scheme \<Rightarrow> 'a roc_sched_scheme res" where
  "roc_PA std 0 s = ok s"
| "roc_PA std (Suc n) s =
     (let i = l2_PAindex s; s' = s\<lparr>l2_PAindex := wrap_index (length (l2_PA s)) i\<rparr>
      in bind_res (nth_res (l2_PA s) i) (\<lambda>c.
           case c of
             None \<Rightarrow> roc_PA std n s'
           | Some p \<Rightarrow>
               bind_res (isIssuable std p s) (\<lambda>b.
                 if b then ok (s'\<lparr>scheduledCommand := Some p, l2_PA := (l2_PA s')[i := None]\<rparr>)
                 else roc_PA std n s')))"

definition roc_send :: "device_std \<Rightarrow> 'a roc_sched_scheme \<Rightarrow> (packet option \<times> 'a roc_sched_scheme) res" where
  "roc_send std s =
     (case scheduledCommand s of
        None \<Rightarrow> ok (None, s)
      | Some p \<Rightarrow>
          bind_res (sendCommand std p 0 False s) (\<lambda>s1.
          bind_res (update_res (queuePending s1) (unat (pRequestorID p)) False) (\<lambda>pend.
            ok (scheduledCommand s1, s1\<lparr>queuePending := pend\<rparr>))))"

definition commandSchedule_ROC ::
  "nat \<Rightarrow> device_std \<Rightarrow> 'a roc_sched_scheme \<Rightarrow> (packet option \<times> 'a roc_sched_scheme) res" where
  "commandSchedule_ROC nreq std s =
     (let s0 = (roc_init nreq std s)\<lparr>scheduledCommand := None\<rparr>
      in bind_res (fold_res roc_collect [0..<length (csQueues s0)] s0) (\<lambda>s1.
         bind_res (fold_res (roc_rank std) [0..<roc_ranks s1] s1) (\<lambda>s2.
         bind_res (roc_turn std (length (l2_CAStimer s2)) False 0 s2) (\<lambda>(found, si, s3).
         bind_res (if found then ok (si, s3) else roc_early std si s3) (\<lambda>(si', s4).
           let s5 = roc_note si' s4
           in bind_res (if scheduledCommand s5 = None then roc_PA std (length (l2_PA s5)) s5 else ok s5) (roc_send std))))))"

section \<open>It puts only checked commands on the bus\<close>

definition held_roc :: "'a roc_sched_scheme \<Rightarrow> packet set" where
  "held_roc s = (\<Union>f \<in> set (rankFIFO_L3PA s). set f) \<union> (\<Union>f \<in> set (rankFIFO_L3CAS s). set f)
     \<union> {p. Some p \<in> set (l2_PA s)} \<union> {p. Some p \<in> set (l2_CAS s)}"

lemma roc_quiet [simp]:
  "quiet s (t\<lparr>rankFIFO_L3PA := f\<rparr>) = quiet s t" "quiet s (t\<lparr>rankFIFO_L3CAS := f\<rparr>) = quiet s t"
  "quiet s (t\<lparr>l2_PA := l\<rparr>) = quiet s t" "quiet s (t\<lparr>l2_CAS := l\<rparr>) = quiet s t"
  "quiet s (t\<lparr>l2_PAindex := n\<rparr>) = quiet s t" "quiet s (t\<lparr>l2_CASindex := n\<rparr>) = quiet s t"
  "quiet s (t\<lparr>l2_CAStimer := m\<rparr>) = quiet s t" "quiet s (t\<lparr>prevEnd := e\<rparr>) = quiet s t"
  "quiet s (t\<lparr>prevCmd := c\<rparr>) = quiet s t" "quiet s (t\<lparr>prevRank := r\<rparr>) = quiet s t"
  by (simp_all add: quiet_def cs_cmds_def)

lemma held_roc_simps [simp]:
  "held_roc (s\<lparr>scheduledCommand := x\<rparr>) = held_roc s" "held_roc (s\<lparr>queuePending := q\<rparr>) = held_roc s"
  "held_roc (s\<lparr>l2_PAindex := n\<rparr>) = held_roc s" "held_roc (s\<lparr>l2_CASindex := n\<rparr>) = held_roc s"
  by (simp_all add: held_roc_def)

lemma held_roc_more: "cmd_sched.more s' = cmd_sched.more s \<Longrightarrow> held_roc s' = held_roc s"
  by (cases s; cases s') (simp add: held_roc_def)

lemma roc_init_keeps: "keeps std held_roc s ((roc_init nreq std s)\<lparr>scheduledCommand := None\<rparr>)"
proof -
  have "quiet s (roc_init nreq std s)" by (simp add: roc_init_def Let_def quiet_def cs_cmds_def)
  moreover have "held_roc (roc_init nreq std s) \<subseteq> held_roc s" by (auto simp: roc_init_def Let_def held_roc_def)
  ultimately show ?thesis by (auto simp: keeps_def)
qed

lemma list_update_memD: "z \<in> set (xs[i := y]) \<Longrightarrow> z = y \<or> z \<in> set xs"
  using set_update_subset_insert [of xs i y] by auto

lemma push_at_union: "push_at i x xss = ok yss \<Longrightarrow> (\<Union>f \<in> set yss. set f) \<subseteq> insert x (\<Union>f \<in> set xss. set f)"
proof -
  assume "push_at i x xss = ok yss"
  then have i: "i < length xss" and y: "yss = xss[i := xss ! i @ [x]]" by (auto simp: push_at_def res_simps)
  then show ?thesis using set_update_union [of xss i "xss ! i @ [x]"] nth_mem [OF i] by fastforce
qed

lemma keeps_shrink:
  "keeps std held s t \<Longrightarrow> quiet t u \<Longrightarrow> held u \<subseteq> held t \<union> held s \<union> cs_cmds s \<Longrightarrow> scheduledCommand u = scheduledCommand t \<Longrightarrow>
     keeps std held s u"
  using quiet_trans by (fastforce simp: keeps_def)

lemma roc_lane_keeps:
  assumes k: "keeps std held_roc s t"
  shows "res_all (keeps std held_roc s) (roc_lane index req t)"
  unfolding roc_lane_def
proof (intro res_wp)
  fix q h p s1 f assume h: "cq_at index t = ok q" "lane_head req q = ok h" "h = Some p"
    and s1: "s1 = t\<lparr>queuePending := (queuePending t)[unat (pRequestorID p) := True]\<rparr>"
  have "p \<in> cs_cmds t"
    using h by (auto simp: lane_head_def cq_at_def res_simps split: if_splits dest: getRequestorCommand_cmds cs_cmds_nth)
  then have p: "p \<in> cs_cmds s" using k by (auto simp: keeps_def quiet_def)
  {
    assume "push_at (unat (pRank p)) p (rankFIFO_L3CAS s1) = ok f"
    from push_at_union [OF this] have "held_roc (s1\<lparr>rankFIFO_L3CAS := f\<rparr>) \<subseteq> insert p (held_roc t)" by (auto simp: held_roc_def s1)
    then show "keeps std held_roc s (s1\<lparr>rankFIFO_L3CAS := f\<rparr>)" using p by (intro keeps_shrink [OF k]) (auto simp: s1)
  next
    assume "push_at (unat (pRank p)) p (rankFIFO_L3PA s1) = ok f"
    from push_at_union [OF this] have "held_roc (s1\<lparr>rankFIFO_L3PA := f\<rparr>) \<subseteq> insert p (held_roc t)" by (auto simp: held_roc_def s1)
    then show "keeps std held_roc s (s1\<lparr>rankFIFO_L3PA := f\<rparr>)" using p by (intro keeps_shrink [OF k]) (auto simp: s1)
  }
qed (rule k)+

lemma roc_collect_keeps:
  assumes "keeps std held_roc s t"
  shows "res_all (keeps std held_roc s) (roc_collect index t)"
  unfolding roc_collect_def by (intro res_wp res_all_fold assms roc_lane_keeps)

lemma roc_rank_PA_keeps:
  assumes k: "keeps std held_roc s t"
  shows "res_all (keeps std held_roc s) (roc_rank_PA std rk t)"
  unfolding roc_rank_PA_def
proof (intro res_wp k)
  fix f l c x i p assume f: "nth_res (rankFIFO_L3PA t) rk = ok f" and c: "act_pre_scan std 0 f t = ok c" "c = Some x" "x = (i, p)"
  then have p: "p \<in> set f" and fi: "f \<in> set (rankFIFO_L3PA t)"
    using res_allD [OF act_pre_scan_go c(1)] by (auto simp: nth_res_def split: if_splits)
  have "held_roc (t\<lparr>l2_PA := (l2_PA t)[rk := Some p], rankFIFO_L3PA := (rankFIFO_L3PA t)[rk := erase_at i f]\<rparr>) \<subseteq> held_roc t"
    using erase_at_subset [of i f] p fi
    by (auto simp: held_roc_def dest!: list_update_memD)
  then show "keeps std held_roc s (t\<lparr>l2_PA := (l2_PA t)[rk := Some p], rankFIFO_L3PA := (rankFIFO_L3PA t)[rk := erase_at i f]\<rparr>)"
    by (intro keeps_shrink [OF k]) auto
qed

lemma roc_rank_CAS_keeps:
  assumes k: "keeps std held_roc s t"
  shows "res_all (keeps std held_roc s) (roc_rank_CAS rk t)"
  unfolding roc_rank_CAS_def
proof (intro res_all_bind)
  fix f l assume "nth_res (rankFIFO_L3CAS t) rk = ok f"
  then have fi: "f \<in> set (rankFIFO_L3CAS t)" by (auto simp: nth_res_def split: if_splits)
  have "keeps std held_roc s (t\<lparr>l2_CAS := (l2_CAS t)[rk := Some p], rankFIFO_L3CAS := (rankFIFO_L3CAS t)[rk := f']\<rparr>)"
    if f: "f = p # f'" for p f'
  proof (rule keeps_shrink [OF k])
    show "held_roc (t\<lparr>l2_CAS := (l2_CAS t)[rk := Some p], rankFIFO_L3CAS := (rankFIFO_L3CAS t)[rk := f']\<rparr>) \<subseteq> held_roc t \<union> held_roc s \<union> cs_cmds s"
      using fi f by (auto simp: held_roc_def dest!: list_update_memD)
  qed simp_all
  then show "res_all (keeps std held_roc s) (case f of [] \<Rightarrow> ok t
       | p # f' \<Rightarrow> if l \<noteq> None then ok t
                    else ok (t\<lparr>l2_CAS := (l2_CAS t)[rk := Some p], rankFIFO_L3CAS := (rankFIFO_L3CAS t)[rk := f']\<rparr>))"
    using k by (cases f) auto
qed

lemma roc_rank_keeps:
  assumes "keeps std held_roc s t"
  shows "res_all (keeps std held_roc s) (roc_rank std rk t)"
  unfolding roc_rank_def by (rule res_all_bind2 [OF roc_rank_PA_keeps [OF assms] roc_rank_CAS_keeps])

text \<open>Scheduling a command of a buffer.\<close>

lemma keeps_schedule:
  assumes "keeps std held s t" and "isIssuable std p t = ok True" and "p \<in> held t" and "quiet t u" and "held u \<subseteq> held t"
    and "scheduledCommand u = Some p"
  shows "keeps std held s u"
  using assms keeps_issuable [OF assms(1), of p] quiet_trans by (fastforce simp: keeps_def)

lemma nth_some_held:
  "nth_res (l2_CAS t) i = ok (Some p) \<Longrightarrow> p \<in> held_roc t" "nth_res (l2_PA t) i = ok (Some p) \<Longrightarrow> p \<in> held_roc t"
  by (auto simp: held_roc_def nth_res_def split: if_splits) (metis nth_mem)+

lemma roc_turn_keeps:
  "keeps std held_roc s t \<Longrightarrow> res_all (\<lambda>(found, si, u). keeps std held_roc s u) (roc_turn std n found si t)"
proof (induction n arbitrary: found si t)
  case (Suc n)
  have k: "keeps std held_roc s (t\<lparr>l2_CASindex := j\<rparr>)" for j by (rule keeps_shrink [OF Suc.prems]) auto
  show ?case unfolding roc_turn.simps Let_def
  proof (intro res_all_bind res_all_option res_all_if Suc.IH k res_all_ok)
    fix c p b assume "nth_res (l2_CAS t) (l2_CASindex t) = ok c" "c = Some p" "isIssuable std p t = ok b" b
    then show "case (True, l2_CASindex t, t\<lparr>l2_CASindex := wrap_index (length (l2_CAS t)) (l2_CASindex t), scheduledCommand := Some p\<rparr>) of
       (found, si, u) \<Rightarrow> keeps std held_roc s u"
      using nth_some_held(1) [of t "l2_CASindex t" p] by (simp add: keeps_schedule [OF Suc.prems])
  qed (use Suc.prems in simp)
qed simp

lemma roc_early_keeps:
  assumes k: "keeps std held_roc s t"
  shows "res_all (\<lambda>(si, u). keeps std held_roc s u) (roc_early std si t)"
  unfolding roc_early_def
proof (intro res_all_bind res_all_option res_all_ok)
  fix i c p b assume "nth_res (l2_CAS t) i = ok c" "c = Some p" "isIssuable std p t = ok b"
  then show "case (i, if b then t\<lparr>scheduledCommand := Some p\<rparr> else t) of (si, u) \<Rightarrow> keeps std held_roc s u"
    using k nth_some_held(1) [of t i p] by (auto simp: keeps_schedule [OF k])
qed (use k in simp)

lemma roc_note_keeps:
  assumes k: "keeps std held_roc s t"
  shows "keeps std held_roc s (roc_note si t)"
proof (rule keeps_shrink [OF k])
  show "quiet t (roc_note si t)" "scheduledCommand (roc_note si t) = scheduledCommand t"
    by (simp_all add: roc_note_def Let_def split: option.split)
  have "held_roc (roc_note si t) \<subseteq> held_roc t"
    by (auto simp: roc_note_def Let_def held_roc_def dest!: list_update_memD split: option.splits)
  then show "held_roc (roc_note si t) \<subseteq> held_roc t \<union> held_roc s \<union> cs_cmds s" by blast
qed

lemma roc_PA_keeps: "keeps std held_roc s t \<Longrightarrow> res_all (keeps std held_roc s) (roc_PA std n t)"
proof (induction n arbitrary: t)
  case (Suc n)
  have k: "keeps std held_roc s (t\<lparr>l2_PAindex := j\<rparr>)" for j by (rule keeps_shrink [OF Suc.prems]) auto
  show ?case unfolding roc_PA.simps Let_def
  proof (intro res_all_bind res_all_option res_all_if Suc.IH k res_all_ok)
    fix c p b assume c: "nth_res (l2_PA t) (l2_PAindex t) = ok c" "c = Some p" and b: "isIssuable std p t = ok b" b
    let ?u = "t\<lparr>l2_PAindex := wrap_index (length (l2_PA t)) (l2_PAindex t)\<rparr>"
    show "keeps std held_roc s (?u\<lparr>scheduledCommand := Some p, l2_PA := (l2_PA ?u)[l2_PAindex t := None]\<rparr>)"
      by (rule keeps_schedule [OF Suc.prems, of p])
        (use b c nth_some_held(2) [of t "l2_PAindex t" p] in \<open>auto simp: held_roc_def dest!: list_update_memD\<close>)
  qed
qed simp

lemma roc_send_post:
  assumes k: "keeps std held_roc s t"
  shows "res_all (sched_post std held_roc s) (roc_send std t)"
  unfolding roc_send_def
proof (intro res_all_option res_all_bind res_all_ok)
  show "sched_post std held_roc s (None, t)" using k by (intro sched_post_quiet) (simp add: collects_def keeps_def)
  fix p u pend assume p: "scheduledCommand t = Some p" and u: "sendCommand std p 0 False t = ok u"
  show "sched_post std held_roc s (scheduledCommand u, u\<lparr>queuePending := pend\<rparr>)"
    by (rule sched_post_send [OF k p u]) (use held_roc_more [OF sendCommand_more [OF u]] in simp_all)
qed

lemma commandSchedule_ROC_post: "res_all (sched_post std held_roc s) (commandSchedule_ROC nreq std s)"
proof -
  have 1: "res_all (keeps std held_roc s) (fold_res roc_collect is t)" if "keeps std held_roc s t" for "is" t
    by (rule res_all_fold [OF that roc_collect_keeps])
  have 2: "res_all (keeps std held_roc s) (fold_res (roc_rank std) is t)" if "keeps std held_roc s t" for "is" t
    by (rule res_all_fold [OF that roc_rank_keeps])
  have 4: "res_all (\<lambda>(si, u). keeps std held_roc s u) (if found then ok (si, t) else roc_early std si t)"
    if "keeps std held_roc s t" for found si t
    using roc_early_keeps [OF that] that by simp
  have 5: "res_all (keeps std held_roc s) (if scheduledCommand t = None then roc_PA std n t else ok t)" if "keeps std held_roc s t" for n t
    using roc_PA_keeps [OF that] that by simp
  show ?thesis unfolding commandSchedule_ROC_def Let_def
    by (rule res_all_bind2 [OF 1 [OF roc_init_keeps]], erule res_all_bind2 [OF 2], erule res_all_bind2 [OF roc_turn_keeps],
        intro res_all_prod, rule res_all_bind2 [OF 4], blast, intro res_all_prod,
        rule res_all_bind2 [OF 5 [OF roc_note_keeps]], blast, erule roc_send_post)
qed

definition roc_initial :: "'a roc_sched_scheme \<Rightarrow> bool" where
  "roc_initial s \<longleftrightarrow> held_roc s = {}"

lemma new_CommandScheduler_ROC_initial: "roc_initial (new_CommandScheduler_ROC s)"
  by (simp add: roc_initial_def held_roc_def new_CommandScheduler_ROC_def)

interpretation roc: command_scheduler "commandSchedule_ROC nreq" roc_initial held_roc for nreq
  by (rule command_schedulerI [OF commandSchedule_ROC_post _ held_roc_more]) (simp add: roc_initial_def)

end
