(* ===== verification/PipeCasPolicy.thy ===== *)
theory PipeCasPolicy
  imports RocPolicy
begin

text \<open>
  \<^verbatim>\<open>src/system/PipeCAS/CommandScheduler_PIPECAS.h\<close>: rounds of critical accesses of one type, with
  the other commands in the gaps. \<^verbatim>\<open>queueServed\<close> is a vector of integers that holds only \<^verbatim>\<open>false\<close> and
  \<^verbatim>\<open>true\<close>; the counters of accesses \<^verbatim>\<open>srtRD\<close> and \<^verbatim>\<open>srtWR\<close> are not set by the constructor.
\<close>

record pipecas_sched = roc_sched +
  roundType :: BusPacketType
  roundSRT :: BusPacketType
  srtN_ACT :: u32
  srtNum_ACT :: u32
  roundStart :: bool
  prevCAS :: BusPacketType
  casCounter :: u32
  actCounter :: u32
  fawCounter :: "u32 list"
  queueScheduled :: "nat list"
  queueServed :: "bool list"
  hrtCAS :: "(packet \<times> nat) list"
  hrtACT :: "(packet \<times> nat) list"
  srtCAS :: "(packet \<times> nat) list"
  srtACT :: "(packet \<times> nat) list"
  srtPRE :: "(packet \<times> nat) list"
  srtRD :: u32
  srtWR :: u32
  scheduledIndex :: nat

definition new_CommandScheduler_PIPECAS :: "'a pipecas_sched_scheme \<Rightarrow> 'a pipecas_sched_scheme" where
  "new_CommandScheduler_PIPECAS s =
     s\<lparr>srtN_ACT := 0, srtNum_ACT := 0, actCounter := 0, casCounter := 0, roundType := RDA, roundSRT := RD, prevCAS := WRA,
       queueServed := replicate (length (csQueues s)) False, queuePending := replicate (length (csQueues s)) False,
       roundStart := False, fawCounter := [], queueScheduled := [], hrtCAS := [], hrtACT := [], srtCAS := [], srtACT := [],
       srtPRE := []\<rparr>"

section \<open>Picking a command from a buffer\<close>

definition front_issuable ::
  "device_std \<Rightarrow> (packet \<times> nat) list \<Rightarrow> 'a cmd_sched_scheme \<Rightarrow> (packet \<times> nat) option res" where
  "front_issuable std buffer s =
     (case buffer of
        [] \<Rightarrow> ok None
      | (p, qi) # _ \<Rightarrow> bind_res (isIssuable std p s) (\<lambda>b. ok (if b then Some (p, qi) else None)))"

definition schedule_HRT_ACT :: "device_std \<Rightarrow> 'a pipecas_sched_scheme \<Rightarrow> 'a pipecas_sched_scheme res" where
  "schedule_HRT_ACT std s =
     bind_res (front_issuable std (hrtACT s) s) (\<lambda>c.
       case c of
         None \<Rightarrow> ok s
       | Some (p, qi) \<Rightarrow> ok (s\<lparr>scheduledCommand := Some p, scheduledIndex := qi, hrtACT := tl (hrtACT s)\<rparr>))"

definition schedule_HRT_CAS :: "device_std \<Rightarrow> 'a pipecas_sched_scheme \<Rightarrow> 'a pipecas_sched_scheme res" where
  "schedule_HRT_CAS std s =
     bind_res (front_issuable std (hrtCAS s) s) (\<lambda>c.
       case c of
         None \<Rightarrow> ok s
       | Some (p, qi) \<Rightarrow>
           bind_res (update_res (queueServed s) qi True) (\<lambda>served.
             ok (s\<lparr>scheduledCommand := Some p, scheduledIndex := qi, hrtCAS := tl (hrtCAS s), queueServed := served\<rparr>)))"

definition schedule_SRT_ACT :: "device_std \<Rightarrow> 'a pipecas_sched_scheme \<Rightarrow> 'a pipecas_sched_scheme res" where
  "schedule_SRT_ACT std s =
     bind_res (front_issuable std (srtACT s) s) (\<lambda>c.
       case c of
         None \<Rightarrow> ok s
       | Some (p, qi) \<Rightarrow> ok (s\<lparr>scheduledCommand := Some p, scheduledIndex := qi, srtACT := tl (srtACT s)\<rparr>))"

fun srt_scan ::
  "device_std \<Rightarrow> BusPacketType \<Rightarrow> nat \<Rightarrow> (packet \<times> nat) list \<Rightarrow> 'a cmd_sched_scheme \<Rightarrow> (nat \<times> packet \<times> nat) option res" where
  "srt_scan std ty index [] s = ok None"
| "srt_scan std ty index ((p, qi) # rest) s =
     bind_res (isIssuable std p s) (\<lambda>b.
       if b \<and> busPacketType p = ty then ok (Some (index, p, qi)) else srt_scan std ty (Suc index) rest s)"

definition schedule_SRT_CAS :: "device_std \<Rightarrow> 'a pipecas_sched_scheme \<Rightarrow> 'a pipecas_sched_scheme res" where
  "schedule_SRT_CAS std s =
     bind_res (srt_scan std (roundSRT s) 0 (srtCAS s) s) (\<lambda>c.
       case c of
         None \<Rightarrow> ok s
       | Some (index, p, qi) \<Rightarrow>
           ok (s\<lparr>scheduledCommand := Some p, scheduledIndex := qi, srtCAS := erase_at index (srtCAS s)\<rparr>))"

definition schedule_SRT_PRE :: "device_std \<Rightarrow> 'a pipecas_sched_scheme \<Rightarrow> 'a pipecas_sched_scheme res" where
  "schedule_SRT_PRE std s =
     bind_res (front_issuable std (srtPRE s) s) (\<lambda>c.
       case c of
         None \<Rightarrow> ok s
       | Some (p, qi) \<Rightarrow> ok (s\<lparr>scheduledCommand := Some p, scheduledIndex := qi, srtPRE := tl (srtPRE s)\<rparr>))"

text \<open>\<^verbatim>\<open>if (scheduledCommand == NULL) ...\<close>\<close>

definition if_idle ::
  "('a cmd_sched_scheme \<Rightarrow> 'a cmd_sched_scheme res) \<Rightarrow> 'a cmd_sched_scheme \<Rightarrow> 'a cmd_sched_scheme res" where
  "if_idle f s = (if scheduledCommand s = None then f s else ok s)"

section \<open>The length of a round\<close>

text \<open>
  The sum is one of doubles: the first term has wrapped around before, and the result must fit an
  \<^verbatim>\<open>unsigned int\<close>.
\<close>

definition exeACT :: "u32 \<Rightarrow> u32 res" where
  "exeACT num =
     (let r = uint (5 * (num - 1)) + uint ((num - 1) div 4) * 4
      in if r < 2 ^ 32 then ok (word_of_int r) else fail CastRange)"

definition tCAS_SRT :: "bool \<Rightarrow> u32 \<Rightarrow> u32 \<Rightarrow> u32 res" where
  "tCAS_SRT rd num srtNum =
     bind_res (exeACT num) (\<lambda>a.
     bind_res (exeACT (num + srtNum)) (\<lambda>b.
       let slack = (if rd then 15 else 21) - 4 * (num - 1)
       in ok (max (word_of_int (max 0 (sint slack)) + a) b + 9 - ((4 + 1) * (num - 1) + 4))))"

section \<open>commandSchedule\<close>

definition pipe_buffer :: "nat \<Rightarrow> 'a pipecas_sched_scheme \<Rightarrow> 'a pipecas_sched_scheme res" where
  "pipe_buffer index s =
     bind_res (nth_res (queuePending s) index) (\<lambda>pending.
     bind_res (cq_at index s) (\<lambda>q.
       if \<not> pending \<and> cq_getSize False q > 0
       then bind_res (read_head False index s) (\<lambda>(p, s1).
            bind_res (isReady p index s1) (\<lambda>r.
              if r
              then let s2 = s1\<lparr>queuePending := (queuePending s1)[index := True]\<rparr>
                   in ok (if busPacketType p = ACT then s2\<lparr>srtACT := srtACT s2 @ [(p, index)]\<rparr>
                          else if busPacketType p < ACT then s2\<lparr>srtCAS := srtCAS s2 @ [(p, index)]\<rparr>
                          else s2\<lparr>srtPRE := srtPRE s2 @ [(p, index)]\<rparr>)
              else ok s1))
       else ok s))"

definition pipe_type :: "nat \<Rightarrow> 'a pipecas_sched_scheme \<Rightarrow> 'a pipecas_sched_scheme res" where
  "pipe_type index s =
     bind_res (nth_res (queuePending s) index) (\<lambda>pending.
     bind_res (cq_at index s) (\<lambda>q.
       if \<not> pending \<and> cq_getSize True q > 0
       then ok (case find (\<lambda>p. busPacketType p < ACT \<and> busPacketType p \<noteq> prevCAS s) (hrtBuffer q) of
                  None \<Rightarrow> s\<lparr>roundStart := True\<rparr>
                | Some p \<Rightarrow> s\<lparr>roundStart := True, roundType := busPacketType p\<rparr>)
       else ok s))"

definition pipe_snapshot :: "nat \<Rightarrow> 'a pipecas_sched_scheme \<Rightarrow> 'a pipecas_sched_scheme res" where
  "pipe_snapshot index s =
     bind_res (nth_res (queuePending s) index) (\<lambda>pending.
     bind_res (cq_at index s) (\<lambda>q.
       if \<not> pending \<and> cq_getSize True q > 0
       then ok (s\<lparr>queueScheduled := queueScheduled s
                    @ map (\<lambda>_. index) (filter (\<lambda>p. busPacketType p = roundType s) (hrtBuffer q))\<rparr>)
       else ok s))"

definition pipe_start :: "device_std \<Rightarrow> 'a pipecas_sched_scheme \<Rightarrow> 'a pipecas_sched_scheme res" where
  "pipe_start std s =
     (let s1 = s\<lparr>srtRD := 0, srtWR := 0, roundSRT := (if roundType s = RDA then RD else WR), srtNum_ACT := 0\<rparr>
      in if actCounter s1 = 0
         then bind_res (fold_res pipe_snapshot [0..<length (csQueues s1)] s1) (\<lambda>s2.
              bind_res (tCAS_SRT (roundType s2 = RDA) (of_nat (length (queueScheduled s2))) (srtNum_ACT s2)) (\<lambda>c.
                ok (s2\<lparr>casCounter := c\<rparr>)))
         else bind_res (schedule_SRT_CAS std s1) (if_idle (schedule_SRT_PRE std)))"

definition pipe_collect :: "nat \<Rightarrow> 'a pipecas_sched_scheme \<Rightarrow> 'a pipecas_sched_scheme res" where
  "pipe_collect qi s =
     bind_res (nth_res (queuePending s) qi) (\<lambda>pending.
     bind_res (nth_res (queueServed s) qi) (\<lambda>served.
       if \<not> pending \<and> \<not> served
       then bind_res (read_head True qi s) (\<lambda>(p, s1).
            bind_res (isReady p qi s1) (\<lambda>r.
              if r
              then let s2 = s1\<lparr>queuePending := (queuePending s1)[qi := True]\<rparr>
                   in ok (if busPacketType p = ACT then s2\<lparr>hrtACT := hrtACT s2 @ [(p, qi)]\<rparr>
                          else if busPacketType p < ACT then s2\<lparr>hrtCAS := hrtCAS s2 @ [(p, qi)]\<rparr>
                          else s2)
              else ok s1))
       else ok s))"

definition pipe_slots :: "device_std \<Rightarrow> 'a pipecas_sched_scheme \<Rightarrow> 'a pipecas_sched_scheme res" where
  "pipe_slots std s =
     bind_res
       (if srtNum_ACT s > 0
        then if actCounter s = 0
             then bind_res (schedule_SRT_ACT std (s\<lparr>srtNum_ACT := srtNum_ACT s - 1\<rparr>)) (if_idle (schedule_HRT_ACT std))
             else ok s
        else schedule_HRT_ACT std s)
     (\<lambda>s1. bind_res
       (if_idle
          (\<lambda>s. if casCounter s > 0 then bind_res (schedule_SRT_CAS std s) (if_idle (schedule_HRT_CAS std))
               else schedule_HRT_CAS std s)
          s1)
       (if_idle (schedule_SRT_PRE std)))"

fun all_served :: "bool list \<Rightarrow> nat list \<Rightarrow> bool res" where
  "all_served served [] = ok True"
| "all_served served (qi # rest) =
     bind_res (nth_res served qi) (\<lambda>b. if b then all_served served rest else ok False)"

definition pipe_finish :: "'a pipecas_sched_scheme \<Rightarrow> 'a pipecas_sched_scheme res" where
  "pipe_finish s =
     bind_res (all_served (queueServed s) (queueScheduled s)) (\<lambda>roundDone.
       ok (if roundDone
           then s\<lparr>roundStart := False, queueScheduled := [], queueServed := replicate (length (queueServed s)) False\<rparr>
           else s))"

definition pipe_round :: "device_std \<Rightarrow> 'a pipecas_sched_scheme \<Rightarrow> 'a pipecas_sched_scheme res" where
  "pipe_round std s =
     bind_res (fold_res pipe_collect (queueScheduled s) s) (\<lambda>s1.
     bind_res (pipe_slots std s1) pipe_finish)"

definition pipe_outside :: "device_std \<Rightarrow> 'a pipecas_sched_scheme \<Rightarrow> 'a pipecas_sched_scheme res" where
  "pipe_outside std s =
     (let s1 = (if srtRD s = 10 then s\<lparr>roundSRT := WR, srtRD := 0\<rparr> else s);
          s2 = (if srtWR s1 = 10 then s1\<lparr>roundSRT := RD, srtWR := 0\<rparr> else s1)
      in bind_res (schedule_SRT_CAS std s2) (\<lambda>s3.
         bind_res (if_idle (schedule_SRT_ACT std) s3) (if_idle (schedule_SRT_PRE std))))"

definition pipe_account :: "device_std \<Rightarrow> packet \<Rightarrow> 'a pipecas_sched_scheme \<Rightarrow> 'a pipecas_sched_scheme" where
  "pipe_account std p s =
     (if busPacketType p = ACT
      then let faw = fawCounter s @ [getTiming std ''tFAW'']; a = getTiming std ''tRRD''
           in s\<lparr>fawCounter := faw, actCounter := (if length faw = 4 then max a (hd faw) else a)\<rparr>
      else if busPacketType p < ACT
      then if busPacketType p = RDA \<or> busPacketType p = RD
           then s\<lparr>prevCAS := RDA, srtRD := (if busPacketType p = RD \<and> roundStart s = False then srtRD s + 1 else srtRD s)\<rparr>
           else s\<lparr>prevCAS := WRA, srtWR := (if busPacketType p = WR \<and> roundStart s = False then srtWR s + 1 else srtWR s)\<rparr>
      else s)"

definition pipe_send :: "device_std \<Rightarrow> 'a pipecas_sched_scheme \<Rightarrow> 'a pipecas_sched_scheme res" where
  "pipe_send std s =
     (case scheduledCommand s of
        None \<Rightarrow> ok s
      | Some p \<Rightarrow>
          bind_res (sendCommand std p (scheduledIndex s) False s) (\<lambda>s1.
          bind_res (update_res (queuePending s1) (scheduledIndex s1) False) (\<lambda>pend.
            ok (pipe_account std p (s1\<lparr>queuePending := pend\<rparr>)))))"

definition pipe_count :: "'a pipecas_sched_scheme \<Rightarrow> 'a pipecas_sched_scheme" where
  "pipe_count s =
     (let faw = map (\<lambda>c. c - 1) (fawCounter s)
      in s\<lparr>actCounter := (if actCounter s > 0 then actCounter s - 1 else actCounter s),
           casCounter := (if casCounter s > 0 then casCounter s - 1 else casCounter s),
           fawCounter := (if faw \<noteq> [] \<and> hd faw = 0 then tl faw else faw)\<rparr>)"

definition pipe_decide :: "device_std \<Rightarrow> 'a pipecas_sched_scheme \<Rightarrow> 'a pipecas_sched_scheme res" where
  "pipe_decide std s =
     bind_res (fold_res pipe_buffer [0..<length (csQueues s)] (s\<lparr>scheduledCommand := None, scheduledIndex := 0\<rparr>)) (\<lambda>s1.
     let s2 = s1\<lparr>roundType := prevCAS s1\<rparr>
     in bind_res (if queueScheduled s2 = [] then fold_res pipe_type [0..<length (csQueues s2)] s2 else ok s2) (\<lambda>s3.
        bind_res (if roundStart s3 \<and> queueScheduled s3 = [] then pipe_start std s3 else ok s3) (\<lambda>s4.
        bind_res (if queueScheduled s4 \<noteq> [] then pipe_round std s4 else ok s4) (\<lambda>s5.
          if queueScheduled s5 = [] \<and> roundStart s5 = False \<and> scheduledCommand s5 = None then pipe_outside std s5
          else ok s5))))"

definition commandSchedule_PIPECAS ::
  "device_std \<Rightarrow> 'a pipecas_sched_scheme \<Rightarrow> (packet option \<times> 'a pipecas_sched_scheme) res" where
  "commandSchedule_PIPECAS std s =
     bind_res (pipe_decide std s) (\<lambda>s1.
     bind_res (pipe_send std s1) (\<lambda>s2. ok (scheduledCommand s2, pipe_count s2)))"

section \<open>It puts only checked commands on the bus\<close>

definition held_pipecas :: "'a pipecas_sched_scheme \<Rightarrow> packet set" where
  "held_pipecas s = fst ` (set (hrtCAS s) \<union> set (hrtACT s) \<union> set (srtCAS s) \<union> set (srtACT s) \<union> set (srtPRE s))"

definition pipecas_initial :: "'a pipecas_sched_scheme \<Rightarrow> bool" where
  "pipecas_initial s \<longleftrightarrow> held_pipecas s = {}"

text \<open>The members that are neither a buffer of commands nor part of the base class.\<close>

definition pipe_plain :: "'a pipecas_sched_scheme \<Rightarrow> 'a pipecas_sched_scheme \<Rightarrow> bool" where
  "pipe_plain t u \<longleftrightarrow> cmd_sched.truncate u = cmd_sched.truncate t \<and> held_pipecas u = held_pipecas t"

lemma pipe_plain_simps [simp]:
  "pipe_plain t t" "pipe_plain t (u\<lparr>roundType := a\<rparr>) = pipe_plain t u" "pipe_plain t (u\<lparr>roundSRT := a\<rparr>) = pipe_plain t u"
  "pipe_plain t (u\<lparr>srtNum_ACT := n\<rparr>) = pipe_plain t u" "pipe_plain t (u\<lparr>roundStart := b\<rparr>) = pipe_plain t u"
  "pipe_plain t (u\<lparr>prevCAS := a\<rparr>) = pipe_plain t u" "pipe_plain t (u\<lparr>casCounter := n\<rparr>) = pipe_plain t u"
  "pipe_plain t (u\<lparr>actCounter := n\<rparr>) = pipe_plain t u" "pipe_plain t (u\<lparr>fawCounter := f\<rparr>) = pipe_plain t u"
  "pipe_plain t (u\<lparr>queueScheduled := l\<rparr>) = pipe_plain t u" "pipe_plain t (u\<lparr>queueServed := v\<rparr>) = pipe_plain t u"
  "pipe_plain t (u\<lparr>srtRD := n\<rparr>) = pipe_plain t u" "pipe_plain t (u\<lparr>srtWR := n\<rparr>) = pipe_plain t u"
  "pipe_plain t (u\<lparr>scheduledIndex := i\<rparr>) = pipe_plain t u" "pipe_plain t (u\<lparr>queuePending := v\<rparr>) = pipe_plain t u"
  by (simp_all add: pipe_plain_def held_pipecas_def cmd_sched.truncate_def)

lemma truncate_scheduledCommand: "cmd_sched.truncate u = cmd_sched.truncate t \<Longrightarrow> scheduledCommand u = scheduledCommand t"
  by (simp add: cmd_sched.truncate_def)

lemma pipe_plain_keeps:
  assumes "keeps std held_pipecas s t" and "pipe_plain t u"
  shows "keeps std held_pipecas s u"
  by (rule keeps_shrink [OF assms(1)])
    (use assms(2) quiet_more truncate_scheduledCommand in \<open>auto simp: pipe_plain_def\<close>)

lemma held_pipecas_more: "cmd_sched.more s' = cmd_sched.more s \<Longrightarrow> held_pipecas s' = held_pipecas s"
  by (cases s; cases s') (simp add: held_pipecas_def)

lemma pipe_quiet [simp]:
  "quiet s (t\<lparr>hrtCAS := f\<rparr>) = quiet s t" "quiet s (t\<lparr>hrtACT := f\<rparr>) = quiet s t" "quiet s (t\<lparr>srtCAS := f\<rparr>) = quiet s t"
  "quiet s (t\<lparr>srtACT := f\<rparr>) = quiet s t" "quiet s (t\<lparr>srtPRE := f\<rparr>) = quiet s t" "quiet s (t\<lparr>scheduledIndex := i\<rparr>) = quiet s t"
  "quiet s (t\<lparr>queueServed := v\<rparr>) = quiet s t"
  by (simp_all add: quiet_def cs_cmds_def)

lemmas pipe_read = keeps_read [where held = held_pipecas, OF _ _ held_pipecas_more]

lemma front_issuable_go:
  "res_all (\<lambda>c. \<forall>p qi. c = Some (p, qi) \<longrightarrow> (\<exists>rest. buffer = (p, qi) # rest) \<and> isIssuable std p s = ok True)
     (front_issuable std buffer s)"
  unfolding front_issuable_def by (cases buffer) (auto intro!: res_wp split: if_splits)

lemma srt_scan_go:
  "res_all (\<lambda>c. \<forall>i p qi. c = Some (i, p, qi) \<longrightarrow> (p, qi) \<in> set buffer \<and> isIssuable std p s = ok True)
     (srt_scan std ty index buffer s)"
proof (induction buffer arbitrary: index)
  case (Cons x buffer)
  obtain p q where x: "x = (p, q)" by (cases x)
  have IH: "res_all (\<lambda>c. \<forall>i p qi. c = Some (i, p, qi) \<longrightarrow> (p, qi) \<in> set (x # buffer) \<and> isIssuable std p s = ok True)
      (srt_scan std ty index buffer s)" for index
    by (rule res_all_mono [OF Cons.IH]) auto
  show ?case unfolding x srt_scan.simps by (intro res_wp IH [unfolded x]) auto
qed simp

lemma schedule_keeps:
  assumes k: "keeps std held_pipecas s t"
  shows "res_all (keeps std held_pipecas s) (schedule_HRT_ACT std t)"
    and "res_all (keeps std held_pipecas s) (schedule_HRT_CAS std t)"
    and "res_all (keeps std held_pipecas s) (schedule_SRT_ACT std t)"
    and "res_all (keeps std held_pipecas s) (schedule_SRT_PRE std t)"
    and "res_all (keeps std held_pipecas s) (schedule_SRT_CAS std t)"
  unfolding schedule_HRT_ACT_def schedule_HRT_CAS_def schedule_SRT_ACT_def schedule_SRT_PRE_def schedule_SRT_CAS_def
  by ((intro res_wp k; (drule res_allD [OF front_issuable_go] | drule res_allD [OF srt_scan_go]); clarsimp,
       rule keeps_schedule [OF k], assumption, auto simp: held_pipecas_def intro: rev_image_eqI) [1])+

lemma if_idle_keeps:
  "(\<And>t. keeps std held_pipecas s t \<Longrightarrow> res_all (keeps std held_pipecas s) (f t)) \<Longrightarrow> keeps std held_pipecas s t \<Longrightarrow>
     res_all (keeps std held_pipecas s) (if_idle f t)"
  by (simp add: if_idle_def)

lemma pipe_buffer_keeps:
  assumes k: "keeps std held_pipecas s t"
  shows "res_all (keeps std held_pipecas s) (pipe_buffer i t)"
  unfolding pipe_buffer_def
proof (intro res_wp k)
  fix pending q x p u r assume "read_head False i t = ok x" "x = (p, u)"
  then have u: "keeps std held_pipecas s u" "p \<in> cs_cmds s" using pipe_read [OF k] by auto
  then show "keeps std held_pipecas s u" by simp
  fix s2 assume "s2 = u\<lparr>queuePending := (queuePending u)[i := True]\<rparr>"
  then have "keeps std held_pipecas s s2" using pipe_plain_keeps [OF u(1)] by simp
  then show "keeps std held_pipecas s
     (if busPacketType p = ACT then s2\<lparr>srtACT := srtACT s2 @ [(p, i)]\<rparr>
      else if busPacketType p < ACT then s2\<lparr>srtCAS := srtCAS s2 @ [(p, i)]\<rparr> else s2\<lparr>srtPRE := srtPRE s2 @ [(p, i)]\<rparr>)"
    by (rule keeps_shrink) (use u(2) in \<open>auto simp: held_pipecas_def\<close>)
qed

lemma pipe_collect_keeps:
  assumes k: "keeps std held_pipecas s t"
  shows "res_all (keeps std held_pipecas s) (pipe_collect i t)"
  unfolding pipe_collect_def
proof (intro res_wp k)
  fix pending served x p u r assume "read_head True i t = ok x" "x = (p, u)"
  then have u: "keeps std held_pipecas s u" "p \<in> cs_cmds s" using pipe_read [OF k] by auto
  then show "keeps std held_pipecas s u" by simp
  fix s2 assume "s2 = u\<lparr>queuePending := (queuePending u)[i := True]\<rparr>"
  then have "keeps std held_pipecas s s2" using pipe_plain_keeps [OF u(1)] by simp
  then show "keeps std held_pipecas s
     (if busPacketType p = ACT then s2\<lparr>hrtACT := hrtACT s2 @ [(p, i)]\<rparr>
      else if busPacketType p < ACT then s2\<lparr>hrtCAS := hrtCAS s2 @ [(p, i)]\<rparr> else s2)"
    by (rule keeps_shrink) (use u(2) in \<open>auto simp: held_pipecas_def\<close>)
qed

lemma pipe_plain_ops:
  "res_all (pipe_plain t) (pipe_type i t)" "res_all (pipe_plain t) (pipe_snapshot i t)" "res_all (pipe_plain t) (pipe_finish t)"
  unfolding pipe_type_def pipe_snapshot_def pipe_finish_def by (intro res_wp; simp split: option.split)+

lemma pipe_plain_ops_keep:
  assumes "keeps std held_pipecas s t"
  shows "res_all (keeps std held_pipecas s) (pipe_type i t)" "res_all (keeps std held_pipecas s) (pipe_snapshot i t)"
    "res_all (keeps std held_pipecas s) (pipe_finish t)"
  by (rule res_all_mono [OF pipe_plain_ops(1)] res_all_mono [OF pipe_plain_ops(2)] res_all_mono [OF pipe_plain_ops(3)],
      erule pipe_plain_keeps [OF assms])+

lemma pipe_start_keeps:
  assumes k: "keeps std held_pipecas s t"
  shows "res_all (keeps std held_pipecas s) (pipe_start std t)"
proof -
  let ?u = "t\<lparr>srtRD := 0, srtWR := 0, roundSRT := (if roundType t = RDA then RD else WR), srtNum_ACT := 0\<rparr>"
  have u: "keeps std held_pipecas s ?u" by (rule pipe_plain_keeps [OF k]) simp
  have f: "res_all (keeps std held_pipecas s) (fold_res pipe_snapshot is ?u)" for "is"
    by (rule res_all_fold [OF u pipe_plain_ops_keep(2)])
  have c: "res_all (keeps std held_pipecas s) (bind_res x (\<lambda>c. ok (v\<lparr>casCounter := c\<rparr>)))" if "keeps std held_pipecas s v" for x v
    by (intro res_wp pipe_plain_keeps [OF that]) simp
  show ?thesis unfolding pipe_start_def Let_def
    by (intro res_all_if res_all_bind2 [OF f c] res_all_bind2 [OF schedule_keeps(5) [OF u] if_idle_keeps] schedule_keeps)
qed

lemma pipe_slots_keeps:
  assumes k: "keeps std held_pipecas s t"
  shows "res_all (keeps std held_pipecas s) (pipe_slots std t)"
proof -
  have "keeps std held_pipecas s (t\<lparr>srtNum_ACT := srtNum_ACT t - 1\<rparr>)" by (rule pipe_plain_keeps [OF k]) simp
  note a = schedule_keeps(3) [OF this]
  have acts: "res_all (keeps std held_pipecas s)
     (if srtNum_ACT t > 0
      then if actCounter t = 0
           then bind_res (schedule_SRT_ACT std (t\<lparr>srtNum_ACT := srtNum_ACT t - 1\<rparr>)) (if_idle (schedule_HRT_ACT std))
           else ok t
      else schedule_HRT_ACT std t)"
    using k by (intro res_all_if res_all_bind2 [OF a if_idle_keeps] schedule_keeps(1) res_all_ok)
  have cas: "res_all (keeps std held_pipecas s)
     (if casCounter u > 0 then bind_res (schedule_SRT_CAS std u) (if_idle (schedule_HRT_CAS std)) else schedule_HRT_CAS std u)"
    if "keeps std held_pipecas s u" for u
    using that by (intro res_all_if res_all_bind2 [OF schedule_keeps(5) [OF that] if_idle_keeps] schedule_keeps(2))
  show ?thesis unfolding pipe_slots_def
    by (rule res_all_bind2 [OF acts], rule res_all_bind2 [OF if_idle_keeps [OF cas]], assumption+, rule if_idle_keeps)
      (auto intro: schedule_keeps(4))
qed

lemma pipe_outside_keeps:
  assumes k: "keeps std held_pipecas s t"
  shows "res_all (keeps std held_pipecas s) (pipe_outside std t)"
proof -
  define u where "u = (if srtRD t = 10 then t\<lparr>roundSRT := WR, srtRD := 0\<rparr> else t)"
  define v where "v = (if srtWR u = 10 then u\<lparr>roundSRT := RD, srtWR := 0\<rparr> else u)"
  have "keeps std held_pipecas s v" by (rule pipe_plain_keeps [OF k]) (simp add: u_def v_def)
  note c = schedule_keeps(5) [OF this]
  show ?thesis unfolding pipe_outside_def Let_def u_def [symmetric] v_def [symmetric]
    by (rule res_all_bind2 [OF c], rule res_all_bind2 [OF if_idle_keeps [OF schedule_keeps(3)]], assumption+, rule if_idle_keeps)
      (auto intro: schedule_keeps(4))
qed

lemma pipe_decide_keeps: "res_all (keeps std held_pipecas s) (pipe_decide std s)"
proof -
  let ?K = "keeps std held_pipecas s"
  have 0: "?K (s\<lparr>scheduledCommand := None, scheduledIndex := 0\<rparr>)"
    by (simp add: keeps_def held_pipecas_def)
  have 1: "res_all ?K (fold_res pipe_buffer is (s\<lparr>scheduledCommand := None, scheduledIndex := 0\<rparr>))" for "is"
    by (rule res_all_fold [OF 0 pipe_buffer_keeps])
  have 2: "res_all ?K (if queueScheduled t = [] then fold_res pipe_type is t else ok t)" if "?K t" for t "is"
    using that by (intro res_all_if res_all_fold pipe_plain_ops_keep(1) res_all_ok)
  have 3: "?K (t\<lparr>roundType := a\<rparr>)" if "?K t" for t a by (rule pipe_plain_keeps [OF that]) simp
  have 4: "res_all ?K (if roundStart t \<and> queueScheduled t = [] then pipe_start std t else ok t)" if "?K t" for t
    using that pipe_start_keeps [OF that] by simp
  have 5: "res_all ?K (if queueScheduled t \<noteq> [] then pipe_round std t else ok t)" if "?K t" for t
    unfolding pipe_round_def
    by (intro res_all_if res_all_ok that, rule res_all_bind2 [OF res_all_fold [OF that pipe_collect_keeps]], assumption,
        rule res_all_bind2 [OF pipe_slots_keeps], assumption, erule pipe_plain_ops_keep(3))
  show ?thesis unfolding pipe_decide_def Let_def
    by (rule res_all_bind2 [OF 1], rule res_all_bind2 [OF 2 [OF 3]], assumption, erule res_all_bind2 [OF 4],
        erule res_all_bind2 [OF 5]) (auto intro: pipe_outside_keeps)
qed

lemma pipe_account_plain: "pipe_plain t (pipe_account std p t)" "pipe_plain t (pipe_count u) = pipe_plain t u"
  by (simp_all add: pipe_account_def pipe_count_def Let_def)

lemma pipe_plain_trans: "pipe_plain t u \<Longrightarrow> pipe_plain u v \<Longrightarrow> pipe_plain t v"
  by (simp add: pipe_plain_def)

lemma commandSchedule_PIPECAS_post: "res_all (sched_post std held_pipecas s) (commandSchedule_PIPECAS std s)"
  unfolding commandSchedule_PIPECAS_def
proof (rule res_all_bind2 [OF pipe_decide_keeps])
  fix t assume k: "keeps std held_pipecas s t"
  show "res_all (sched_post std held_pipecas s) (bind_res (pipe_send std t) (\<lambda>u. ok (scheduledCommand u, pipe_count u)))"
  proof (cases "scheduledCommand t")
    case None
    have "keeps std held_pipecas s (pipe_count t)" by (rule pipe_plain_keeps [OF k]) (simp add: pipe_account_plain)
    then show ?thesis using None by (auto simp: pipe_send_def keeps_def collects_def intro: sched_post_quiet)
  next
    case (Some p)
    have "sched_post std held_pipecas s (r, pipe_count (pipe_account std p (u\<lparr>queuePending := pend\<rparr>)))"
      if u: "sendCommand std p (scheduledIndex t) False t = ok u" for u pend r
    proof -
      let ?v = "pipe_count (pipe_account std p (u\<lparr>queuePending := pend\<rparr>))"
      have v: "pipe_plain u ?v"
        unfolding pipe_account_plain(2) by (rule pipe_plain_trans [OF _ pipe_account_plain(1)]) simp
      then have "quiet u ?v" "csDevice ?v = csDevice u" "held_pipecas ?v \<subseteq> held_pipecas t"
        using quiet_more [of ?v u] held_pipecas_more [OF sendCommand_more [OF u]]
        by (auto simp: pipe_plain_def cmd_sched.truncate_def)
      then show ?thesis by (intro sched_post_send [OF k Some u])
    qed
    then show ?thesis unfolding pipe_send_def Some by (auto intro!: res_wp simp: res_simps)
  qed
qed

lemma new_CommandScheduler_PIPECAS_initial: "pipecas_initial (new_CommandScheduler_PIPECAS s)"
  by (simp add: pipecas_initial_def held_pipecas_def new_CommandScheduler_PIPECAS_def)

interpretation pipecas: command_scheduler commandSchedule_PIPECAS pipecas_initial held_pipecas
  by (rule command_schedulerI [OF commandSchedule_PIPECAS_post _ held_pipecas_more]) (simp add: pipecas_initial_def)

end
