(* ===== verification/RoundPolicy.thy ===== *)
theory RoundPolicy
  imports PipeCasPolicy
begin

text \<open>
  \<^verbatim>\<open>src/system/Round/CommandScheduler_Round.h\<close>: rounds of reads and rounds of writes, in which each
  requestor is served once. \<^verbatim>\<open>queuePending\<close> is \<open>pendingBy\<close> of the record below; \<^verbatim>\<open>tempqueue\<close> is a
  \<^verbatim>\<open>std::map\<close> that the code iterates over, so it is a list of pairs in the order of the keys. The two
  arrays of 16 integers and \<^verbatim>\<open>jump\<close> are not set by the constructor. \<^verbatim>\<open>signCheck\<close> and \<^verbatim>\<open>checkB\<close> only carry values
  within a call and are local here; so are the members \<^verbatim>\<open>checkCommand\<close>. \<open>readRound\<close> is \<^verbatim>\<open>roundType\<close>, and
  \<open>firstOfRound\<close> is \<^verbatim>\<open>first\<close>.
\<close>

record round_sched = pipecas_sched +
  Order :: "u32 list"
  OrderPRE :: "u32 list"
  closestatemap :: "u64 \<rightharpoonup> bool"
  tempqueue :: "(u32 \<times> packet) list"
  servicebuffer :: "int list"
  consideredScheduled :: "int list"
  lastCAScounter :: u64
  countACT :: u32
  time_issued_first_ACT :: u32
  ACTtimer :: u32
  CAStimer :: u32
  round_counter :: u32
  round_tCCD :: u32
  tWtoR :: u32
  round_compensation :: u32
  blockACT :: bool
  firstOfRound :: bool
  jump :: bool
  readRound :: bool

definition new_CommandScheduler_Round :: "'a round_sched_scheme \<Rightarrow> 'a round_sched_scheme" where
  "new_CommandScheduler_Round s =
     s\<lparr>round_counter := 0, readRound := True, CAStimer := 0, lastCAScounter := 0, ACTtimer := 0, time_issued_first_ACT := 0,
       round_compensation := 1, firstOfRound := True, OrderPRE := [0, 1, 2, 3, 4, 5, 6, 7], Order := [],
       closestatemap := Map.empty, pendingBy := Map.empty, tempqueue := []\<rparr>"

text \<open>\<^verbatim>\<open>m[k] = v\<close> on a map kept as a list in the order of its keys.\<close>

fun put_key :: "u32 \<Rightarrow> 'b \<Rightarrow> (u32 \<times> 'b) list \<Rightarrow> (u32 \<times> 'b) list" where
  "put_key k v [] = [(k, v)]"
| "put_key k v ((k', v') # m) =
     (if k < k' then (k, v) # (k', v') # m else if k = k' then (k, v) # m else (k', v') # put_key k v m)"

definition drop_key :: "u32 \<Rightarrow> (u32 \<times> 'b) list \<Rightarrow> (u32 \<times> 'b) list" where
  "drop_key k m = filter (\<lambda>e. fst e \<noteq> k) m"

definition clean_buffers :: "'a round_sched_scheme \<Rightarrow> 'a round_sched_scheme" where
  "clean_buffers s =
     s\<lparr>servicebuffer := replicate 16 0, consideredScheduled := replicate 16 0, blockACT := False, countACT := 0,
       round_counter := 0, ACTtimer := 0, firstOfRound := True\<rparr>"

section \<open>Sending a command\<close>

definition account_ACT :: "device_std \<Rightarrow> 'a round_sched_scheme \<Rightarrow> 'a round_sched_scheme" where
  "account_ACT std s =
     (let s1 = s\<lparr>firstOfRound := False\<rparr>;
          s2 = (if countACT s1 = 0
                then s1\<lparr>time_issued_first_ACT := 0, ACTtimer := getTiming std ''tRRD'', countACT := countACT s1 + 1\<rparr>
                else if countACT s1 = 3
                then if time_issued_first_ACT s1 < getTiming std ''tFAW''
                     then s1\<lparr>ACTtimer := getTiming std ''tFAW'' - time_issued_first_ACT s1, countACT := 0,
                             time_issued_first_ACT := 0\<rparr>
                     else s1
                else s1\<lparr>ACTtimer := getTiming std ''tRRD'', countACT := countACT s1 + 1\<rparr>)
      in s2\<lparr>round_counter := round_counter s2 + 1\<rparr>)"

definition account_CAS :: "packet \<Rightarrow> u32 \<Rightarrow> 'a round_sched_scheme \<Rightarrow> 'a round_sched_scheme res" where
  "account_CAS p RR s =
     bind_res (update_res (servicebuffer s) (unat RR) 1) (\<lambda>sb.
     bind_res (update_res (consideredScheduled s) (unat RR) 0) (\<lambda>cs.
       ok (s\<lparr>lastCAScounter := csClock s, CAStimer := round_tCCD s, firstOfRound := False,
             closestatemap := (closestatemap s)(pRequestorID p \<mapsto> False), servicebuffer := sb,
             consideredScheduled := cs, round_counter := round_counter s + 1\<rparr>)))"

definition send_precedure ::
  "device_std \<Rightarrow> packet \<Rightarrow> bool \<Rightarrow> u32 \<Rightarrow> nat \<Rightarrow> 'a round_sched_scheme \<Rightarrow> 'a round_sched_scheme res" where
  "send_precedure std p pre RR i s =
     (let s0 = s\<lparr>scheduledCommand := Some p\<rparr>
      in bind_res
           (if pre
            then bind_res (erase_res i (OrderPRE s0)) (\<lambda>o1.
                 bind_res (sendCommand std p 0 False (s0\<lparr>OrderPRE := o1 @ [RR]\<rparr>)) (\<lambda>s1.
                   ok (s1\<lparr>round_counter := round_counter s1 + 1\<rparr>)))
            else if busPacketType p = ACT_W \<or> busPacketType p = ACT_R
            then bind_res (sendCommand std p 0 False s0) (\<lambda>s1. ok (account_ACT std s1))
            else if busPacketType p = WR \<or> busPacketType p = RD
            then bind_res (erase_res i (Order s0)) (\<lambda>o1.
                 bind_res (sendCommand std p 0 False (s0\<lparr>Order := o1\<rparr>)) (account_CAS p RR))
            else ok s0)
           (\<lambda>s2. ok (s2\<lparr>tempqueue := drop_key RR (tempqueue s2),
                        pendingBy := (pendingBy s2)(ucast (pRequestorID p) \<mapsto> False)\<rparr>)))"

section \<open>commandSchedule\<close>

definition round_begin :: "device_std \<Rightarrow> 'a round_sched_scheme \<Rightarrow> 'a round_sched_scheme" where
  "round_begin std s =
     s\<lparr>scheduledCommand := None, round_tCCD := 4,
       tWtoR := getTiming std ''tWL'' + getTiming std ''tBUS'' + getTiming std ''tWTR'', blockACT := False,
       CAStimer := (if CAStimer s > 0 then CAStimer s - 1 else 0),
       ACTtimer := (if ACTtimer s > 0 then ACTtimer s - 1 else ACTtimer s),
       time_issued_first_ACT := time_issued_first_ACT s + 1\<rparr>"

definition note_pending :: "packet \<Rightarrow> 'a round_sched_scheme \<Rightarrow> 'a round_sched_scheme" where
  "note_pending p s =
     (let k = ucast (pRequestorID p);
          s1 = s\<lparr>pendingBy := (pendingBy s)(k \<mapsto> True)\<rparr>;
          s2 = (if busPacketType p = ACT_R \<or> busPacketType p = ACT_W
                then s1\<lparr>closestatemap := (closestatemap s1)(pRequestorID p \<mapsto> True), Order := Order s1 @ [k]\<rparr>
                else if (busPacketType p = RD \<or> busPacketType p = WR) \<and> \<not> map_get False (closestatemap s1) (pRequestorID p)
                then s1\<lparr>Order := Order s1 @ [k]\<rparr>
                else s1)
      in s2\<lparr>tempqueue := put_key k p (tempqueue s2)\<rparr>)"

definition round_lane :: "nat \<Rightarrow> nat \<Rightarrow> 'a round_sched_scheme \<Rightarrow> 'a round_sched_scheme res" where
  "round_lane index num s =
     bind_res (cq_at index s) (\<lambda>q.
     bind_res (lane_head num q) (\<lambda>h.
       case h of
         None \<Rightarrow> ok s
       | Some p \<Rightarrow>
           let k = ucast (pRequestorID p);
               s1 = (if pendingBy s k = None then s\<lparr>pendingBy := (pendingBy s)(k \<mapsto> False)\<rparr> else s)
           in if pendingBy s1 k = Some False
              then bind_res (isReady p index s1) (\<lambda>r. ok (if r then note_pending p s1 else s1))
              else ok s1))"

definition round_collect :: "nat \<Rightarrow> 'a round_sched_scheme \<Rightarrow> 'a round_sched_scheme res" where
  "round_collect index s =
     bind_res (cq_at index s) (\<lambda>q. fold_res (round_lane index) [0..<getRequestorIndex q] s)"

text \<open>A round ends when no requestor is considered any more: the other type, or a new round of the same.\<close>

definition to_write :: "device_std \<Rightarrow> packet \<Rightarrow> 'a round_sched_scheme \<Rightarrow> 'a round_sched_scheme" where
  "to_write std p s =
     (if busPacketType p = ACT_W \<or> busPacketType p = WR
      then let s1 = (clean_buffers s)\<lparr>readRound := False\<rparr>; since = csClock s1 - lastCAScounter s1; tRTW = ucast (getTiming std ''tRTW'')
           in (if since < tRTW then s1\<lparr>CAStimer := ucast (tRTW - since)\<rparr>
               else if busPacketType p = ACT_W then s1\<lparr>CAStimer := 0, ACTtimer := getTiming std ''tRRD''\<rparr>
               else s1\<lparr>CAStimer := round_tCCD s1\<rparr>)\<lparr>jump := True\<rparr>
      else s)"

definition to_read :: "device_std \<Rightarrow> packet \<Rightarrow> 'a round_sched_scheme \<Rightarrow> 'a round_sched_scheme" where
  "to_read std p s =
     (if busPacketType p = ACT_R \<or> busPacketType p = RD
      then let s1 = (clean_buffers s)\<lparr>readRound := True\<rparr>; since = csClock s1 - lastCAScounter s1; w = ucast (tWtoR s1)
           in (if since < w then s1\<lparr>CAStimer := ucast (w - since)\<rparr>
               else if busPacketType p = ACT_R then s1\<lparr>CAStimer := 0, ACTtimer := getTiming std ''tRRD''\<rparr>
               else s1\<lparr>CAStimer := round_tCCD s1\<rparr>)\<lparr>CAStimer := 0, jump := True\<rparr>
      else s)"

definition again :: "BusPacketType \<Rightarrow> BusPacketType \<Rightarrow> packet \<Rightarrow> 'a round_sched_scheme \<Rightarrow> 'a round_sched_scheme" where
  "again t1 t2 p s = (if busPacketType p = t1 \<or> busPacketType p = t2 then clean_buffers s else s)"

definition round_type :: "device_std \<Rightarrow> 'a round_sched_scheme \<Rightarrow> 'a round_sched_scheme" where
  "round_type std s =
     (if \<forall>c \<in> set (consideredScheduled s). c \<noteq> 1
      then let cmds = map snd (tempqueue s);
               s1 = fold (if readRound s then to_write std else to_read std) cmds s;
               s2 = (if jump s1 then s1 else fold (if readRound s then again RD ACT_R else again WR ACT_W) cmds s1)
           in s2\<lparr>jump := False\<rparr>
      else s)"

text \<open>Whether activations are to be blocked. In a round of writes, too, the code counts the reads that wait.\<close>

definition round_act :: "'a round_sched_scheme \<Rightarrow> BusPacketType" where
  "round_act s = (if readRound s then ACT_R else ACT_W)"

definition round_cas :: "'a round_sched_scheme \<Rightarrow> BusPacketType" where
  "round_cas s = (if readRound s then RD else WR)"

definition flags_are :: "int \<Rightarrow> u32 \<Rightarrow> 'a round_sched_scheme \<Rightarrow> bool res" where
  "flags_are c k s =
     bind_res (nth_res (consideredScheduled s) (unat k)) (\<lambda>a.
       if a = c then bind_res (nth_res (servicebuffer s) (unat k)) (\<lambda>b. ok (b = 0)) else ok False)"

definition waiting :: "int \<Rightarrow> BusPacketType \<Rightarrow> 'a round_sched_scheme \<Rightarrow> u32 \<Rightarrow> bool res" where
  "waiting c t s k =
     (case map_of (tempqueue s) k of
        None \<Rightarrow> ok False
      | Some p \<Rightarrow> bind_res (flags_are c k s) (\<lambda>b. ok (b \<and> busPacketType p = t)))"

fun count_res :: "('b \<Rightarrow> bool res) \<Rightarrow> 'b list \<Rightarrow> nat res" where
  "count_res f [] = ok 0"
| "count_res f (x # xs) = bind_res (f x) (\<lambda>b. bind_res (count_res f xs) (\<lambda>n. ok (if b then Suc n else n)))"

definition round_block :: "device_std \<Rightarrow> 'a round_sched_scheme \<Rightarrow> 'a round_sched_scheme res" where
  "round_block std s =
     (if ACTtimer s = 0 \<and> \<not> firstOfRound s
      then bind_res (count_res (waiting 1 (round_act s) s) (Order s)) (\<lambda>checkA.
           bind_res (count_res (waiting 0 RD s) (Order s)) (\<lambda>checkD.
             if checkA = 0
             then bind_res (count_res (\<lambda>k. flags_are 1 k s) (Order s)) (\<lambda>checkB.
                    let signCheck = sint (of_nat (checkB + checkD) * round_tCCD s + CAStimer s - getTiming std ''tRCD''
                                          - round_compensation s)
                    in ok (s\<lparr>blockACT := signCheck < 0\<rparr>))
             else ok s))
      else ok s)"

text \<open>Accepting commands into the round.\<close>

definition is_free :: "u32 \<Rightarrow> 'a round_sched_scheme \<Rightarrow> bool res" where
  "is_free k s =
     bind_res (nth_res (servicebuffer s) (unat k)) (\<lambda>a.
       if a = 0 then bind_res (nth_res (consideredScheduled s) (unat k)) (\<lambda>b. ok (b = 0)) else ok False)"

definition consider_req :: "u32 \<Rightarrow> 'a round_sched_scheme \<Rightarrow> 'a round_sched_scheme" where
  "consider_req k s = s\<lparr>consideredScheduled := (consideredScheduled s)[unat k := 1]\<rparr>"

definition accept_act :: "u32 \<Rightarrow> 'a round_sched_scheme \<Rightarrow> 'a round_sched_scheme res" where
  "accept_act RR s =
     (case map_of (tempqueue s) RR of
        None \<Rightarrow> ok s
      | Some p \<Rightarrow>
          if busPacketType p = round_act s \<and> \<not> blockACT s
          then bind_res (is_free RR s) (\<lambda>f. ok (if f then consider_req RR s else s))
          else ok s)"

definition accept_cmd :: "u32 \<Rightarrow> 'a round_sched_scheme \<Rightarrow> 'a round_sched_scheme res" where
  "accept_cmd RR s =
     (case map_of (tempqueue s) RR of
        None \<Rightarrow> ok s
      | Some p \<Rightarrow>
          if busPacketType p = round_act s
          then bind_res (is_free RR s) (\<lambda>f. ok (if f \<and> \<not> blockACT s then consider_req RR s else s))
          else if busPacketType p = round_cas s
          then bind_res (is_free RR s) (\<lambda>f.
                 if f
                 then bind_res (fold_res accept_act (Order s) s) (\<lambda>s1. ok (if \<not> blockACT s1 then consider_req RR s1 else s1))
                 else ok s)
          else ok s)"

text \<open>Choosing the command to send: its position in the order, its requestor and itself.\<close>

definition act_sendable :: "device_std \<Rightarrow> u32 \<Rightarrow> packet \<Rightarrow> 'a round_sched_scheme \<Rightarrow> bool res" where
  "act_sendable std RR p s =
     (if busPacketType p = round_act s
      then bind_res (nth_res (servicebuffer s) (unat RR)) (\<lambda>a.
             if a = 0 \<and> \<not> blockACT s then isIssuable std p s else ok False)
      else ok False)"

fun find_act ::
  "device_std \<Rightarrow> nat \<Rightarrow> u32 list \<Rightarrow> 'a round_sched_scheme \<Rightarrow> (nat \<times> u32 \<times> packet) option res" where
  "find_act std i [] s = ok None"
| "find_act std i (RR # rest) s =
     (case map_of (tempqueue s) RR of
        None \<Rightarrow> find_act std (Suc i) rest s
      | Some p \<Rightarrow>
          bind_res (act_sendable std RR p s) (\<lambda>b. if b then ok (Some (i, RR, p)) else find_act std (Suc i) rest s))"

definition cas_choice ::
  "device_std \<Rightarrow> nat \<Rightarrow> u32 \<Rightarrow> packet \<Rightarrow> 'a round_sched_scheme \<Rightarrow> (nat \<times> u32 \<times> packet) option res" where
  "cas_choice std i RR p s =
     (if busPacketType p = round_cas s
      then bind_res (nth_res (servicebuffer s) (unat RR)) (\<lambda>a.
             if a = 0
             then bind_res (find_act std 0 (Order s) s) (\<lambda>c.
                    if c \<noteq> None then ok c
                    else bind_res (nth_res (consideredScheduled s) (unat RR)) (\<lambda>d.
                           if d = 1 then bind_res (isIssuable std p s) (\<lambda>b. ok (if b then Some (i, RR, p) else None))
                           else ok None))
             else ok None)
      else ok None)"

fun find_send ::
  "device_std \<Rightarrow> nat \<Rightarrow> u32 list \<Rightarrow> 'a round_sched_scheme \<Rightarrow> (nat \<times> u32 \<times> packet) option res" where
  "find_send std i [] s = ok None"
| "find_send std i (RR # rest) s =
     (case map_of (tempqueue s) RR of
        None \<Rightarrow> find_send std (Suc i) rest s
      | Some p \<Rightarrow>
          bind_res (act_sendable std RR p s) (\<lambda>b.
            if b then ok (Some (i, RR, p))
            else bind_res (cas_choice std i RR p s) (\<lambda>c. if c \<noteq> None then ok c else find_send std (Suc i) rest s)))"

fun find_pre ::
  "device_std \<Rightarrow> nat \<Rightarrow> u32 list \<Rightarrow> 'a round_sched_scheme \<Rightarrow> (nat \<times> u32 \<times> packet) option res" where
  "find_pre std i [] s = ok None"
| "find_pre std i (RR # rest) s =
     (case map_of (tempqueue s) RR of
        None \<Rightarrow> find_pre std (Suc i) rest s
      | Some p \<Rightarrow>
          if busPacketType p = PRE
          then bind_res (isIssuable std p s) (\<lambda>b. if b then ok (Some (i, RR, p)) else find_pre std (Suc i) rest s)
          else find_pre std (Suc i) rest s)"

definition round_send ::
  "device_std \<Rightarrow> 'a round_sched_scheme \<Rightarrow> (packet option \<times> 'a round_sched_scheme) res" where
  "round_send std s =
     (if tempqueue s \<noteq> []
      then bind_res (find_send std 0 (Order s) s) (\<lambda>c.
             case c of
               Some (i, RR, p) \<Rightarrow> bind_res (send_precedure std p False RR i s) (\<lambda>s1. ok (Some p, s1))
             | None \<Rightarrow>
                 bind_res (find_pre std 0 (OrderPRE s) s) (\<lambda>c.
                   case c of
                     Some (i, RR, p) \<Rightarrow> bind_res (send_precedure std p True RR i s) (\<lambda>s1. ok (Some p, s1))
                   | None \<Rightarrow> ok (None, s\<lparr>round_counter := round_counter s + 1\<rparr>)))
      else ok (None, s))"

definition commandSchedule_Round ::
  "device_std \<Rightarrow> 'a round_sched_scheme \<Rightarrow> (packet option \<times> 'a round_sched_scheme) res" where
  "commandSchedule_Round std s =
     (let s0 = round_begin std s
      in bind_res (fold_res round_collect [0..<length (csQueues s0)] s0) (\<lambda>s1.
         bind_res (round_block std (round_type std s1)) (\<lambda>s2.
         bind_res (fold_res accept_cmd (Order s2) s2) (round_send std))))"

section \<open>It puts only checked commands on the bus\<close>

definition held_round :: "'a round_sched_scheme \<Rightarrow> packet set" where
  "held_round s = snd ` set (tempqueue s)"

definition round_initial :: "'a round_sched_scheme \<Rightarrow> bool" where
  "round_initial s \<longleftrightarrow> held_round s = {}"

lemma held_round_more: "cmd_sched.more s' = cmd_sched.more s \<Longrightarrow> held_round s' = held_round s"
  by (cases s; cases s') (simp add: held_round_def)

text \<open>The steps that decide change neither the base class nor the commands that wait.\<close>

definition round_plain :: "'a round_sched_scheme \<Rightarrow> 'a round_sched_scheme \<Rightarrow> bool" where
  "round_plain t u \<longleftrightarrow> cmd_sched.truncate u = cmd_sched.truncate t \<and> tempqueue u = tempqueue t"

lemma round_plain_simps [simp]:
  "round_plain t t" "round_plain t (u\<lparr>Order := l\<rparr>) = round_plain t u" "round_plain t (u\<lparr>OrderPRE := l\<rparr>) = round_plain t u"
  "round_plain t (u\<lparr>closestatemap := m\<rparr>) = round_plain t u" "round_plain t (u\<lparr>servicebuffer := a\<rparr>) = round_plain t u"
  "round_plain t (u\<lparr>consideredScheduled := a\<rparr>) = round_plain t u" "round_plain t (u\<lparr>lastCAScounter := c\<rparr>) = round_plain t u"
  "round_plain t (u\<lparr>countACT := n\<rparr>) = round_plain t u" "round_plain t (u\<lparr>time_issued_first_ACT := n\<rparr>) = round_plain t u"
  "round_plain t (u\<lparr>ACTtimer := n\<rparr>) = round_plain t u" "round_plain t (u\<lparr>CAStimer := n\<rparr>) = round_plain t u"
  "round_plain t (u\<lparr>round_counter := n\<rparr>) = round_plain t u" "round_plain t (u\<lparr>round_tCCD := n\<rparr>) = round_plain t u"
  "round_plain t (u\<lparr>tWtoR := n\<rparr>) = round_plain t u" "round_plain t (u\<lparr>blockACT := b\<rparr>) = round_plain t u"
  "round_plain t (u\<lparr>firstOfRound := b\<rparr>) = round_plain t u" "round_plain t (u\<lparr>jump := b\<rparr>) = round_plain t u"
  "round_plain t (u\<lparr>readRound := b\<rparr>) = round_plain t u" "round_plain t (u\<lparr>pendingBy := v\<rparr>) = round_plain t u"
  by (simp_all add: round_plain_def cmd_sched.truncate_def)

lemma round_plain_trans: "round_plain t u \<Longrightarrow> round_plain u v \<Longrightarrow> round_plain t v"
  by (simp add: round_plain_def)

lemma round_plain_keeps:
  assumes "keeps std held_round s t" and "round_plain t u"
  shows "keeps std held_round s u"
  by (rule keeps_shrink [OF assms(1)])
    (use assms(2) quiet_more truncate_scheduledCommand in \<open>auto simp: round_plain_def held_round_def\<close>)

lemma round_plain_fold: "(\<And>x t. round_plain t (f x t)) \<Longrightarrow> round_plain t (fold f xs t)"
  by (induction xs arbitrary: t) (auto intro: round_plain_trans)

lemma round_plain_fold_res:
  assumes "\<And>x t. res_all (round_plain t) (f x t)"
  shows "res_all (round_plain t) (fold_res f xs t)"
proof (rule res_all_fold)
  fix x u assume "round_plain t u"
  then show "res_all (round_plain t) (f x u)"
    using assms [of u x] by (auto intro: round_plain_trans simp: res_all_def)
qed simp

lemma round_type_plain: "round_plain t (round_type std t)"
proof -
  have f: "round_plain t (fold (if b then to_write std else to_read std) xs t)" for b xs
    by (rule round_plain_fold) (simp add: to_write_def to_read_def clean_buffers_def Let_def)
  have g: "round_plain u (fold (if b then again RD ACT_R else again WR ACT_W) xs u)" for b xs u
    by (rule round_plain_fold) (simp add: again_def clean_buffers_def)
  show ?thesis using round_plain_trans [OF f g] f by (simp add: round_type_def Let_def)
qed

lemma round_block_plain: "res_all (round_plain t) (round_block std t)"
  unfolding round_block_def Let_def by (intro res_wp) simp_all

lemma accept_plain: "res_all (round_plain t) (accept_act RR t)" "res_all (round_plain t) (accept_cmd RR t)"
proof -
  show act: "res_all (round_plain t) (accept_act RR t)" for RR t
    unfolding accept_act_def by (intro res_wp) (simp_all add: consider_req_def)
  show "res_all (round_plain t) (accept_cmd RR t)"
    unfolding accept_cmd_def
    by (intro res_all_option res_all_if res_all_bind res_all_bind2 [OF round_plain_fold_res [OF act]] res_all_ok)
      (simp_all add: consider_req_def)
qed

subsection \<open>Collecting\<close>

lemma put_key_set: "set (put_key k v m) \<subseteq> insert (k, v) (set m)"
  by (induction k v m rule: put_key.induct) auto

lemma put_key_snd: "snd ` set (put_key k v m) \<subseteq> insert v (snd ` set m)"
  using put_key_set [of k v m] by fastforce

lemma note_pending_keeps:
  assumes "keeps std held_round s t" and "p \<in> cs_cmds s"
  shows "keeps std held_round s (note_pending p t)"
proof -
  have "keeps std held_round s (note_pending p t\<lparr>tempqueue := tempqueue t\<rparr>)"
    by (rule round_plain_keeps [OF assms(1)]) (simp add: note_pending_def Let_def round_plain_def cmd_sched.truncate_def)
  moreover have "held_round (note_pending p t) \<subseteq> insert p (held_round t)"
    using put_key_snd [of "ucast (pRequestorID p)" p "tempqueue t"] by (simp add: held_round_def note_pending_def Let_def)
  ultimately show ?thesis using assms
    by (auto simp: keeps_def quiet_def cs_cmds_def note_pending_def Let_def)
qed

lemma round_lane_keeps:
  assumes k: "keeps std held_round s t"
  shows "res_all (keeps std held_round s) (round_lane index num t)"
  unfolding round_lane_def
proof (intro res_wp k)
  fix q h p key u r assume h: "cq_at index t = ok q" "lane_head num q = ok h" "h = Some p"
    and u: "u = (if pendingBy t key = None then t\<lparr>pendingBy := (pendingBy t)(key \<mapsto> False)\<rparr> else t)"
  have "p \<in> cs_cmds t"
    using h by (auto simp: lane_head_def cq_at_def res_simps split: if_splits dest: getRequestorCommand_cmds cs_cmds_nth)
  then have p: "p \<in> cs_cmds s" using k by (auto simp: keeps_def quiet_def)
  show ku: "keeps std held_round s u" by (rule round_plain_keeps [OF k]) (simp add: u)
  show "keeps std held_round s (if r then note_pending p u else u)" using note_pending_keeps [OF ku p] ku by simp
qed

lemma round_collect_keeps:
  assumes "keeps std held_round s t"
  shows "res_all (keeps std held_round s) (round_collect index t)"
  unfolding round_collect_def by (intro res_wp res_all_fold assms round_lane_keeps)

lemma round_begin_keeps: "keeps std held_round s (round_begin std s)"
  by (simp add: keeps_def round_begin_def held_round_def quiet_def cs_cmds_def)

subsection \<open>Sending\<close>

definition choice_ok :: "device_std \<Rightarrow> 'a round_sched_scheme \<Rightarrow> (nat \<times> u32 \<times> packet) option \<Rightarrow> bool" where
  "choice_ok std s c \<longleftrightarrow> (\<forall>i RR p. c = Some (i, RR, p) \<longrightarrow> p \<in> held_round s \<and> isIssuable std p s = ok True)"

lemma map_of_held: "map_of (tempqueue s) k = Some p \<Longrightarrow> p \<in> held_round s"
  by (force simp: held_round_def dest: map_of_SomeD)

lemma act_sendable_go: "act_sendable std RR p s = ok True \<Longrightarrow> isIssuable std p s = ok True"
  by (auto simp: act_sendable_def res_simps split: if_splits)

lemma find_act_go: "res_all (choice_ok std s) (find_act std i order s)"
proof (induction order arbitrary: i)
  case (Cons RR rest)
  show ?case unfolding find_act.simps
    by (intro res_wp Cons.IH) (auto simp: choice_ok_def dest: map_of_held act_sendable_go)
qed (simp add: choice_ok_def)

lemma find_pre_go: "res_all (choice_ok std s) (find_pre std i order s)"
proof (induction order arbitrary: i)
  case (Cons RR rest)
  show ?case unfolding find_pre.simps
    by (intro res_wp Cons.IH) (auto simp: choice_ok_def dest: map_of_held)
qed (simp add: choice_ok_def)

lemma cas_choice_go: "p \<in> held_round s \<Longrightarrow> res_all (choice_ok std s) (cas_choice std i RR p s)"
  unfolding cas_choice_def
  by (intro res_wp) (auto simp: choice_ok_def dest: res_allD [OF find_act_go])

lemma find_send_go: "res_all (choice_ok std s) (find_send std i order s)"
proof (induction order arbitrary: i)
  case (Cons RR rest)
  show ?case unfolding find_send.simps
  proof (intro res_wp Cons.IH)
    fix p b assume "map_of (tempqueue s) RR = Some p" "act_sendable std RR p s = ok b" b
    then show "choice_ok std s (Some (i, RR, p))" by (auto simp: choice_ok_def dest: map_of_held act_sendable_go)
  next
    fix p c assume "map_of (tempqueue s) RR = Some p" "cas_choice std i RR p s = ok c"
    then show "choice_ok std s c" using res_allD [OF cas_choice_go] map_of_held by blast
  qed
qed (simp add: choice_ok_def)

lemma drop_key_subset: "snd ` set (drop_key k m) \<subseteq> snd ` set m"
  by (auto simp: drop_key_def)

lemma round_sent:
  assumes k: "keeps std held_round s v" and p: "scheduledCommand v = Some p" and w: "sendCommand std p 0 False v = ok w"
    and u: "round_plain w u"
  shows "sched_post std held_round s (r, u\<lparr>tempqueue := drop_key RR (tempqueue u), pendingBy := m\<rparr>)"
proof (rule sched_post_send [OF k p w])
  let ?u = "u\<lparr>tempqueue := drop_key RR (tempqueue u), pendingBy := m\<rparr>"
  have "held_round w = held_round v" by (rule held_round_more [OF sendCommand_more [OF w]])
  then show "held_round ?u \<subseteq> held_round v"
    using u drop_key_subset [of RR "tempqueue w"] by (simp add: held_round_def round_plain_def)
  have t: "cmd_sched.truncate ?u = cmd_sched.truncate w" using u by (simp add: round_plain_def cmd_sched.truncate_def)
  then show "quiet w ?u" by (rule quiet_more)
  show "csDevice ?u = csDevice w" using t by (simp add: cmd_sched.truncate_def)
qed

lemma account_plain: "round_plain w (account_ACT std w)" "res_all (round_plain w) (account_CAS p RR w)"
  unfolding account_ACT_def account_CAS_def Let_def by (simp, intro res_wp, simp)

lemma send_precedure_post:
  assumes k: "keeps std held_round s t" and "choice_ok std t (Some (j, RR, p))"
  shows "res_all (\<lambda>u. sched_post std held_round s (r, u)) (send_precedure std p pre RR i t)"
proof -
  let ?t = "t\<lparr>scheduledCommand := Some p\<rparr>"
  have kt: "keeps std held_round s ?t"
    by (rule keeps_schedule [OF k, of p]) (use assms(2) in \<open>auto simp: held_round_def choice_ok_def\<close>)
  define sent where "sent u \<longleftrightarrow> u = ?t \<or> (\<exists>v w. round_plain ?t v \<and> sendCommand std p 0 False v = ok w \<and> round_plain w u)" for u
  have post: "sched_post std held_round s (r, u\<lparr>tempqueue := drop_key RR (tempqueue u), pendingBy := m\<rparr>)"
    if su: "sent u" for u m
  proof (cases "u = ?t")
    case True
    let ?u = "u\<lparr>tempqueue := drop_key RR (tempqueue u), pendingBy := m\<rparr>"
    have "held_round ?u \<subseteq> held_round ?t" unfolding True held_round_def by (simp add: drop_key_subset)
    moreover have "quiet s ?t \<Longrightarrow> quiet s ?u" unfolding True by (simp add: quiet_def cs_cmds_def)
    ultimately have "collects held_round s ?u" using kt by (auto simp: collects_def keeps_def)
    then show ?thesis by (rule sched_post_quiet)
  next
    case False
    then obtain v w where v: "round_plain ?t v" and w: "sendCommand std p 0 False v = ok w" "round_plain w u"
      using su by (auto simp: sent_def)
    have "scheduledCommand v = Some p" using truncate_scheduledCommand [of v ?t] v by (simp add: round_plain_def)
    from round_sent [OF round_plain_keeps [OF kt v] this w] show ?thesis .
  qed
  have s: "sent u" if "sendCommand std p 0 False v = ok w" "round_plain ?t v" "round_plain w u" for u v w
    using that by (auto simp: sent_def)
  show ?thesis unfolding send_precedure_def Let_def
  proof (rule res_all_bind2 [where Q = sent])
    show "res_all sent
       (if pre
        then bind_res (erase_res i (OrderPRE ?t)) (\<lambda>o1. bind_res (sendCommand std p 0 False (?t\<lparr>OrderPRE := o1 @ [RR]\<rparr>)) (\<lambda>s1.
               ok (s1\<lparr>round_counter := round_counter s1 + 1\<rparr>)))
        else if busPacketType p = ACT_W \<or> busPacketType p = ACT_R
        then bind_res (sendCommand std p 0 False ?t) (\<lambda>s1. ok (account_ACT std s1))
        else if busPacketType p = WR \<or> busPacketType p = RD
        then bind_res (erase_res i (Order ?t)) (\<lambda>o1. bind_res (sendCommand std p 0 False (?t\<lparr>Order := o1\<rparr>)) (account_CAS p RR))
        else ok ?t)"
      by (intro res_all_if res_all_bind res_all_ok res_all_mono [OF account_plain(2)]; (erule s)?)
        (simp_all add: account_plain(1) sent_def)
  qed (simp add: post)
qed

lemma round_send_post:
  assumes k: "keeps std held_round s t"
  shows "res_all (sched_post std held_round s) (round_send std t)"
  unfolding round_send_def
proof (intro res_wp)
  have q: "sched_post std held_round s (None, u)" if "round_plain t u" for u
    using round_plain_keeps [OF k that] by (intro sched_post_quiet) (simp add: collects_def keeps_def)
  show "sched_post std held_round s (None, t)" "sched_post std held_round s (None, t\<lparr>round_counter := round_counter t + 1\<rparr>)"
    by (rule q, simp)+
next
  fix c x i y RR p u assume "find_pre std 0 (OrderPRE t) t = ok c" "c = Some x" "x = (i, y)" "y = (RR, p)"
    and u: "send_precedure std p True RR i t = ok u"
  then have "choice_ok std t (Some (i, RR, p))" using res_allD [OF find_pre_go] by blast
  from res_allD [OF send_precedure_post [OF k this] u] show "sched_post std held_round s (Some p, u)" .
next
  fix c x i y RR p u assume "find_send std 0 (Order t) t = ok c" "c = Some x" "x = (i, y)" "y = (RR, p)"
    and u: "send_precedure std p False RR i t = ok u"
  then have "choice_ok std t (Some (i, RR, p))" using res_allD [OF find_send_go] by blast
  from res_allD [OF send_precedure_post [OF k this] u] show "sched_post std held_round s (Some p, u)" .
qed

lemma commandSchedule_Round_post: "res_all (sched_post std held_round s) (commandSchedule_Round std s)"
proof -
  let ?K = "keeps std held_round s"
  have 1: "res_all ?K (fold_res round_collect is (round_begin std s))" for "is"
    by (rule res_all_fold [OF round_begin_keeps round_collect_keeps])
  have 2: "res_all ?K (round_block std (round_type std t))" if "?K t" for t
    using round_plain_keeps [OF that round_plain_trans [OF round_type_plain]]
    by (rule res_all_mono [OF round_block_plain])
  have 3: "res_all ?K (fold_res accept_cmd order t)" if "?K t" for order t
    using round_plain_keeps [OF that] by (rule res_all_mono [OF round_plain_fold_res [OF accept_plain(2)]])
  show ?thesis unfolding commandSchedule_Round_def Let_def
    by (rule res_all_bind2 [OF 1], erule res_all_bind2 [OF 2], erule res_all_bind2 [OF 3], erule round_send_post)
qed

lemma new_CommandScheduler_Round_initial: "round_initial (new_CommandScheduler_Round s)"
  by (simp add: round_initial_def held_round_def new_CommandScheduler_Round_def)

interpretation rounds: command_scheduler commandSchedule_Round round_initial held_round
  by (rule command_schedulerI [OF commandSchedule_Round_post _ held_round_more]) (simp add: round_initial_def)

end
