(* ===== verification/SchedulerRegister.thy ===== *)
theory SchedulerRegister
  imports RoundPolicy CommandGenerator
begin

text \<open>
  \<^verbatim>\<open>src/src/SchedulerRegister.h\<close>: the tables from the names of the configuration file to the
  schedulers and generators, and the dynamic dispatch of the virtual methods of the command
  scheduler the name selects.
\<close>

section \<open>The tables of schedulers\<close>

definition requestSchedulerTable :: "string list" where
  "requestSchedulerTable =
     [''DIRECT'', ''RR'', ''FCFS'', ''FRFCFS'', ''FRFCFS_Batching'', ''BLISS'', ''PARBS'', ''RTMem'', ''PMC'',
      ''MCMC'', ''MEDUSA'']"

definition commandGeneratorTable :: "string \<rightharpoonup> generator" where
  "commandGeneratorTable =
     [''OPEN'' \<mapsto> Gen_Open, ''ROUND'' \<mapsto> Gen_Round, ''CLOSE'' \<mapsto> Gen_Close, ''MCMC'' \<mapsto> Gen_MCMC,
      ''PipeCAS'' \<mapsto> Gen_PipeCAS]"

definition commandSchedulerTable :: "string list" where
  "commandSchedulerTable =
     [''RTMem'', ''Round'', ''FRFCFS'', ''ORP'', ''DCmc'', ''MAG'', ''ReOrder'', ''ROC'', ''FCFS'', ''PUSH'',
      ''PipeCAS'', ''rankReOrder'']"

definition getRequestScheduler :: "string \<Rightarrow> string res" where
  "getRequestScheduler schedulerName =
     (if schedulerName \<in> set requestSchedulerTable then ok schedulerName else fail Abort)"

definition getCommandGenerator :: "string \<Rightarrow> generator res" where
  "getCommandGenerator schedulerName =
     (case commandGeneratorTable schedulerName of None \<Rightarrow> fail Abort | Some g \<Rightarrow> ok g)"

definition getCommandScheduler :: "string \<Rightarrow> string res" where
  "getCommandScheduler schedulerName =
     (if schedulerName \<in> set commandSchedulerTable then ok schedulerName else fail Abort)"

section \<open>Dispatch\<close>

type_synonym policy_ext = "unit round_sched_ext pipecas_sched_ext roc_sched_ext bundle_sched_ext policy_sched_ext"

text \<open>
  Every entry of the table is constructed by the base class and then by its own class, and the
  virtual method \<^verbatim>\<open>commandSchedule\<close> is the one of the class. \<open>nreq\<close> is the size of the table of
  requestors, which ROC reads.
\<close>

definition newCommandScheduler ::
  "string \<Rightarrow> 'a round_sched_scheme \<Rightarrow> command_queue list \<Rightarrow> (u32 \<rightharpoonup> bool) \<Rightarrow> 'a round_sched_scheme" where
  "newCommandScheduler name mem qs table =
     (let s = new_CommandScheduler mem qs table
      in if name = ''DCmc'' then new_CommandScheduler_DCmc s
         else if name = ''ORP'' then new_CommandScheduler_ORP s
         else if name = ''rankReOrder'' then new_CommandScheduler_RankReOrder s
         else if name = ''ReOrder'' then new_CommandScheduler_ReOrder s
         else if name = ''MAG'' then new_CommandScheduler_MAG s
         else if name = ''ROC'' then new_CommandScheduler_ROC s
         else if name = ''PipeCAS'' then new_CommandScheduler_PIPECAS s
         else if name = ''Round'' then new_CommandScheduler_Round s
         else s)"

definition commandSchedule ::
  "nat \<Rightarrow> string \<Rightarrow> device_std \<Rightarrow> 'a round_sched_scheme \<Rightarrow> (packet option \<times> 'a round_sched_scheme) res" where
  "commandSchedule nreq name =
     (if name = ''FCFS'' then commandSchedule_FCFS
      else if name = ''PUSH'' then commandSchedule_PUSH
      else if name = ''FRFCFS'' then commandSchedule_FRFCFS
      else if name = ''RTMem'' then commandSchedule_RTMem
      else if name = ''DCmc'' then commandSchedule_DCmc
      else if name = ''ORP'' then commandSchedule_ORP
      else if name = ''rankReOrder'' then commandSchedule_RankReOrder
      else if name = ''ReOrder'' then commandSchedule_ReOrder
      else if name = ''MAG'' then commandSchedule_MAG
      else if name = ''ROC'' then commandSchedule_ROC nreq
      else if name = ''PipeCAS'' then commandSchedule_PIPECAS
      else if name = ''Round'' then commandSchedule_Round
      else (\<lambda>std s. fail Abort))"

definition policy_held :: "string \<Rightarrow> 'a round_sched_scheme \<Rightarrow> packet set" where
  "policy_held name =
     (if name = ''DCmc'' \<or> name = ''ORP'' then held_fifo else if name = ''rankReOrder'' then held_rank
      else if name = ''ReOrder'' then held_reorder else if name = ''MAG'' then held_mag
      else if name = ''ROC'' then held_roc else if name = ''PipeCAS'' then held_pipecas
      else if name = ''Round'' then held_round else (\<lambda>_. {}))"

definition policy_initial :: "string \<Rightarrow> 'a round_sched_scheme \<Rightarrow> bool" where
  "policy_initial name s \<longleftrightarrow> (\<forall>p \<in> policy_held name s. \<not> postCommand p)"

lemma constructors_held:
  "held_fifo (new_CommandScheduler_DCmc s) = {}" "held_fifo (new_CommandScheduler_ORP s) = {}"
  "held_rank (new_CommandScheduler_RankReOrder s) = {}" "held_reorder (new_CommandScheduler_ReOrder s') = {}"
  "held_mag (new_CommandScheduler_MAG s') = {p. \<not> postCommand p}"
  by (simp_all add: held_fifo_def held_rank_def held_reorder_def held_mag_def new_CommandScheduler_DCmc_def
      new_CommandScheduler_ORP_def new_CommandScheduler_RankReOrder_def new_CommandScheduler_ReOrder_def new_CommandScheduler_MAG_def)

lemma newCommandScheduler_initial: "policy_initial name (newCommandScheduler name mem qs table)"
  by (simp add: policy_initial_def policy_held_def newCommandScheduler_def Let_def constructors_held
      new_CommandScheduler_ROC_initial [unfolded roc_initial_def] new_CommandScheduler_PIPECAS_initial [unfolded pipecas_initial_def]
      new_CommandScheduler_Round_initial [unfolded round_initial_def])

lemma newCommandScheduler_base:
  "new_CommandScheduler (newCommandScheduler name mem qs table) qs table = newCommandScheduler name mem qs table"
  by (simp add: newCommandScheduler_def Let_def new_CommandScheduler_def new_CommandScheduler_DCmc_def
      new_CommandScheduler_ORP_def new_CommandScheduler_RankReOrder_def new_CommandScheduler_ReOrder_def
      new_CommandScheduler_MAG_def new_CommandScheduler_ROC_def new_CommandScheduler_PIPECAS_def new_CommandScheduler_Round_def)

lemma command_scheduler_fail: "command_scheduler (\<lambda>std s. fail Abort) (\<lambda>_. True) (\<lambda>_. {})"
  by unfold_locales simp_all

text \<open>What matters of a state at the start is that no held command is a posted one.\<close>

lemma command_scheduler_initial:
  assumes "command_scheduler schedule initial held"
  shows "command_scheduler schedule (\<lambda>s. \<forall>p \<in> held s. \<not> postCommand p) held"
  by (intro command_scheduler.intro)
    (fact command_scheduler.schedule_step [OF assms] command_scheduler.schedule_held [OF assms]
       command_scheduler.held_more [OF assms] | blast)+

lemmas policy_axioms =
  fcfs.command_scheduler_axioms push.command_scheduler_axioms frfcfs.command_scheduler_axioms
  rtmem.command_scheduler_axioms dcmc.command_scheduler_axioms orp.command_scheduler_axioms
  rankreorder.command_scheduler_axioms reorder.command_scheduler_axioms mag.command_scheduler_axioms
  roc.command_scheduler_axioms pipecas.command_scheduler_axioms rounds.command_scheduler_axioms command_scheduler_fail

interpretation policy: command_scheduler "commandSchedule nreq name" "policy_initial name" "policy_held name" for nreq name
  unfolding policy_initial_def commandSchedule_def policy_held_def
  by (simp add: policy_axioms [THEN command_scheduler_initial, simplified] policy_axioms [THEN command_scheduler_initial])

end
