(* ===== verification/MemoryController.thy ===== *)
theory MemoryController
  imports AddressMapping Configuration RequestInterface SchedulerRegister
begin

text \<open>
  \<^verbatim>\<open>src/src/MemoryController.{h,cpp}\<close>: the object that ties the parts together. Its state is a record with the states of the parts: the request
  queues and the command generator (in \<open>mcEnv\<close>), the request scheduler (\<open>mcReq\<close>) and the
  command scheduler (\<open>mcCmd\<close>), which holds the command queues and the memory device. The two
  virtual methods \<^verbatim>\<open>requestSchedule\<close> and \<^verbatim>\<open>commandSchedule\<close> are the arguments \<open>rsch\<close> and \<open>csch\<close>. The
  command queues are one vector that the controller and both schedulers refer to: it is kept in
  \<open>mcCmd\<close> and passed to the request scheduler. A call of the callback appends its request to
  \<open>calledBack\<close>. A request is shared by pointer between a queue and the list of pending requests;
  the copy in the queue is not used after the request has been scheduled, so both are values here.
  The trace file \<^verbatim>\<open>myTrace\<close> and the printing methods are not modelled.
\<close>

section \<open>State\<close>

record mc_stats =
  totalRequest :: u64
  openRead :: u64
  closeRead :: u64
  openWrite :: u64
  closeWrite :: u64
  readBytes :: u64
  writeBytes :: u64
  statOpen :: u64
  statClose :: u64
  open_counter :: u64
  close_counter :: u64
  openRead_Latency :: u64
  openWrite_Latency :: u64
  closeRead_Latency :: u64
  closeWrite_Latency :: u64
  closeRequest :: bool

definition new_stats :: mc_stats where
  "new_stats =
     \<lparr>totalRequest = 0, openRead = 0, closeRead = 0, openWrite = 0, closeWrite = 0, readBytes = 0,
      writeBytes = 0, statOpen = 0, statClose = 0, open_counter = 0, close_counter = 0,
      openRead_Latency = 0, openWrite_Latency = 0, closeRead_Latency = 0, closeWrite_Latency = 0,
      closeRequest = True\<rparr>"

record ('r, 'c) controller =
  mcClock :: u64
  memTable :: "u32 list"
  busWidth :: u32
  callbackSet :: bool
  calledBack :: "request list"
  mcConfig :: mc_config
  mapLevels :: "(memOrg \<times> u32) list"
  mcEnv :: sched_env
  mcReq :: "'r req_sched_scheme"
  mcCmd :: "'c cmd_sched_scheme"
  pendingReadRequest :: "request list"
  pendingWriteRequest :: "request list"
  sendDataCounter :: "u32 list"
  sendDataBuffer :: "packet list"
  stats :: mc_stats

text \<open>
  The constructors: the one without a parent system starts the clock at 1, the others at 0, and
  one of these leaves the callback empty.
\<close>

definition new_MemoryController ::
  "u64 \<Rightarrow> bool \<Rightarrow> string option \<Rightarrow> ('r, 'c) controller \<Rightarrow> ('r, 'c) controller res" where
  "new_MemoryController clk cb file mem =
     bind_res (readConfigFile file (new_config (mcConfig mem))) (\<lambda>cfg.
       ok (mem\<lparr>mcClock := clk, callbackSet := cb, calledBack := [], mcConfig := cfg,
               mcEnv := (mcEnv mem)\<lparr>requestQueue := [], requestorCriticalTable := Map.empty\<rparr>,
               pendingReadRequest := [], pendingWriteRequest := [], sendDataCounter := [],
               sendDataBuffer := [], stats := new_stats\<rparr>))"

definition setRequestor :: "u32 \<Rightarrow> bool \<Rightarrow> (u32 \<rightharpoonup> bool) \<Rightarrow> (u32 \<rightharpoonup> bool)" where
  "setRequestor i criticality table = table(i \<mapsto> criticality)"

text \<open>
  \<^verbatim>\<open>connectMemoryDevice\<close>. \<open>newReq\<close> and \<open>newCmd\<close> are the constructors of the two schedulers the
  configuration names, applied to the queues and the criticality table.
\<close>

definition mc_connectMemoryDevice ::
  "(sched_env \<Rightarrow> 'r req_sched_scheme) \<Rightarrow> (command_queue list \<Rightarrow> (u32 \<rightharpoonup> bool) \<Rightarrow> 'c cmd_sched_scheme) \<Rightarrow>
     device_std \<Rightarrow> mem_device \<Rightarrow> nat \<Rightarrow> ('r, 'c) controller \<Rightarrow> ('r, 'c) controller res" where
  "mc_connectMemoryDevice newReq newCmd std d numberRequestors c =
     (let cfg = mcConfig c;
          name = (\<lambda>k. map_get [] (configTable cfg) k);
          mt = (memTable c)[memOrg_index Rank := get_Rank d, memOrg_index BankGroup := get_BankGroup d,
                            memOrg_index Bank := get_Bank d, memOrg_index Row := ucast (get_Row d),
                            memOrg_index Column := ucast (get_Column d)];
          bus = get_DataBus d;
          table = fold (\<lambda>i. setRequestor (of_nat i) True) [0..<numberRequestors] (requestorCriticalTable (mcEnv c))
      in bind_res (queueNumber mt (reqMap cfg)) (\<lambda>nr.
         bind_res (queueNumber mt (cmdMap cfg)) (\<lambda>nc.
           let rqs = requestQueue (mcEnv c) @ replicate (unat nr) (new_RequestQueue (requestorReqQ cfg) (writeQueueOn cfg));
               cqs = replicate (unat nc) (new_CommandQueue (requestorCmdQ cfg))
           in bind_res (new_AddressMapping mt (name ''AddressMapping'')) (\<lambda>levels.
              bind_res (getRequestScheduler (name ''RequestScheduler'')) (\<lambda>_.
              bind_res (getCommandGenerator (name ''CommandGenerator'')) (\<lambda>kind.
              bind_res (getCommandScheduler (name ''CommandScheduler'')) (\<lambda>_.
                let e = connectCommandGenerator kind (new_generator kind bus)
                          ((mcEnv c)\<lparr>requestQueue := rqs, commandQueue := cqs, requestorCriticalTable := table\<rparr>)
                in ok (c\<lparr>memTable := mt, busWidth := bus, mapLevels := levels, mcEnv := e, mcReq := newReq e,
                         mcCmd := cs_connectMemoryDevice std d (newCmd cqs table)\<rparr>))))))))"

section \<open>Requests\<close>

text \<open>\<^verbatim>\<open>addRequest\<close>; \<open>fl\<close> are the build switches of the address mapping, \<open>mem\<close> the storage of the new request.\<close>

definition addRequest ::
  "build_flags \<Rightarrow> request \<Rightarrow> u32 \<Rightarrow> u64 \<Rightarrow> bool \<Rightarrow> u32 \<Rightarrow> ('r, 'c) controller \<Rightarrow> ('r, 'c) controller res" where
  "addRequest fl mem requestor addr R_W sz c =
     (let ty = (if \<not> R_W then DATA_WRITE else DATA_READ);
          r0 = (new_Request mem requestor ty sz addr 0)\<lparr>arriveTime := ucast (mcClock c)\<rparr>
      in bind_res (addressMapping fl (mapLevels c) r0) (\<lambda>r.
           let c1 = (if requestorID r = 0
                     then c\<lparr>stats := (stats c)\<lparr>totalRequest := totalRequest (stats c) + 1\<rparr>\<rparr> else c)
           in bind_res (decodeQueue (memTable c1) (addressMap r) (reqMap (mcConfig c1))) (\<lambda>qi.
              bind_res (queue_at (unat qi) (mcEnv c1)) (\<lambda>q.
              bind_res (insertRequest r q) (\<lambda>q'.
                let c2 = c1\<lparr>mcEnv := put_queue (unat qi) q' (mcEnv c1)\<rparr>
                in ok (if requestType r = DATA_READ
                       then c2\<lparr>pendingReadRequest := pendingReadRequest c2 @ [r]\<rparr>
                       else c2\<lparr>pendingWriteRequest := pendingWriteRequest c2 @ [r]\<rparr>))))))"

definition flushWrite :: "bool \<Rightarrow> ('r, 'c) controller \<Rightarrow> ('r, 'c) controller" where
  "flushWrite sw c =
     (if writeQueueOn (mcConfig c) then c\<lparr>mcReq := flushWriteReq sw (mcReq c)\<rparr> else c)"

definition generalBufferSize :: "('r, 'c) controller \<Rightarrow> nat res" where
  "generalBufferSize c = bind_res (queue_at 0 (mcEnv c)) (\<lambda>q. ok (generalReadBufferSize q))"

definition isWriteModeFromController :: "('r, 'c) controller \<Rightarrow> bool res" where
  "isWriteModeFromController c = bind_res (queue_at 0 (mcEnv c)) (\<lambda>q. ok (isWriteMode q))"

section \<open>Commands\<close>

definition stat_command :: "packet \<Rightarrow> mc_stats \<Rightarrow> mc_stats" where
  "stat_command p st =
     (let t = busPacketType p
      in if pRequestorID p \<noteq> 0 then st
         else if t = ACT_R \<or> t = ACT_W \<or> t = ACT then st\<lparr>closeRequest := True\<rparr>
         else if t < ACT_R
         then if closeRequest st
              then let st1 = st\<lparr>close_counter := 0\<rparr>
                   in if t = RDA \<or> t = RD then st1\<lparr>closeRead := closeRead st1 + 1\<rparr>
                      else st1\<lparr>closeWrite := closeWrite st1 + 1\<rparr>
              else let st1 = st\<lparr>open_counter := 0\<rparr>
                   in if t = RDA \<or> t = RD then st1\<lparr>openRead := openRead st1 + 1\<rparr>
                      else st1\<lparr>openWrite := openWrite st1 + 1\<rparr>
         else st)"

text \<open>\<^verbatim>\<open>requestorCriticalTable[id]\<close>: a missing requestor is entered as not critical.\<close>

definition critical_of :: "u32 \<Rightarrow> (u32 \<rightharpoonup> bool) \<Rightarrow> (u32 \<rightharpoonup> bool)" where
  "critical_of k table = (if table k = None then table(k \<mapsto> False) else table)"

definition stamp :: "u64 \<Rightarrow> packet \<Rightarrow> packet" where
  "stamp clk p =
     p\<lparr>pAddressMap := (pAddressMap p)[memOrg_index Rank := 0, memOrg_index Bank := pBank p,
                                     memOrg_index BankGroup := 0, memOrg_index SubArray := pSubArray p],
       pArriveTime := ucast clk\<rparr>"

definition enqueueCommand :: "packet \<Rightarrow> ('r, 'c) controller \<Rightarrow> ('r, 'c) controller res" where
  "enqueueCommand command c =
     (let c1 = c\<lparr>stats := stat_command command (stats c)\<rparr>;
          p = stamp (mcClock c1) command;
          k = (ucast (pRequestorID p) :: u32)
      in bind_res (decodeQueue (memTable c1) (pAddressMap p) (cmdMap (mcConfig c1))) (\<lambda>qi.
         let table = critical_of k (requestorCriticalTable (mcEnv c1));
             c2 = c1\<lparr>mcEnv := (mcEnv c1)\<lparr>requestorCriticalTable := table\<rparr>,
                     mcCmd := (mcCmd c1)\<lparr>csCritical := table\<rparr>\<rparr>
         in bind_res (cq_at (unat qi) (mcCmd c2)) (\<lambda>q.
              ok (c2\<lparr>mcCmd := put_cq (unat qi) (insertCommand p (map_get False table k) q) (mcCmd c2)\<rparr>))))"

text \<open>
  The loop that empties the generator's buffer. Every round takes one command out, so the size
  of the buffer at the start bounds the number of rounds (\<open>drain_distributes\<close>).
\<close>

fun drain :: "nat \<Rightarrow> ('r, 'c) controller \<Rightarrow> ('r, 'c) controller res" where
  "drain 0 c = ok c"
| "drain (Suc n) c =
     (if bufferSize (commandGenerator (mcEnv c)) > 0
      then bind_res (getCommand (commandGenerator (mcEnv c))) (\<lambda>p.
           bind_res (enqueueCommand p c) (\<lambda>c1.
           bind_res (gen_removeCommand (commandGenerator (mcEnv c1))) (\<lambda>g.
             drain n (c1\<lparr>mcEnv := (mcEnv c1)\<lparr>commandGenerator := g\<rparr>\<rparr>))))
      else ok c)"

section \<open>Data\<close>

definition match_request :: "packet \<Rightarrow> request list \<Rightarrow> nat option" where
  "match_request p rs = first_index (\<lambda>r. pRequestorID p = ucast (requestorID r) \<and> pAddress p = address r) rs"

definition call_back :: "request \<Rightarrow> ('r, 'c) controller \<Rightarrow> ('r, 'c) controller res" where
  "call_back r c = (if callbackSet c then ok (c\<lparr>calledBack := calledBack c @ [r]\<rparr>) else fail Abort)"

text \<open>The statistics at the end of a request of requestor 0, for reads and for writes.\<close>

definition stat_read_done :: "packet \<Rightarrow> mc_stats \<Rightarrow> mc_stats" where
  "stat_read_done p st =
     (if pRequestorID p = 0
      then (if closeRequest st
            then st\<lparr>closeRead_Latency := max (closeRead_Latency st) (close_counter st), closeRequest := False\<rparr>
            else st\<lparr>openRead_Latency := max (openRead_Latency st) (open_counter st)\<rparr>)
             \<lparr>close_counter := 0, open_counter := 0\<rparr>
      else st)"

definition stat_write_done :: "packet \<Rightarrow> mc_stats \<Rightarrow> mc_stats" where
  "stat_write_done p st =
     (if pRequestorID p = 0
      then (if closeRequest st
            then st\<lparr>closeWrite_Latency := max (closeWrite_Latency st) (close_counter st), closeRequest := False\<rparr>
            else st\<lparr>openWrite_Latency := max (openWrite_Latency st) (open_counter st)\<rparr>)
             \<lparr>close_counter := 0, open_counter := 0\<rparr>
      else st)"

definition receiveData :: "packet \<Rightarrow> ('r, 'c) controller \<Rightarrow> ('r, 'c) controller res" where
  "receiveData p c =
     (let c1 = c\<lparr>stats := (stats c)\<lparr>readBytes := readBytes (stats c) + ucast (busWidth c)\<rparr>\<rparr>;
          rs = pendingReadRequest c1
      in case match_request p rs of
           None \<Rightarrow> ok c1
         | Some i \<Rightarrow>
             if requestSize (rs ! i) = busWidth c1
             then bind_res (call_back (rs ! i) c1) (\<lambda>c2.
                    ok (c2\<lparr>stats := stat_read_done p (stats c2), pendingReadRequest := erase_at i rs\<rparr>))
             else ok (c1\<lparr>pendingReadRequest :=
                          rs[i := (rs ! i)\<lparr>requestSize := requestSize (rs ! i) - busWidth c1\<rparr>]\<rparr>))"

definition sendData :: "device_std \<Rightarrow> packet \<Rightarrow> ('r, 'c) controller \<Rightarrow> ('r, 'c) controller res" where
  "sendData std p c =
     bind_res (receiveFromBus std p (csDevice (mcCmd c))) (\<lambda>d.
       let c1 = c\<lparr>mcCmd := (mcCmd c)\<lparr>csDevice := d\<rparr>,
                  stats := (stats c)\<lparr>writeBytes := writeBytes (stats c) + ucast (busWidth c)\<rparr>\<rparr>;
           rs = pendingWriteRequest c1
       in case match_request p rs of
            None \<Rightarrow> ok c1
          | Some i \<Rightarrow>
              if requestSize (rs ! i) = busWidth c1
              then bind_res (call_back (rs ! i) c1) (\<lambda>c2.
                     ok (c2\<lparr>stats := stat_write_done p (stats c2), pendingWriteRequest := erase_at i rs\<rparr>))
              else ok (c1\<lparr>pendingWriteRequest :=
                           rs[i := (rs ! i)\<lparr>requestSize := requestSize (rs ! i) - busWidth c1\<rparr>]\<rparr>))"

section \<open>A cycle\<close>

definition schedule_requests ::
  "('r req_sched_scheme \<times> sched_env \<Rightarrow> ('r req_sched_scheme \<times> sched_env) res) \<Rightarrow>
     ('r, 'c) controller \<Rightarrow> ('r, 'c) controller res" where
  "schedule_requests rsch c =
     bind_res (rsch (mcReq c, (mcEnv c)\<lparr>commandQueue := csQueues (mcCmd c)\<rparr>)) (\<lambda>(s, e).
       ok (c\<lparr>mcReq := s, mcEnv := e, mcCmd := (mcCmd c)\<lparr>csQueues := commandQueue e\<rparr>\<rparr>))"

text \<open>A write command that goes out announces its data, to follow after the write latency.\<close>

definition announce_data :: "device_std \<Rightarrow> packet option \<Rightarrow> ('r, 'c) controller \<Rightarrow> ('r, 'c) controller" where
  "announce_data std out c =
     (case out of
        None \<Rightarrow> c
      | Some p \<Rightarrow>
          if busPacketType p = WR \<or> busPacketType p = WRA
          then let lat = (if postCommand p then std_constraints std ''tRCD'' - 1 else 0)
                         + std_constraints std ''tWL'' + std_constraints std ''tBus''
               in c\<lparr>sendDataBuffer := sendDataBuffer c @ [new_BusPacket DATA (pRequestorID p) (pAddress p)
                        (column p) (pRow p) (pBank p) 0 (pSubArray p) (pData p) (ucast (mcClock c))],
                    sendDataCounter := sendDataCounter c @ [word_of_int lat]\<rparr>
          else c)"

definition send_due :: "device_std \<Rightarrow> ('r, 'c) controller \<Rightarrow> ('r, 'c) controller res" where
  "send_due std c =
     (if sendDataCounter c = [] then ok c
      else bind_res
             (if hd (sendDataCounter c) = 0
              then bind_res (nth_res (sendDataBuffer c) 0) (\<lambda>p.
                   bind_res (sendData std p c) (\<lambda>c1.
                     ok (c1\<lparr>sendDataCounter := tl (sendDataCounter c1), sendDataBuffer := tl (sendDataBuffer c1)\<rparr>)))
              else ok c)
             (\<lambda>c2. ok (c2\<lparr>sendDataCounter := map (\<lambda>n. n - 1) (sendDataCounter c2)\<rparr>)))"

definition mc_step :: "('r, 'c) controller \<Rightarrow> ('r, 'c) controller res" where
  "mc_step c =
     bind_res (cs_tick (mcCmd c)) (\<lambda>cs.
       ok (c\<lparr>mcReq := rs_step (mcReq c), mcCmd := cs, mcClock := mcClock c + 1,
             stats := (stats c)\<lparr>close_counter := close_counter (stats c) + 1,
                               open_counter := open_counter (stats c) + 1\<rparr>\<rparr>))"

definition mc_update ::
  "('r req_sched_scheme \<times> sched_env \<Rightarrow> ('r req_sched_scheme \<times> sched_env) res) \<Rightarrow>
   (device_std \<Rightarrow> 'c cmd_sched_scheme \<Rightarrow> (packet option \<times> 'c cmd_sched_scheme) res) \<Rightarrow>
     device_std \<Rightarrow> ('r, 'c) controller \<Rightarrow> ('r, 'c) controller res" where
  "mc_update rsch csch std c =
     bind_res (schedule_requests rsch c) (\<lambda>c1.
     bind_res (drain (bufferSize (commandGenerator (mcEnv c1))) c1) (\<lambda>c2.
     bind_res (cs_refresh std (mcCmd c2)) (\<lambda>cs.
     bind_res (csch std cs) (\<lambda>(out, cs').
     bind_res (send_due std (announce_data std out (c2\<lparr>mcCmd := cs'\<rparr>))) (\<lambda>c3.
       mc_step c3)))))"

text \<open>A concrete controller, used by the witnesses: the storage before construction.\<close>

definition sample_refresh :: refresh_machine where
  "sample_refresh =
     \<lparr>rmBuffer = [], isRefreshingBank = Map.empty, rmRanks = 0, rmBanks = 0, tREFI = 0, tRFCpb = 0, tRFCab = 0,
      tRFC = 0, tRCD = 0, refresh_mechanism = [], isRefreshing = False, isInterval = False, Round_robin = 0,
      targetbank = False, rmFlag = False, bank_release = 0, interval_pb = 0, globeRefreshCountdown = 0,
      refreshCounting = 0\<rparr>"

definition sample_policy :: round_sched where
  "sample_policy =
     \<lparr>csQueues = [], csDevice = new_Ramulator sample_std 1, csCritical = Map.empty, cmdQueueTimer = Map.empty,
      reqCmdQueueTimer = [], refreshMachine = sample_refresh, scheduledCommand = None, csClock = 0, csRanks = 0,
      csBanks = 0, cmdFIFO = [], srtFIFO = [], queuePending = [], pendingBy = Map.empty, bundlingType = RD,
      rankIndex = 0, rank_num = 0, CASBuffer = [], CASQueueIndex = [], ACT_PREBuffer = [], CMDQueueIndex = [],
      servedFlag = [], commandRegisters = [], servedFlags = [], virChannelRegister = [], virMap = Map.empty, indexRT = 0,
      indexHP = 0, bypass = False, casBlocking = False, compensateCommands = [], rankFIFO_L3PA = [], rankFIFO_L3CAS = [],
      l2_PA = [], l2_PAindex = 0, l2_CAS = [], l2_CAStimer = [], l2_CASindex = 0, prevEnd = 0, prevCmd = RD, prevRank = 0,
      roc_tCCD = 0, roc_tRTR = 0, readLatency = 0, writeLatency = 0, readToWrite = 0, writeToRead = 0, roc_ranks = 0,
      roundType = RD, roundSRT = RD, srtN_ACT = 0, srtNum_ACT = 0, roundStart = False, prevCAS = RD, casCounter = 0,
      actCounter = 0, fawCounter = [], queueScheduled = [], queueServed = [], hrtCAS = [], hrtACT = [], srtCAS = [],
      srtACT = [], srtPRE = [], srtRD = 0, srtWR = 0, scheduledIndex = 0, Order = [], OrderPRE = [],
      closestatemap = Map.empty, tempqueue = [], servicebuffer = replicate 16 0, consideredScheduled = replicate 16 0,
      lastCAScounter = 0, countACT = 0, time_issued_first_ACT = 0, ACTtimer = 0, CAStimer = 0, round_counter = 0,
      round_tCCD = 0, tWtoR = 0, round_compensation = 0, blockACT = False, firstOfRound = False, jump = False,
      readRound = False\<rparr>"

definition sample_controller :: "(unit, policy_ext) controller" where
  "sample_controller =
     \<lparr>mcClock = 0, memTable = replicate 6 0, busWidth = 0, callbackSet = False, calledBack = [],
      mcConfig = \<lparr>reqMap = [], cmdMap = [], writeQueueOn = False, requestorReqQ = False, requestorCmdQ = False,
                  configTable = Map.empty\<rparr>,
      mapLevels = [], mcEnv = sample_env, mcReq = sample_sched, mcCmd = sample_policy, pendingReadRequest = [],
      pendingWriteRequest = [], sendDataCounter = [], sendDataBuffer = [], stats = new_stats\<rparr>"

section \<open>Commands reach their queues\<close>

text \<open>The queue a command is put into, and its criticality.\<close>

definition queue_of :: "packet \<Rightarrow> ('r, 'c) controller \<Rightarrow> u32 res" where
  "queue_of p c = decodeQueue (memTable c) (pAddressMap (stamp (mcClock c) p)) (cmdMap (mcConfig c))"

definition is_critical :: "packet \<Rightarrow> ('r, 'c) controller \<Rightarrow> bool" where
  "is_critical p c = map_get False (requestorCriticalTable (mcEnv c)) (ucast (pRequestorID p))"

text \<open>What a controller keeps while it drains the generator's buffer.\<close>

definition drain_frame :: "('r, 'c) controller \<Rightarrow> ('r, 'c) controller \<Rightarrow> bool" where
  "drain_frame c c' \<longleftrightarrow>
     memTable c' = memTable c \<and> mcClock c' = mcClock c \<and> mcConfig c' = mcConfig c \<and> mcReq c' = mcReq c
   \<and> map_get False (requestorCriticalTable (mcEnv c')) = map_get False (requestorCriticalTable (mcEnv c))
   \<and> requestQueue (mcEnv c') = requestQueue (mcEnv c) \<and> csDevice (mcCmd c') = csDevice (mcCmd c)
   \<and> length (csQueues (mcCmd c')) = length (csQueues (mcCmd c))"

lemma drain_frame_trans: "drain_frame c d \<Longrightarrow> drain_frame d e \<Longrightarrow> drain_frame c e"
  by (simp add: drain_frame_def)

lemma map_get_critical_of: "map_get False (critical_of k table) = map_get False table"
  by (auto simp: critical_of_def map_get_def fun_eq_iff)

lemma enqueueCommand_ok:
  assumes "enqueueCommand p c = ok c'"
  shows "drain_frame c c'" and "commandGenerator (mcEnv c') = commandGenerator (mcEnv c)"
    and "\<exists>qi. queue_of p c = ok qi \<and> unat qi < length (csQueues (mcCmd c))
       \<and> csQueues (mcCmd c') = (csQueues (mcCmd c))
           [unat qi := insertCommand (stamp (mcClock c) p) (is_critical p c) (csQueues (mcCmd c) ! unat qi)]"
  using assms
  by (auto simp: enqueueCommand_def Let_def res_simps drain_frame_def map_get_critical_of queue_of_def is_critical_def
      cq_at_def put_cq_def stamp_def)

definition goes_to :: "nat \<Rightarrow> ('r, 'c) controller \<Rightarrow> packet \<Rightarrow> bool" where
  "goes_to i c p \<longleftrightarrow> (\<exists>qi. queue_of p c = ok qi \<and> unat qi = i)"

definition insert_all :: "('r, 'c) controller \<Rightarrow> packet list \<Rightarrow> command_queue \<Rightarrow> command_queue" where
  "insert_all c ps q = fold (\<lambda>p. insertCommand (stamp (mcClock c) p) (is_critical p c)) ps q"

lemma drain_frame_cong:
  assumes "drain_frame c c'"
  shows "goes_to i c' = goes_to i c" and "insert_all c' ps q = insert_all c ps q"
  using assms by (simp_all add: drain_frame_def goes_to_def insert_all_def queue_of_def is_critical_def fun_eq_iff)

text \<open>
  (C26) The loop of the controller that empties the generator's buffer: it ends with the buffer
  empty, and every command queue has received, behind what it held, exactly the commands whose
  address decodes to it, in the order the generator produced them, stamped with the clock and
  with the criticality of their requestor; nothing else of the controller that the schedulers
  look at has changed.
\<close>

theorem drain_distributes:
  assumes "drain (bufferSize (commandGenerator (mcEnv c))) c = ok c'" and "i < length (csQueues (mcCmd c))"
  shows "commandBuffer (commandGenerator (mcEnv c')) = [] \<and> drain_frame c c'
       \<and> csQueues (mcCmd c') ! i =
           insert_all c (filter (goes_to i c) (commandBuffer (commandGenerator (mcEnv c)))) (csQueues (mcCmd c) ! i)"
proof -
  have "drain n c = ok c' \<Longrightarrow> n = length (commandBuffer (commandGenerator (mcEnv c))) \<Longrightarrow> i < length (csQueues (mcCmd c)) \<Longrightarrow>
      ?thesis" for n
  proof (induction n arbitrary: c)
    case 0
    then show ?case by (auto simp: drain_frame_def insert_all_def)
  next
    case (Suc n)
    then obtain p ps where b: "commandBuffer (commandGenerator (mcEnv c)) = p # ps" and n: "n = length ps"
      by (metis length_Suc_conv)
    from Suc.prems b obtain c1 where e: "enqueueCommand p c = ok c1"
      and d: "bind_res (gen_removeCommand (commandGenerator (mcEnv c1))) (\<lambda>g. drain n (c1\<lparr>mcEnv := (mcEnv c1)\<lparr>commandGenerator := g\<rparr>\<rparr>)) = ok c'"
      by (auto simp: bufferSize_def getCommand_def res_simps)
    define c2 where "c2 = c1\<lparr>mcEnv := (mcEnv c1)\<lparr>commandGenerator := (commandGenerator (mcEnv c))\<lparr>commandBuffer := ps\<rparr>\<rparr>\<rparr>"
    have "drain n c2 = ok c'"
      using d b enqueueCommand_ok(2) [OF e] by (simp add: gen_removeCommand_def c2_def)
    moreover have f: "drain_frame c c2"
      using enqueueCommand_ok(1) [OF e] by (simp add: c2_def drain_frame_def)
    moreover have b2: "commandBuffer (commandGenerator (mcEnv c2)) = ps" by (simp add: c2_def)
    moreover have "i < length (csQueues (mcCmd c2))" using f Suc.prems(3) by (simp add: drain_frame_def)
    ultimately have IH: "commandBuffer (commandGenerator (mcEnv c')) = []" "drain_frame c2 c'"
      "csQueues (mcCmd c') ! i = insert_all c2 (filter (goes_to i c2) ps) (csQueues (mcCmd c2) ! i)"
      using Suc.IH [of c2] n by simp_all
    have "csQueues (mcCmd c2) ! i = insert_all c (filter (goes_to i c) [p]) (csQueues (mcCmd c) ! i)"
      using enqueueCommand_ok(3) [OF e] Suc.prems(3) by (auto simp: c2_def goes_to_def insert_all_def nth_list_update)
    with IH drain_frame_cong [OF f] have "csQueues (mcCmd c') ! i = insert_all c (filter (goes_to i c) (p # ps)) (csQueues (mcCmd c) ! i)"
      by (simp add: insert_all_def)
    with IH drain_frame_trans [OF f] b show ?case by simp
  qed
  from this [of "bufferSize (commandGenerator (mcEnv c))"] assms show ?thesis by (simp add: bufferSize_def)
qed

lemma not_isl_ok: "\<not> isl m \<Longrightarrow> \<exists>x. m = ok x"
  by (cases m) simp_all

theorem drain_distributes_witness:
  "\<exists>c'. drain 1 (sample_controller\<lparr>mcCmd := new_CommandScheduler sample_policy [new_CommandQueue False] Map.empty,
            mcEnv := sample_env\<lparr>commandGenerator := (new_CommandGenerator 64)\<lparr>commandBuffer := [sample_packet]\<rparr>\<rparr>\<rparr>) = ok c'
       \<and> commandBuffer (commandGenerator (mcEnv c')) = []
       \<and> csQueues (mcCmd c') ! 0 = insertCommand (stamp 0 sample_packet) True (new_CommandQueue False)"
proof -
  define c where "c = sample_controller\<lparr>mcCmd := new_CommandScheduler sample_policy [new_CommandQueue False] Map.empty,
      mcEnv := sample_env\<lparr>commandGenerator := (new_CommandGenerator 64)\<lparr>commandBuffer := [sample_packet]\<rparr>\<rparr>\<rparr>"
  have b: "commandBuffer (commandGenerator (mcEnv c)) = [sample_packet]" "csQueues (mcCmd c) = [new_CommandQueue False]"
    by (simp_all add: c_def new_CommandScheduler_def)
  then have n: "bufferSize (commandGenerator (mcEnv c)) = 1" by (simp add: bufferSize_def)
  have "\<not> isl (drain 1 c)" unfolding c_def by code_simp
  then obtain c' where c': "drain 1 c = ok c'" using not_isl_ok by blast
  have "queue_of sample_packet c = ok 0" "is_critical sample_packet c" "mcClock c = 0"
    unfolding c_def by code_simp+
  then have "insert_all c (filter (goes_to 0 c) [sample_packet]) q = insertCommand (stamp 0 sample_packet) True q" for q
    by (simp add: goes_to_def insert_all_def)
  with drain_distributes [of c c' 0] n b c' show ?thesis unfolding c_def [symmetric] by (intro exI [of _ c']) simp
qed

section \<open>Completion of reads\<close>

text \<open>The packet \<open>p\<close> belongs to the pending read \<open>r\<close>, the first of the list that matches.\<close>

definition answers :: "packet \<Rightarrow> request \<Rightarrow> bool" where
  "answers p r \<longleftrightarrow> pRequestorID p = ucast (requestorID r) \<and> pAddress p = address r"

lemma match_request_first:
  "\<forall>x \<in> set pre. \<not> answers p x \<Longrightarrow> answers p r \<Longrightarrow> match_request p (pre @ r # post) = Some (length pre)"
  unfolding match_request_def answers_def [symmetric] by (induction pre) auto

lemma receiveData_burst:
  assumes "pendingReadRequest c = pre @ r # post" and "\<forall>x \<in> set pre. \<not> answers p x" and "answers p r"
  shows "receiveData p c =
     (if requestSize r = busWidth c
      then if callbackSet c
           then ok (c\<lparr>stats := stat_read_done p ((stats c)\<lparr>readBytes := readBytes (stats c) + ucast (busWidth c)\<rparr>),
                      calledBack := calledBack c @ [r], pendingReadRequest := pre @ post\<rparr>)
           else fail Abort
      else ok (c\<lparr>stats := (stats c)\<lparr>readBytes := readBytes (stats c) + ucast (busWidth c)\<rparr>,
                 pendingReadRequest := pre @ r\<lparr>requestSize := requestSize r - busWidth c\<rparr> # post\<rparr>))"
  using assms(1) match_request_first [OF assms(2,3), of post]
  by (simp add: receiveData_def call_back_def Let_def erase_at_def)

lemma answers_size [simp]: "answers p (r\<lparr>requestSize := z\<rparr>) = answers p r"
  by (simp add: answers_def)

lemma bursts_left:
  fixes z w :: u32
  assumes "uint z = int n * uint w" and "w \<noteq> 0" and "k < n"
  shows "z - of_nat k * w = w \<longleftrightarrow> Suc k = n"
proof -
  have "word_of_int (uint z) = (word_of_int (int n * uint w) :: u32)" by (simp only: assms(1))
  then have z: "z = of_nat n * w" by simp
  have k: "uint (of_nat k * w) = int k * uint w" if "k \<le> n" for k
  proof -
    have "int k * uint w \<le> int n * uint w" using that by (intro mult_right_mono) simp_all
    also have "\<dots> < 2 ^ 32" using assms(1) uint_bounded [of z] by simp
    finally have "uint (word_of_int (int k * uint w) :: u32) = int k * uint w"
      by (simp only: uint_word_of_int) simp
    moreover have "of_nat k * w = word_of_int (int k * uint w)" by simp
    ultimately show ?thesis by (simp only:)
  qed
  have "z - of_nat k * w = w \<longleftrightarrow> z = of_nat (Suc k) * w" by (auto simp: algebra_simps)
  also have "\<dots> \<longleftrightarrow> int n * uint w = int (Suc k) * uint w"
    using k [of n] k [of "Suc k"] assms(3) z by (metis Suc_leI le_refl word_uint_eqI)
  also have "\<dots> \<longleftrightarrow> n = Suc k" using assms(2) by (auto simp: uint_0_iff)
  finally show ?thesis by auto
qed

lemma receiveData_pending:
  assumes "pendingReadRequest c = pre @ r # post" and "\<forall>x \<in> set pre. \<not> answers p x" and "answers p r"
    and "busWidth c \<noteq> 0" and "uint (requestSize r) = int n * uint (busWidth c)" and "k < n"
  shows "\<exists>c'. fold_res (\<lambda>_. receiveData p) [0..<k] c = ok c' \<and> calledBack c' = calledBack c
           \<and> callbackSet c' = callbackSet c \<and> busWidth c' = busWidth c
           \<and> pendingReadRequest c' = pre @ r\<lparr>requestSize := requestSize r - of_nat k * busWidth c\<rparr> # post"
  using assms(6)
proof (induction k)
  case 0
  then show ?case using assms(1) by simp
next
  case (Suc k)
  then obtain c' where c': "fold_res (\<lambda>_. receiveData p) [0..<k] c = ok c'" "calledBack c' = calledBack c"
    "callbackSet c' = callbackSet c" "busWidth c' = busWidth c"
    and r: "pendingReadRequest c' = pre @ r\<lparr>requestSize := requestSize r - of_nat k * busWidth c\<rparr> # post" by auto
  have "requestSize r - of_nat k * busWidth c \<noteq> busWidth c"
    using bursts_left [OF assms(5,4), of k] Suc.prems by auto
  with receiveData_burst [OF r assms(2)] assms(3) c' show ?case
    by (simp add: fold_res_append algebra_simps)
qed

text \<open>
  (C27) A read of \<open>n\<close> bursts is finished by exactly its \<open>n\<close>-th data packet: as long as fewer than
  \<open>n\<close> packets for it have arrived the callback is not called and the request stays pending with
  the bytes that are missing; the \<open>n\<close>-th packet calls it back, once, and takes it out of the list,
  in which the other pending reads keep their order.
\<close>

theorem read_completes_with_last_burst:
  assumes "pendingReadRequest c = pre @ r # post" and "\<forall>x \<in> set pre. \<not> answers p x" and "answers p r"
    and "callbackSet c" and "busWidth c \<noteq> 0" and "uint (requestSize r) = int (Suc n) * uint (busWidth c)"
  shows "(\<forall>k \<le> n. \<exists>c'. fold_res (\<lambda>_. receiveData p) [0..<k] c = ok c' \<and> calledBack c' = calledBack c
             \<and> pendingReadRequest c' = pre @ r\<lparr>requestSize := requestSize r - of_nat k * busWidth c\<rparr> # post)
       \<and> (\<exists>c'. fold_res (\<lambda>_. receiveData p) [0..<Suc n] c = ok c'
             \<and> calledBack c' = calledBack c @ [r\<lparr>requestSize := busWidth c\<rparr>] \<and> pendingReadRequest c' = pre @ post)"
proof (rule conjI)
  note R = receiveData_pending [OF assms(1-3,5,6)]
  show "\<forall>k \<le> n. \<exists>c'. fold_res (\<lambda>_. receiveData p) [0..<k] c = ok c' \<and> calledBack c' = calledBack c
      \<and> pendingReadRequest c' = pre @ r\<lparr>requestSize := requestSize r - of_nat k * busWidth c\<rparr> # post"
    using R by (fastforce simp: less_Suc_eq_le)
  obtain c' where c': "fold_res (\<lambda>_. receiveData p) [0..<n] c = ok c'" "calledBack c' = calledBack c"
    "callbackSet c' = callbackSet c" "busWidth c' = busWidth c"
    and r: "pendingReadRequest c' = pre @ r\<lparr>requestSize := requestSize r - of_nat n * busWidth c\<rparr> # post"
    using R [of n] by auto
  have "requestSize r - of_nat n * busWidth c = busWidth c" using bursts_left [OF assms(6,5), of n] by simp
  with receiveData_burst [OF r assms(2)] assms(3,4) c'
  show "\<exists>c'. fold_res (\<lambda>_. receiveData p) [0..<Suc n] c = ok c'
      \<and> calledBack c' = calledBack c @ [r\<lparr>requestSize := busWidth c\<rparr>] \<and> pendingReadRequest c' = pre @ post"
    by (simp add: fold_res_append)
qed

theorem read_completes_with_last_burst_witness:
  "\<exists>c'. fold_res (\<lambda>_. receiveData sample_packet) [0..<2]
          (sample_controller\<lparr>busWidth := 64, callbackSet := True,
             pendingReadRequest := [sample_request\<lparr>requestorID := 5, address := 0xABCDEF, requestSize := 128\<rparr>]\<rparr>) = ok c'
      \<and> calledBack c' = [sample_request\<lparr>requestorID := 5, address := 0xABCDEF, requestSize := 64\<rparr>] \<and> pendingReadRequest c' = []"
proof -
  define r where "r = sample_request\<lparr>requestorID := 5, address := 0xABCDEF, requestSize := 128\<rparr>"
  define c where "c = sample_controller\<lparr>busWidth := 64, callbackSet := True, pendingReadRequest := [r]\<rparr>"
  have "pendingReadRequest c = [] @ r # []" "answers sample_packet r" "callbackSet c" "busWidth c = 64" "calledBack c = []"
    by (simp_all add: c_def r_def answers_def sample_packet_def new_BusPacket_def sample_controller_def)
  moreover have "uint (requestSize r) = int (Suc 1) * uint (busWidth c)" "busWidth c \<noteq> 0" by (simp_all add: r_def c_def)
  ultimately have "\<exists>c'. fold_res (\<lambda>_. receiveData sample_packet) [0..<Suc 1] c = ok c'
      \<and> calledBack c' = [r\<lparr>requestSize := 64\<rparr>] \<and> pendingReadRequest c' = []"
    using read_completes_with_last_burst [of c "[]" r "[]" sample_packet 1] by simp
  then show ?thesis unfolding c_def r_def Suc_1 by simp
qed

end
