(* ===== verification/ClockDomain.thy ===== *)
theory ClockDomain
  imports Prelude
begin

text \<open>
  \<^verbatim>\<open>src/src/ClockDomain.{h,cpp}\<close>: the crosser between the clock of the processor and the clock of
  the memory. The callback works on the memory system and never on the crosser, so \<^verbatim>\<open>update\<close> is
  modelled by the number of times it is called. The constructor that approximates a ratio given
  as a floating-point number is not modelled. The \<^verbatim>\<open>while\<close> loop may run for ever, in which case
  the result is \<open>None\<close>.
\<close>

record crosser =
  clock1 :: u64
  clock2 :: u64
  counter1 :: u64
  counter2 :: u64

definition new_ClockDomainCrosser :: crosser where
  "new_ClockDomainCrosser = \<lparr>clock1 = 1, clock2 = 1, counter1 = 0, counter2 = 0\<rparr>"

definition new_ClockDomainCrosser_clocks :: "u64 \<Rightarrow> u64 \<Rightarrow> crosser" where
  "new_ClockDomainCrosser_clocks c1 c2 = \<lparr>clock1 = c1, clock2 = c2, counter1 = 0, counter2 = 0\<rparr>"

partial_function (option) cross_loop :: "u64 \<Rightarrow> u64 \<Rightarrow> u64 \<Rightarrow> nat \<Rightarrow> (u64 \<times> nat) option" where
  [code]: "cross_loop step target c n =
     (if c < target then cross_loop step target (c + step) (Suc n) else Some (c, n))"

definition crosser_update :: "crosser \<Rightarrow> (nat \<times> crosser) option" where
  "crosser_update x =
     (if clock1 x = clock2 x then Some (1, x)
      else let c1 = counter1 x + clock1 x
           in case cross_loop (clock2 x) c1 (counter2 x) 0 of
                None \<Rightarrow> None
              | Some (c2, n) \<Rightarrow>
                  Some (n, if c1 = c2 then x\<lparr>counter1 := 0, counter2 := 0\<rparr>
                           else x\<lparr>counter1 := c1, counter2 := c2\<rparr>))"

text \<open>
  \<^verbatim>\<open>MultiChannelMemorySystem::setCPUClockSpeed\<close>; \<open>mcsimClkFreqHz\<close> is the memory's frequency, which
  the source computes from \<^verbatim>\<open>tCK\<close> in floating point.
\<close>

definition setCPUClockSpeed :: "u64 \<Rightarrow> u64 \<Rightarrow> crosser \<Rightarrow> crosser" where
  "setCPUClockSpeed mcsimClkFreqHz cpuClkFreqHz x =
     x\<lparr>clock1 := mcsimClkFreqHz, clock2 := (if cpuClkFreqHz = 0 then mcsimClkFreqHz else cpuClkFreqHz)\<rparr>"

text \<open>Several updates in a row, and the number of callbacks they make.\<close>

fun crosser_run :: "nat \<Rightarrow> crosser \<Rightarrow> (nat \<times> crosser) option" where
  "crosser_run 0 x = Some (0, x)"
| "crosser_run (Suc k) x =
     (case crosser_run k x of
        None \<Rightarrow> None
      | Some (m, y) \<Rightarrow> (case crosser_update y of None \<Rightarrow> None | Some (n, z) \<Rightarrow> Some (m + n, z)))"

section \<open>The rate of the callbacks\<close>

definition ceil_div :: "nat \<Rightarrow> nat \<Rightarrow> nat" where
  "ceil_div a b = (a + b - 1) div b"

lemma ceil_div_bounds:
  assumes "0 < b"
  shows "a \<le> ceil_div a b * b" "ceil_div a b * b < a + b"
proof -
  have "ceil_div a b * b + (a + b - 1) mod b = a + b - 1" unfolding ceil_div_def by (rule div_mult_mod_eq)
  moreover have "(a + b - 1) mod b < b" using assms by simp
  ultimately show "a \<le> ceil_div a b * b" "ceil_div a b * b < a + b" using assms by linarith+
qed

lemma ceil_div_unique:
  assumes b: "0 < b" and m: "a \<le> m * b" "m * b < a + b"
  shows "ceil_div a b = m"
proof -
  have "m * b < ceil_div a b * b + b" "ceil_div a b * b < m * b + b"
    using m ceil_div_bounds [OF b, of a] by linarith+
  then have "m * b < Suc (ceil_div a b) * b" "ceil_div a b * b < Suc m * b" by simp_all
  then show ?thesis using b by (metis less_Suc_eq_le mult_less_cancel2 le_antisym)
qed

lemma ceil_div_multiple: "0 < b \<Longrightarrow> b dvd a \<Longrightarrow> ceil_div a b * b = a"
  using ceil_div_unique [of b a "a div b"] by simp

lemma ceil_div_add:
  assumes "0 < b" and "b dvd c"
  shows "ceil_div (c + a) b = c div b + ceil_div a b"
proof (rule ceil_div_unique [OF assms(1)])
  have "(c div b + ceil_div a b) * b = c + ceil_div a b * b" using assms(2) by (simp add: add_mult_distrib)
  then show "c + a \<le> (c div b + ceil_div a b) * b" "(c div b + ceil_div a b) * b < c + a + b"
    using ceil_div_bounds [OF assms(1), of a] by simp_all
qed

lemma ceil_div_mono: "0 < b \<Longrightarrow> a \<le> a' \<Longrightarrow> ceil_div a b \<le> ceil_div a' b"
  by (simp add: ceil_div_def div_le_mono)

lemma unat_add_u64: "unat a + unat b < 2 ^ 64 \<Longrightarrow> unat (a + b :: u64) = unat a + unat b"
  by (simp add: unat_add_lem [THEN iffD1])

lemma cross_loop_steps:
  assumes b: "0 < unat b" and fit: "unat x + unat b < 2 ^ 64"
    and c: "unat c = m * unat b" and m: "m \<le> ceil_div (unat x) (unat b)"
  shows "\<exists>c'. cross_loop b x c n = Some (c', n + (ceil_div (unat x) (unat b) - m))
       \<and> unat c' = ceil_div (unat x) (unat b) * unat b"
  using c m
proof (induction "ceil_div (unat x) (unat b) - m" arbitrary: c m n)
  case 0
  then have "m = ceil_div (unat x) (unat b)" by simp
  then show ?case using 0(2) ceil_div_bounds(1) [OF b, of "unat x"]
    by (subst cross_loop.simps) (auto simp: word_less_nat_alt)
next
  case (Suc d)
  have "m * unat b < unat x"
  proof (rule ccontr)
    assume "\<not> m * unat b < unat x"
    moreover have "m * unat b + unat b \<le> ceil_div (unat x) (unat b) * unat b"
      using Suc.hyps(2) mult_le_mono1 [of "Suc m" "ceil_div (unat x) (unat b)" "unat b"] by (simp add: add.commute)
    ultimately show False using ceil_div_bounds(2) [OF b, of "unat x"] by simp
  qed
  moreover have "unat (c + b) = Suc m * unat b"
    using Suc.prems(1) calculation fit by (subst unat_add_u64) auto
  moreover have "\<exists>c'. cross_loop b x (c + b) (Suc n) = Some (c', Suc n + (ceil_div (unat x) (unat b) - Suc m))
      \<and> unat c' = ceil_div (unat x) (unat b) * unat b"
    by (rule Suc.hyps(1)) (use Suc.hyps(2) calculation in auto)
  moreover have "Suc n + (ceil_div (unat x) (unat b) - Suc m) = n + (ceil_div (unat x) (unat b) - m)"
    using Suc.hyps(2) by simp
  moreover have "cross_loop b x c n = cross_loop b x (c + b) (Suc n)"
    using calculation(1) Suc.prems(1) by (subst cross_loop.simps) (simp add: word_less_nat_alt)
  ultimately show ?case by metis
qed

text \<open>
  The state of the crosser after \<open>k\<close> updates, \<open>j\<close> of them since the counters were last reset.
\<close>

definition crosser_inv :: "nat \<Rightarrow> nat \<Rightarrow> nat \<Rightarrow> crosser \<Rightarrow> bool" where
  "crosser_inv a b k x \<longleftrightarrow> unat (clock1 x) = a \<and> unat (clock2 x) = b
     \<and> (\<exists>k0 j. k = k0 + j \<and> b dvd k0 * a \<and> j < b \<and> unat (counter1 x) = j * a
              \<and> unat (counter2 x) = ceil_div (j * a) b * b)"

lemma crosser_inv_update:
  assumes I: "crosser_inv a b k x" and ab: "a \<noteq> b" and fit: "a * b + b < 2 ^ 64"
  shows "\<exists>n y. crosser_update x = Some (n, y) \<and> crosser_inv a b (Suc k) y
       \<and> n + ceil_div (k * a) b = ceil_div (Suc k * a) b"
proof -
  from I obtain k0 j where k: "k = k0 + j" "b dvd k0 * a" "j < b" and a: "unat (clock1 x) = a" and b: "unat (clock2 x) = b"
    and c1: "unat (counter1 x) = j * a" and c2: "unat (counter2 x) = ceil_div (j * a) b * b"
    by (auto simp: crosser_inv_def)
  have b0: "0 < b" using k(3) by simp
  have "Suc j * a \<le> b * a" using k(3) by (intro mult_le_mono1) simp
  then have le: "Suc j * a + b < 2 ^ 64" using fit by (simp add: mult.commute)
  define t where "t = counter1 x + clock1 x"
  have t: "unat t = Suc j * a" unfolding t_def using a c1 le by (subst unat_add_u64) auto
  have mono: "ceil_div (j * a) b \<le> ceil_div (Suc j * a) b" by (rule ceil_div_mono [OF b0]) simp
  obtain c' where loop: "cross_loop (clock2 x) t (counter2 x) 0
      = Some (c', ceil_div (Suc j * a) b - ceil_div (j * a) b)" "unat c' = ceil_div (Suc j * a) b * b"
    using cross_loop_steps [of "clock2 x" t "counter2 x" "ceil_div (j * a) b" 0] b b0 le t c2 mono by auto
  have n: "ceil_div (Suc j * a) b - ceil_div (j * a) b + ceil_div (k * a) b = ceil_div (Suc k * a) b"
    using ceil_div_add [OF b0 k(2), of "j * a"] ceil_div_add [OF b0 k(2), of "Suc j * a"] mono
    by (simp add: k(1) algebra_simps)
  have eq: "t = c' \<longleftrightarrow> b dvd Suc j * a"
  proof
    assume "t = c'"
    then show "b dvd Suc j * a" using t loop(2) by (metis dvd_triv_right)
  next
    assume "b dvd Suc j * a"
    then have "ceil_div (Suc j * a) b * b = Suc j * a" by (rule ceil_div_multiple [OF b0])
    then show "t = c'" using t loop(2) by (simp add: word_unat_eq_iff)
  qed
  define y where "y = (if t = c' then x\<lparr>counter1 := 0, counter2 := 0\<rparr> else x\<lparr>counter1 := t, counter2 := c'\<rparr>)"
  have "crosser_inv a b (Suc k) y"
  proof (cases "t = c'")
    case True
    then have "b dvd Suc j * a" using eq by simp
    then have "b dvd Suc k * a" using k(1,2) by (metis add_Suc_right add_mult_distrib dvd_add)
    then have "Suc k = Suc k + 0 \<and> b dvd Suc k * a \<and> 0 < b \<and> unat (counter1 y) = 0 * a
        \<and> unat (counter2 y) = ceil_div (0 * a) b * b"
      using True b0 by (simp add: y_def ceil_div_def)
    moreover have "unat (clock1 y) = a" "unat (clock2 y) = b" using a b by (simp_all add: y_def)
    ultimately show ?thesis unfolding crosser_inv_def by blast
  next
    case False
    then have "Suc j \<noteq> b" using eq dvd_triv_left by metis
    then have "Suc k = k0 + Suc j \<and> b dvd k0 * a \<and> Suc j < b \<and> unat (counter1 y) = Suc j * a
        \<and> unat (counter2 y) = ceil_div (Suc j * a) b * b"
      using False k t loop(2) by (simp add: y_def)
    moreover have "unat (clock1 y) = a" "unat (clock2 y) = b" using a b by (simp_all add: y_def)
    ultimately show ?thesis unfolding crosser_inv_def by blast
  qed
  moreover have "crosser_update x = Some (ceil_div (Suc j * a) b - ceil_div (j * a) b, y)"
    using ab a b loop(1) by (auto simp: crosser_update_def Let_def y_def t_def)
  ultimately show ?thesis using n by blast
qed

text \<open>
  (C30) The crosser keeps the two clocks at their ratio for ever: a crosser between clocks \<open>a\<close> and
  \<open>b\<close> makes, in its first \<open>k\<close> updates, exactly the \<open>k * a / b\<close> callbacks, rounded up, that a
  clock of frequency \<open>a\<close> has in \<open>k\<close> periods of the other one. Every update returns, and
  the 64-bit counters never wrap around, as long as \<open>a * b + b\<close> fits 64 bits.
\<close>

theorem crosser_rate:
  assumes "0 < unat b" and "unat a * unat b + unat b < 2 ^ 64"
  shows "\<exists>x. crosser_run k (new_ClockDomainCrosser_clocks a b) = Some (ceil_div (k * unat a) (unat b), x)"
proof (cases "a = b")
  case True
  have "crosser_run k (new_ClockDomainCrosser_clocks a b) = Some (k, new_ClockDomainCrosser_clocks a b)"
    by (induction k) (simp_all add: True crosser_update_def new_ClockDomainCrosser_clocks_def)
  moreover have "ceil_div (k * unat b) (unat b) = k"
    using assms(1) by (intro ceil_div_unique) auto
  ultimately show ?thesis using True by auto
next
  case False
  then have ab: "unat a \<noteq> unat b" by (simp add: word_unat_eq_iff)
  have "\<exists>x. crosser_run k (new_ClockDomainCrosser_clocks a b) = Some (ceil_div (k * unat a) (unat b), x)
      \<and> crosser_inv (unat a) (unat b) k x"
  proof (induction k)
    case 0
    show ?case using assms(1) by (auto simp: ceil_div_def crosser_inv_def new_ClockDomainCrosser_clocks_def)
  next
    case (Suc k)
    then obtain x where x: "crosser_run k (new_ClockDomainCrosser_clocks a b) = Some (ceil_div (k * unat a) (unat b), x)"
      "crosser_inv (unat a) (unat b) k x" by blast
    from crosser_inv_update [OF x(2) ab assms(2)] obtain n y where
      "crosser_update x = Some (n, y)" "crosser_inv (unat a) (unat b) (Suc k) y"
      "n + ceil_div (k * unat a) (unat b) = ceil_div (Suc k * unat a) (unat b)" by blast
    then show ?case using x(1) by (simp add: add.commute)
  qed
  then show ?thesis by blast
qed

theorem crosser_rate_witness:
  "\<exists>x. crosser_run 5 (new_ClockDomainCrosser_clocks 800000000 2000000000) = Some (2, x)"
  using crosser_rate [of 2000000000 800000000 5] by (simp add: ceil_div_def)

text \<open>
  With a second clock of frequency 0 the crosser never returns from its first update.
\<close>

theorem crosser_zero_clock_diverges:
  assumes "a \<noteq> 0"
  shows "crosser_update (new_ClockDomainCrosser_clocks a 0) = None"
proof -
  have stuck: "\<not> (st = 0 \<and> c < t)" if "cross_loop st t c n = Some r" for st t c n r
    by (rule cross_loop.raw_induct [where P = "\<lambda>st t c n r. \<not> (st = 0 \<and> c < t)", OF _ that]) (auto split: if_splits)
  have "cross_loop 0 a 0 0 = None" using stuck [of 0 a 0 0] assms
    by (cases "cross_loop 0 a 0 0") (auto simp: word_neq_0_conv)
  then show ?thesis using assms by (auto simp: crosser_update_def new_ClockDomainCrosser_clocks_def split: option.split)
qed

end
