(* ===== verification/MemorySystem.thy ===== *)
theory MemorySystem
  imports MemoryController ClockDomain
begin

text \<open>
  \<^verbatim>\<open>src/src/MemorySystem.{h,cpp}\<close> and \<^verbatim>\<open>src/src/MultiChannelMemorySystem.{h,cpp}\<close>: a controller with
  its device, and several of them behind a clock domain crosser. The device of a system is the
  one inside the command scheduler of its controller. The printing methods and the registration
  of the two unused callbacks are not modelled.
\<close>

section \<open>One channel\<close>

record ('r, 'c) memory_system =
  sysClock :: u64
  memoryController :: "('r, 'c) controller"

text \<open>
  \<^verbatim>\<open>MemorySystem::update\<close>: the controller, then the device, which hands the data of a finished read
  to the controller, then \<^verbatim>\<open>SimulatorObject::step\<close>.
\<close>

definition ms_update ::
  "('r req_sched_scheme \<times> sched_env \<Rightarrow> ('r req_sched_scheme \<times> sched_env) res) \<Rightarrow>
   (device_std \<Rightarrow> 'c cmd_sched_scheme \<Rightarrow> (packet option \<times> 'c cmd_sched_scheme) res) \<Rightarrow>
     device_std \<Rightarrow> ('r, 'c) memory_system \<Rightarrow> ('r, 'c) memory_system res" where
  "ms_update rsch csch std m =
     bind_res (mc_update rsch csch std (memoryController m)) (\<lambda>c.
     bind_res (dev_update std (csDevice (mcCmd c))) (\<lambda>(p, d).
       let c1 = c\<lparr>mcCmd := (mcCmd c)\<lparr>csDevice := d\<rparr>\<rparr>
       in bind_res (case p of None \<Rightarrow> ok c1 | Some q \<Rightarrow> receiveData q c1) (\<lambda>c2.
            ok (m\<lparr>memoryController := c2, sysClock := sysClock m + 1\<rparr>))))"

definition ms_addRequest ::
  "build_flags \<Rightarrow> request \<Rightarrow> u32 \<Rightarrow> u64 \<Rightarrow> bool \<Rightarrow> u32 \<Rightarrow> ('r, 'c) memory_system \<Rightarrow> ('r, 'c) memory_system res" where
  "ms_addRequest fl mem requestor addr R_W sz m =
     bind_res (addRequest fl mem requestor addr R_W sz (memoryController m)) (\<lambda>c. ok (m\<lparr>memoryController := c\<rparr>))"

definition ms_flushWrite :: "bool \<Rightarrow> ('r, 'c) memory_system \<Rightarrow> ('r, 'c) memory_system" where
  "ms_flushWrite sw m = m\<lparr>memoryController := flushWrite sw (memoryController m)\<rparr>"

definition ms_isWriteModeFromController :: "('r, 'c) memory_system \<Rightarrow> bool res" where
  "ms_isWriteModeFromController m = isWriteModeFromController (memoryController m)"

definition ms_generalBufferSize :: "('r, 'c) memory_system \<Rightarrow> nat res" where
  "ms_generalBufferSize m = generalBufferSize (memoryController m)"

text \<open>The constructor for a given device: read the configuration, connect the two.\<close>

definition new_MemorySystem ::
  "(sched_env \<Rightarrow> 'r req_sched_scheme) \<Rightarrow> (command_queue list \<Rightarrow> (u32 \<rightharpoonup> bool) \<Rightarrow> 'c cmd_sched_scheme) \<Rightarrow>
     device_std \<Rightarrow> u32 \<Rightarrow> nat \<Rightarrow> bool \<Rightarrow> string option \<Rightarrow> ('r, 'c) memory_system \<Rightarrow> ('r, 'c) memory_system res" where
  "new_MemorySystem newReq newCmd std ranks numRequestors cb cfg mem =
     bind_res (new_MemoryController 0 cb cfg (memoryController mem)) (\<lambda>c.
     bind_res (mc_connectMemoryDevice newReq newCmd std (new_Ramulator std ranks) numRequestors c) (\<lambda>c'.
       ok (mem\<lparr>sysClock := 0, memoryController := c'\<rparr>)))"

text \<open>
  The device the constructor makes for the names of a standard, a speed grade and a size. With an
  unknown standard a message is printed and the pointer to the device stays indeterminate.
\<close>

definition select_device :: "string \<Rightarrow> string \<Rightarrow> string \<Rightarrow> u32 \<Rightarrow> (device_std \<times> mem_device) res" where
  "select_device gene speed sz ranks =
     (let geneSpeed = gene @ ''_'' @ speed; geneSize = gene @ ''_'' @ sz
      in if gene = ''DDR3'' then bind_res (new_DDR3_named geneSize geneSpeed) (\<lambda>d. ok (new_Ramulator_DDR3 d ranks))
         else if gene = ''DDR4'' then bind_res (new_DDR4_named geneSize geneSpeed) (\<lambda>d. ok (new_Ramulator_DDR4 d ranks))
         else if gene = ''DSARP'' then bind_res (new_DSARP 0 0 Type_DSARP 64) (\<lambda>d. ok (new_Ramulator_DSARP d ranks))
         else fail NullDeref)"

definition new_MemorySystem_named ::
  "(sched_env \<Rightarrow> 'r req_sched_scheme) \<Rightarrow> (command_queue list \<Rightarrow> (u32 \<rightharpoonup> bool) \<Rightarrow> 'c cmd_sched_scheme) \<Rightarrow>
     string \<Rightarrow> string \<Rightarrow> string \<Rightarrow> u32 \<Rightarrow> nat \<Rightarrow> bool \<Rightarrow> string option \<Rightarrow> ('r, 'c) memory_system \<Rightarrow>
     (device_std \<times> ('r, 'c) memory_system) res" where
  "new_MemorySystem_named newReq newCmd gene speed sz ranks numRequestors cb cfg mem =
     bind_res (new_MemoryController 0 cb cfg (memoryController mem)) (\<lambda>c.
     bind_res (select_device gene speed sz ranks) (\<lambda>(std, d).
     bind_res (mc_connectMemoryDevice newReq newCmd std d numRequestors c) (\<lambda>c'.
       ok (std, mem\<lparr>sysClock := 0, memoryController := c'\<rparr>))))"

lemma select_device_ok:
  assumes "select_device gene speed sz ranks = ok (std, d)"
  shows "memory_device std \<and> d = new_Ramulator std ranks"
  using assms
  by (auto simp: select_device_def Let_def res_simps new_Ramulator_DDR3_def new_Ramulator_DDR4_def new_Ramulator_DSARP_def
      intro: dev3.memory_device_axioms dev4.memory_device_axioms dev_d.memory_device_axioms split: if_splits)

text \<open>A system constructed by names is one constructed from the device the names select.\<close>

lemma new_MemorySystem_named_ok:
  "new_MemorySystem_named newReq newCmd gene speed sz ranks n cb cfg mem = ok (std, m) \<longleftrightarrow>
     (\<exists>d. select_device gene speed sz ranks = ok (std, d)) \<and> new_MemorySystem newReq newCmd std ranks n cb cfg mem = ok m"
  by (auto simp: new_MemorySystem_named_def new_MemorySystem_def res_simps dest: select_device_ok)

section \<open>Several channels\<close>

record ('r, 'c) multi_channel =
  numberChannels :: u32
  channels :: "('r, 'c) memory_system list"
  clockDomainCrosser :: crosser
  mcmsClock :: u64

text \<open>
  The constructor makes the channels one after the other; \<open>newChannel i\<close> is the constructor of
  \<^verbatim>\<open>MemorySystem\<close> for the channel \<open>i\<close>. The clock period \<^verbatim>\<open>tCK\<close> it reads is a floating-point number
  and is left out.
\<close>

definition new_MultiChannelMemorySystem ::
  "(nat \<Rightarrow> ('r, 'c) memory_system res) \<Rightarrow> u32 \<Rightarrow> ('r, 'c) multi_channel res" where
  "new_MultiChannelMemorySystem newChannel n =
     (if n = 0 then fail Abort
      else bind_res (fold_res (\<lambda>i chs. bind_res (newChannel i) (\<lambda>ch. ok (chs @ [ch]))) [0..<unat n] [])
             (\<lambda>chs. ok \<lparr>numberChannels = n, channels = chs, clockDomainCrosser = new_ClockDomainCrosser,
                        mcmsClock = 0\<rparr>))"

definition findChannelNumber :: "u32 \<Rightarrow> ('r, 'c) multi_channel \<Rightarrow> u32 res" where
  "findChannelNumber requestor s =
     (if numberChannels s = 1 then ok 0
      else if numberChannels s = 0 then fail DivByZero
      else let n = requestor mod numberChannels s
           in if n \<ge> numberChannels s then fail Abort else ok n)"

definition mcms_addRequest ::
  "build_flags \<Rightarrow> request \<Rightarrow> u32 \<Rightarrow> u64 \<Rightarrow> bool \<Rightarrow> u32 \<Rightarrow> ('r, 'c) multi_channel \<Rightarrow> ('r, 'c) multi_channel res" where
  "mcms_addRequest fl mem requestor addr R_W sz s =
     bind_res (findChannelNumber requestor s) (\<lambda>n.
     bind_res (nth_res (channels s) (unat n)) (\<lambda>ch.
     bind_res (ms_addRequest fl mem requestor addr R_W sz ch) (\<lambda>ch'.
       ok (s\<lparr>channels := (channels s)[unat n := ch']\<rparr>))))"

definition mcms_flushWrite :: "bool \<Rightarrow> ('r, 'c) multi_channel \<Rightarrow> ('r, 'c) multi_channel res" where
  "mcms_flushWrite sw s =
     bind_res (nth_res (channels s) 0) (\<lambda>ch. ok (s\<lparr>channels := (channels s)[0 := ms_flushWrite sw ch]\<rparr>))"

definition mcms_isWriteModeFromController :: "('r, 'c) multi_channel \<Rightarrow> bool res" where
  "mcms_isWriteModeFromController s = bind_res (nth_res (channels s) 0) ms_isWriteModeFromController"

definition mcms_generalBufferSize :: "('r, 'c) multi_channel \<Rightarrow> nat res" where
  "mcms_generalBufferSize s = bind_res (nth_res (channels s) 0) ms_generalBufferSize"

definition update_channel ::
  "('r req_sched_scheme \<times> sched_env \<Rightarrow> ('r req_sched_scheme \<times> sched_env) res) \<Rightarrow>
   (device_std \<Rightarrow> 'c cmd_sched_scheme \<Rightarrow> (packet option \<times> 'c cmd_sched_scheme) res) \<Rightarrow>
     device_std \<Rightarrow> nat \<Rightarrow> ('r, 'c) multi_channel \<Rightarrow> ('r, 'c) multi_channel res" where
  "update_channel rsch csch std i s =
     bind_res (nth_res (channels s) i) (\<lambda>ch.
     bind_res (ms_update rsch csch std ch) (\<lambda>ch'. ok (s\<lparr>channels := (channels s)[i := ch']\<rparr>)))"

definition actual_update ::
  "('r req_sched_scheme \<times> sched_env \<Rightarrow> ('r req_sched_scheme \<times> sched_env) res) \<Rightarrow>
   (device_std \<Rightarrow> 'c cmd_sched_scheme \<Rightarrow> (packet option \<times> 'c cmd_sched_scheme) res) \<Rightarrow>
     device_std \<Rightarrow> ('r, 'c) multi_channel \<Rightarrow> ('r, 'c) multi_channel res" where
  "actual_update rsch csch std s =
     bind_res (fold_res (update_channel rsch csch std) [0..<unat (numberChannels s)] s)
       (\<lambda>s'. ok (s'\<lparr>mcmsClock := mcmsClock s' + 1\<rparr>))"

text \<open>\<^verbatim>\<open>update\<close>: the crosser decides how many cycles of the memory pass; \<open>None\<close> if it never returns.\<close>

definition mcms_update ::
  "('r req_sched_scheme \<times> sched_env \<Rightarrow> ('r req_sched_scheme \<times> sched_env) res) \<Rightarrow>
   (device_std \<Rightarrow> 'c cmd_sched_scheme \<Rightarrow> (packet option \<times> 'c cmd_sched_scheme) res) \<Rightarrow>
     device_std \<Rightarrow> ('r, 'c) multi_channel \<Rightarrow> ('r, 'c) multi_channel res option" where
  "mcms_update rsch csch std s =
     (case crosser_update (clockDomainCrosser s) of
        None \<Rightarrow> None
      | Some (n, x) \<Rightarrow>
          Some (bind_res (fold_res (\<lambda>_. actual_update rsch csch std) [0..<n] s) (\<lambda>s'.
                  ok (s'\<lparr>clockDomainCrosser := x\<rparr>))))"

section \<open>Channels\<close>

lemma update_channels_upto:
  assumes "fold_res (update_channel rsch csch std) [0..<n] s = ok s'"
  shows "length (channels s') = length (channels s) \<and> numberChannels s' = numberChannels s
       \<and> clockDomainCrosser s' = clockDomainCrosser s \<and> n \<le> length (channels s)
       \<and> (\<forall>i < length (channels s). if i < n then ms_update rsch csch std (channels s ! i) = ok (channels s' ! i)
            else channels s' ! i = channels s ! i)"
  using assms
proof (induction n arbitrary: s')
  case (Suc n)
  then obtain t where t: "fold_res (update_channel rsch csch std) [0..<n] s = ok t" and u: "update_channel rsch csch std n t = ok s'"
    by (auto simp: fold_res_append res_simps)
  from u obtain ch' where "n < length (channels t)" "ms_update rsch csch std (channels t ! n) = ok ch'"
    "s' = t\<lparr>channels := (channels t)[n := ch']\<rparr>"
    by (auto simp: update_channel_def res_simps)
  with Suc.IH [OF t] show ?case by (auto simp: nth_list_update less_Suc_eq)
qed simp

lemma actual_update_channels:
  assumes "actual_update rsch csch std s = ok s'" and "length (channels s) = unat (numberChannels s)"
  shows "length (channels s') = length (channels s) \<and> numberChannels s' = numberChannels s
       \<and> (\<forall>i < length (channels s). ms_update rsch csch std (channels s ! i) = ok (channels s' ! i))"
  using assms update_channels_upto by (fastforce simp: actual_update_def res_simps)

text \<open>
  (C29) The channels of a memory system run in lockstep and independently of each other: in one
  call of \<^verbatim>\<open>update\<close> every channel makes the number of memory cycles the clock domain crosser asks
  for, and its state afterwards depends on its own state before only.
\<close>

theorem channels_run_independently:
  assumes "mcms_update rsch csch std s = Some (ok s')" and "length (channels s) = unat (numberChannels s)"
  shows "\<exists>n x. crosser_update (clockDomainCrosser s) = Some (n, x) \<and> clockDomainCrosser s' = x
       \<and> length (channels s') = length (channels s)
       \<and> (\<forall>i < length (channels s). fold_res (\<lambda>_. ms_update rsch csch std) [0..<n] (channels s ! i) = ok (channels s' ! i))"
proof -
  from assms(1) obtain n x t where n: "crosser_update (clockDomainCrosser s) = Some (n, x)"
    and t: "fold_res (\<lambda>_. actual_update rsch csch std) [0..<n] s = ok t" and s': "s' = t\<lparr>clockDomainCrosser := x\<rparr>"
    by (auto simp: mcms_update_def res_simps split: option.splits)
  from t have "length (channels t) = length (channels s) \<and> numberChannels t = numberChannels s
      \<and> (\<forall>i < length (channels s). fold_res (\<lambda>_. ms_update rsch csch std) [0..<n] (channels s ! i) = ok (channels t ! i))"
  proof (induction n arbitrary: t)
    case (Suc n)
    then obtain u where "fold_res (\<lambda>_. actual_update rsch csch std) [0..<n] s = ok u" "actual_update rsch csch std u = ok t"
      by (auto simp: fold_res_append res_simps)
    with Suc.IH actual_update_channels [of rsch csch std u t] assms(2) show ?case by (simp add: fold_res_append)
  qed simp
  with n s' show ?thesis by auto
qed

section \<open>The command bus of the whole system\<close>

text \<open>Posted commands come from the MCMC generator only.\<close>

definition no_post :: "packet list \<Rightarrow> bool" where
  "no_post ps \<longleftrightarrow> (\<forall>p \<in> set ps. \<not> postCommand p)"

lemma new_BusPacket_unposted [simp]: "\<not> postCommand (new_BusPacket t i a c rw b rk sa d tm)"
  by (simp add: new_BusPacket_def)

lemma commandGenerate_unposted:
  assumes "commandGenerate kind crit r opn g = ok (b, g')" and "kind \<noteq> Gen_MCMC" and "no_post (commandBuffer g)"
  shows "no_post (commandBuffer g')"
  using assms
  by (cases kind)
    (auto simp: no_post_def commandGenerate_Open_def commandGenerate_Close_def commandGenerate_Round_def
      commandGenerate_PipeCAS_def Let_def res_simps split: if_splits prod.splits)

lemma gen_steps_unposted:
  assumes "fold_res (gen_step (commandGenerate kind crit)) xs g = ok g'" and "kind \<noteq> Gen_MCMC" and "no_post (commandBuffer g)"
  shows "no_post (commandBuffer g')"
  by (rule fold_res_preserves [OF assms(1)]) (use assms(2,3) in \<open>auto simp: gen_step_ok dest: commandGenerate_unposted\<close>)

text \<open>The state of the controller between the steps of a cycle.\<close>

definition bus_inv ::
  "(device_std \<Rightarrow> 'c cmd_sched_scheme \<Rightarrow> (packet option \<times> 'c cmd_sched_scheme) res) \<Rightarrow>
     ('c cmd_sched_scheme \<Rightarrow> bool) \<Rightarrow> device_std \<Rightarrow> u32 \<Rightarrow> ('r, 'c) controller \<Rightarrow> bool" where
  "bus_inv csch initial std ranks c \<longleftrightarrow>
     chan_run csch initial std ranks (mcCmd c)
   \<and> generatorKind (mcEnv c) \<noteq> Gen_MCMC \<and> no_post (commandBuffer (commandGenerator (mcEnv c)))
   \<and> (\<forall>p \<in> set (sendDataBuffer c). busPacketType p = DATA \<and> \<not> postCommand p)"

lemma stamp_simps [simp]:
  "pRequestorID (stamp clk p) = pRequestorID p" "postCommand (stamp clk p) = postCommand p"
  "busPacketType (stamp clk p) = busPacketType p"
  by (simp_all add: stamp_def)

lemma enqueueCommand_bus:
  assumes "bus_inv csch initial std ranks c" and "enqueueCommand p c = ok c'" and "\<not> postCommand p"
  shows "bus_inv csch initial std ranks c' \<and> commandGenerator (mcEnv c') = commandGenerator (mcEnv c)"
proof -
  define table where "table = critical_of (ucast (pRequestorID p)) (requestorCriticalTable (mcEnv c))"
  from assms(2) obtain qi :: u32 and q where q: "cq_at (unat qi) ((mcCmd c)\<lparr>csCritical := table\<rparr>) = ok q"
    and c': "c' = c\<lparr>stats := stat_command p (stats c), mcEnv := (mcEnv c)\<lparr>requestorCriticalTable := table\<rparr>,
        mcCmd := put_cq (unat qi) (insertCommand (stamp (mcClock c) p) (map_get False table (ucast (pRequestorID p))) q)
          ((mcCmd c)\<lparr>csCritical := table\<rparr>)\<rparr>"
    by (auto simp: enqueueCommand_def Let_def res_simps table_def)
  let ?s = "(mcCmd c)\<lparr>csCritical := table\<rparr>"
  have "chan_run csch initial std ranks ?s" using assms(1) by (auto simp: bus_inv_def intro: chan_run.table)
  then have "chan_run csch initial std ranks (put_cq (unat qi) (insertCommand (stamp (mcClock c) p) b (csQueues ?s ! unat qi)) ?s)" for b
    by (rule chan_run.arrive) (use q assms(3) in \<open>auto simp: cq_at_def res_simps\<close>)
  then show ?thesis using assms(1) q by (auto simp: bus_inv_def c' cq_at_def res_simps)
qed

lemma drain_bus:
  "bus_inv csch initial std ranks c \<Longrightarrow> drain n c = ok c' \<Longrightarrow> bus_inv csch initial std ranks c'"
proof (induction n arbitrary: c)
  case (Suc n)
  show ?case
  proof (cases "commandBuffer (commandGenerator (mcEnv c))")
    case Nil
    then show ?thesis using Suc.prems by (simp add: bufferSize_def)
  next
    case (Cons p ps)
    with Suc.prems obtain c1 where e: "enqueueCommand p c = ok c1"
      and d: "bind_res (gen_removeCommand (commandGenerator (mcEnv c1))) (\<lambda>g. drain n (c1\<lparr>mcEnv := (mcEnv c1)\<lparr>commandGenerator := g\<rparr>\<rparr>)) = ok c'"
      by (auto simp: bufferSize_def getCommand_def res_simps)
    have np: "\<not> postCommand p" using Suc.prems(1) Cons by (simp add: bus_inv_def no_post_def)
    note I = enqueueCommand_bus [OF Suc.prems(1) e np]
    have "gen_removeCommand (commandGenerator (mcEnv c1)) = ok ((commandGenerator (mcEnv c))\<lparr>commandBuffer := ps\<rparr>)"
      using I Cons by (simp add: gen_removeCommand_def)
    with d have "drain n (c1\<lparr>mcEnv := (mcEnv c1)\<lparr>commandGenerator := (commandGenerator (mcEnv c))\<lparr>commandBuffer := ps\<rparr>\<rparr>\<rparr>) = ok c'" by simp
    then show ?thesis by (rule Suc.IH [rotated]) (use I Cons in \<open>auto simp: bus_inv_def no_post_def\<close>)
  qed
qed simp

lemma schedule_requests_bus:
  assumes "request_scheduler rsch" and I: "bus_inv csch initial std ranks c" and "schedule_requests rsch c = ok c'"
  shows "bus_inv csch initial std ranks c'"
proof -
  let ?e = "(mcEnv c)\<lparr>commandQueue := csQueues (mcCmd c)\<rparr>"
  from assms(3) obtain s e where r: "rsch (mcReq c, ?e) = ok (s, e)"
    and c': "c' = c\<lparr>mcReq := s, mcEnv := e, mcCmd := (mcCmd c)\<lparr>csQueues := commandQueue e\<rparr>\<rparr>"
    by (auto simp: schedule_requests_def res_simps)
  have g: "generates ?e e" by (rule request_scheduler.schedule_generates [OF assms(1) r])
  then have "no_post (commandBuffer (commandGenerator e))"
    using I gen_steps_unposted by (fastforce simp: generates_def bus_inv_def)
  moreover have "(mcCmd c)\<lparr>csQueues := commandQueue e\<rparr> = mcCmd c" using g by (simp add: generates_def)
  ultimately show ?thesis using I g by (simp add: bus_inv_def c' generates_def)
qed

lemma sendData_bus:
  assumes I: "bus_inv csch initial std ranks c" and p: "busPacketType p = DATA" "\<not> postCommand p"
    and "sendData std p c = ok c'"
  shows "bus_inv csch initial std ranks c' \<and> sendDataBuffer c' = sendDataBuffer c \<and> sendDataCounter c' = sendDataCounter c"
proof -
  from assms(4) obtain d where d: "receiveFromBus std p (csDevice (mcCmd c)) = ok d"
    and c': "mcCmd c' = (mcCmd c)\<lparr>csDevice := d\<rparr>" "mcEnv c' = mcEnv c" "sendDataBuffer c' = sendDataBuffer c" "sendDataCounter c' = sendDataCounter c"
    by (auto simp: sendData_def call_back_def Let_def res_simps split: option.splits if_splits)
  then show ?thesis using I chan_run.data [OF _ p d] by (simp add: bus_inv_def)
qed

lemma in_set_tlD: "p \<in> set (tl xs) \<Longrightarrow> p \<in> set xs"
  by (cases xs) auto

lemma send_due_bus:
  assumes I: "bus_inv csch initial std ranks c" and "send_due std c = ok c'"
  shows "bus_inv csch initial std ranks c'"
proof -
  have upd: "bus_inv csch initial std ranks (x\<lparr>sendDataCounter := n\<rparr>) = bus_inv csch initial std ranks x"
    "bus_inv csch initial std ranks x \<Longrightarrow> bus_inv csch initial std ranks (x\<lparr>sendDataBuffer := tl (sendDataBuffer x)\<rparr>)" for x n
    by (auto simp: bus_inv_def dest: in_set_tlD)
  show ?thesis
    using assms
    by (auto simp: send_due_def res_simps upd split: if_splits
        dest!: sendData_bus [OF I, rotated -1]) (auto simp: bus_inv_def dest: in_set_tlD)
qed

lemma mc_update_bus:
  assumes "request_scheduler rsch" and I: "bus_inv csch initial std ranks c" and "mc_update rsch csch std c = ok c'"
  shows "bus_inv csch initial std ranks c'"
proof -
  from assms(3) obtain c1 c2 cs out cs' c3 where 1: "schedule_requests rsch c = ok c1"
    and 2: "drain (bufferSize (commandGenerator (mcEnv c1))) c1 = ok c2" and 3: "cs_refresh std (mcCmd c2) = ok cs"
    and 4: "csch std cs = ok (out, cs')" and 5: "send_due std (announce_data std out (c2\<lparr>mcCmd := cs'\<rparr>)) = ok c3"
    and 6: "mc_step c3 = ok c'"
    by (auto simp: mc_update_def res_simps)
  have I2: "bus_inv csch initial std ranks c2" by (rule drain_bus [OF schedule_requests_bus [OF assms(1) I 1] 2])
  then have "chan_run csch initial std ranks (mcCmd c2)" by (simp add: bus_inv_def)
  then have "chan_run csch initial std ranks cs" by (rule chan_run.refresh) (rule 3)
  then have "chan_run csch initial std ranks cs'" by (rule chan_run.issue) (rule 4)
  then have "bus_inv csch initial std ranks (announce_data std out (c2\<lparr>mcCmd := cs'\<rparr>))"
    using I2 by (auto simp: bus_inv_def announce_data_def Let_def new_BusPacket_def split: option.splits)
  then have I3: "bus_inv csch initial std ranks c3" by (rule send_due_bus [OF _ 5])
  from 6 obtain cs3 where "cs_tick (mcCmd c3) = ok cs3" "mcCmd c' = cs3" "mcEnv c' = mcEnv c3" "sendDataBuffer c' = sendDataBuffer c3"
    by (auto simp: mc_step_def res_simps)
  then show ?thesis using I3 chan_run.tick by (auto simp: bus_inv_def)
qed

lemma receiveData_bus:
  "receiveData p c = ok c' \<Longrightarrow> bus_inv csch initial std ranks c' = bus_inv csch initial std ranks c"
  by (auto simp: receiveData_def call_back_def Let_def res_simps bus_inv_def split: option.splits if_splits)

lemma ms_update_bus:
  assumes "request_scheduler rsch" and I: "bus_inv csch initial std ranks (memoryController m)" and "ms_update rsch csch std m = ok m'"
  shows "bus_inv csch initial std ranks (memoryController m')"
proof -
  from assms(3) obtain c p d c2 where 1: "mc_update rsch csch std (memoryController m) = ok c"
    and 2: "dev_update std (csDevice (mcCmd c)) = ok (p, d)"
    and 3: "(case p of None \<Rightarrow> ok (c\<lparr>mcCmd := (mcCmd c)\<lparr>csDevice := d\<rparr>\<rparr>)
               | Some q \<Rightarrow> receiveData q (c\<lparr>mcCmd := (mcCmd c)\<lparr>csDevice := d\<rparr>\<rparr>)) = ok c2"
    and m': "memoryController m' = c2"
    by (auto simp: ms_update_def Let_def res_simps)
  have "bus_inv csch initial std ranks c" by (rule mc_update_bus [OF assms(1) I 1])
  then have "bus_inv csch initial std ranks (c\<lparr>mcCmd := (mcCmd c)\<lparr>csDevice := d\<rparr>\<rparr>)"
    using chan_run.cycle [OF _ 2] by (simp add: bus_inv_def)
  then show ?thesis using 3 m' by (cases p) (auto simp: receiveData_bus)
qed

lemma addRequest_bus:
  assumes "addRequest fl mem i a rw sz c = ok c'"
  shows "bus_inv csch initial std ranks c' = bus_inv csch initial std ranks c"
proof -
  have "mcCmd c' = mcCmd c \<and> commandGenerator (mcEnv c') = commandGenerator (mcEnv c)
      \<and> generatorKind (mcEnv c') = generatorKind (mcEnv c) \<and> sendDataBuffer c' = sendDataBuffer c"
    using assms unfolding addRequest_def Let_def
    by (clarsimp simp: res_simps)
  then show ?thesis by (simp add: bus_inv_def)
qed

text \<open>
  The life of a memory system: it is constructed from a configuration that does not name the
  MCMC generator, requests arrive at any time, writes may be flushed, and cycles pass.
\<close>

inductive sys_run ::
  "('r req_sched_scheme \<times> sched_env \<Rightarrow> ('r req_sched_scheme \<times> sched_env) res) \<Rightarrow>
   (device_std \<Rightarrow> 'c cmd_sched_scheme \<Rightarrow> (packet option \<times> 'c cmd_sched_scheme) res) \<Rightarrow>
   (command_queue list \<Rightarrow> (u32 \<rightharpoonup> bool) \<Rightarrow> 'c cmd_sched_scheme) \<Rightarrow> device_std \<Rightarrow> u32 \<Rightarrow> ('r, 'c) memory_system \<Rightarrow> bool"
  for rsch csch newCmd std ranks where
  construct: "new_MemorySystem newReq newCmd std ranks numRequestors cb cfg mem = ok m \<Longrightarrow>
     generatorKind (mcEnv (memoryController m)) \<noteq> Gen_MCMC \<Longrightarrow> sys_run rsch csch newCmd std ranks m"
| request: "sys_run rsch csch newCmd std ranks m \<Longrightarrow> ms_addRequest fl r i a rw sz m = ok m' \<Longrightarrow>
     sys_run rsch csch newCmd std ranks m'"
| flush: "sys_run rsch csch newCmd std ranks m \<Longrightarrow> sys_run rsch csch newCmd std ranks (ms_flushWrite sw m)"
| cycle: "sys_run rsch csch newCmd std ranks m \<Longrightarrow> ms_update rsch csch std m = ok m' \<Longrightarrow>
     sys_run rsch csch newCmd std ranks m'"

text \<open>What a constructor of a command scheduler does: the base class first, then its own members.\<close>

definition constructs :: "(command_queue list \<Rightarrow> (u32 \<rightharpoonup> bool) \<Rightarrow> 'c cmd_sched_scheme) \<Rightarrow> ('c cmd_sched_scheme \<Rightarrow> bool) \<Rightarrow> bool" where
  "constructs newCmd initial \<longleftrightarrow> (\<forall>qs table. initial (newCmd qs table) \<and> new_CommandScheduler (newCmd qs table) qs table = newCmd qs table)"

lemma new_generator_empty: "commandBuffer (new_generator kind bus) = []"
  by (cases kind) (simp_all add: new_CommandGenerator_def new_CommandGenerator_Close_def new_CommandGenerator_MCMC_def)

lemma construct_bus:
  assumes "constructs newCmd initial" and "new_MemorySystem newReq newCmd std ranks n cb cfg mem = ok m"
    and "generatorKind (mcEnv (memoryController m)) \<noteq> Gen_MCMC"
  shows "bus_inv csch initial std ranks (memoryController m)"
proof -
  from assms(2) have "\<exists>k b table kind. mcCmd (memoryController m) = cs_connectMemoryDevice std (new_Ramulator std ranks)
          (newCmd (replicate k (new_CommandQueue b)) table) \<and>
      commandGenerator (mcEnv (memoryController m)) = new_generator kind (busWidth (memoryController m)) \<and>
      sendDataBuffer (memoryController m) = []"
    by (clarsimp simp: new_MemorySystem_def new_MemoryController_def mc_connectMemoryDevice_def connectCommandGenerator_def
        Let_def res_simps) blast
  then obtain k b table kind where m: "mcCmd (memoryController m) = cs_connectMemoryDevice std (new_Ramulator std ranks)
          (newCmd (replicate k (new_CommandQueue b)) table)"
      "commandGenerator (mcEnv (memoryController m)) = new_generator kind (busWidth (memoryController m))"
      "sendDataBuffer (memoryController m) = []"
    by blast
  let ?qs = "replicate k (new_CommandQueue b)"
  have "chan_run csch initial std ranks (cs_connectMemoryDevice std (new_Ramulator std ranks)
      (new_CommandScheduler (newCmd ?qs table) ?qs table))"
    by (rule chan_run.start) (use assms(1) in \<open>auto simp: constructs_def\<close>)
  then show ?thesis using assms(1,3) m
    by (simp add: bus_inv_def constructs_def new_generator_empty no_post_def)
qed

lemma sys_run_bus:
  assumes "request_scheduler rsch" and "constructs newCmd initial" and "sys_run rsch csch newCmd std ranks m"
  shows "bus_inv csch initial std ranks (memoryController m)"
  using assms(3)
proof (induction rule: sys_run.induct)
  case (construct newReq n cb cfg mem m)
  then show ?case by (intro construct_bus [OF assms(2)])
next
  case (request m fl r i a rw sz m')
  then show ?case by (auto simp: ms_addRequest_def res_simps addRequest_bus)
next
  case (flush m sw)
  then show ?case by (simp add: ms_flushWrite_def flushWrite_def bus_inv_def)
next
  case (cycle m m')
  then show ?case using ms_update_bus [OF assms(1)] by blast
qed

end
