(* ===== verification/TraceFile.thy ===== *)
theory TraceFile
  imports Configuration
begin

text \<open>
  The trace format of \<^verbatim>\<open>src/src/Requestor.cpp\<close>: a line has an address with a two-character prefix, the
  word \<^verbatim>\<open>READ\<close> or \<^verbatim>\<open>WRITE\<close> and a delay, separated by blanks (\<^verbatim>\<open>parseTraceFileLine\<close>). The numbers are read
  by the extraction operator of \<^verbatim>\<open>std::istringstream\<close>, which is modelled with its treatment of
  signs, prefixes and overflow.
\<close>

section \<open>Numbers\<close>

definition isspace :: "char \<Rightarrow> bool" where
  "isspace c \<longleftrightarrow> (of_char c :: nat) = 32 \<or> 9 \<le> (of_char c :: nat) \<and> (of_char c :: nat) \<le> 13"

definition digit_value :: "char \<Rightarrow> nat option" where
  "digit_value c =
     (let n = of_char c :: nat
      in if 48 \<le> n \<and> n \<le> 57 then Some (n - 48)
         else if 97 \<le> n \<and> n \<le> 102 then Some (n - 87)
         else if 65 \<le> n \<and> n \<le> 70 then Some (n - 55)
         else None)"

definition is_digit :: "nat \<Rightarrow> char \<Rightarrow> bool" where
  "is_digit base c = (case digit_value c of None \<Rightarrow> False | Some d \<Rightarrow> d < base)"

fun number_value :: "nat \<Rightarrow> int \<Rightarrow> string \<Rightarrow> int" where
  "number_value base acc [] = acc"
| "number_value base acc (c # cs) =
     number_value base (int base * acc + (case digit_value c of None \<Rightarrow> 0 | Some d \<Rightarrow> int d)) cs"

text \<open>
  \<^verbatim>\<open>stream >> value\<close> for a \<^verbatim>\<open>uint64_t\<close>: skip white space, take a sign, in base 16 a \<^verbatim>\<open>0x\<close>, and the
  longest run of digits. No digit gives 0, a number that does not fit the largest value; a
  negative number is negated modulo the word size. A stream with nothing but white space leaves
  the variable as it was, which in the callers here is unassigned.
\<close>

definition read_number :: "nat \<Rightarrow> string \<Rightarrow> u64 res" where
  "read_number base s =
     (let s1 = dropWhile isspace s;
          neg = (s1 \<noteq> [] \<and> hd s1 = CHR ''-'');
          s2 = (if s1 \<noteq> [] \<and> hd s1 \<in> {CHR ''+'', CHR ''-''} then tl s1 else s1);
          s3 = (if base = 16 \<and> take 2 s2 \<in> {''0x'', ''0X''} then drop 2 s2 else s2);
          v = number_value base 0 (takeWhile (is_digit base) s3)
      in if s1 = [] then fail Uninitialised
         else ok (if 2 ^ 64 \<le> v then - 1 else if neg then - word_of_int v else word_of_int v))"

section \<open>Lines\<close>

text \<open>
  The next word: \<^verbatim>\<open>find_first_not_of\<close> a blank, then \<^verbatim>\<open>substr\<close> up to the next one. Where there is no
  word left, \<^verbatim>\<open>substr\<close> is called with \<^verbatim>\<open>npos\<close> and throws.
\<close>

definition next_word :: "string \<Rightarrow> (string \<times> string) res" where
  "next_word s =
     (let s1 = dropWhile (\<lambda>c. c = CHR '' '') s
      in if s1 = [] then fail OutOfRange
         else ok (takeWhile (\<lambda>c. c \<noteq> CHR '' '') s1, dropWhile (\<lambda>c. c \<noteq> CHR '' '') s1))"

text \<open>
  The words of a line: address, command and delay. An unknown command ends the program. The
  division of the delay by the memory clock is left to the caller.
\<close>

definition parse_line :: "string \<Rightarrow> (u64 \<times> RequestType \<times> u64) res" where
  "parse_line line =
     bind_res (next_word line) (\<lambda>(addressStr, rest1).
     bind_res (if length addressStr < 2 then fail OutOfRange else read_number 16 (drop 2 addressStr)) (\<lambda>addr.
     bind_res (next_word rest1) (\<lambda>(cmdStr, rest2).
     bind_res (if cmdStr = ''WRITE'' then ok DATA_WRITE else if cmdStr = ''READ'' then ok DATA_READ else fail Abort) (\<lambda>ty.
     bind_res (next_word rest2) (\<lambda>(ccStr, _).
     bind_res (read_number 10 ccStr) (\<lambda>delay.
       ok (addr, ty, delay)))))))"

section \<open>Round trip\<close>

definition digit_char :: "nat \<Rightarrow> char" where
  "digit_char d = char_of (if d < 10 then 48 + d else 87 + d)"

fun print_number :: "nat \<Rightarrow> nat \<Rightarrow> string" where
  "print_number base n =
     (if n < base \<or> base < 2 then [digit_char n] else print_number base (n div base) @ [digit_char (n mod base)])"

declare print_number.simps [simp del]

definition print_line :: "u64 \<times> RequestType \<times> u64 \<Rightarrow> string" where
  "print_line x =
     (case x of (addr, ty, delay) \<Rightarrow>
        ''0x'' @ print_number 16 (unat addr) @ '' '' @ (case ty of DATA_READ \<Rightarrow> ''READ'' | DATA_WRITE \<Rightarrow> ''WRITE'') @ '' ''
          @ print_number 10 (unat delay))"

lemma digit_value_char: "d < 16 \<Longrightarrow> digit_value (digit_char d) = Some d"
  by (simp add: digit_value_def digit_char_def Let_def)

lemma is_digit_char: "d < base \<Longrightarrow> base \<le> 16 \<Longrightarrow> is_digit base (digit_char d)"
  by (simp add: is_digit_def digit_value_char)

lemma is_digit_not: "is_digit base c \<Longrightarrow> \<not> isspace c \<and> c \<noteq> CHR ''+'' \<and> c \<noteq> CHR ''-'' \<and> c \<noteq> CHR '' '' \<and> c \<noteq> CHR ''x'' \<and> c \<noteq> CHR ''X''"
  by (auto simp: is_digit_def digit_value_def isspace_def Let_def split: if_splits option.splits)

lemma print_number_digits: "2 \<le> base \<Longrightarrow> base \<le> 16 \<Longrightarrow> list_all (is_digit base) (print_number base n)"
proof (induction base n rule: print_number.induct)
  case (1 base n)
  then show ?case by (subst print_number.simps) (auto simp: is_digit_char)
qed

lemma print_number_ne [simp]: "print_number base n \<noteq> []"
  by (subst print_number.simps) simp

lemma number_value_append: "number_value base acc (xs @ ys) = number_value base (number_value base acc xs) ys"
  by (induction xs arbitrary: acc) simp_all

lemma number_value_print: "2 \<le> base \<Longrightarrow> base \<le> 16 \<Longrightarrow> number_value base 0 (print_number base n) = int n"
proof (induction base n rule: print_number.induct)
  case (1 base n)
  show ?case
  proof (cases "n < base")
    case True
    then show ?thesis using 1 by (subst print_number.simps) (simp add: digit_value_char)
  next
    case False
    have "n mod base < 16" using 1(2,3) by (meson le_less_trans less_le_trans mod_less_divisor not_less zero_less_numeral)
    then show ?thesis using 1 False by (subst print_number.simps) (simp add: number_value_append digit_value_char zdiv_int zmod_int)
  qed
qed

text \<open>A string of digits only is read as their value.\<close>

lemma read_number_digits:
  assumes d: "\<forall>c \<in> set s. is_digit base c" and ne: "s \<noteq> []" and v: "number_value base 0 s < 2 ^ 64"
  shows "read_number base s = ok (word_of_int (number_value base 0 s))"
proof -
  obtain c cs where s: "s = c # cs" using ne by (cases s) simp_all
  have c: "\<not> isspace c" "c \<noteq> CHR ''+''" "c \<noteq> CHR ''-''" using d is_digit_not by (auto simp: s)
  then have 1: "dropWhile isspace s = s" "hd s \<notin> {CHR ''+'', CHR ''-''}" by (simp_all add: s)
  have "CHR ''x'' \<notin> set (take 2 s)" "CHR ''X'' \<notin> set (take 2 s)" using d is_digit_not in_set_takeD by metis+
  then have 2: "take 2 s \<notin> {''0x'', ''0X''}" by auto
  have 3: "takeWhile (is_digit base) s = s" using d by (simp add: takeWhile_eq_all_conv)
  show ?thesis using 1(2) 2 v ne by (simp add: read_number_def Let_def 1(1) 3)
qed

lemma read_number_print:
  assumes "2 \<le> base" "base \<le> 16"
  shows "read_number base (print_number base (unat w)) = ok w"
proof -
  have "uint w < 2 ^ 64" using uint_bounded [of w] by simp
  then show ?thesis
    using print_number_digits [OF assms, of "unat w"] number_value_print [OF assms, of "unat w"]
    by (subst read_number_digits) (simp_all add: list_all_iff)
qed

lemma next_word_blank:
  assumes "CHR '' '' \<notin> set w" and "w \<noteq> []" and "rest = [] \<or> hd rest = CHR '' ''"
  shows "next_word (w @ rest) = ok (w, rest)" "next_word (CHR '' '' # w @ rest) = ok (w, rest)"
proof -
  obtain c cs where w: "w = c # cs" using assms(2) by (cases w) simp_all
  have r: "takeWhile (\<lambda>c. c \<noteq> CHR '' '') rest = [] \<and> dropWhile (\<lambda>c. c \<noteq> CHR '' '') rest = rest"
    using assms(3) by (cases rest) auto
  have "\<forall>c \<in> set w. c \<noteq> CHR '' ''" using assms(1) by auto
  then have t: "takeWhile (\<lambda>c. c \<noteq> CHR '' '') (w @ rest) = w \<and> dropWhile (\<lambda>c. c \<noteq> CHR '' '') (w @ rest) = rest"
    using r by (simp add: takeWhile_append2 dropWhile_append2)
  have "c \<noteq> CHR '' ''" using assms(1) by (auto simp: w)
  then have d: "dropWhile (\<lambda>c. c = CHR '' '') (w @ rest) = w @ rest" by (simp add: w)
  show "next_word (w @ rest) = ok (w, rest)" "next_word (CHR '' '' # w @ rest) = ok (w, rest)"
    using t d assms(2) by (simp_all add: next_word_def Let_def)
qed

text \<open>
  (C37) Reading a trace line gives back what was written: for every address, every delay and both
  kinds of request, parsing the printed line returns exactly these three.
\<close>

theorem trace_line_roundtrip: "parse_line (print_line (addr, ty, delay)) = ok (addr, ty, delay)"
proof -
  let ?a = "print_number 16 (unat addr)" and ?d = "print_number 10 (unat delay)"
    and ?t = "case ty of DATA_READ \<Rightarrow> ''READ'' | DATA_WRITE \<Rightarrow> ''WRITE''"
  have nb: "CHR '' '' \<notin> set (print_number base n)" if "2 \<le> base" "base \<le> 16" for base n
    using print_number_digits [OF that, of n] is_digit_not by (force simp: list_all_iff)
  have 1: "next_word (''0x'' @ ?a @ '' '' @ ?t @ '' '' @ ?d) = ok (''0x'' @ ?a, '' '' @ ?t @ '' '' @ ?d)"
    using next_word_blank(1) [of "''0x'' @ ?a" "'' '' @ ?t @ '' '' @ ?d"] nb by simp
  have 2: "next_word ('' '' @ ?t @ '' '' @ ?d) = ok (?t, '' '' @ ?d)"
    using next_word_blank(2) [of ?t "'' '' @ ?d"] by (cases ty) simp_all
  have 3: "next_word ('' '' @ ?d) = ok (?d, [])"
    using next_word_blank(2) [of ?d "[]"] nb by simp
  show ?thesis
    unfolding parse_line_def print_line_def prod.case 1 bind_res.simps
    by (simp only: bind_res.simps prod.case 2 3) (cases ty; simp add: 2 [simplified] 3 [simplified] read_number_print)
qed

end
