(* ===== verification/Requestor.thy ===== *)
theory Requestor
  imports MemorySystem TraceFile "HOL-Library.Multiset"
begin

text \<open>
  \<^verbatim>\<open>src/src/Requestor.{h,cpp}\<close>: a processing element that replays a trace file. It reads one line at
  a time, sends the request to the memory system when its arrival time has come, and keeps it
  until the data returns. The input stream is the list of the lines not read yet, \<open>None\<close> if the
  file could not be opened; the end of the file is reached with the last line. The division of a
  delay by the floating-point clock period, \<^verbatim>\<open>(long)(compDelay / memoryClock)\<close>, is the field
  \<open>memoryClock\<close>. Left out are members nothing reads: the cache, whose \<^verbatim>\<open>find\<close> always fails, the
  addresses prepared for row hits and misses, and the scheduler pointer. \<open>fl\<close> and \<open>mem\<close> are the build
  switches of the address mapping and the storage of a new request.
\<close>

section \<open>State\<close>

record requestor =
  rqID :: u32
  prevArrive :: u32
  prevComplete :: u32
  currentClockCycle :: u32
  RequestBufferSize :: u32
  RequestSize :: u32
  requestRequest :: u64
  completeRequest :: u64
  latency :: u64
  wcLatency :: u64
  compTime :: u64
  long_l :: int
  inOrder :: bool
  bypass_read :: bool
  waitingRequest :: bool
  sim_done :: bool
  memoryClock :: "u64 \<Rightarrow> u64"
  transFile :: "string list option"
  pendingRequest :: "request option"
  corePendingData :: "request list"

definition new_Requestor :: "requestor \<Rightarrow> u32 \<Rightarrow> bool \<Rightarrow> string option \<Rightarrow> requestor" where
  "new_Requestor mem i ordered traceFile =
     mem\<lparr>rqID := i, inOrder := ordered, transFile := map_option split_lines traceFile, sim_done := False,
         bypass_read := False, currentClockCycle := 1, prevArrive := 1, prevComplete := 0, wcLatency := 0,
         compTime := 0, long_l := 0, RequestBufferSize := 32, completeRequest := 0, requestRequest := 0,
         latency := 0, waitingRequest := False, pendingRequest := None, corePendingData := []\<rparr>"

definition setMemoryClock :: "(u64 \<Rightarrow> u64) \<Rightarrow> requestor \<Rightarrow> requestor" where
  "setMemoryClock clk r = r\<lparr>memoryClock := clk\<rparr>"

section \<open>Reading the trace\<close>

text \<open>
  The part of \<^verbatim>\<open>parseTraceFileLine\<close> that turns a delay into the arrival time: relative to the
  completion of the previous request if the requestor is in order, to its arrival otherwise.
\<close>

definition arrival_time :: "u64 \<Rightarrow> requestor \<Rightarrow> u64 \<times> requestor" where
  "arrival_time delay r =
     (let compDelay = memoryClock r delay
      in if inOrder r
         then (compDelay + ucast (prevComplete r), r\<lparr>compTime := compTime r + compDelay\<rparr>)
         else if compDelay = 0 \<and> currentClockCycle r \<noteq> 1
         then let n = prevArrive r + 1 in (ucast n, r\<lparr>prevArrive := n\<rparr>)
         else let t = compDelay + ucast (prevArrive r) in (t, r\<lparr>prevArrive := ucast t\<rparr>))"

definition parseTraceFileLine :: "string \<Rightarrow> requestor \<Rightarrow> (u64 \<times> RequestType \<times> u64 \<times> requestor) res" where
  "parseTraceFileLine line r =
     bind_res (parse_line line) (\<lambda>(addr, ty, delay).
       case arrival_time delay r of (clk, r') \<Rightarrow> ok (addr, ty, clk, r'))"

text \<open>
  \<^verbatim>\<open>getline\<close>: reading from a stream that could not be opened gives an empty line and never
  reaches the end of the file.
\<close>

definition get_line :: "string list option \<Rightarrow> string \<times> string list option" where
  "get_line f = (case f of Some (l # ls) \<Rightarrow> (l, Some ls) | _ \<Rightarrow> ([], f))"

definition readingTraceFile :: "request \<Rightarrow> requestor \<Rightarrow> (bool \<times> requestor) res" where
  "readingTraceFile mem r =
     (if inOrder r \<and> corePendingData r \<noteq> [] then ok (False, r)
      else if pendingRequest r \<noteq> None then ok (False, r)
      else if transFile r = Some [] then ok (True, r)
      else case get_line (transFile r) of (line, f) \<Rightarrow>
             let r1 = r\<lparr>transFile := f\<rparr>
             in if line = [] then ok (False, r1\<lparr>bypass_read := True\<rparr>)
                else bind_res (parseTraceFileLine line (r1\<lparr>long_l := long_l r1 + 1\<rparr>)) (\<lambda>(addr, ty, clk, r2).
                       ok (False, r2\<lparr>pendingRequest :=
                             Some ((new_Request mem (rqID r2) ty (RequestSize r2) addr 0)\<lparr>arriveTime := ucast clk\<rparr>)\<rparr>)))"

section \<open>Talking to the memory system\<close>

text \<open>\<^verbatim>\<open>sendRequest\<close>; \<^verbatim>\<open>addRequest\<close> of the memory system always returns true.\<close>

definition sendRequest ::
  "build_flags \<Rightarrow> request \<Rightarrow> request \<Rightarrow> requestor \<times> ('r, 'c) multi_channel \<Rightarrow> (requestor \<times> ('r, 'c) multi_channel) res" where
  "sendRequest fl mem q st =
     (case st of (r, m) \<Rightarrow>
        bind_res (mcms_addRequest fl mem (requestorID q) (address q) (requestType q \<noteq> DATA_WRITE) (requestSize q) m) (\<lambda>m'.
          ok (r\<lparr>requestRequest := requestRequest r + 1, latency := 0, waitingRequest := True,
                corePendingData := corePendingData r @ [q\<lparr>arriveTime := currentClockCycle r\<rparr>]\<rparr>, m')))"

definition returnData :: "request \<Rightarrow> requestor \<Rightarrow> requestor res" where
  "returnData q r =
     (if corePendingData r = [] then ok r
      else let r1 =
             (case first_index (\<lambda>x. address q = address x) (corePendingData r) of
                None \<Rightarrow> r
              | Some i \<Rightarrow>
                  let d = ucast (currentClockCycle r - arriveTime (corePendingData r ! i)) :: u64
                  in r\<lparr>wcLatency := (if d > wcLatency r then d else wcLatency r), prevComplete := currentClockCycle r,
                       completeRequest := completeRequest r + 1, latency := 0, waitingRequest := False,
                       corePendingData := erase_at i (corePendingData r)\<rparr>)
           in if latency r1 \<noteq> 0 then fail Abort else ok r1)"

text \<open>The middle part of \<^verbatim>\<open>update\<close>: send the pending request, or ask for the writes to be flushed.\<close>

definition try_send ::
  "build_flags \<Rightarrow> request \<Rightarrow> requestor \<times> ('r, 'c) multi_channel \<Rightarrow> (requestor \<times> ('r, 'c) multi_channel) res" where
  "try_send fl mem st =
     (case st of (r, m) \<Rightarrow>
        case pendingRequest r of
          Some q \<Rightarrow>
            bind_res (mcms_isWriteModeFromController m) (\<lambda>wm.
              if wm then ok (r, m)
              else if arriveTime q \<le> currentClockCycle r
              then bind_res (mcms_generalBufferSize m) (\<lambda>n.
                     if n \<le> unat (RequestBufferSize r) \<and> length (corePendingData r) \<le> unat (RequestBufferSize r)
                     then bind_res (sendRequest fl mem q (r, m)) (\<lambda>(r1, m1). ok (r1\<lparr>pendingRequest := None\<rparr>, m1))
                     else ok (r, m))
              else ok (r, m))
        | None \<Rightarrow> if bypass_read r then bind_res (mcms_flushWrite True m) (\<lambda>m1. ok (r, m1)) else ok (r, m))"

definition requestor_update ::
  "build_flags \<Rightarrow> request \<Rightarrow> requestor \<times> ('r, 'c) multi_channel \<Rightarrow> (requestor \<times> ('r, 'c) multi_channel) res" where
  "requestor_update fl mem st =
     (case st of (r, m) \<Rightarrow>
        bind_res (readingTraceFile mem (r\<lparr>latency := latency r + 1\<rparr>)) (\<lambda>(fin, r1).
        bind_res (try_send fl mem (r1\<lparr>sim_done := fin\<rparr>, m)) (\<lambda>(r2, m2).
          ok (r2\<lparr>sim_done := (if corePendingData r2 \<noteq> [] then False else sim_done r2),
                 currentClockCycle := currentClockCycle r2 + 1\<rparr>, m2))))"

definition sim_end :: "requestor \<Rightarrow> bool" where
  "sim_end r = sim_done r"

section \<open>The requests of a requestor\<close>

text \<open>
  What the counters mean: every line read is sent or pending, every request sent is completed or
  waiting for its data. A requestor that works in order has at most one request on its way.
\<close>

definition requestor_inv :: "requestor \<Rightarrow> bool" where
  "requestor_inv r \<longleftrightarrow>
     of_int (long_l r) = requestRequest r + (if pendingRequest r = None then 0 else 1)
   \<and> requestRequest r = completeRequest r + of_nat (length (corePendingData r))
   \<and> (inOrder r \<longrightarrow> length (corePendingData r) + (if pendingRequest r = None then 0 else 1) \<le> 1)
   \<and> (\<forall>q \<in> set (corePendingData r). requestorID q = rqID r) \<and> (\<forall>q. pendingRequest r = Some q \<longrightarrow> requestorID q = rqID r)"

lemma requestor_inv_new: "requestor_inv (new_Requestor mem i ordered f)"
  by (simp add: requestor_inv_def new_Requestor_def)

lemma requestor_inv_cong:
  "requestor_inv (r\<lparr>latency := a\<rparr>) = requestor_inv r" "requestor_inv (r\<lparr>sim_done := b\<rparr>) = requestor_inv r"
  "requestor_inv (r\<lparr>currentClockCycle := c\<rparr>) = requestor_inv r" "requestor_inv (r\<lparr>bypass_read := b\<rparr>) = requestor_inv r"
  "requestor_inv (r\<lparr>transFile := f\<rparr>) = requestor_inv r"
  by (simp_all add: requestor_inv_def)

text \<open>The fields an arrival time does not depend on, and those it leaves alone.\<close>

lemma arrival_time_frame:
  assumes "arrival_time d r = (clk, r')"
  shows "long_l r' = long_l r \<and> requestRequest r' = requestRequest r \<and> completeRequest r' = completeRequest r
       \<and> corePendingData r' = corePendingData r \<and> pendingRequest r' = pendingRequest r \<and> inOrder r' = inOrder r
       \<and> rqID r' = rqID r"
  using assms by (auto simp: arrival_time_def Let_def split: if_splits)

lemma readingTraceFile_inv:
  assumes "requestor_inv r" and "readingTraceFile mem r = ok (fin, r')"
  shows "requestor_inv r' \<and> rqID r' = rqID r \<and> inOrder r' = inOrder r \<and> corePendingData r' = corePendingData r"
proof -
  have parsed: "requestor_inv (r2\<lparr>pendingRequest := Some ((new_Request mem (rqID r) ty sz addr 0)\<lparr>arriveTime := c\<rparr>)\<rparr>)
      \<and> rqID r2 = rqID r \<and> inOrder r2 = inOrder r \<and> corePendingData r2 = corePendingData r"
    if p: "parseTraceFileLine line (r\<lparr>transFile := f, long_l := long_l r + 1\<rparr>) = ok (a, ty', clk, r2)"
      and n: "pendingRequest r = None" "\<not> (inOrder r \<and> corePendingData r \<noteq> [])" for line f a ty' clk r2 ty sz addr c
  proof -
    from p obtain d where "arrival_time d (r\<lparr>transFile := f, long_l := long_l r + 1\<rparr>) = (clk, r2)"
      by (auto simp: parseTraceFileLine_def res_simps split: prod.splits)
    from arrival_time_frame [OF this] n assms(1) show ?thesis
      by (auto simp: requestor_inv_def new_Request_def)
  qed
  show ?thesis
    using assms parsed
    by (auto simp: readingTraceFile_def Let_def res_simps requestor_inv_cong split: if_splits prod.splits)
qed

lemma try_send_cases:
  assumes "try_send fl mem (r, m) = ok (r', m')"
  obtains "r' = r" and "m' = m \<or> mcms_flushWrite True m = ok m'"
  | q where "pendingRequest r = Some q"
      and "mcms_addRequest fl mem (requestorID q) (address q) (requestType q \<noteq> DATA_WRITE) (requestSize q) m = ok m'"
      and "r' = r\<lparr>requestRequest := requestRequest r + 1, latency := 0, waitingRequest := True,
                  corePendingData := corePendingData r @ [q\<lparr>arriveTime := currentClockCycle r\<rparr>], pendingRequest := None\<rparr>"
  using assms
  by (auto simp: try_send_def sendRequest_def res_simps split: option.splits if_splits)

lemma try_send_inv:
  assumes "requestor_inv r" and "try_send fl mem (r, m) = ok (r', m')"
  shows "requestor_inv r' \<and> rqID r' = rqID r \<and> inOrder r' = inOrder r"
  using assms(2)
proof (cases rule: try_send_cases)
  case 1
  then show ?thesis using assms(1) by simp
next
  case (2 q)
  then show ?thesis using assms(1) by (auto simp: requestor_inv_def)
qed

lemma requestor_update_inv:
  assumes "requestor_inv r" and "requestor_update fl mem (r, m) = ok (r', m')"
  shows "requestor_inv r' \<and> rqID r' = rqID r \<and> inOrder r' = inOrder r"
proof -
  from assms(2) obtain fin r1 r2 b c where 1: "readingTraceFile mem (r\<lparr>latency := latency r + 1\<rparr>) = ok (fin, r1)"
    and 2: "try_send fl mem (r1\<lparr>sim_done := fin\<rparr>, m) = ok (r2, m')" and r': "r' = r2\<lparr>sim_done := b, currentClockCycle := c\<rparr>"
    by (auto simp: requestor_update_def res_simps)
  have "requestor_inv r1 \<and> rqID r1 = rqID r \<and> inOrder r1 = inOrder r" using readingTraceFile_inv [OF _ 1] assms(1) by (simp add: requestor_inv_cong)
  then show ?thesis using try_send_inv [OF _ 2] r' by (simp add: requestor_inv_cong)
qed

text \<open>The data a requestor waits for: who asked, and for which address.\<close>

definition asked :: "request \<Rightarrow> u32 \<times> u64" where
  "asked q = (requestorID q, address q)"

definition awaits :: "requestor \<Rightarrow> (u32 \<times> u64) multiset" where
  "awaits r = image_mset asked (mset (corePendingData r))"

lemma mset_erase_at: "i < length xs \<Longrightarrow> mset xs = add_mset (xs ! i) (mset (erase_at i xs))"
  using arg_cong [OF erase_at_split, of i xs mset] by (simp add: erase_at_def)

text \<open>Data that is awaited is always found, and taken off the list once.\<close>

lemma returnData_awaited:
  assumes "requestor_inv r" and "asked q \<in># awaits r"
  shows "\<exists>r'. returnData q r = ok r' \<and> requestor_inv r' \<and> rqID r' = rqID r \<and> inOrder r' = inOrder r
           \<and> awaits r = add_mset (asked q) (awaits r')
           \<and> completeRequest r' = completeRequest r + 1"
proof -
  from assms(2) obtain x where x: "x \<in> set (corePendingData r)" "asked x = asked q" by (auto simp: awaits_def)
  then obtain i where i: "first_index (\<lambda>x. address q = address x) (corePendingData r) = Some i"
    using first_index_None_iff [of "\<lambda>x. address q = address x" "corePendingData r"] by (fastforce simp: asked_def)
  then have l: "i < length (corePendingData r)" and a: "address q = address (corePendingData r ! i)"
    by (simp_all add: first_index_Some_iff)
  have "requestorID q = rqID r" "requestorID (corePendingData r ! i) = rqID r"
    using x assms(1) l by (auto simp: requestor_inv_def asked_def)
  with a have "asked (corePendingData r ! i) = asked q" by (simp add: asked_def)
  with mset_erase_at [OF l] have w: "awaits r = add_mset (asked q) (image_mset asked (mset (erase_at i (corePendingData r))))"
    by (simp add: awaits_def)
  have ne: "corePendingData r \<noteq> []" using x by auto
  have "of_nat (length (corePendingData r)) = (1 + of_nat (length (corePendingData r) - 1) :: u64)"
    using ne by (cases "corePendingData r") simp_all
  then show ?thesis
    using assms(1) i l w ne by (auto simp: returnData_def Let_def requestor_inv_def awaits_def algebra_simps)
qed

lemma requestor_update_awaits:
  assumes "requestor_inv r" and "requestor_update fl mem (r, m) = ok (r', m')"
  obtains "awaits r' = awaits r" and "m' = m \<or> mcms_flushWrite True m = ok m'"
  | q where "requestorID q = rqID r" and "awaits r' = add_mset (asked q) (awaits r)"
      and "mcms_addRequest fl mem (requestorID q) (address q) (requestType q \<noteq> DATA_WRITE) (requestSize q) m = ok m'"
proof -
  from assms(2) obtain fin r1 r2 b c where 1: "readingTraceFile mem (r\<lparr>latency := latency r + 1\<rparr>) = ok (fin, r1)"
    and 2: "try_send fl mem (r1\<lparr>sim_done := fin\<rparr>, m) = ok (r2, m')" and r': "r' = r2\<lparr>sim_done := b, currentClockCycle := c\<rparr>"
    by (auto simp: requestor_update_def res_simps)
  have i: "requestor_inv r1" "rqID r1 = rqID r" "awaits r1 = awaits r"
    using readingTraceFile_inv [OF _ 1] assms(1) by (simp_all add: requestor_inv_cong awaits_def)
  from 2 show ?thesis
  proof (cases rule: try_send_cases)
    case 1
    then show ?thesis using that(1) i(3) r' by (simp add: awaits_def)
  next
    case (2 q)
    then show ?thesis using that(2) [of q] i r' by (simp add: awaits_def asked_def requestor_inv_def)
  qed
qed

section \<open>The end of a trace\<close>

text \<open>A requestor that has read its whole trace and has nothing to send and nothing to wait for.\<close>

definition finished :: "requestor \<Rightarrow> bool" where
  "finished r \<longleftrightarrow> transFile r = Some [] \<and> pendingRequest r = None \<and> corePendingData r = []"

lemma finished_complete: "requestor_inv r \<Longrightarrow> finished r \<Longrightarrow> completeRequest r = of_int (long_l r)"
  by (simp add: requestor_inv_def finished_def)

lemma requestor_update_end:
  assumes "requestor_update fl mem (r, m) = ok (r', m')" and "sim_end r'"
  shows "finished r'"
proof -
  from assms(1) obtain fin r1 r2 c where 1: "readingTraceFile mem (r\<lparr>latency := latency r + 1\<rparr>) = ok (fin, r1)"
    and 2: "try_send fl mem (r1\<lparr>sim_done := fin\<rparr>, m) = ok (r2, m')"
    and r': "r' = r2\<lparr>sim_done := (if corePendingData r2 \<noteq> [] then False else sim_done r2), currentClockCycle := c\<rparr>"
    by (auto simp: requestor_update_def res_simps)
  with assms(2) have e: "sim_done r2" "corePendingData r2 = []" by (auto simp: sim_end_def split: if_splits)
  from 2 have r2: "r2 = r1\<lparr>sim_done := fin\<rparr>"
    using e(2) by (cases rule: try_send_cases) simp_all
  with e 1 have "transFile r1 = Some []" "pendingRequest r1 = None"
    by (auto simp: readingTraceFile_def Let_def res_simps split: if_splits prod.splits)
  then show ?thesis using e r' r2 by (simp add: finished_def)
qed

lemma returnData_finished: "finished r \<Longrightarrow> returnData q r = ok r"
  by (simp add: returnData_def finished_def)

end
