(* ===== verification/SlotSchedulers.thy ===== *)
theory SlotSchedulers
  imports RequestInterface
begin

text \<open>
  Four more request schedulers: the time slots of \<^verbatim>\<open>src/system/PMC/RequestScheduler_PMC.h\<close> and
  \<^verbatim>\<open>src/system/MCMC/RequestScheduler_MCMC.h\<close>, the reserved banks of
  \<^verbatim>\<open>src/system/MEDUSA/RequestScheduler_MEDUSA.h\<close> and the rounds of
  \<^verbatim>\<open>src/system/PipeCAS/RequestScheduler_PipeCAS.h\<close>.
\<close>

section \<open>PMC\<close>

record pmc_sched = req_sched +
  pmcIndex :: nat
  pmcSlotCounter :: u32
  pmcScheduleSlot :: "nat list"
  pmcTimeSlot :: "int list"

definition new_RequestScheduler_PMC :: "pmc_sched \<Rightarrow> pmc_sched" where
  "new_RequestScheduler_PMC mem =
     (new_RequestScheduler mem)\<lparr>pmcSlotCounter := 0, pmcIndex := 0, pmcScheduleSlot := [], pmcTimeSlot := []\<rparr>"

definition next_slot :: "nat \<Rightarrow> nat \<Rightarrow> nat" where
  "next_slot i n = (if Suc i = n then 0 else Suc i)"

definition pmc_slot :: "pmc_sched \<times> 'e sched_env_scheme \<Rightarrow> (pmc_sched \<times> 'e sched_env_scheme) res" where
  "pmc_slot st =
     (case st of (s, e) \<Rightarrow>
        bind_res (nth_res (pmcScheduleSlot s) (pmcIndex s)) (\<lambda>slot.
        bind_res (queue_at 0 e) (\<lambda>q.
        bind_res (getSize True slot q) (\<lambda>n.
        bind_res (if n > 0 then bind_res (getRequest_requestor slot 0 q) (\<lambda>(p, q1). ok (s\<lparr>scheduledReq := p\<rparr>, put_queue 0 q1 e))
                  else ok (s, e)) (\<lambda>(s1, e1).
          case scheduledReq s1 of
            None \<Rightarrow> ok (s1, e1)
          | Some r \<Rightarrow>
              bind_res (isSchedulable r False e1) (\<lambda>(b, e2).
                if b
                then bind_res (remove_from 0 e2) (\<lambda>e3.
                     bind_res (nth_res (pmcTimeSlot s1) slot) (\<lambda>t. ok (s1\<lparr>pmcSlotCounter := word_of_int (t - 1)\<rparr>, e3)))
                else fail Abort))))))"

fun pmc_loop :: "nat \<Rightarrow> pmc_sched \<times> 'e sched_env_scheme \<Rightarrow> (pmc_sched \<times> 'e sched_env_scheme) res" where
  "pmc_loop 0 st = ok st"
| "pmc_loop (Suc n) st =
     bind_res (pmc_slot st) (\<lambda>(s, e).
       let s1 = s\<lparr>pmcIndex := next_slot (pmcIndex s) (length (pmcScheduleSlot s))\<rparr>
       in if scheduledReq s1 \<noteq> None then ok (s1\<lparr>scheduledReq := None\<rparr>, e) else pmc_loop n (s1, e))"

definition requestSchedule_PMC ::
  "pmc_sched \<times> 'e sched_env_scheme \<Rightarrow> (pmc_sched \<times> 'e sched_env_scheme) res" where
  "requestSchedule_PMC st =
     (case st of (s0, e) \<Rightarrow>
        let s = (if clockCycle s0 = 1
                 then s0\<lparr>pmcScheduleSlot := [0, 1, 2, 3, 4, 5, 6, 7], pmcTimeSlot := replicate 8 47\<rparr> else s0)
        in if pmcSlotCounter s = 0 then pmc_loop (length (pmcScheduleSlot s)) (s\<lparr>scheduledReq := None\<rparr>, e)
           else ok (s\<lparr>pmcSlotCounter := pmcSlotCounter s - 1\<rparr>, e))"

section \<open>MCMC\<close>

text \<open>
  \<open>table\<close> holds the entries of \<^verbatim>\<open>requestorCriticalTable\<close> in the order of their keys. A request in
  \<^verbatim>\<open>reqSubBuffer\<close> is \<open>None\<close> once it is deleted: using it then is undefined.
\<close>

record mcmc_sched = req_sched +
  mcmcIndex :: nat
  mcmcSlotCounter :: u32
  mcmcDataBusSize :: u32
  mcmcScheduleSlot :: "u32 list"
  mcmcTimeSlot :: "int list"
  srtSlot :: "u32 list list"
  srtIndex :: "nat list"
  reqSubBuffer :: "request option list list"

definition new_RequestScheduler_MCMC :: "mcmc_sched \<Rightarrow> u32 \<Rightarrow> mcmc_sched" where
  "new_RequestScheduler_MCMC mem dataBus =
     (new_RequestScheduler mem)\<lparr>mcmcSlotCounter := 0, mcmcIndex := 0, mcmcDataBusSize := dataBus, mcmcScheduleSlot := [],
        mcmcTimeSlot := [], srtSlot := [], srtIndex := [], reqSubBuffer := []\<rparr>"

definition mcmc_assign :: "u32 \<times> bool \<Rightarrow> mcmc_sched \<Rightarrow> mcmc_sched res" where
  "mcmc_assign entry s =
     (if snd entry then ok s
      else if mcmcScheduleSlot s = [] then fail DivByZero
      else let i = unat (fst entry) mod length (mcmcScheduleSlot s)
           in bind_res (nth_res (srtSlot s) i) (\<lambda>l. ok (s\<lparr>srtSlot := (srtSlot s)[i := l @ [fst entry]]\<rparr>)))"

definition mcmc_init :: "(u32 \<times> bool) list \<Rightarrow> mcmc_sched \<Rightarrow> mcmc_sched res" where
  "mcmc_init table s =
     (let crit = map fst (filter snd table);
          slots = mcmcScheduleSlot s @ crit;
          s1 = s\<lparr>mcmcScheduleSlot := slots, mcmcTimeSlot := mcmcTimeSlot s @ replicate (length crit) 10,
                 reqSubBuffer := reqSubBuffer s @ replicate (length table) [],
                 srtSlot := srtSlot s @ replicate (length slots) [], srtIndex := srtIndex s @ replicate (length slots) 0\<rparr>
      in fold_res mcmc_assign table s1)"

text \<open>Splitting a request into parts of the width of the data bus; \<open>mem\<close> is the storage of a new part.\<close>

definition sub_request :: "request \<Rightarrow> u32 \<Rightarrow> request \<Rightarrow> request" where
  "sub_request mem bus r =
     (new_Request mem (requestorID r) (requestType r) bus (address r) 0)\<lparr>rank := rank r, bank := bank r, row := row r, col := col r\<rparr>"

definition mcmc_fill ::
  "request \<Rightarrow> nat \<Rightarrow> mcmc_sched \<times> 'e sched_env_scheme \<Rightarrow> (mcmc_sched \<times> 'e sched_env_scheme) res" where
  "mcmc_fill mem req st =
     (case st of (s, e) \<Rightarrow>
        bind_res (nth_res (reqSubBuffer s) req) (\<lambda>buf.
          if buf \<noteq> [] then ok (s, e)
          else bind_res (queue_at 0 e) (\<lambda>q.
               bind_res (getSize True req q) (\<lambda>n.
                 if n > 0
                 then bind_res (getRequest_requestor req 0 q) (\<lambda>(p, q1).
                      bind_res (deref p) (\<lambda>r.
                        if mcmcDataBusSize s = 0 then fail DivByZero
                        else let parts = replicate (unat (requestSize r div mcmcDataBusSize s)) (sub_request mem (mcmcDataBusSize s) r)
                             in bind_res (remove_from 0 (put_queue 0 q1 e)) (\<lambda>e1.
                                  ok (s\<lparr>scheduledReq := p, reqSubBuffer := (reqSubBuffer s)[req := map Some parts]\<rparr>, e1))))
                 else ok (s, e)))))"

definition mcmc_critical ::
  "nat \<Rightarrow> mcmc_sched \<times> 'e sched_env_scheme \<Rightarrow> (mcmc_sched \<times> 'e sched_env_scheme) res" where
  "mcmc_critical req st =
     (case st of (s, e) \<Rightarrow>
        bind_res (nth_res (reqSubBuffer s) req) (\<lambda>buf.
        bind_res (nth_res buf 0) (\<lambda>p.
        bind_res (deref p) (\<lambda>r.
        bind_res (isSchedulable r False e) (\<lambda>(b, e1).
          ok (s\<lparr>scheduledReq := None, reqSubBuffer := (if b then (reqSubBuffer s)[req := tl buf] else reqSubBuffer s)\<rparr>, e1))))))"

text \<open>
  A turn of a requestor that shares the slot. The request is deleted whether it was taken from
  the buffer or not.
\<close>

definition mcmc_shared ::
  "request \<Rightarrow> nat \<Rightarrow> mcmc_sched \<times> 'e sched_env_scheme \<Rightarrow> (mcmc_sched \<times> 'e sched_env_scheme) res" where
  "mcmc_shared mem req st =
     bind_res (mcmc_fill mem req st) (\<lambda>(s, e).
     bind_res (nth_res (reqSubBuffer s) req) (\<lambda>buf.
       case buf of
         [] \<Rightarrow> ok (s, e)
       | p # rest \<Rightarrow>
           bind_res (deref p) (\<lambda>r.
           bind_res (isSchedulable r False e) (\<lambda>(b, e1).
             ok (s\<lparr>scheduledReq := p, reqSubBuffer := (reqSubBuffer s)[req := (if b then rest else None # rest)]\<rparr>, e1)))))"

fun mcmc_share ::
  "request \<Rightarrow> nat \<Rightarrow> mcmc_sched \<times> 'e sched_env_scheme \<Rightarrow> (mcmc_sched \<times> 'e sched_env_scheme) res" where
  "mcmc_share mem 0 st = ok st"
| "mcmc_share mem (Suc n) st =
     (case st of (s, e) \<Rightarrow>
        bind_res (nth_res (srtSlot s) (mcmcIndex s)) (\<lambda>shared.
        bind_res (nth_res (srtIndex s) (mcmcIndex s)) (\<lambda>i.
        bind_res (nth_res shared i) (\<lambda>req.
        bind_res (mcmc_shared mem (unat req) (s, e)) (\<lambda>(s1, e1).
          let s2 = s1\<lparr>srtIndex := (srtIndex s1)[mcmcIndex s1 := next_slot i (length shared)]\<rparr>
          in if scheduledReq s2 \<noteq> None then ok (s2\<lparr>scheduledReq := None\<rparr>, e1) else mcmc_share mem n (s2, e1))))))"

definition requestSchedule_MCMC ::
  "(u32 \<times> bool) list \<Rightarrow> request \<Rightarrow> mcmc_sched \<times> 'e sched_env_scheme \<Rightarrow> (mcmc_sched \<times> 'e sched_env_scheme) res" where
  "requestSchedule_MCMC table mem st =
     (case st of (s0, e) \<Rightarrow>
        bind_res (if clockCycle s0 = 1 then mcmc_init table s0 else ok s0) (\<lambda>s1.
        let s = rs_step s1
        in if mcmcSlotCounter s = 0
           then bind_res (nth_res (mcmcScheduleSlot s) (mcmcIndex s)) (\<lambda>slot.
                bind_res (mcmc_fill mem (unat slot) (s\<lparr>scheduledReq := None\<rparr>, e)) (\<lambda>(s2, e2).
                bind_res (nth_res (reqSubBuffer s2) (unat slot)) (\<lambda>buf.
                bind_res (if buf \<noteq> [] then mcmc_critical (unat slot) (s2, e2)
                          else bind_res (nth_res (srtSlot s2) (mcmcIndex s2)) (\<lambda>shared.
                                 mcmc_share mem (length shared) (s2, e2))) (\<lambda>(s3, e3).
                bind_res (nth_res (mcmcTimeSlot s3) (unat slot)) (\<lambda>t.
                  ok (s3\<lparr>mcmcSlotCounter := word_of_int (t - 1),
                         mcmcIndex := next_slot (mcmcIndex s3) (length (mcmcScheduleSlot s3))\<rparr>, e3))))))
           else ok (s\<lparr>mcmcSlotCounter := mcmcSlotCounter s - 1\<rparr>, e)))"

section \<open>MEDUSA\<close>

text \<open>The flag \<^verbatim>\<open>scheduled\<close> is only set right before the call returns, so it is the first result of the steps.\<close>

record medusa_sched = req_sched +
  writeEnabled :: bool
  medusaIndex :: "u32 list"

definition new_RequestScheduler_MEDUSA :: "medusa_sched \<Rightarrow> 'e sched_env_scheme \<Rightarrow> medusa_sched" where
  "new_RequestScheduler_MEDUSA mem e =
     (new_RequestScheduler mem)\<lparr>medusaIndex := replicate (length (requestQueue e)) 0\<rparr>"

fun medusa_reserved ::
  "nat \<Rightarrow> nat \<Rightarrow> medusa_sched \<times> 'e sched_env_scheme \<Rightarrow> (bool \<times> medusa_sched \<times> 'e sched_env_scheme) res" where
  "medusa_reserved index 0 st = ok (False, st)"
| "medusa_reserved index (Suc n) (s, e) =
     bind_res (nth_res (medusaIndex s) index) (\<lambda>ri.
     bind_res (at_res (requestorCriticalTable e) ri) (\<lambda>crit.
       if \<not> crit then medusa_reserved index n (s\<lparr>scheduledReq := None\<rparr>, e)
       else bind_res (queue_at index e) (\<lambda>q.
            bind_res (getSize True (unat ri) q) (\<lambda>m.
            bind_res
              (if m > 0
               then bind_res (getRequest_requestor (unat ri) 0 q) (\<lambda>(p, q1).
                      case p of
                        None \<Rightarrow> ok (False, s\<lparr>scheduledReq := None\<rparr>, put_queue index q1 e)
                      | Some r \<Rightarrow> serve mapped_key (remove_from index) r (s\<lparr>scheduledReq := p, writeEnabled := False\<rparr>, put_queue index q1 e))
               else ok (False, s\<lparr>scheduledReq := None\<rparr>, e))
              (\<lambda>(scheduled, s1, e1).
                 let ri1 = ri + 1;
                     s2 = s1\<lparr>medusaIndex := (medusaIndex s1)[index := (if unat ri1 = getQueueSize q then 0 else ri1)]\<rparr>
                 in if scheduled then ok (True, s2, e1)
                    else medusa_reserved index n (s2\<lparr>scheduledReq := None\<rparr>, e1))))))"

text \<open>The size that is tested is the one of another requestor than the one that is read.\<close>

fun medusa_hits ::
  "nat \<Rightarrow> nat list \<Rightarrow> medusa_sched \<times> 'e sched_env_scheme \<Rightarrow> (bool \<times> medusa_sched \<times> 'e sched_env_scheme) res" where
  "medusa_hits index [] st = ok (False, st)"
| "medusa_hits index (num # rest) (s, e) =
     bind_res (queue_at index e) (\<lambda>q.
     bind_res (nth_res (medusaIndex s) index) (\<lambda>ri.
     bind_res (getSize True (unat ri) q) (\<lambda>m.
       if m > 0
       then bind_res (getRequest_requestor num 0 q) (\<lambda>(p, q1).
              case p of
                None \<Rightarrow> medusa_hits index rest (s\<lparr>scheduledReq := None\<rparr>, put_queue index q1 e)
              | Some r \<Rightarrow>
                  let s1 = s\<lparr>scheduledReq := p, writeEnabled := False\<rparr>; e1 = put_queue index q1 e
                  in bind_res (isRowHit r s1) (\<lambda>hit.
                     bind_res (if hit then serve mapped_key (remove_from index) r (s1, e1) else ok (False, s1, e1))
                       (\<lambda>(scheduled, s2, e2).
                          if scheduled then ok (True, s2, e2)
                          else medusa_hits index rest (s2\<lparr>scheduledReq := None\<rparr>, e2))))
       else medusa_hits index rest (s\<lparr>scheduledReq := None\<rparr>, e))))"

fun medusa_reads ::
  "nat list \<Rightarrow> medusa_sched \<times> 'e sched_env_scheme \<Rightarrow> (bool \<times> medusa_sched \<times> 'e sched_env_scheme) res" where
  "medusa_reads [] st = ok (False, st)"
| "medusa_reads (index # rest) st =
     bind_res (queue_at index (snd st)) (\<lambda>q.
       if isPerRequestor q
       then bind_res (medusa_reserved index (getQueueSize q) st) (\<lambda>(scheduled, st1).
              if scheduled then ok (True, st1)
              else bind_res (queue_at index (snd st1)) (\<lambda>q1.
                   bind_res (medusa_hits index [0..<getQueueSize q1] st1) (\<lambda>(scheduled, st2).
                     if scheduled then ok (True, st2) else medusa_reads rest st2)))
       else medusa_reads rest st)"

definition write_at :: "nat \<Rightarrow> nat \<Rightarrow> 'e sched_env_scheme \<Rightarrow> request res" where
  "write_at index i e = bind_res (queue_at index e) (\<lambda>q. with_writeQueue q (getWrite i))"

text \<open>The loop above the high watermark: its bound shrinks when a write is taken out.\<close>

fun medusa_high ::
  "nat \<Rightarrow> nat list \<Rightarrow> medusa_sched \<times> 'e sched_env_scheme \<Rightarrow> (medusa_sched \<times> 'e sched_env_scheme) res" where
  "medusa_high index [] st = ok st"
| "medusa_high index (i # rest) (s, e) =
     bind_res (queue_at index e) (\<lambda>q.
     bind_res (writeSize q) (\<lambda>n.
       if i < n
       then bind_res (write_at index i e) (\<lambda>r.
            bind_res (isRowHit r s) (\<lambda>hit.
            bind_res
              (if hit
               then bind_res (isSchedulable r True e) (\<lambda>(b, e1). if b then pop_write_from index i e1 else ok e1)
               else ok e)
              (\<lambda>e2. medusa_high index rest (s, e2))))
       else ok (s, e)))"

text \<open>
  The loop down to the low watermark. Its index grows by one in each round and the buffer never
  does, so after as many rounds as there are writes at the start the next access is out of range.
\<close>

fun medusa_low ::
  "nat \<Rightarrow> nat list \<Rightarrow> medusa_sched \<times> 'e sched_env_scheme \<Rightarrow> (medusa_sched \<times> 'e sched_env_scheme) res" where
  "medusa_low index [] st = fail OutOfRange"
| "medusa_low index (i # rest) (s, e) =
     bind_res (queue_at index e) (\<lambda>q.
       with_writeQueue q (\<lambda>w.
         if lowWatermark w then ok (s, e)
         else bind_res (getWrite i w) (\<lambda>r.
              bind_res (isRowHit r s) (\<lambda>hit.
              bind_res (isSchedulable r hit e) (\<lambda>(b, e1).
              bind_res (if b then pop_write_from index i e1 else ok e1) (\<lambda>e2.
                medusa_low index rest (s, e2)))))))"

definition medusa_write ::
  "nat \<Rightarrow> medusa_sched \<times> 'e sched_env_scheme \<Rightarrow> (medusa_sched \<times> 'e sched_env_scheme) res" where
  "medusa_write index st =
     bind_res (queue_at index (snd st)) (\<lambda>q.
       case writeQueue q of
         None \<Rightarrow> ok st
       | Some w \<Rightarrow>
           bind_res (if highWatermark w then medusa_high index [0..<wq_bufferSize w] st else ok st) (\<lambda>st1.
             medusa_low index [0..<Suc (wq_bufferSize w)] st1))"

definition requestSchedule_MEDUSA ::
  "medusa_sched \<times> 'e sched_env_scheme \<Rightarrow> (medusa_sched \<times> 'e sched_env_scheme) res" where
  "requestSchedule_MEDUSA st =
     (case st of (s, e) \<Rightarrow>
        bind_res (medusa_reads [0..<length (requestQueue e)] (s\<lparr>writeEnabled := True\<rparr>, e)) (\<lambda>(scheduled, s1, e1).
          if \<not> scheduled \<and> writeEnabled s1 then fold_res medusa_write [0..<length (requestQueue e1)] (s1, e1)
          else ok (s1, e1)))"

section \<open>PipeCAS\<close>

record pipe_req_sched = req_sched +
  newRound :: bool
  firstACT :: bool
  reqBundlingType :: RequestType
  scheduledCmdQueue :: "u32 list"

definition new_RequestScheduler_PipeCAS :: "pipe_req_sched \<Rightarrow> pipe_req_sched" where
  "new_RequestScheduler_PipeCAS mem =
     (new_RequestScheduler mem)\<lparr>newRound := True, reqBundlingType := DATA_READ, scheduledCmdQueue := []\<rparr>"

definition hrt_size :: "u32 \<Rightarrow> 'e sched_env_scheme \<Rightarrow> nat res" where
  "hrt_size i e = bind_res (nth_res (commandQueue e) (unat i)) (\<lambda>q. ok (cq_getSize True q))"

fun all_full :: "u32 list \<Rightarrow> 'e sched_env_scheme \<Rightarrow> bool res" where
  "all_full [] e = ok True"
| "all_full (i # rest) e = bind_res (hrt_size i e) (\<lambda>n. if n < 2 then ok False else all_full rest e)"

text \<open>The override generates no commands.\<close>

definition isSchedulable_PipeCAS :: "request \<Rightarrow> pipe_req_sched \<Rightarrow> 'e sched_env_scheme \<Rightarrow> bool res" where
  "isSchedulable_PipeCAS r s e =
     bind_res (at_res (requestorCriticalTable e) (requestorID r)) (\<lambda>crit.
       if crit then all_full (scheduledCmdQueue s) e else ok True)"

definition pipe_check :: "u32 \<Rightarrow> pipe_req_sched \<times> 'e sched_env_scheme \<Rightarrow> (pipe_req_sched \<times> 'e sched_env_scheme) res" where
  "pipe_check i st =
     (case st of (s, e) \<Rightarrow>
        bind_res (hrt_size i e) (\<lambda>n.
          ok (if n > 0 then (if n < 2 then s\<lparr>newRound := False, firstACT := True\<rparr> else s\<lparr>newRound := False\<rparr>) else s, e)))"

definition pipe_queue :: "nat \<Rightarrow> pipe_req_sched \<times> 'e sched_env_scheme \<Rightarrow> (pipe_req_sched \<times> 'e sched_env_scheme) res" where
  "pipe_queue index st =
     (case st of (s, e) \<Rightarrow>
        bind_res (queue_at index e) (\<lambda>q.
        bind_res (getSize False 0 q) (\<lambda>n.
          if n > 0
          then bind_res (scheduleFR index s e) (\<lambda>(p, e1).
               bind_res (deref p) (\<lambda>r.
                 let s1 = s\<lparr>scheduledReq := p\<rparr>
                 in if requestType r = reqBundlingType s1
                    then bind_res (isRowHit r s1) (\<lambda>hit.
                         bind_res (isSchedulable_PipeCAS r s1 e1) (\<lambda>b.
                           if b
                           then bind_res (at_res (requestorCriticalTable e1) (requestorID r)) (\<lambda>crit.
                                let s2 = (if crit then s1\<lparr>scheduledCmdQueue := scheduledCmdQueue s1 @ [requestorID r]\<rparr> else s1)
                                in bind_res (remove_from index e1) (\<lambda>e2.
                                     ok (updateRowTable (rank r) (bank r) (row r) s2, e2)))
                           else ok (s1, e1)))
                    else ok (s1, e1)))
          else ok (s, e))))"

definition requestSchedule_PipeCAS ::
  "pipe_req_sched \<times> 'e sched_env_scheme \<Rightarrow> (pipe_req_sched \<times> 'e sched_env_scheme) res" where
  "requestSchedule_PipeCAS st =
     (case st of (s, e) \<Rightarrow>
        bind_res (fold_res pipe_check (scheduledCmdQueue s) (s\<lparr>newRound := True, firstACT := False\<rparr>, e)) (\<lambda>(s1, e1).
        let s2 = (if newRound s1 then s1\<lparr>scheduledCmdQueue := []\<rparr> else s1)
        in if newRound s2 \<or> \<not> firstACT s2 then fold_res pipe_queue [0..<length (requestQueue e1)] (s2, e1)
           else ok (s2\<lparr>reqBundlingType := DATA_WRITE\<rparr>, e1)))"

section \<open>The interface of the request schedulers\<close>

text \<open>The first result of a step says whether a request was served.\<close>

definition reach_flag :: "'e sched_env_scheme \<Rightarrow> 'b \<times> 'a \<times> 'e sched_env_scheme \<Rightarrow> bool" where
  "reach_flag e = (\<lambda>(b, st). reach_env e st)"

lemma reach_flag_pair [simp]: "reach_flag e (b, st) = reach_env e st"
  by (simp add: reach_flag_def)

lemma reach_env_snd: "reach_env e st \<longleftrightarrow> generates e (snd st)"
  by (cases st) simp

lemma serve_reach:
  "generates e0 e \<Longrightarrow> res_all (reach_flag e0) (serve key (remove_from i) r (s, e))"
  by (auto simp: res_all_def dest!: serve_remove_generates intro: generates_trans)

lemma pmc_slot_generates: "generates e0 (snd st) \<Longrightarrow> res_all (reach_env e0) (pmc_slot st)"
proof -
  assume g: "generates e0 (snd st)"
  obtain s e where st: "st = (s, e)" by (cases st)
  have S: "res_all (reach_env e0) (if n > 0 then bind_res (getRequest_requestor slot 0 q) (\<lambda>(p, q1). ok (s\<lparr>scheduledReq := p\<rparr>, put_queue 0 q1 e))
                  else ok (s, e))" for n slot q
    by (intro res_wp) (use g st in auto)
  show ?thesis unfolding st pmc_slot_def prod.case
    by (intro res_all_bind res_all_bind2 [OF S] res_all_prod res_wp) (auto intro: generates_to)
qed

lemma pmc_loop_generates: "generates e0 (snd st) \<Longrightarrow> res_all (reach_env e0) (pmc_loop n st)"
proof (induction n arbitrary: st)
  case (Suc n)
  show ?case unfolding pmc_loop.simps
    by (intro res_all_bind2 [OF pmc_slot_generates [OF Suc.prems]] res_wp Suc.IH) auto
qed (auto simp: reach_env_def)

lemma requestSchedule_PMC_generates: "res_all (reach_env e) (requestSchedule_PMC (s, e))"
  unfolding requestSchedule_PMC_def prod.case Let_def by (intro res_wp pmc_loop_generates) auto

lemma mcmc_fill_generates: "generates e0 (snd st) \<Longrightarrow> res_all (reach_env e0) (mcmc_fill mem i st)"
  unfolding mcmc_fill_def by (cases st, simp, intro res_wp) (auto intro: generates_to)

lemma mcmc_critical_generates: "generates e0 (snd st) \<Longrightarrow> res_all (reach_env e0) (mcmc_critical i st)"
  unfolding mcmc_critical_def by (cases st, simp, intro res_wp) (auto intro: generates_to)

lemma mcmc_shared_generates: "generates e0 (snd st) \<Longrightarrow> res_all (reach_env e0) (mcmc_shared mem i st)"
  unfolding mcmc_shared_def
  by (intro res_all_bind2 [OF mcmc_fill_generates] res_wp) (auto split: list.split intro!: res_wp intro: generates_to)

lemma mcmc_share_generates: "generates e0 (snd st) \<Longrightarrow> res_all (reach_env e0) (mcmc_share mem n st)"
proof (induction n arbitrary: st)
  case (Suc n)
  obtain s e where st: "st = (s, e)" by (cases st)
  have S: "res_all (reach_env e0) (mcmc_shared mem i (s, e))" for i
    by (rule mcmc_shared_generates) (use Suc.prems st in simp)
  show ?case unfolding st mcmc_share.simps prod.case
    by (intro res_all_bind res_all_bind2 [OF S] res_wp Suc.IH) auto
qed (auto simp: reach_env_def)

lemma requestSchedule_MCMC_generates: "res_all (reach_env e) (requestSchedule_MCMC table mem (s, e))"
proof -
  have F: "res_all (reach_env e) (mcmc_fill mem i (t, e))" for i t by (rule mcmc_fill_generates) simp
  have C: "res_all (reach_env e) (if buf \<noteq> [] then mcmc_critical i (t, e1)
      else bind_res (nth_res (srtSlot t) (mcmcIndex t)) (\<lambda>shared. mcmc_share mem (length shared) (t, e1)))"
    if "generates e e1" for buf :: "request option list" and i t e1
    by (intro res_wp mcmc_critical_generates mcmc_share_generates) (use that in simp_all)
  show ?thesis unfolding requestSchedule_MCMC_def prod.case Let_def
    by (intro res_all_bind res_all_if res_all_bind2 [OF F] res_all_prod res_all_bind2 [OF C] res_all_ok) auto
qed

lemma medusa_reserved_generates:
  "generates e0 (snd st) \<Longrightarrow> res_all (reach_flag e0) (medusa_reserved i n st)"
proof (induction n arbitrary: st)
  case (Suc n)
  obtain s e where st: "st = (s, e)" by (cases st)
  have g: "generates e0 e" using Suc.prems st by simp
  have S: "res_all (reach_flag e0) (if m > 0
        then bind_res (getRequest_requestor (unat ri) 0 q) (\<lambda>(p, q1).
               case p of
                 None \<Rightarrow> ok (False, s\<lparr>scheduledReq := None\<rparr>, put_queue i q1 e)
               | Some r \<Rightarrow> serve mapped_key (remove_from i) r (s\<lparr>scheduledReq := p, writeEnabled := False\<rparr>, put_queue i q1 e))
        else ok (False, s\<lparr>scheduledReq := None\<rparr>, e))" for ri q and m :: nat
    by (intro res_wp serve_reach) (use g in auto)
  show ?case unfolding st medusa_reserved.simps
    by (intro res_all_bind res_all_if res_all_bind2 [OF S] res_wp Suc.IH) (use g in auto)
qed (simp add: reach_env_snd)

lemma medusa_hits_generates:
  "generates e0 (snd st) \<Longrightarrow> res_all (reach_flag e0) (medusa_hits i ns st)"
proof (induction ns arbitrary: st)
  case (Cons num rest)
  obtain s e where st: "st = (s, e)" by (cases st)
  have g: "generates e0 e" using Cons.prems st by simp
  have S: "res_all (reach_flag e0) (if hit then serve mapped_key (remove_from i) r (t, put_queue i q e) else ok (False, t, put_queue i q e))"
    for hit r q and t :: medusa_sched
    by (intro res_all_if serve_reach res_all_ok) (use g in auto)
  show ?case unfolding st medusa_hits.simps Let_def
    by (intro res_all_bind res_all_if res_all_prod res_all_option res_all_bind2 [OF S] res_wp Cons.IH) (use g in auto)
qed (simp add: reach_env_snd)

lemma medusa_reads_generates:
  "generates e0 (snd st) \<Longrightarrow> res_all (reach_flag e0) (medusa_reads ns st)"
proof (induction ns arbitrary: st)
  case (Cons index rest)
  have h: "res_all (reach_flag e0) (medusa_hits index ms st1)" if "reach_env e0 st1" for ms st1
    by (rule medusa_hits_generates) (use that in \<open>simp add: reach_env_snd\<close>)
  show ?case unfolding medusa_reads.simps
    by (intro res_all_bind res_all_if res_all_bind2 [OF medusa_reserved_generates [OF Cons.prems]] res_all_prod
        res_all_bind2 [OF h] res_all_ok Cons.IH Cons.prems) (auto simp: reach_env_snd)
qed (simp add: reach_env_snd)

lemma medusa_high_generates: "generates e0 (snd st) \<Longrightarrow> res_all (reach_env e0) (medusa_high i ns st)"
proof (induction ns arbitrary: st)
  case (Cons n rest)
  obtain s e where st: "st = (s, e)" by (cases st)
  have S: "res_all (generates e0) (if hit then bind_res (isSchedulable r True e) (\<lambda>(b, e1). if b then pop_write_from i n e1 else ok e1) else ok e)"
    for hit r
    by (intro res_wp) (use Cons.prems st in \<open>auto simp: res_all_def intro: generates_to\<close>)
  show ?case unfolding st medusa_high.simps
    by (intro res_all_bind res_all_if res_all_bind2 [OF S] Cons.IH) (use Cons.prems st in auto)
qed (auto simp: reach_env_def)

lemma medusa_low_generates: "generates e0 (snd st) \<Longrightarrow> res_all (reach_env e0) (medusa_low i ns st)"
proof (induction ns arbitrary: st)
  case (Cons n rest)
  obtain s e where st: "st = (s, e)" by (cases st)
  have g: "generates e0 e" using Cons.prems st by simp
  show ?case unfolding st medusa_low.simps with_writeQueue_def
    by (intro res_wp Cons.IH) (use g in \<open>auto split: if_splits intro: generates_to\<close>)
qed simp

lemma medusa_write_generates:
  assumes "generates e0 (snd st)"
  shows "res_all (reach_env e0) (medusa_write i st)"
proof -
  have H: "res_all (reach_env e0) (if b then medusa_high i ns st else ok st)" for b ns
    using assms by (intro res_all_if medusa_high_generates res_all_ok) (simp_all add: reach_env_snd)
  show ?thesis unfolding medusa_write_def
    by (intro res_all_bind res_all_option res_all_ok res_all_bind2 [OF H] medusa_low_generates) (use assms in \<open>simp_all add: reach_env_snd\<close>)
qed

lemma requestSchedule_MEDUSA_generates: "res_all (reach_env e) (requestSchedule_MEDUSA (s, e))"
proof -
  have R: "res_all (reach_flag e) (medusa_reads ns (t, e))" for ns t by (rule medusa_reads_generates) simp
  show ?thesis unfolding requestSchedule_MEDUSA_def prod.case
    by (intro res_all_bind2 [OF R] res_all_prod res_all_if res_all_fold medusa_write_generates res_all_ok)
      (auto simp: reach_env_snd)
qed

lemma pipe_check_generates: "generates e0 (snd st) \<Longrightarrow> res_all (reach_env e0) (pipe_check i st)"
  unfolding pipe_check_def by (cases st, simp, intro res_wp) simp

lemma pipe_queue_generates: "generates e0 (snd st) \<Longrightarrow> res_all (reach_env e0) (pipe_queue i st)"
  unfolding pipe_queue_def by (cases st, simp, intro res_wp) (auto intro: generates_to)

lemma requestSchedule_PipeCAS_generates: "res_all (reach_env e) (requestSchedule_PipeCAS (s, e))"
proof -
  have C: "res_all (reach_env e) (fold_res pipe_check is (t, e))" for "is" t
    by (rule res_all_fold) (auto simp: reach_env_snd intro: pipe_check_generates)
  show ?thesis unfolding requestSchedule_PipeCAS_def prod.case Let_def
    by (intro res_all_bind2 [OF C] res_all_prod res_all_if res_all_fold pipe_queue_generates res_all_ok)
      (auto simp: reach_env_snd)
qed

interpretation rq_pmc: request_scheduler requestSchedule_PMC
  by unfold_locales (rule reach_envD [OF requestSchedule_PMC_generates])

interpretation rq_mcmc: request_scheduler "requestSchedule_MCMC table mem" for table mem
  by unfold_locales (rule reach_envD [OF requestSchedule_MCMC_generates])

interpretation rq_medusa: request_scheduler requestSchedule_MEDUSA
  by unfold_locales (rule reach_envD [OF requestSchedule_MEDUSA_generates])

interpretation rq_pipecas: request_scheduler requestSchedule_PipeCAS
  by unfold_locales (rule reach_envD [OF requestSchedule_PipeCAS_generates])

section \<open>Time division\<close>

text \<open>The calls of the following cycles; the controller advances the clock in between.\<close>

definition pmc_cycle :: "nat \<Rightarrow> pmc_sched \<times> 'e sched_env_scheme \<Rightarrow> (pmc_sched \<times> 'e sched_env_scheme) res" where
  "pmc_cycle i st = requestSchedule_PMC (rs_step (fst st), snd st)"

lemma pmc_idle:
  "pmcSlotCounter s \<noteq> 0 \<Longrightarrow> \<exists>s'. pmc_cycle i (s, e) = ok (s', e) \<and> pmcSlotCounter s' = pmcSlotCounter s - 1"
  by (simp add: pmc_cycle_def requestSchedule_PMC_def rs_step_def Let_def)

lemma pmc_idle_cycles:
  assumes "k \<le> unat (pmcSlotCounter s)"
  shows "\<exists>s'. fold_res pmc_cycle [0..<k] (s, e) = ok (s', e) \<and> unat (pmcSlotCounter s') = unat (pmcSlotCounter s) - k"
  using assms
proof (induction k)
  case (Suc k)
  then obtain t where t: "fold_res pmc_cycle [0..<k] (s, e) = ok (t, e)" "unat (pmcSlotCounter t) = unat (pmcSlotCounter s) - k"
    by auto
  then have "pmcSlotCounter t \<noteq> 0" using Suc.prems by (auto simp: unat_eq_0)
  with pmc_idle obtain t' where "pmc_cycle k (t, e) = ok (t', e)" "pmcSlotCounter t' = pmcSlotCounter t - 1" by blast
  then show ?case using t Suc.prems \<open>pmcSlotCounter t \<noteq> 0\<close> by (simp add: fold_res_append unat_minus_one)
qed simp

text \<open>What one slot does: nothing to the generator, or a request is served and the slot is taken.\<close>

definition slot_post :: "'e sched_env_scheme \<Rightarrow> pmc_sched \<times> 'e sched_env_scheme \<Rightarrow> bool" where
  "slot_post e0 = (\<lambda>(s, e). pmcTimeSlot s = replicate 8 47
     \<and> (if scheduledReq s = None then commandGenerator e = commandGenerator e0 else pmcSlotCounter s = 46))"

lemma pmc_slot_post:
  assumes "pmcTimeSlot s = replicate 8 47" and "scheduledReq s = None" and "commandGenerator e = commandGenerator e0"
  shows "res_all (slot_post e0) (pmc_slot (s, e))"
proof -
  define mid where "mid = (\<lambda>(t :: pmc_sched, e1 :: 'a sched_env_scheme). pmcTimeSlot t = replicate 8 47 \<and> commandGenerator e1 = commandGenerator e0)"
  have S: "res_all mid (if n > 0 then bind_res (getRequest_requestor slot 0 q) (\<lambda>(p, q1). ok (s\<lparr>scheduledReq := p\<rparr>, put_queue 0 q1 e))
                  else ok (s, e))" for n slot q
    by (intro res_wp) (use assms in \<open>auto simp: mid_def\<close>)
  show ?thesis unfolding pmc_slot_def prod.case
    by (intro res_all_bind res_all_bind2 [OF S] res_all_prod res_wp)
      (auto simp: slot_post_def mid_def res_simps nth_Cons' split: if_splits)
qed

definition call_post :: "'e sched_env_scheme \<Rightarrow> pmc_sched \<times> 'e sched_env_scheme \<Rightarrow> bool" where
  "call_post e0 = (\<lambda>(s, e). commandGenerator e = commandGenerator e0 \<or> pmcSlotCounter s = 46)"

lemma pmc_loop_post:
  "slot_post e0 st \<Longrightarrow> scheduledReq (fst st) = None \<Longrightarrow> res_all (call_post e0) (pmc_loop n st)"
proof (induction n arbitrary: st)
  case (Suc n)
  obtain s e where st: "st = (s, e)" by (cases st)
  have S: "res_all (slot_post e0) (pmc_slot (s, e))"
    by (rule pmc_slot_post) (use Suc.prems st in \<open>auto simp: slot_post_def\<close>)
  show ?case unfolding st pmc_loop.simps Let_def
    by (intro res_all_bind2 [OF S] res_all_prod res_all_if res_all_ok Suc.IH)
      (auto simp: slot_post_def call_post_def split: if_splits)
qed (auto simp: slot_post_def call_post_def)

text \<open>
  (C24) The PMC request scheduler divides time into slots of 47 cycles: a call that generates
  commands for a request, in a scheduler that was set up, is followed by 46 calls that return and
  leave the queues and the generator exactly as they are.
\<close>

theorem pmc_slots_are_exclusive:
  assumes call: "requestSchedule_PMC (s, e) = ok (s1, e1)"
    and slots: "clockCycle s = 1 \<or> pmcTimeSlot s = replicate 8 47"
    and served: "commandGenerator e1 \<noteq> commandGenerator e" and "k \<le> 46"
  shows "\<exists>s2. fold_res pmc_cycle [0..<k] (s1, e1) = ok (s2, e1)"
proof -
  have "res_all (call_post e) (requestSchedule_PMC (s, e))"
    unfolding requestSchedule_PMC_def prod.case Let_def
    by (intro res_all_if res_all_ok pmc_loop_post) (use slots in \<open>auto simp: slot_post_def call_post_def\<close>)
  then have "pmcSlotCounter s1 = 46" using call served by (auto simp: res_all_def call_post_def)
  then show ?thesis using pmc_idle_cycles [of k s1 e1] \<open>k \<le> 46\<close> by auto
qed

definition pmc_sample :: pmc_sched where
  "pmc_sample = new_RequestScheduler_PMC (req_sched.extend (req_sched.truncate sample_sched)
     \<lparr>pmcIndex = 3, pmcSlotCounter = 9, pmcScheduleSlot = [2], pmcTimeSlot = [1]\<rparr>)"

definition pmc_loaded :: sched_env where
  "pmc_loaded =
     put_queue 0 ((new_RequestQueue True False)\<lparr>requestorBuffer := [5 \<mapsto> [sample_request]], requestorOrder := [5]\<rparr>)
       (connectCommandGenerator Gen_Close (new_CommandGenerator_Close 64) sample_env)"

theorem pmc_slots_are_exclusive_witness:
  "\<exists>s1 e1. requestSchedule_PMC (pmc_sample, pmc_loaded) = ok (s1, e1)
     \<and> map busPacketType (commandBuffer (commandGenerator e1)) = [ACT, RDA]
     \<and> (\<exists>s2. fold_res pmc_cycle [0..<46] (s1, e1) = ok (s2, e1))"
proof -
  have "case requestSchedule_PMC (pmc_sample, pmc_loaded) of Inl _ \<Rightarrow> False
     | Inr (s1, e1) \<Rightarrow> map busPacketType (commandBuffer (commandGenerator e1)) = [ACT, RDA]" by code_simp
  then obtain s1 e1 where call: "requestSchedule_PMC (pmc_sample, pmc_loaded) = ok (s1, e1)"
    and b: "map busPacketType (commandBuffer (commandGenerator e1)) = [ACT, RDA]"
    by (auto split: sum.splits)
  have "commandBuffer (commandGenerator pmc_loaded) = []" by code_simp
  then have "commandGenerator e1 \<noteq> commandGenerator pmc_loaded" using b by auto
  moreover have "clockCycle pmc_sample = 1" by code_simp
  ultimately show ?thesis using pmc_slots_are_exclusive [OF call, of 46] call b by auto
qed

end
