(* ===== verification/SystemRuns.thy ===== *)
theory SystemRuns
  imports MemorySystem SlotSchedulers
begin

text \<open>
  The command bus of a whole memory system. Requests arrive from outside, a request scheduler and
  a generator turn them into commands, a command scheduler sends these to a DDR3 device: whatever
  the schedulers do, the commands keep the distances of the device's timing table.
\<close>

lemma constructs_policy: "constructs (newCommandScheduler name mem) (policy_initial name)"
  by (simp add: constructs_def newCommandScheduler_initial newCommandScheduler_base)

lemma sys_run_trace:
  assumes "request_scheduler rsch" and "memory_device std"
    and "sys_run rsch (commandSchedule nreq name) (newCommandScheduler name mem) std ranks m"
  shows "\<exists>tr. dev_ok std tr (csDevice (mcCmd (memoryController m)))"
  using sys_run_bus [OF assms(1) constructs_policy assms(3)] policy.chan_run_trace [OF assms(2)]
  by (auto simp: bus_inv_def)

lemma sys_run_cycles:
  "sys_run rsch csch newCmd std ranks m \<Longrightarrow> fold_res (\<lambda>_. ms_update rsch csch std) xs m = ok m' \<Longrightarrow>
     sys_run rsch csch newCmd std ranks m'"
  by (induction xs arbitrary: m) (auto simp: res_simps intro: sys_run.cycle)


text \<open>A concrete system: the FR-FCFS request scheduler, the open-page generator and the FRFCFS command scheduler.\<close>

definition sample_ini :: string where
  "sample_ini = print_config
     [(''AddressMapping'', ''425''), (''RequestQueue'', ''0000''), (''WriteQueue'', ''0''), (''ReqPerREQ'', ''0''),
      (''CommandQueue'', ''0010''), (''CmdPerREQ'', ''0''), (''RequestScheduler'', ''FRFCFS''),
      (''CommandGenerator'', ''OPEN''), (''CommandScheduler'', ''FRFCFS'')]"

definition slow_ddr3 :: ddr3 where
  "slow_ddr3 = ddr3_set_rank_number 1 (projr (new_DDR3_named ''DDR3_2Gb_x8'' ''DDR3_800D''))"

definition sample_system :: "device_std \<Rightarrow> (unit, policy_ext) memory_system res" where
  "sample_system std =
     new_MemorySystem (\<lambda>_. new_RequestScheduler sample_sched) (newCommandScheduler ''FRFCFS'' sample_policy)
       std 1 1 True (Some sample_ini) \<lparr>sysClock = 0, memoryController = sample_controller\<rparr>"

definition sample_read_run :: "device_std \<Rightarrow> nat \<Rightarrow> (unit, policy_ext) memory_system res" where
  "sample_read_run std n =
     bind_res (sample_system std) (\<lambda>m.
     bind_res (ms_addRequest interleaved sample_request 0 0x12340 True 64 m)
       (fold_res (\<lambda>_. ms_update requestSchedule_FRFCFS (commandSchedule 0 ''FRFCFS'') std) [0..<n]))"

abbreviation sample_sys_run :: "device_std \<Rightarrow> (unit, policy_ext) memory_system \<Rightarrow> bool" where
  "sample_sys_run std \<equiv>
     sys_run requestSchedule_FRFCFS (commandSchedule 0 ''FRFCFS'') (newCommandScheduler ''FRFCFS'' sample_policy) std 1"

abbreviation bus_trace :: "('r, 'c) memory_system \<Rightarrow> (u32 \<times> u32 \<times> BusPacketType) list" where
  "bus_trace m \<equiv> commandTrace (csDevice (mcCmd (memoryController m)))"

lemma sample_read_run_is_run:
  assumes "case sample_system std of Inl _ \<Rightarrow> False | Inr m \<Rightarrow> generatorKind (mcEnv (memoryController m)) = Gen_Open"
    and "sample_read_run std n = ok m"
  shows "sample_sys_run std m"
proof -
  from assms(2) obtain m0 m1 where m: "sample_system std = ok m0" "ms_addRequest interleaved sample_request 0 0x12340 True 64 m0 = ok m1"
    "fold_res (\<lambda>_. ms_update requestSchedule_FRFCFS (commandSchedule 0 ''FRFCFS'') std) [0..<n] m1 = ok m"
    by (auto simp: sample_read_run_def res_simps)
  have "sample_sys_run std m0"
    using assms(1) by (intro sys_run.construct [OF m(1) [unfolded sample_system_def]]) (simp add: m(1))
  from sys_run.request [OF this m(2)] show ?thesis by (rule sys_run_cycles) (rule m(3))
qed

lemma sample_read_bus:
  "\<exists>m. sample_sys_run (ddr3_std slow_ddr3) m \<and> bus_trace m = [(0, 0, ACT), (5, 0, RD)]"
proof -
  have "case sample_system (ddr3_std slow_ddr3) of Inl _ \<Rightarrow> False | Inr m \<Rightarrow> generatorKind (mcEnv (memoryController m)) = Gen_Open"
    by code_simp
  note run = sample_read_run_is_run [OF this]
  have "case sample_read_run (ddr3_std slow_ddr3) 6 of Inl _ \<Rightarrow> False | Inr m \<Rightarrow> bus_trace m = [(0, 0, ACT), (5, 0, RD)]" by code_simp
  then show ?thesis using run by (auto split: sum.splits)
qed


section \<open>Refinement\<close>

text \<open>
  (C25) A memory system refines the timing tree of the standard it was constructed for, be it DDR3,
  DDR4 or DSARP: for every run, whatever requests arrive and whichever schedulers work, the lines
  of the device's command trace are, in order, the commands of a run of the tree in which every
  command passes \<^verbatim>\<open>check\<close> before it updates the tree, and the tree the device holds is the one this
  run ends in.
\<close>

theorem system_refines_tree:
  assumes "request_scheduler rsch" and "select_device gene speed sz ranks = ok (std, dev)"
    and "sys_run rsch (commandSchedule nreq name) (newCommandScheduler name mem) std ranks m"
  shows "\<exists>tr. dram_run (std_spec std) tr (channel (csDevice (mcCmd (memoryController m))))
           \<and> bus_trace m = rev (map (line_of (std_spec std)) tr)"
  using sys_run_trace [OF assms(1) _ assms(3)] select_device_ok [OF assms(2)] by (auto simp: dev_ok_def)

lemma ddr4_sample_selected:
  "select_device ''DDR4'' ''2400R'' ''4Gb_x8'' 1 = ok (ddr4_std ddr4_sample, new_Ramulator (ddr4_std ddr4_sample) 1)"
proof -
  have "case new_DDR4_named ''DDR4_4Gb_x8'' ''DDR4_2400R'' of Inl _ \<Rightarrow> False | Inr _ \<Rightarrow> True" by code_simp
  then obtain d where d: "new_DDR4_named ''DDR4_4Gb_x8'' ''DDR4_2400R'' = ok d" by (auto split: sum.splits)
  then show ?thesis
    by (simp add: select_device_def Let_def new_Ramulator_DDR4_def ddr4_sample_def)
qed

theorem system_refines_tree_witness:
  "\<exists>m. sample_sys_run (ddr4_std ddr4_sample) m \<and> bus_trace m = [(0, 0, ACT)]
     \<and> (\<exists>tr. dram_run (ddr4_spec ddr4_sample) tr (channel (csDevice (mcCmd (memoryController m))))
           \<and> bus_trace m = rev (map (line_of (ddr4_spec ddr4_sample)) tr))"
proof -
  have "case sample_system (ddr4_std ddr4_sample) of Inl _ \<Rightarrow> False | Inr m \<Rightarrow> generatorKind (mcEnv (memoryController m)) = Gen_Open"
    by code_simp
  note run = sample_read_run_is_run [OF this]
  have "case sample_read_run (ddr4_std ddr4_sample) 1 of Inl _ \<Rightarrow> False | Inr m \<Rightarrow> bus_trace m = [(0, 0, ACT)]" by code_simp
  then obtain m where "sample_read_run (ddr4_std ddr4_sample) 1 = ok m" and t: "bus_trace m = [(0, 0, ACT)]"
    by (auto split: sum.splits)
  note run = run [OF this(1)]
  have sp: "std_spec (ddr4_std ddr4_sample) = ddr4_spec ddr4_sample" by (simp add: ddr4_std_def)
  show ?thesis
    using run t system_refines_tree [OF rq_frfcfs.request_scheduler_axioms ddr4_sample_selected run, unfolded sp] by blast
qed

section \<open>Well-formedness\<close>

definition controller_wf :: "('r, 'c) controller \<Rightarrow> bool" where
  "controller_wf c \<longleftrightarrow>
     length (sendDataCounter c) = length (sendDataBuffer c)
   \<and> list_all (\<lambda>p. busPacketType p = DATA) (sendDataBuffer c)
   \<and> list_all (\<lambda>r. requestType r = DATA_READ) (pendingReadRequest c)
   \<and> list_all (\<lambda>r. requestType r = DATA_WRITE) (pendingWriteRequest c)"

lemma match_request_bound: "match_request p rs = Some i \<Longrightarrow> i < length rs"
  by (simp add: match_request_def first_index_Some_iff)

lemma list_all_erase: "list_all P xs \<Longrightarrow> list_all P (erase_at i xs)"
  by (auto simp: erase_at_def list_all_iff dest: in_set_takeD in_set_dropD)

lemma list_all_update: "list_all P xs \<Longrightarrow> P y \<Longrightarrow> list_all P (xs[i := y])"
  by (auto simp: list_all_iff dest: set_update_subset_insert [THEN subsetD])

lemma list_all_tl: "list_all P xs \<Longrightarrow> list_all P (tl xs)"
  by (cases xs) simp_all

lemmas wf_lists = list_all_erase list_all_update list_all_tl match_request_bound

lemma matched_type:
  "match_request p rs = Some i \<Longrightarrow> list_all (\<lambda>r. requestType r = t) rs \<Longrightarrow> requestType (rs ! i) = t"
  by (simp add: match_request_bound list_all_length)

lemma receiveData_wf:
  assumes "controller_wf c" and "receiveData p c = ok c'"
  shows "controller_wf c'"
proof (cases "match_request p (pendingReadRequest c)")
  case (Some i)
  then show ?thesis using assms matched_type [OF Some]
    by (auto simp: receiveData_def Let_def call_back_def controller_wf_def split: if_splits intro!: wf_lists)
qed (use assms in \<open>auto simp: receiveData_def Let_def controller_wf_def\<close>)

lemma sendData_wf:
  assumes "controller_wf c" and "sendData std p c = ok c'"
  shows "controller_wf c' \<and> sendDataBuffer c' = sendDataBuffer c \<and> sendDataCounter c' = sendDataCounter c"
proof (cases "match_request p (pendingWriteRequest c)")
  case (Some i)
  then show ?thesis using assms matched_type [OF Some]
    by (auto simp: sendData_def Let_def call_back_def controller_wf_def res_simps split: if_splits intro!: wf_lists)
qed (use assms in \<open>auto simp: sendData_def Let_def controller_wf_def res_simps\<close>)

lemma send_due_wf:
  assumes I: "controller_wf c" and "send_due std c = ok c'"
  shows "controller_wf c'"
proof -
  have dec: "controller_wf (x\<lparr>sendDataCounter := map f (sendDataCounter x)\<rparr>) = controller_wf x" for x :: "('a, 'b) controller" and f
    by (simp add: controller_wf_def)
  show ?thesis
  proof (cases "sendDataCounter c = []")
    case True
    then show ?thesis using assms by (simp add: send_due_def)
  next
    case ne: False
    show ?thesis
    proof (cases "hd (sendDataCounter c) = 0")
      case True
      with assms(2) ne obtain p c1 where s: "sendData std p c = ok c1"
        and c': "c1\<lparr>sendDataCounter := map (\<lambda>n. n - 1) (tl (sendDataCounter c1)), sendDataBuffer := tl (sendDataBuffer c1)\<rparr> = c'"
        by (auto simp: send_due_def res_simps)
      from sendData_wf [OF I s] show ?thesis unfolding c' [symmetric] by (elim conjE) (simp add: controller_wf_def list_all_tl)
    next
      case False
      with assms(2) ne have "c' = c\<lparr>sendDataCounter := map (\<lambda>n. n - 1) (sendDataCounter c)\<rparr>" by (simp add: send_due_def)
      then show ?thesis using I dec by simp
    qed
  qed
qed

lemma enqueueCommand_wf: "enqueueCommand p c = ok c' \<Longrightarrow> controller_wf c' = controller_wf c"
  by (auto simp: enqueueCommand_def Let_def res_simps controller_wf_def)

lemma drain_wf: "drain n c = ok c' \<Longrightarrow> controller_wf c' = controller_wf c"
proof (induction n arbitrary: c)
  case (Suc n)
  have upd: "controller_wf (x\<lparr>mcEnv := e\<rparr>) = controller_wf x" for x :: "('a, 'b) controller" and e by (simp add: controller_wf_def)
  from Suc.prems show ?case
    by (auto simp: res_simps split: if_splits dest!: Suc.IH enqueueCommand_wf simp: upd)
qed simp

lemma mc_update_wf:
  assumes "controller_wf c" and "mc_update rsch csch std c = ok c'"
  shows "controller_wf c'"
proof -
  from assms(2) obtain c1 c2 cs out cs' c3 where 1: "schedule_requests rsch c = ok c1"
    and 2: "drain (bufferSize (commandGenerator (mcEnv c1))) c1 = ok c2"
    and 5: "send_due std (announce_data std out (c2\<lparr>mcCmd := cs'\<rparr>)) = ok c3" and 6: "mc_step c3 = ok c'"
    by (auto simp: mc_update_def res_simps)
  have "controller_wf c1" using assms(1) 1 by (auto simp: schedule_requests_def res_simps controller_wf_def)
  then have "controller_wf c2" using drain_wf [OF 2] by simp
  then have "controller_wf (announce_data std out (c2\<lparr>mcCmd := cs'\<rparr>))"
    by (auto simp: announce_data_def Let_def controller_wf_def new_BusPacket_def split: option.splits)
  from send_due_wf [OF this 5] 6 show ?thesis by (auto simp: mc_step_def res_simps controller_wf_def)
qed

lemma addRequest_wf:
  assumes "controller_wf c" and "addRequest fl r i a rw sz c = ok c'"
  shows "controller_wf c'"
proof -
  have t: "t = DATA_READ \<or> t = DATA_WRITE" for t by (cases t) auto
  have "sendDataBuffer c' = sendDataBuffer c \<and> sendDataCounter c' = sendDataCounter c
      \<and> (\<exists>x. requestType x = DATA_READ \<and> pendingReadRequest c' = pendingReadRequest c @ [x] \<and> pendingWriteRequest c' = pendingWriteRequest c
           \<or> requestType x = DATA_WRITE \<and> pendingReadRequest c' = pendingReadRequest c \<and> pendingWriteRequest c' = pendingWriteRequest c @ [x])"
    using assms(2) unfolding addRequest_def Let_def by (clarsimp simp: res_simps) (use t in auto)
  then show ?thesis using assms(1) by (auto simp: controller_wf_def)
qed

text \<open>
  (C28) In every run of a memory system, with any schedulers and any device, the controller is
  well-formed: there is one countdown per announced data packet and every announced packet is a
  data packet, the pending reads are reads and the pending writes are writes. So the packet a
  finished countdown sends is always there, and a data packet never completes a request of the
  other kind.
\<close>

theorem system_well_formed:
  assumes "sys_run rsch csch newCmd std ranks m"
  shows "controller_wf (memoryController m)"
  using assms
proof (induction rule: sys_run.induct)
  case (construct newReq n cb cfg mem m)
  then show ?case
    by (auto simp: new_MemorySystem_def new_MemoryController_def mc_connectMemoryDevice_def Let_def res_simps controller_wf_def)
next
  case (request m fl r i a rw sz m')
  then obtain c where c: "addRequest fl r i a rw sz (memoryController m) = ok c" "memoryController m' = c"
    by (auto simp: ms_addRequest_def res_simps)
  show ?case using addRequest_wf [OF request.IH c(1)] c(2) by simp
next
  case (flush m sw)
  then show ?case by (simp add: ms_flushWrite_def flushWrite_def controller_wf_def)
next
  case (cycle m m')
  then obtain c p d c2 where 1: "mc_update rsch csch std (memoryController m) = ok c"
    and 3: "(case p of None \<Rightarrow> ok (c\<lparr>mcCmd := (mcCmd c)\<lparr>csDevice := d\<rparr>\<rparr>)
               | Some q \<Rightarrow> receiveData q (c\<lparr>mcCmd := (mcCmd c)\<lparr>csDevice := d\<rparr>\<rparr>)) = ok c2"
    and m': "memoryController m' = c2"
    by (auto simp: ms_update_def Let_def res_simps)
  from mc_update_wf [OF cycle.IH 1] have "controller_wf (c\<lparr>mcCmd := (mcCmd c)\<lparr>csDevice := d\<rparr>\<rparr>)" by (simp add: controller_wf_def)
  then show ?case using 3 m' by (cases p) (auto dest: receiveData_wf)
qed

theorem system_well_formed_witness:
  "\<exists>m. sample_sys_run (ddr3_std slow_ddr3) m \<and> controller_wf (memoryController m)"
  using sample_read_bus system_well_formed by blast

section \<open>Two channels\<close>

definition sample_channels :: "(unit, policy_ext) multi_channel res" where
  "sample_channels = new_MultiChannelMemorySystem (\<lambda>_. sample_system (ddr3_std slow_ddr3)) 2"

theorem channels_run_independently_witness:
  "\<exists>s s'. sample_channels = ok s \<and> length (channels s) = 2
      \<and> mcms_update requestSchedule_FRFCFS (commandSchedule 0 ''FRFCFS'') (ddr3_std slow_ddr3) s = Some (ok s')
      \<and> (\<exists>n. \<forall>i < 2. fold_res (\<lambda>_. ms_update requestSchedule_FRFCFS (commandSchedule 0 ''FRFCFS'') (ddr3_std slow_ddr3)) [0..<n]
           (channels s ! i) = ok (channels s' ! i))"
proof -
  let ?u = "mcms_update requestSchedule_FRFCFS (commandSchedule 0 ''FRFCFS'') (ddr3_std slow_ddr3)"
  have "case sample_channels of Inl _ \<Rightarrow> False | Inr s \<Rightarrow> numberChannels s = 2 \<and> length (channels s) = 2
      \<and> (case ?u s of None \<Rightarrow> False | Some r \<Rightarrow> \<not> isl r)"
    by code_simp
  then obtain s r where s: "sample_channels = ok s" "numberChannels s = 2" "length (channels s) = 2" "?u s = Some r" "\<not> isl r"
    by (auto split: sum.splits option.splits)
  from not_isl_ok [OF s(5)] obtain s' where r: "r = ok s'" ..
  have "?u s = Some (ok s')" "length (channels s) = unat (numberChannels s)" using s r by simp_all
  from channels_run_independently [OF this] this(1) s(1,3) show ?thesis by auto
qed

end
