(* ===== verification/InFlight.thy ===== *)
theory InFlight
  imports Requestor SystemRuns
begin

text \<open>
  What becomes of a request inside the memory system. A request the controller has accepted is
  pending, as a read or as a write, or it has been called back: whatever the schedulers and the
  device do in a cycle, the requests of a channel are the same, with their requestors and
  addresses. The lemmas are by operation, in the order of \<^verbatim>\<open>MemoryController::update\<close>.
\<close>

definition ctrl_flight :: "('r, 'c) controller \<Rightarrow> (u32 \<times> u64) multiset" where
  "ctrl_flight c = image_mset asked (mset (pendingReadRequest c) + mset (pendingWriteRequest c) + mset (calledBack c))"

lemma asked_size [simp]: "asked (r\<lparr>requestSize := z\<rparr>) = asked r"
  by (simp add: asked_def)

text \<open>A burst that is not the last changes the size of the request it belongs to only.\<close>

lemma asked_burst:
  "i < length rs \<Longrightarrow> image_mset asked (mset (rs[i := (rs ! i)\<lparr>requestSize := z\<rparr>])) = image_mset asked (mset rs)"
  using list_update_id [of "map asked rs" i] by (simp add: mset_map [symmetric] map_update del: mset_map list_update_id)

lemma receiveData_flight: "receiveData p c = ok c' \<Longrightarrow> ctrl_flight c' = ctrl_flight c"
proof (cases "match_request p (pendingReadRequest c)")
  case (Some i)
  assume "receiveData p c = ok c'"
  then show ?thesis using Some mset_erase_at [OF match_request_bound [OF Some]] asked_burst [OF match_request_bound [OF Some]]
    by (auto simp: receiveData_def Let_def call_back_def ctrl_flight_def split: if_splits)
qed (auto simp: receiveData_def Let_def ctrl_flight_def)

lemma sendData_flight: "sendData std p c = ok c' \<Longrightarrow> ctrl_flight c' = ctrl_flight c"
proof (cases "match_request p (pendingWriteRequest c)")
  case (Some i)
  assume "sendData std p c = ok c'"
  then show ?thesis using Some mset_erase_at [OF match_request_bound [OF Some]] asked_burst [OF match_request_bound [OF Some]]
    by (auto simp: sendData_def Let_def call_back_def ctrl_flight_def res_simps split: if_splits)
qed (auto simp: sendData_def Let_def ctrl_flight_def res_simps)

lemma ctrl_flight_cong:
  "pendingReadRequest c' = pendingReadRequest c \<Longrightarrow> pendingWriteRequest c' = pendingWriteRequest c \<Longrightarrow>
     calledBack c' = calledBack c \<Longrightarrow> ctrl_flight c' = ctrl_flight c"
  by (simp add: ctrl_flight_def)

lemma send_due_flight:
  assumes "send_due std c = ok c'"
  shows "ctrl_flight c' = ctrl_flight c"
proof -
  have upd: "ctrl_flight (x\<lparr>sendDataCounter := n\<rparr>) = ctrl_flight x" "ctrl_flight (x\<lparr>sendDataBuffer := b\<rparr>) = ctrl_flight x"
    for x :: "('a, 'b) controller" and n b by (simp_all add: ctrl_flight_def)
  show ?thesis using assms by (auto simp: send_due_def res_simps upd dest: sendData_flight split: if_splits)
qed

lemma enqueueCommand_flight: "enqueueCommand p c = ok c' \<Longrightarrow> ctrl_flight c' = ctrl_flight c"
  by (auto simp: enqueueCommand_def Let_def res_simps ctrl_flight_def)

lemma dractrl_flight: "drain n c = ok c' \<Longrightarrow> ctrl_flight c' = ctrl_flight c"
proof (induction n arbitrary: c)
  case (Suc n)
  have upd: "ctrl_flight (x\<lparr>mcEnv := e\<rparr>) = ctrl_flight x" for x :: "('a, 'b) controller" and e by (simp add: ctrl_flight_def)
  from Suc.prems show ?case
    by (auto simp: res_simps split: if_splits dest!: Suc.IH enqueueCommand_flight simp: upd)
qed simp

lemma mc_update_flight:
  assumes "mc_update rsch csch std c = ok c'"
  shows "ctrl_flight c' = ctrl_flight c"
proof -
  from assms obtain c1 c2 out cs' c3 where 1: "schedule_requests rsch c = ok c1"
    and 2: "drain (bufferSize (commandGenerator (mcEnv c1))) c1 = ok c2"
    and 3: "send_due std (announce_data std out (c2\<lparr>mcCmd := cs'\<rparr>)) = ok c3" and 4: "mc_step c3 = ok c'"
    by (auto simp: mc_update_def res_simps)
  have "ctrl_flight c1 = ctrl_flight c" using 1 by (auto simp: schedule_requests_def res_simps ctrl_flight_def)
  moreover have "ctrl_flight (announce_data std out (c2\<lparr>mcCmd := cs'\<rparr>)) = ctrl_flight c2"
    by (auto simp: announce_data_def Let_def ctrl_flight_def split: option.splits)
  moreover have "ctrl_flight c' = ctrl_flight c3" using 4 by (auto simp: mc_step_def res_simps ctrl_flight_def)
  ultimately show ?thesis using dractrl_flight [OF 2] send_due_flight [OF 3] by simp
qed

lemma ms_update_flight:
  assumes "ms_update rsch csch std m = ok m'"
  shows "ctrl_flight (memoryController m') = ctrl_flight (memoryController m)"
proof -
  from assms obtain c p d c2 where 1: "mc_update rsch csch std (memoryController m) = ok c"
    and 2: "(case p of None \<Rightarrow> ok (c\<lparr>mcCmd := (mcCmd c)\<lparr>csDevice := d\<rparr>\<rparr>)
               | Some q \<Rightarrow> receiveData q (c\<lparr>mcCmd := (mcCmd c)\<lparr>csDevice := d\<rparr>\<rparr>)) = ok c2"
    and m': "memoryController m' = c2"
    by (auto simp: ms_update_def Let_def res_simps)
  have "ctrl_flight c2 = ctrl_flight (c\<lparr>mcCmd := (mcCmd c)\<lparr>csDevice := d\<rparr>\<rparr>)"
    using 2 by (cases p) (auto dest: receiveData_flight)
  then show ?thesis using mc_update_flight [OF 1] m' by (simp add: ctrl_flight_def)
qed

text \<open>Mapping an address keeps the request's requestor, address and type.\<close>

lemma decode_loop_frame:
  "decode_loop ds a b r = ok r' \<Longrightarrow> asked r' = asked r \<and> requestType r' = requestType r"
proof (induction ds arbitrary: a b r)
  case (Cons d ds)
  obtain lv w where d: "d = (lv, w)" by (cases d)
  have "asked (assign_level lv x y) = asked y \<and> requestType (assign_level lv x y) = requestType y" for x y
    by (cases lv) (simp_all add: asked_def)
  with Cons d show ?case by (auto simp: decode_loop.simps Let_def split: if_splits)
qed simp

lemma addressMapping_frame:
  assumes "addressMapping fl ds r = ok r'"
  shows "asked r' = asked r \<and> requestType r' = requestType r"
proof -
  from assms obtain r1 where "decode_loop (rev ds) (ucast (address r)) (ucast (address r)) r = ok r1"
    "r' = finish_map (privatize fl r1)"
    by (auto simp: addressMapping_def res_simps)
  then show ?thesis using decode_loop_frame by (fastforce simp: finish_map_def privatize_def Let_def asked_def)
qed

lemma addRequest_flight:
  assumes "addRequest fl mem i a rw sz c = ok c'"
  shows "ctrl_flight c' = add_mset (i, a) (ctrl_flight c)"
proof -
  let ?r0 = "(new_Request mem i (if \<not> rw then DATA_WRITE else DATA_READ) sz a 0)\<lparr>arriveTime := ucast (mcClock c)\<rparr>"
  have "\<exists>r. addressMapping fl (mapLevels c) ?r0 = ok r \<and> calledBack c' = calledBack c
      \<and> (pendingReadRequest c' = pendingReadRequest c @ [r] \<and> pendingWriteRequest c' = pendingWriteRequest c
       \<or> pendingReadRequest c' = pendingReadRequest c \<and> pendingWriteRequest c' = pendingWriteRequest c @ [r])"
    using assms unfolding addRequest_def Let_def bind_res_Inr_iff sum.inject
    by - (elim exE conjE, rule exI, rule conjI, assumption, auto split: if_splits)
  then obtain r where r: "addressMapping fl (mapLevels c) ?r0 = ok r" and "calledBack c' = calledBack c"
    and "pendingReadRequest c' = pendingReadRequest c @ [r] \<and> pendingWriteRequest c' = pendingWriteRequest c
       \<or> pendingReadRequest c' = pendingReadRequest c \<and> pendingWriteRequest c' = pendingWriteRequest c @ [r]" by blast
  moreover have "asked ?r0 = (i, a)" by (simp add: asked_def new_Request_def)
  ultimately show ?thesis using addressMapping_frame [OF r] by (auto simp: ctrl_flight_def)
qed

section \<open>All channels\<close>

definition all_flight :: "('r, 'c) multi_channel \<Rightarrow> (u32 \<times> u64) multiset" where
  "all_flight s = (\<Sum>ch\<leftarrow>channels s. ctrl_flight (memoryController ch))"

lemma sum_list_update_mset:
  fixes f :: "'a \<Rightarrow> 'b multiset"
  assumes "i < length xs" and "f y = z + f (xs ! i)"
  shows "(\<Sum>x\<leftarrow>xs[i := y]. f x) = z + (\<Sum>x\<leftarrow>xs. f x)"
  using assms by (induction xs arbitrary: i) (auto simp: nth_Cons split: nat.splits)

lemma put_channel_flight:
  "i < length (channels s) \<Longrightarrow> ctrl_flight (memoryController ch) = z + ctrl_flight (memoryController (channels s ! i)) \<Longrightarrow>
     all_flight (s\<lparr>channels := (channels s)[i := ch]\<rparr>) = z + all_flight s"
  unfolding all_flight_def by (simp add: sum_list_update_mset)

lemma update_channel_flight:
  assumes "update_channel rsch csch std i s = ok s'"
  shows "all_flight s' = all_flight s"
proof -
  from assms obtain ch' where u: "ms_update rsch csch std (channels s ! i) = ok ch'" and "i < length (channels s)"
    "s' = s\<lparr>channels := (channels s)[i := ch']\<rparr>"
    by (auto simp: update_channel_def res_simps)
  then show ?thesis using put_channel_flight [of i s ch' "{#}"] ms_update_flight [OF u] by simp
qed

lemma actual_update_flight:
  assumes "actual_update rsch csch std s = ok s'"
  shows "all_flight s' = all_flight s"
proof -
  from assms obtain t where t: "fold_res (update_channel rsch csch std) [0..<unat (numberChannels s)] s = ok t"
    and "s' = t\<lparr>mcmsClock := mcmsClock t + 1\<rparr>" by (auto simp: actual_update_def res_simps)
  moreover have "all_flight t = all_flight s"
    by (rule fold_res_preserves [OF t]) (auto dest: update_channel_flight)
  ultimately show ?thesis by (simp add: all_flight_def)
qed

lemma mcms_update_flight:
  assumes "mcms_update rsch csch std s = Some (ok s')"
  shows "all_flight s' = all_flight s"
proof -
  from assms obtain n x t where t: "fold_res (\<lambda>_. actual_update rsch csch std) [0..<n] s = ok t"
    and "s' = t\<lparr>clockDomainCrosser := x\<rparr>"
    by (auto simp: mcms_update_def res_simps split: option.splits)
  moreover have "all_flight t = all_flight s"
    by (rule fold_res_preserves [OF t]) (auto dest: actual_update_flight)
  ultimately show ?thesis by (simp add: all_flight_def)
qed

lemma mcms_addRequest_flight:
  assumes "mcms_addRequest fl mem i a rw sz s = ok s'"
  shows "all_flight s' = add_mset (i, a) (all_flight s)"
proof -
  from assms obtain n :: u32 and c where "unat n < length (channels s)"
    and a: "addRequest fl mem i a rw sz (memoryController (channels s ! unat n)) = ok c"
    and "s' = s\<lparr>channels := (channels s)[unat n := (channels s ! unat n)\<lparr>memoryController := c\<rparr>]\<rparr>"
    by (auto simp: mcms_addRequest_def ms_addRequest_def res_simps)
  then show ?thesis using put_channel_flight [of "unat n" s _ "{#(i, a)#}"] addRequest_flight [OF a] by simp
qed

lemma mcms_flushWrite_flight:
  assumes "mcms_flushWrite sw s = ok s'"
  shows "all_flight s' = all_flight s"
proof -
  have "ctrl_flight (flushWrite sw c) = ctrl_flight c" for c :: "('a, 'b) controller" by (simp add: flushWrite_def ctrl_flight_def)
  moreover from assms have "0 < length (channels s)" "s' = s\<lparr>channels := (channels s)[0 := ms_flushWrite sw (channels s ! 0)]\<rparr>"
    by (auto simp: mcms_flushWrite_def res_simps)
  ultimately show ?thesis using put_channel_flight [of 0 s _ "{#}"] by (simp add: ms_flushWrite_def)
qed

end
