(* ===== verification/Simulation.thy ===== *)
theory Simulation
  imports InFlight
begin

text \<open>
  \<^verbatim>\<open>src/src/main.cpp\<close>: the program. It reads its options, constructs the memory system and one
  requestor per line of the trace list, and runs them cycle by cycle. The requestors are the list
  \<open>requestorsMap\<close>, indexed by their number. The callback is called from inside the update of the
  memory system and works on a requestor only, which the memory system never looks at: a call is
  noted in \<open>calledBack\<close> of the controller, and the calls of an update are carried out at its end,
  channel by channel, which is their order as long as an update of the system is one cycle of the
  memory (the crosser is the one without frequencies). \<open>files\<close> is the file system and \<open>clk\<close> the
  division of a delay by the clock period. The text that is printed is left out.
\<close>

section \<open>Options\<close>

record arguments =
  requestors :: u32
  cycles :: u32
  argChannels :: u32
  argRanks :: u32
  deviceGene :: string
  deviceSpeed :: string
  deviceSize :: string
  traceFileName :: string
  systemIniFilename :: string

definition default_arguments :: arguments where
  "default_arguments =
     \<lparr>requestors = 4, cycles = 0, argChannels = 1, argRanks = 1, deviceGene = ''DDR3'', deviceSpeed = ''1600H'',
      deviceSize = ''2Gb_x8'', traceFileName = ''mem.trc'', systemIniFilename = ''system.ini''\<rparr>"

text \<open>\<^verbatim>\<open>atoi\<close>, whose result is undefined if the number does not fit.\<close>

definition atoi :: "string \<Rightarrow> int res" where
  "atoi s =
     (let s1 = dropWhile isspace s;
          s2 = (if s1 \<noteq> [] \<and> hd s1 \<in> {CHR ''+'', CHR ''-''} then tl s1 else s1);
          n = number_value 10 0 (takeWhile (is_digit 10) s2);
          v = (if s1 \<noteq> [] \<and> hd s1 = CHR ''-'' then - n else n)
      in if - (2 ^ 31) \<le> v \<and> v < 2 ^ 31 then ok v else fail CastRange)"

text \<open>
  The body of the loop over what \<^verbatim>\<open>getopt_long\<close> returns: an option letter and its argument. An
  unknown option is returned as a question mark; the option \<^verbatim>\<open>d\<close> is accepted and has no case.
\<close>

definition set_option :: "char \<times> string \<Rightarrow> arguments \<Rightarrow> arguments res" where
  "set_option oa a =
     (case oa of (c, optarg) \<Rightarrow>
        if c = CHR ''h'' \<or> c = CHR ''?'' then fail Abort
        else if c = CHR ''n'' then bind_res (atoi optarg) (\<lambda>v. ok (a\<lparr>requestors := word_of_int v\<rparr>))
        else if c = CHR ''s'' then ok (a\<lparr>systemIniFilename := optarg\<rparr>)
        else if c = CHR ''t'' then ok (a\<lparr>traceFileName := optarg\<rparr>)
        else if c = CHR ''c'' then bind_res (atoi optarg) (\<lambda>v. ok (a\<lparr>cycles := word_of_int v\<rparr>))
        else if c = CHR ''C'' then bind_res (atoi optarg) (\<lambda>v. ok (a\<lparr>argChannels := word_of_int v\<rparr>))
        else if c = CHR ''R'' then bind_res (atoi optarg) (\<lambda>v. ok (a\<lparr>argRanks := word_of_int v\<rparr>))
        else if c = CHR ''G'' then ok (a\<lparr>deviceGene := optarg\<rparr>)
        else if c = CHR ''D'' then ok (a\<lparr>deviceSpeed := optarg\<rparr>)
        else if c = CHR ''S'' then ok (a\<lparr>deviceSize := optarg\<rparr>)
        else ok a)"

definition read_options :: "(char \<times> string) list \<Rightarrow> arguments res" where
  "read_options os = fold_res set_option os default_arguments"

section \<open>Construction\<close>

record ('r, 'c) simulation =
  requestorsMap :: "requestor list"
  memorySystem :: "('r, 'c) multi_channel"
  currentClockCyle :: u64
  simDone :: bool

text \<open>
  \<^verbatim>\<open>getline\<close> on the trace list: when the end of the file has been reached it leaves \<^verbatim>\<open>line\<close> as it
  was, so the requestors beyond the list share its last line. Every requestor is in order, the
  switch on its number notwithstanding.
\<close>

definition trace_of :: "string list \<Rightarrow> nat \<Rightarrow> string" where
  "trace_of ls i = (if i < length ls then ls ! i else last ls)"

definition make_requestor ::
  "(string \<Rightarrow> string option) \<Rightarrow> (u64 \<Rightarrow> u64) \<Rightarrow> requestor \<Rightarrow> string list \<Rightarrow> nat \<Rightarrow> requestor" where
  "make_requestor files clk mem ls i =
     setMemoryClock clk ((new_Requestor mem (of_nat i) True (files (trace_of ls i)))\<lparr>RequestSize := 64\<rparr>)"

definition new_simulation ::
  "(sched_env \<Rightarrow> 'r req_sched_scheme) \<Rightarrow> (command_queue list \<Rightarrow> (u32 \<rightharpoonup> bool) \<Rightarrow> 'c cmd_sched_scheme) \<Rightarrow>
     (string \<Rightarrow> string option) \<Rightarrow> (u64 \<Rightarrow> u64) \<Rightarrow> requestor \<Rightarrow> ('r, 'c) memory_system \<Rightarrow> arguments \<Rightarrow>
     ('r, 'c) simulation res" where
  "new_simulation newReq newCmd files clk mem memSys a =
     bind_res (new_MultiChannelMemorySystem (\<lambda>_.
         bind_res (new_MemorySystem_named newReq newCmd (deviceGene a) (deviceSpeed a) (deviceSize a) (argRanks a)
                     (unat (requestors a)) True (files (systemIniFilename a)) memSys) (\<lambda>(std, m). ok m))
       (argChannels a)) (\<lambda>s.
     case files (traceFileName a) of
       None \<Rightarrow> fail Abort
     | Some txt \<Rightarrow>
         ok \<lparr>requestorsMap = map (make_requestor files clk mem (split_lines txt)) [0..<unat (requestors a)],
             memorySystem = s, currentClockCyle = 1, simDone = False\<rparr>)"

section \<open>A cycle\<close>

text \<open>The lambda \<^verbatim>\<open>callBack\<close>; \<^verbatim>\<open>requestorsMap[id]\<close> gives a null pointer for a requestor that does not exist.\<close>

definition callBack :: "request \<Rightarrow> requestor list \<Rightarrow> requestor list res" where
  "callBack q rs =
     (let i = unat (requestorID q)
      in if i < length rs then bind_res (returnData q (rs ! i)) (\<lambda>r. ok (rs[i := r])) else fail NullDeref)"

definition take_callbacks :: "('r, 'c) multi_channel \<Rightarrow> request list \<times> ('r, 'c) multi_channel" where
  "take_callbacks s =
     (concat (map (\<lambda>ch. calledBack (memoryController ch)) (channels s)),
      s\<lparr>channels := map (\<lambda>ch. ch\<lparr>memoryController := (memoryController ch)\<lparr>calledBack := []\<rparr>\<rparr>) (channels s)\<rparr>)"

definition step_requestor ::
  "build_flags \<Rightarrow> request \<Rightarrow> nat \<Rightarrow> ('r, 'c) simulation \<Rightarrow> ('r, 'c) simulation res" where
  "step_requestor fl mem i s =
     bind_res (nth_res (requestorsMap s) i) (\<lambda>r.
     bind_res (requestor_update fl mem (r, memorySystem s)) (\<lambda>(r', m).
       ok (s\<lparr>requestorsMap := (requestorsMap s)[i := r'], memorySystem := m, simDone := simDone s \<or> sim_end r'\<rparr>)))"

text \<open>
  The body of the simulation loop up to the update of the memory system, that update with its
  callbacks, and both together; \<open>None\<close> if the update of the memory system does not return.
\<close>

definition step_requestors ::
  "build_flags \<Rightarrow> request \<Rightarrow> u32 \<Rightarrow> ('r, 'c) simulation \<Rightarrow> ('r, 'c) simulation res" where
  "step_requestors fl mem limit s =
     fold_res (step_requestor fl mem) [0..<length (requestorsMap s)]
       (s\<lparr>simDone := simDone s \<or> limit \<noteq> 0 \<and> currentClockCyle s = ucast limit\<rparr>)"

definition finish_cycle :: "('r, 'c) simulation \<Rightarrow> ('r, 'c) multi_channel \<Rightarrow> ('r, 'c) simulation res" where
  "finish_cycle s m =
     (case take_callbacks m of (qs, m') \<Rightarrow>
        bind_res (fold_res callBack qs (requestorsMap s)) (\<lambda>rs.
          ok (s\<lparr>requestorsMap := rs, memorySystem := m', currentClockCyle := currentClockCyle s + 1\<rparr>)))"

definition sim_step ::
  "('r req_sched_scheme \<times> sched_env \<Rightarrow> ('r req_sched_scheme \<times> sched_env) res) \<Rightarrow>
   (device_std \<Rightarrow> 'c cmd_sched_scheme \<Rightarrow> (packet option \<times> 'c cmd_sched_scheme) res) \<Rightarrow>
     device_std \<Rightarrow> build_flags \<Rightarrow> request \<Rightarrow> u32 \<Rightarrow> ('r, 'c) simulation \<Rightarrow> ('r, 'c) simulation res option" where
  "sim_step rsch csch std fl mem limit s =
     (case step_requestors fl mem limit s of
        Inl e \<Rightarrow> Some (Inl e)
      | Inr s1 \<Rightarrow>
          (case mcms_update rsch csch std (memorySystem s1) of
             None \<Rightarrow> None
           | Some (Inl e) \<Rightarrow> Some (Inl e)
           | Some (Inr m) \<Rightarrow> Some (finish_cycle s1 m)))"

text \<open>The loop. Without a limit on the cycles it ends only when a requestor has finished its trace.\<close>

partial_function (option) simulate ::
  "('r req_sched_scheme \<times> sched_env \<Rightarrow> ('r req_sched_scheme \<times> sched_env) res) \<Rightarrow>
   (device_std \<Rightarrow> 'c cmd_sched_scheme \<Rightarrow> (packet option \<times> 'c cmd_sched_scheme) res) \<Rightarrow>
     device_std \<Rightarrow> build_flags \<Rightarrow> request \<Rightarrow> u32 \<Rightarrow> ('r, 'c) simulation \<Rightarrow> ('r, 'c) simulation res option" where
  [code]: "simulate rsch csch std fl mem limit s =
     (if simDone s then Some (ok s)
      else case sim_step rsch csch std fl mem limit s of
             None \<Rightarrow> None
           | Some (Inl e) \<Rightarrow> Some (Inl e)
           | Some (Inr s') \<Rightarrow> simulate rsch csch std fl mem limit s')"

section \<open>Conservation of requests\<close>

text \<open>The requests the channels have accepted and not called back.\<close>

definition all_pending :: "('r, 'c) multi_channel \<Rightarrow> (u32 \<times> u64) multiset" where
  "all_pending s =
     (\<Sum>ch\<leftarrow>channels s. image_mset asked (mset (pendingReadRequest (memoryController ch)) + mset (pendingWriteRequest (memoryController ch))))"

definition all_awaited :: "requestor list \<Rightarrow> (u32 \<times> u64) multiset" where
  "all_awaited rs = (\<Sum>r\<leftarrow>rs. awaits r)"

definition requestors_ok :: "requestor list \<Rightarrow> bool" where
  "requestors_ok rs \<longleftrightarrow> length rs < 2 ^ 32 \<and> (\<forall>i < length rs. requestor_inv (rs ! i) \<and> inOrder (rs ! i) \<and> rqID (rs ! i) = of_nat i)"

lemma take_callbacks_flight:
  assumes "take_callbacks m = (qs, m')"
  shows "all_flight m = image_mset asked (mset qs) + all_pending m' \<and> all_flight m' = all_pending m'"
proof -
  have "(\<Sum>ch\<leftarrow>chs. ctrl_flight (memoryController ch)) =
      image_mset asked (mset (concat (map (\<lambda>ch. calledBack (memoryController ch)) chs)))
      + (\<Sum>ch\<leftarrow>chs. image_mset asked (mset (pendingReadRequest (memoryController ch)) + mset (pendingWriteRequest (memoryController ch))))"
    for chs :: "('a, 'b) memory_system list"
    by (induction chs) (simp_all add: ctrl_flight_def)
  then show ?thesis using assms by (auto simp: take_callbacks_def all_flight_def all_pending_def ctrl_flight_def o_def)
qed

lemma put_requestor:
  assumes "requestors_ok rs" and "i < length rs" and "requestor_inv r" and "rqID r = rqID (rs ! i)" and "inOrder r = inOrder (rs ! i)"
  shows "requestors_ok (rs[i := r])"
  using assms by (auto simp: requestors_ok_def nth_list_update)

lemma put_awaited:
  "i < length rs \<Longrightarrow> awaits r = z + awaits (rs ! i) \<Longrightarrow> all_awaited (rs[i := r]) = z + all_awaited rs"
  unfolding all_awaited_def by (simp add: sum_list_update_mset)

lemma awaits_owner: "requestor_inv r \<Longrightarrow> x \<in># awaits r \<Longrightarrow> fst x = rqID r"
  by (auto simp: awaits_def asked_def requestor_inv_def)

lemma callBack_awaited:
  assumes "requestors_ok rs" and "asked q \<in># all_awaited rs"
  shows "\<exists>rs'. callBack q rs = ok rs' \<and> requestors_ok rs' \<and> all_awaited rs = add_mset (asked q) (all_awaited rs')"
proof -
  from assms(2) obtain r where "r \<in> set rs" "asked q \<in># awaits r"
    unfolding all_awaited_def by (induction rs) auto
  then obtain i where i: "i < length rs" and q: "asked q \<in># awaits (rs ! i)" by (auto simp: in_set_conv_nth)
  have inv: "requestor_inv (rs ! i)" and "rqID (rs ! i) = of_nat i" and "length rs < 2 ^ 32"
    using assms(1) i by (auto simp: requestors_ok_def)
  with awaits_owner [OF inv q] i have u: "unat (requestorID q) = i"
    by (simp add: asked_def unat_of_nat take_bit_nat_eq_self)
  from returnData_awaited [OF inv q] obtain r' where r': "returnData q (rs ! i) = ok r'" "requestor_inv r'" "rqID r' = rqID (rs ! i)"
    "inOrder r' = inOrder (rs ! i)" and a: "awaits (rs ! i) = add_mset (asked q) (awaits r')" by blast
  have "callBack q rs = ok (rs[i := r'])" using u i r' by (simp add: callBack_def Let_def)
  moreover have "all_awaited rs = add_mset (asked q) (all_awaited (rs[i := r']))"
    using put_awaited [of i "rs[i := r']" "rs ! i" "{#asked q#}"] a i by simp
  ultimately show ?thesis using put_requestor [OF assms(1) i r'(2-4)] by blast
qed

lemma callBacks_awaited:
  assumes "requestors_ok rs" and "all_awaited rs = image_mset asked (mset qs) + z"
  shows "\<exists>rs'. fold_res callBack qs rs = ok rs' \<and> requestors_ok rs' \<and> all_awaited rs' = z"
  using assms
proof (induction qs arbitrary: rs)
  case (Cons q qs)
  have "asked q \<in># all_awaited rs" using Cons.prems(2) by simp
  from callBack_awaited [OF Cons.prems(1) this] obtain rs1 where "callBack q rs = ok rs1" "requestors_ok rs1"
    "all_awaited rs = add_mset (asked q) (all_awaited rs1)" by blast
  with Cons.IH [of rs1] Cons.prems(2) show ?case by simp
qed simp

text \<open>
  The invariant of the program: the requests on their way in the memory system are exactly those
  the requestors wait for.
\<close>

definition sim_inv :: "('r, 'c) simulation \<Rightarrow> bool" where
  "sim_inv s \<longleftrightarrow> requestors_ok (requestorsMap s) \<and> all_flight (memorySystem s) = all_awaited (requestorsMap s)"

lemma step_requestor_inv:
  assumes "sim_inv s" and "step_requestor fl mem i s = ok s'"
  shows "sim_inv s'"
proof -
  from assms(2) obtain r' m where i: "i < length (requestorsMap s)"
    and u: "requestor_update fl mem (requestorsMap s ! i, memorySystem s) = ok (r', m)"
    and s': "requestorsMap s' = (requestorsMap s)[i := r']" "memorySystem s' = m"
    by (auto simp: step_requestor_def res_simps)
  have inv: "requestor_inv (requestorsMap s ! i)" using assms(1) i by (simp add: sim_inv_def requestors_ok_def)
  have ok': "requestors_ok (requestorsMap s')"
    using put_requestor [OF _ i] requestor_update_inv [OF inv u] assms(1) s'(1) by (simp add: sim_inv_def)
  have f: "all_flight (memorySystem s) = all_awaited (requestorsMap s)" using assms(1) by (simp add: sim_inv_def)
  from inv u have "all_flight m = all_awaited (requestorsMap s')"
  proof (cases rule: requestor_update_awaits)
    case 1
    then show ?thesis using put_awaited [OF i, of r' "{#}"] f s' by (auto dest: mcms_flushWrite_flight)
  next
    case (2 q)
    then show ?thesis using put_awaited [OF i, of r' "{#asked q#}"] mcms_addRequest_flight [OF 2(3)] f s' by (simp add: asked_def)
  qed
  with ok' s' show ?thesis by (simp add: sim_inv_def)
qed

lemma step_requestors_inv:
  assumes "sim_inv s" and "step_requestors fl mem limit s = ok s'"
  shows "sim_inv s'"
proof -
  have "sim_inv (s\<lparr>simDone := b\<rparr>)" for b using assms(1) by (simp add: sim_inv_def)
  then show ?thesis
    by (rule fold_res_preserves [OF assms(2) [unfolded step_requestors_def]]) (auto dest: step_requestor_inv)
qed

text \<open>The data that comes back in a cycle is awaited, so no callback fails.\<close>

lemma finish_cycle_inv:
  assumes "sim_inv s" and "all_flight m = all_flight (memorySystem s)"
  shows "\<exists>s'. finish_cycle s m = ok s' \<and> sim_inv s' \<and> all_pending (memorySystem s') = all_awaited (requestorsMap s')
           \<and> simDone s' = simDone s \<and> currentClockCyle s' = currentClockCyle s + 1
           \<and> clockDomainCrosser (memorySystem s') = clockDomainCrosser m"
proof -
  obtain qs m' where t: "take_callbacks m = (qs, m')" by fastforce
  note f = take_callbacks_flight [OF t]
  have "requestors_ok (requestorsMap s)" "all_awaited (requestorsMap s) = image_mset asked (mset qs) + all_pending m'"
    using assms f by (simp_all add: sim_inv_def)
  from callBacks_awaited [OF this] obtain rs where "fold_res callBack qs (requestorsMap s) = ok rs" "requestors_ok rs"
    "all_awaited rs = all_pending m'" by blast
  then show ?thesis using t f by (auto simp: finish_cycle_def sim_inv_def take_callbacks_def)
qed

lemma new_channel_flight:
  assumes "new_MemorySystem_named newReq newCmd gene speed sz ranks n cb cfg mem = ok (std, m)"
  shows "ctrl_flight (memoryController m) = {#}"
  using assms
  by (auto simp: new_MemorySystem_named_def new_MemoryController_def mc_connectMemoryDevice_def Let_def res_simps ctrl_flight_def)

lemma new_channels_flight:
  assumes "new_MultiChannelMemorySystem newChannel n = ok s" and "\<And>i m. newChannel i = ok m \<Longrightarrow> ctrl_flight (memoryController m) = {#}"
  shows "all_flight s = {#} \<and> clockDomainCrosser s = new_ClockDomainCrosser"
proof -
  from assms(1) obtain chs where c: "fold_res (\<lambda>i chs. bind_res (newChannel i) (\<lambda>ch. ok (chs @ [ch]))) [0..<unat n] [] = ok chs"
    and s: "channels s = chs" "clockDomainCrosser s = new_ClockDomainCrosser"
    by (auto simp: new_MultiChannelMemorySystem_def res_simps split: if_splits)
  have "(\<Sum>ch\<leftarrow>chs. ctrl_flight (memoryController ch)) = {#}"
    by (rule fold_res_preserves [OF c]) (auto simp: res_simps assms(2))
  then show ?thesis using s by (simp add: all_flight_def)
qed

lemma new_simulation_inv:
  assumes "new_simulation newReq newCmd files clk mem memSys a = ok s"
  shows "sim_inv s \<and> clockDomainCrosser (memorySystem s) = new_ClockDomainCrosser \<and> currentClockCyle s = 1 \<and> \<not> simDone s
       \<and> all_pending (memorySystem s) = all_awaited (requestorsMap s) \<and> length (requestorsMap s) = unat (requestors a)"
proof -
  from assms obtain m list where m: "new_MultiChannelMemorySystem (\<lambda>_.
         bind_res (new_MemorySystem_named newReq newCmd (deviceGene a) (deviceSpeed a) (deviceSize a) (argRanks a)
                     (unat (requestors a)) True (files (systemIniFilename a)) memSys) (\<lambda>(std, m). ok m)) (argChannels a) = ok m"
    and s: "s = \<lparr>requestorsMap = map (make_requestor files clk mem (split_lines list)) [0..<unat (requestors a)],
             memorySystem = m, currentClockCyle = 1, simDone = False\<rparr>"
    by (auto simp: new_simulation_def res_simps split: option.splits)
  have f: "all_flight m = {#} \<and> clockDomainCrosser m = new_ClockDomainCrosser"
    by (rule new_channels_flight [OF m]) (auto simp: res_simps dest: new_channel_flight)
  have "inOrder (make_requestor files clk mem ls i)" "awaits (make_requestor files clk mem ls i) = {#}" "rqID (make_requestor files clk mem ls i) = of_nat i"
    "requestor_inv (make_requestor files clk mem ls i)" for ls i
    by (simp_all add: make_requestor_def setMemoryClock_def new_Requestor_def awaits_def requestor_inv_def)
  moreover have "unat (requestors a) < 2 ^ 32" using unsigned_less [of "requestors a", where ?'a = nat] by simp
  moreover have "all_pending m = {#}"
  proof -
    obtain qs m' where t: "take_callbacks m = (qs, m')" by fastforce
    then have "all_pending m' = all_pending m" by (auto simp: take_callbacks_def all_pending_def o_def)
    then show ?thesis using take_callbacks_flight [OF t] f by simp
  qed
  ultimately show ?thesis using s f by (auto simp: sim_inv_def requestors_ok_def all_awaited_def o_def)
qed

section \<open>Runs\<close>

text \<open>The states of the program at the head of its loop, for the options \<open>a\<close>.\<close>

inductive sim_run ::
  "('r req_sched_scheme \<times> sched_env \<Rightarrow> ('r req_sched_scheme \<times> sched_env) res) \<Rightarrow>
   (device_std \<Rightarrow> 'c cmd_sched_scheme \<Rightarrow> (packet option \<times> 'c cmd_sched_scheme) res) \<Rightarrow>
     device_std \<Rightarrow> build_flags \<Rightarrow> request \<Rightarrow> arguments \<Rightarrow> ('r, 'c) simulation \<Rightarrow> bool"
  for rsch csch std fl mem a where
  start: "select_device (deviceGene a) (deviceSpeed a) (deviceSize a) (argRanks a) = ok (std, d) \<Longrightarrow>
    new_simulation newReq newCmd files clk rmem memSys a = ok s \<Longrightarrow> sim_run rsch csch std fl mem a s"
| step: "sim_run rsch csch std fl mem a s \<Longrightarrow> \<not> simDone s \<Longrightarrow>
    sim_step rsch csch std fl mem (cycles a) s = Some (ok s') \<Longrightarrow> sim_run rsch csch std fl mem a s'"

lemma sim_stepE:
  assumes "sim_step rsch csch std fl mem limit s = Some (ok s')"
  obtains s1 m where "step_requestors fl mem limit s = ok s1" and "mcms_update rsch csch std (memorySystem s1) = Some (ok m)"
    and "finish_cycle s1 m = ok s'"
  using assms by (auto simp: sim_step_def split: sum.splits option.splits)

lemma sim_step_inv:
  assumes "sim_inv s" and "sim_step rsch csch std fl mem limit s = Some (ok s')"
  shows "sim_inv s' \<and> all_pending (memorySystem s') = all_awaited (requestorsMap s')"
proof -
  from assms(2) obtain s1 m where 1: "step_requestors fl mem limit s = ok s1"
    and 2: "mcms_update rsch csch std (memorySystem s1) = Some (ok m)" and 3: "finish_cycle s1 m = ok s'"
    by (rule sim_stepE)
  from finish_cycle_inv [OF step_requestors_inv [OF assms(1) 1] mcms_update_flight [OF 2]] 3 show ?thesis by auto
qed

lemma sim_run_inv:
  assumes "sim_run rsch csch std fl mem a s"
  shows "sim_inv s \<and> all_pending (memorySystem s) = all_awaited (requestorsMap s)"
  using assms by induction (auto dest: new_simulation_inv sim_step_inv)

text \<open>
  (C1) No request is lost, duplicated or answered twice, from the trace file to the data. In every
  state of a run of the program, for any schedulers and any device, the reads and writes pending
  in the controllers of all channels are, with their requestors and addresses, exactly the
  requests the requestors wait for. For each requestor the number of trace lines read is the
  number of requests completed plus those it still holds or waits for, and these are at most one.
\<close>

theorem simulation_conserves_requests:
  assumes "sim_run rsch csch std fl mem a s"
  shows "all_pending (memorySystem s) = (\<Sum>r\<leftarrow>requestorsMap s. awaits r)
       \<and> (\<forall>r \<in> set (requestorsMap s).
            of_int (long_l r) = completeRequest r + of_nat (length (corePendingData r) + (if pendingRequest r = None then 0 else 1))
          \<and> length (corePendingData r) + (if pendingRequest r = None then 0 else 1) \<le> 1)"
proof -
  have "requestor_inv r \<and> inOrder r" if "r \<in> set (requestorsMap s)" for r
    using sim_run_inv [OF assms] that by (auto simp: sim_inv_def requestors_ok_def in_set_conv_nth)
  then show ?thesis using sim_run_inv [OF assms] by (auto simp: all_awaited_def requestor_inv_def)
qed

text \<open>
  (C3) The data that comes back is always expected: in every state of a run, if the requestors
  make their step and the memory system its update, then every callback of this update finds its
  requestor and, there, a request for this address. So the program neither follows a null pointer
  of \<^verbatim>\<open>requestorsMap\<close> nor ends with \<^verbatim>\<open>REQUEST NOT FOUND\<close>.
\<close>

theorem callbacks_are_expected:
  assumes "sim_run rsch csch std fl mem a s" and "step_requestors fl mem (cycles a) s = ok s1"
    and "mcms_update rsch csch std (memorySystem s1) = Some (ok m)"
  shows "\<exists>rs. fold_res callBack (fst (take_callbacks m)) (requestorsMap s1) = ok rs
       \<and> (\<Sum>r\<leftarrow>requestorsMap s1. awaits r) = image_mset asked (mset (fst (take_callbacks m))) + (\<Sum>r\<leftarrow>rs. awaits r)"
proof -
  obtain qs m' where t: "take_callbacks m = (qs, m')" by fastforce
  have "sim_inv s1" using step_requestors_inv [OF _ assms(2)] sim_run_inv [OF assms(1)] by simp
  then have 1: "requestors_ok (requestorsMap s1)" "all_awaited (requestorsMap s1) = image_mset asked (mset qs) + all_pending m'"
    using take_callbacks_flight [OF t] mcms_update_flight [OF assms(3)] by (simp_all add: sim_inv_def)
  from callBacks_awaited [OF this] 1(2) t show ?thesis by (auto simp: all_awaited_def)
qed

section \<open>The end of the simulation\<close>

lemma callBack_finished:
  assumes "callBack q rs = ok rs'" and "i < length rs" and "finished (rs ! i)"
  shows "length rs' = length rs \<and> finished (rs' ! i)"
  using assms by (auto simp: callBack_def Let_def res_simps nth_list_update returnData_finished split: if_splits)

lemma finish_cycle_finished:
  assumes "finish_cycle s m = ok s'" and "i < length (requestorsMap s)" and "finished (requestorsMap s ! i)"
  shows "i < length (requestorsMap s') \<and> finished (requestorsMap s' ! i)"
proof -
  from assms(1) have f: "fold_res callBack (fst (take_callbacks m)) (requestorsMap s) = ok (requestorsMap s')"
    by (auto simp: finish_cycle_def res_simps split: prod.splits)
  show ?thesis
    by (rule fold_res_preserves [OF f]) (use assms(2,3) in \<open>auto dest: callBack_finished\<close>)
qed

text \<open>After the first \<open>k\<close> requestors have stepped, the end is due to the limit or to one of them.\<close>

lemma step_requestors_upto:
  assumes "fold_res (step_requestor fl mem) [0..<k] s = ok s'"
  shows "length (requestorsMap s') = length (requestorsMap s) \<and> currentClockCyle s' = currentClockCyle s
       \<and> (simDone s \<longrightarrow> simDone s')
       \<and> (simDone s' \<longrightarrow> simDone s \<or> (\<exists>i < k. i < length (requestorsMap s') \<and> finished (requestorsMap s' ! i)))"
  using assms
proof (induction k arbitrary: s')
  case (Suc k)
  then obtain t where t: "fold_res (step_requestor fl mem) [0..<k] s = ok t" and u: "step_requestor fl mem k t = ok s'"
    by (auto simp: fold_res_append res_simps)
  from u obtain r' m where r': "requestor_update fl mem (requestorsMap t ! k, memorySystem t) = ok (r', m)"
    and k: "k < length (requestorsMap t)"
    and s': "s' = t\<lparr>requestorsMap := (requestorsMap t)[k := r'], memorySystem := m, simDone := simDone t \<or> sim_end r'\<rparr>"
    by (auto simp: step_requestor_def res_simps)
  have e: "sim_end r' \<Longrightarrow> finished r'" using requestor_update_end [OF r'] .
  show ?case
  proof (cases "sim_end r'")
    case True
    then show ?thesis using Suc.IH [OF t] s' e k by (auto intro!: exI [of _ k])
  next
    case False
    with Suc.IH [OF t] s' k show ?thesis by (auto simp: nth_list_update intro: less_SucI)
  qed
qed simp

lemma step_requestors_end:
  assumes "step_requestors fl mem limit s = ok s'"
  shows "currentClockCyle s' = currentClockCyle s \<and> (limit \<noteq> 0 \<longrightarrow> currentClockCyle s = ucast limit \<longrightarrow> simDone s')
       \<and> (simDone s' \<longrightarrow> simDone s \<or> limit \<noteq> 0 \<and> currentClockCyle s = ucast limit
            \<or> (\<exists>i < length (requestorsMap s'). finished (requestorsMap s' ! i)))"
  using step_requestors_upto [OF assms [unfolded step_requestors_def]] by auto

lemma finish_cycle_frame:
  "finish_cycle s m = ok s' \<Longrightarrow> simDone s' = simDone s \<and> currentClockCyle s' = currentClockCyle s + 1
     \<and> clockDomainCrosser (memorySystem s') = clockDomainCrosser m"
  by (auto simp: finish_cycle_def res_simps take_callbacks_def)

lemma sim_step_end:
  assumes "sim_step rsch csch std fl mem limit s = Some (ok s')" and "\<not> simDone s" and "simDone s'"
  shows "limit \<noteq> 0 \<and> currentClockCyle s' = ucast limit + 1 \<or> (\<exists>r \<in> set (requestorsMap s'). finished r)"
proof -
  from assms(1) obtain s1 m where 1: "step_requestors fl mem limit s = ok s1" and 3: "finish_cycle s1 m = ok s'"
    by (rule sim_stepE)
  have "limit \<noteq> 0 \<and> currentClockCyle s = ucast limit \<or> (\<exists>i < length (requestorsMap s1). finished (requestorsMap s1 ! i))"
    using step_requestors_end [OF 1] finish_cycle_frame [OF 3] assms(2,3) by auto
  then show ?thesis
    using step_requestors_end [OF 1] finish_cycle_frame [OF 3] finish_cycle_finished [OF 3] by (metis nth_mem)
qed

text \<open>
  (C4) The simulation ends for a reason: when the loop is left, the limit on the cycles has been
  reached, or some requestor has read its whole trace, has nothing to send and nothing to wait
  for, and the number of its completed requests is the number of requests of its trace.
\<close>

theorem simulation_ends_complete:
  assumes "sim_run rsch csch std fl mem a s" and "simDone s"
  shows "cycles a \<noteq> 0 \<and> currentClockCyle s = ucast (cycles a) + 1
       \<or> (\<exists>r \<in> set (requestorsMap s). finished r \<and> completeRequest r = of_int (long_l r))"
proof -
  have inv: "requestor_inv r" if "r \<in> set (requestorsMap s)" for r
    using sim_run_inv [OF assms(1)] that by (auto simp: sim_inv_def requestors_ok_def in_set_conv_nth)
  from assms have "cycles a \<noteq> 0 \<and> currentClockCyle s = ucast (cycles a) + 1 \<or> (\<exists>r \<in> set (requestorsMap s). finished r)"
  proof cases
    case start
    then show ?thesis using new_simulation_inv assms(2) by blast
  next
    case (step t)
    then show ?thesis using sim_step_end assms(2) by blast
  qed
  then show ?thesis using inv finished_complete by blast
qed

text \<open>The clocks of the crosser stay equal, so an update of the memory system returns.\<close>

definition in_step :: "('r, 'c) simulation \<Rightarrow> bool" where
  "in_step s \<longleftrightarrow> clock1 (clockDomainCrosser (memorySystem s)) = clock2 (clockDomainCrosser (memorySystem s))"

lemma requestor_update_crosser:
  assumes "requestor_update fl mem (r, m) = ok (r', m')"
  shows "clockDomainCrosser m' = clockDomainCrosser m"
proof -
  from assms obtain r1 r2 where "try_send fl mem (r1, m) = ok (r2, m')" by (auto simp: requestor_update_def res_simps)
  then show ?thesis
    by (cases rule: try_send_cases) (auto simp: mcms_flushWrite_def mcms_addRequest_def res_simps)
qed

lemma step_requestors_in_step:
  assumes "step_requestors fl mem limit s = ok s'" and "in_step s"
  shows "in_step s'"
  by (rule fold_res_preserves [OF assms(1) [unfolded step_requestors_def]])
    (use assms(2) in \<open>auto simp: in_step_def step_requestor_def res_simps dest: requestor_update_crosser\<close>)

lemma update_in_step:
  assumes "clock1 (clockDomainCrosser m) = clock2 (clockDomainCrosser m)"
  shows "\<exists>x. mcms_update rsch csch std m = Some x \<and> (\<forall>m'. x = ok m' \<longrightarrow> clockDomainCrosser m' = clockDomainCrosser m)"
  using assms by (auto simp: mcms_update_def crosser_update_def res_simps)

lemma sim_step_returns:
  assumes "in_step s"
  shows "\<exists>x. sim_step rsch csch std fl mem limit s = Some x \<and> (\<forall>s'. x = ok s' \<longrightarrow> in_step s' \<and> currentClockCyle s' = currentClockCyle s + 1
           \<and> (limit \<noteq> 0 \<longrightarrow> currentClockCyle s = ucast limit \<longrightarrow> simDone s'))"
proof (cases "step_requestors fl mem limit s")
  case (Inl e)
  then show ?thesis by (simp add: sim_step_def)
next
  case (Inr s1)
  have "in_step s1" using step_requestors_in_step [OF Inr assms] .
  then obtain x where x: "mcms_update rsch csch std (memorySystem s1) = Some x"
    and c: "\<forall>m'. x = ok m' \<longrightarrow> clockDomainCrosser m' = clockDomainCrosser (memorySystem s1)"
    unfolding in_step_def using update_in_step by blast
  have "in_step s' \<and> currentClockCyle s' = currentClockCyle s + 1 \<and> (limit \<noteq> 0 \<longrightarrow> currentClockCyle s = ucast limit \<longrightarrow> simDone s')"
    if "x = ok m" "finish_cycle s1 m = ok s'" for m s'
    using finish_cycle_frame [OF that(2)] step_requestors_end [OF Inr] c that(1) \<open>in_step s1\<close> by (auto simp: in_step_def)
  then show ?thesis using Inr x by (cases x) (auto simp: sim_step_def)
qed

lemma limit_cycles: "unat (ucast (l :: u32) :: u64) = unat l" "unat (ucast (l :: u32) + 1 :: u64) = unat l + 1"
proof -
  have b: "unat l < 2 ^ 32" using unsigned_less [of l, where ?'a = nat] by simp
  then show 1: "unat (ucast l :: u64) = unat l" by (simp add: unsigned_ucast_eq take_bit_nat_eq_self)
  show "unat (ucast l + 1 :: u64) = unat l + 1" using b by (simp add: unat_word_ariths 1)
qed

lemma next_cycle: "unat (c :: u64) \<le> unat (l :: u32) \<Longrightarrow> unat (c + 1) = unat c + 1"
  using unsigned_less [of l, where ?'a = nat] by (simp add: unat_word_ariths)

lemma simulate_returns:
  assumes "limit \<noteq> 0"
  shows "in_step s \<Longrightarrow> simDone s \<or> currentClockCyle s \<le> ucast limit \<Longrightarrow> currentClockCyle s \<le> ucast limit + 1 \<Longrightarrow>
     \<exists>x. simulate rsch csch std fl mem limit s = Some x
       \<and> (\<forall>s'. x = ok s' \<longrightarrow> simDone s' \<and> currentClockCyle s' \<le> ucast limit + 1)"
proof (induction "unat limit + 1 - unat (currentClockCyle s)" arbitrary: s rule: less_induct)
  case less
  show ?case
  proof (cases "simDone s")
    case True
    then show ?thesis using less.prems by (simp add: simulate.simps)
  next
    case False
    with less.prems have le: "currentClockCyle s \<le> ucast limit" by simp
    have c: "unat (currentClockCyle s) \<le> unat limit" using le by (simp add: word_le_nat_alt limit_cycles)
    note c1 = next_cycle [OF c]
    obtain x where x: "sim_step rsch csch std fl mem limit s = Some x"
      and n: "\<And>s'. x = ok s' \<Longrightarrow> in_step s' \<and> currentClockCyle s' = currentClockCyle s + 1 \<and> (currentClockCyle s = ucast limit \<longrightarrow> simDone s')"
      using sim_step_returns [OF less.prems(1), of rsch csch std fl mem limit] assms by blast
    show ?thesis
    proof (cases x)
      case (Inl e)
      then show ?thesis using x False by (simp add: simulate.simps [of _ _ _ _ _ _ s])
    next
      case (Inr s')
      have "simDone s' \<or> currentClockCyle s' \<le> ucast limit" "currentClockCyle s' \<le> ucast limit + 1"
        using n [OF Inr] c c1 le by (auto simp: word_le_nat_alt word_unat_eq_iff limit_cycles)
      with less.hyps [of s'] n [OF Inr] c c1 show ?thesis
        using x False Inr by (simp add: simulate.simps [of _ _ _ _ _ _ s])
    qed
  qed
qed

text \<open>
  (C5) With a limit on the cycles the program ends: whatever the traces, the schedulers and the
  device do, the loop is left after at most that many cycles, with the final state or with an
  error of one of the parts. Without a limit this is not so, a trace file that cannot be opened
  never reaches its end.
\<close>

theorem simulation_terminates:
  assumes "new_simulation newReq newCmd files clk rmem memSys a = ok s" and "cycles a \<noteq> 0"
  shows "\<exists>x. simulate rsch csch std fl mem (cycles a) s = Some x
       \<and> (\<forall>s'. x = ok s' \<longrightarrow> simDone s' \<and> currentClockCyle s' \<le> ucast (cycles a) + 1)"
proof (rule simulate_returns [OF assms(2)])
  note n = new_simulation_inv [OF assms(1)]
  show "in_step s" using n by (simp add: in_step_def new_ClockDomainCrosser_def new_ClockDomainCrosser_clocks_def)
  have "0 < unat (cycles a)" using assms(2) by (simp add: unat_gt_0)
  then show "simDone s \<or> currentClockCyle s \<le> ucast (cycles a)" "currentClockCyle s \<le> ucast (cycles a) + 1"
    using n by (simp_all add: word_le_nat_alt limit_cycles)
qed

section \<open>A concrete run\<close>

text \<open>
  One requestor that reads one address, or has an empty trace, on the system of the other examples.
\<close>

definition sample_files :: "string \<Rightarrow> string option" where
  "sample_files f =
     (if f = ''system.ini'' then Some sample_ini
      else if f = ''mem.trc'' then Some ''a.trc''
      else if f = ''a.trc'' then Some ''0x12340 READ 0''
      else if f = ''empty.trc'' then Some ''b.trc''
      else if f = ''b.trc'' then Some []
      else None)"

definition sample_requestor :: requestor where
  "sample_requestor =
     \<lparr>rqID = 0, prevArrive = 0, prevComplete = 0, currentClockCycle = 0, RequestBufferSize = 0, RequestSize = 0,
      requestRequest = 0, completeRequest = 0, latency = 0, wcLatency = 0, compTime = 0, long_l = 0, inOrder = False,
      bypass_read = False, waitingRequest = False, sim_done = False, memoryClock = id, transFile = None,
      pendingRequest = None, corePendingData = []\<rparr>"

definition sample_arguments :: "u32 \<Rightarrow> string \<Rightarrow> arguments" where
  "sample_arguments limit list =
     default_arguments\<lparr>requestors := 1, cycles := limit, deviceSpeed := ''800D'', traceFileName := list\<rparr>"

definition sample_simulation :: "arguments \<Rightarrow> (unit, policy_ext) simulation res" where
  "sample_simulation =
     new_simulation (\<lambda>_. new_RequestScheduler sample_sched) (newCommandScheduler ''FRFCFS'' sample_policy) sample_files id
       sample_requestor \<lparr>sysClock = 0, memoryController = sample_controller\<rparr>"

fun sample_steps :: "nat \<Rightarrow> arguments \<Rightarrow> (unit, policy_ext) simulation res option" where
  "sample_steps 0 a = Some (sample_simulation a)"
| "sample_steps (Suc n) a =
     (case sample_steps n a of
        Some (Inr s) \<Rightarrow>
          if simDone s then Some (Inr s)
          else sim_step requestSchedule_FRFCFS (commandSchedule 0 ''FRFCFS'') (ddr3_std slow_ddr3) interleaved sample_request (cycles a) s
      | x \<Rightarrow> x)"

abbreviation sample_sim_run :: "arguments \<Rightarrow> (unit, policy_ext) simulation \<Rightarrow> bool" where
  "sample_sim_run \<equiv> sim_run requestSchedule_FRFCFS (commandSchedule 0 ''FRFCFS'') (ddr3_std slow_ddr3) interleaved sample_request"

lemma slow_selected:
  "\<exists>d. select_device (deviceGene (sample_arguments n l)) (deviceSpeed (sample_arguments n l)) (deviceSize (sample_arguments n l))
         (argRanks (sample_arguments n l)) = ok (ddr3_std slow_ddr3, d)"
proof -
  have "case new_DDR3_named ''DDR3_2Gb_x8'' ''DDR3_800D'' of Inl _ \<Rightarrow> False | Inr _ \<Rightarrow> True" by code_simp
  then obtain d where d: "new_DDR3_named ''DDR3_2Gb_x8'' ''DDR3_800D'' = ok d" by (auto split: sum.splits)
  then show ?thesis
    by (simp add: select_device_def Let_def new_Ramulator_DDR3_def slow_ddr3_def sample_arguments_def default_arguments_def)
qed

lemma sample_steps_run: "sample_steps k (sample_arguments n l) = Some (ok s) \<Longrightarrow> sample_sim_run (sample_arguments n l) s"
proof (induction k arbitrary: s)
  case 0
  from slow_selected obtain d where "select_device (deviceGene (sample_arguments n l)) (deviceSpeed (sample_arguments n l))
      (deviceSize (sample_arguments n l)) (argRanks (sample_arguments n l)) = ok (ddr3_std slow_ddr3, d)" by blast
  then show ?case using 0 by (auto simp: sample_simulation_def intro: sim_run.start)
next
  case (Suc k)
  then obtain t where t: "sample_steps k (sample_arguments n l) = Some (ok t)" by (auto split: option.splits sum.splits)
  with Suc show ?case by (auto split: if_splits intro: sim_run.step)
qed

lemma sample_one_read:
  "\<exists>s. sample_steps 1 (sample_arguments 0 ''mem.trc'') = Some (ok s) \<and> \<not> simDone s
     \<and> map (map asked \<circ> corePendingData) (requestorsMap s) = [[(0, 0x12340)]]"
proof -
  have "case sample_steps 1 (sample_arguments 0 ''mem.trc'') of None \<Rightarrow> False | Some x \<Rightarrow> (case x of Inl _ \<Rightarrow> False
      | Inr s \<Rightarrow> \<not> simDone s \<and> map (map asked \<circ> corePendingData) (requestorsMap s) = [[(0, 0x12340)]])"
    by code_simp
  then show ?thesis by (auto split: option.splits sum.splits)
qed

theorem simulation_conserves_requests_witness:
  "\<exists>s. sample_sim_run (sample_arguments 0 ''mem.trc'') s \<and> all_pending (memorySystem s) = {#(0, 0x12340)#}"
proof -
  from sample_one_read obtain s where w: "sample_steps 1 (sample_arguments 0 ''mem.trc'') = Some (ok s) \<and> \<not> simDone s
      \<and> map (map asked \<circ> corePendingData) (requestorsMap s) = [[(0, 0x12340)]]" ..
  note s = w [THEN conjunct1]
  obtain r where r: "requestorsMap s = [r]" "map asked (corePendingData r) = [(0, 0x12340)]"
    using w [THEN conjunct2, THEN conjunct2] by (auto simp: map_eq_Cons_conv)
  have "awaits r = mset (map asked (corePendingData r))" by (simp add: awaits_def)
  then have "(\<Sum>r\<leftarrow>requestorsMap s. awaits r) = {#(0, 0x12340)#}" unfolding r by simp
  with simulation_conserves_requests [OF sample_steps_run [OF s]] sample_steps_run [OF s] show ?thesis by auto
qed

theorem callbacks_are_expected_witness:
  "\<exists>s s1 m rs. sample_sim_run (sample_arguments 0 ''mem.trc'') s \<and> step_requestors interleaved sample_request 0 s = ok s1
     \<and> mcms_update requestSchedule_FRFCFS (commandSchedule 0 ''FRFCFS'') (ddr3_std slow_ddr3) (memorySystem s1) = Some (ok m)
     \<and> fold_res callBack (fst (take_callbacks m)) (requestorsMap s1) = ok rs"
proof -
  have c: "cycles (sample_arguments 0 l) = 0" for l by (simp add: sample_arguments_def)
  from sample_one_read obtain t where w: "sample_steps 1 (sample_arguments 0 ''mem.trc'') = Some (ok t) \<and> \<not> simDone t
      \<and> map (map asked \<circ> corePendingData) (requestorsMap t) = [[(0, 0x12340)]]" ..
  note t = w [THEN conjunct1]
  then obtain s where s: "sample_simulation (sample_arguments 0 ''mem.trc'') = ok s" and n: "\<not> simDone s"
    by (auto simp: sample_simulation_def dest: new_simulation_inv split: option.splits sum.splits if_splits)
  with t have "sim_step requestSchedule_FRFCFS (commandSchedule 0 ''FRFCFS'') (ddr3_std slow_ddr3) interleaved sample_request 0 s = Some (ok t)"
    by (simp add: c)
  then obtain s1 m where 1: "step_requestors interleaved sample_request 0 s = ok s1"
    and 2: "mcms_update requestSchedule_FRFCFS (commandSchedule 0 ''FRFCFS'') (ddr3_std slow_ddr3) (memorySystem s1) = Some (ok m)"
    by (rule sim_stepE)
  have "sample_sim_run (sample_arguments 0 ''mem.trc'') s" using s sample_steps_run [of 0] by simp
  with callbacks_are_expected [OF this _ 2] 1 2 c show ?thesis by fastforce
qed

theorem simulation_ends_complete_witness:
  "\<exists>s. sample_sim_run (sample_arguments 0 ''empty.trc'') s \<and> simDone s \<and> (\<exists>r \<in> set (requestorsMap s). finished r)"
proof -
  have "case sample_steps 2 (sample_arguments 0 ''empty.trc'') of None \<Rightarrow> False | Some x \<Rightarrow> (case x of Inl _ \<Rightarrow> False | Inr s \<Rightarrow> simDone s)"
    by code_simp
  then obtain s where s: "sample_steps 2 (sample_arguments 0 ''empty.trc'') = Some (ok s)" "simDone s"
    by (auto split: option.splits sum.splits)
  have "cycles (sample_arguments 0 l) = 0" for l by (simp add: sample_arguments_def)
  with simulation_ends_complete [OF sample_steps_run [OF s(1)] s(2)] sample_steps_run [OF s(1)] s(2) show ?thesis by auto
qed

theorem simulation_terminates_witness:
  "\<exists>s x. sample_simulation (sample_arguments 1000 ''mem.trc'') = ok s
     \<and> simulate requestSchedule_FRFCFS (commandSchedule 0 ''FRFCFS'') (ddr3_std slow_ddr3) interleaved sample_request 1000 s = Some x"
proof -
  have c: "cycles (sample_arguments 1000 ''mem.trc'') = 1000" by (simp add: sample_arguments_def)
  have "case sample_simulation (sample_arguments 1000 ''mem.trc'') of Inl _ \<Rightarrow> False | Inr s \<Rightarrow> True" by code_simp
  then obtain s where s: "sample_simulation (sample_arguments 1000 ''mem.trc'') = ok s" by (auto split: sum.splits)
  from simulation_terminates [OF this [unfolded sample_simulation_def], of requestSchedule_FRFCFS "commandSchedule 0 ''FRFCFS''"
      "ddr3_std slow_ddr3" interleaved sample_request] c
  obtain x where "simulate requestSchedule_FRFCFS (commandSchedule 0 ''FRFCFS'') (ddr3_std slow_ddr3) interleaved sample_request 1000 s = Some x"
    by auto
  with s show ?thesis by blast
qed

end
