(* ===== verification/ParBs.thy ===== *)
theory ParBs
  imports RequestInterface
begin

text \<open>
  \<^verbatim>\<open>src/system/PAR-BS/RequestScheduler_PAR-BS.h\<close>: parallelism-aware batch scheduling. The class keeps
  facts about waiting requests in maps keyed by their addresses. Every request it looks up is in
  the general buffer of queue 0, and the addresses of two waiting requests differ, so a pointer to
  a request is its position there: \<^verbatim>\<open>marked\<close> is a predicate on positions. New requests are appended
  behind the others, and when a request leaves the buffer its mark is cleared and the positions
  behind it move up (\<open>leave\<close>); an object created later at the address of one that has left reads
  \<^verbatim>\<open>false\<close> either way. The map \<^verbatim>\<open>rank\<close> is never used, and the members \<^verbatim>\<open>temp\<close> and \<^verbatim>\<open>temp_1\<close> are local to
  \<^verbatim>\<open>requestSchedule\<close>. \<open>nreq\<close> is \<^verbatim>\<open>requestorCriticalTable.size()\<close>.
\<close>

section \<open>State\<close>

record parbs_sched = req_sched +
  MarkingCap :: u32
  localBcount :: u32
  markedMaxLoadPerProc :: "u32 list"
  markedTotalLoadPerProc :: "u32 list"
  markedCnt :: u32
  marked :: "nat \<Rightarrow> bool"
  MarkableQ :: "nat \<times> nat \<Rightarrow> nat list"

text \<open>The constructor; the two arrays of ten elements are indeterminate and the maps empty.\<close>

definition new_RequestScheduler_PARBS :: "parbs_sched \<Rightarrow> parbs_sched" where
  "new_RequestScheduler_PARBS mem =
     (new_RequestScheduler mem)\<lparr>markedCnt := 0, localBcount := 1 * 8, MarkingCap := 5,
        marked := (\<lambda>_. False), MarkableQ := (\<lambda>_. [])\<rparr>"

section \<open>Batches\<close>

text \<open>The position of the request that \<^verbatim>\<open>earliestperBankperReq(p, b)\<close> points to.\<close>

definition earliest_pos :: "u32 \<Rightarrow> u32 \<Rightarrow> request list \<Rightarrow> nat option" where
  "earliest_pos p b buf =
     (case filter (\<lambda>k. bank (buf ! k) = b \<and> requestorID (buf ! k) = p) [0..<length buf] of
        [] \<Rightarrow> None
      | k # ks \<Rightarrow> Some (scan_less (\<lambda>k. arriveTime (buf ! k)) k (k # ks)))"

definition mark_request :: "nat \<Rightarrow> nat \<Rightarrow> nat \<Rightarrow> parbs_sched \<Rightarrow> parbs_sched res" where
  "mark_request p b k s =
     bind_res (nth_res (markedTotalLoadPerProc s) p) (\<lambda>total.
     bind_res (nth_res (markedMaxLoadPerProc s) p) (\<lambda>most.
       let n = markedCnt s + 1
       in ok (s\<lparr>MarkableQ := (MarkableQ s)((p, b) := k # MarkableQ s (p, b)),
                markedTotalLoadPerProc := (markedTotalLoadPerProc s)[p := total + 1],
                markedCnt := n, marked := (marked s)(k := True),
                markedMaxLoadPerProc := (if n > most then (markedMaxLoadPerProc s)[p := n] else markedMaxLoadPerProc s)\<rparr>)))"

lemma mark_request_frame:
  assumes "mark_request p b k s = ok s'"
  shows "MarkingCap s' = MarkingCap s" "localBcount s' = localBcount s"
    "MarkableQ s' = (MarkableQ s)((p, b) := k # MarkableQ s (p, b))"
    "markedCnt s' = markedCnt s + 1" "marked s' = (marked s)(k := True)"
    "length (markedTotalLoadPerProc s') = length (markedTotalLoadPerProc s)"
    "length (markedMaxLoadPerProc s') = length (markedMaxLoadPerProc s)"
  using assms by (auto simp: mark_request_def Let_def res_simps)

text \<open>
  The loop over the banks of requestor \<open>p\<close>: a bank is visited again after each request marked in
  it (\<^verbatim>\<open>b = b - 1\<close> before \<^verbatim>\<open>b++\<close>), and the loop is left at a bank with \<^verbatim>\<open>MarkingCap\<close> requests.
\<close>

function batch_banks :: "request list \<Rightarrow> nat \<Rightarrow> nat \<Rightarrow> parbs_sched \<Rightarrow> parbs_sched res" where
  "batch_banks buf p b s =
     (if b < unat (localBcount s)
      then if length (MarkableQ s (p, b)) = unat (MarkingCap s) then ok s
           else if length (MarkableQ s (p, b)) < unat (MarkingCap s)
           then case earliest_pos (of_nat p) (of_nat b) buf of
                  None \<Rightarrow> batch_banks buf p (Suc b) s
                | Some k \<Rightarrow> bind_res (mark_request p b k s) (\<lambda>s'. batch_banks buf p b s')
           else batch_banks buf p (Suc b) s
      else ok s)"
  by pat_completeness auto
termination
  by (relation "measures [\<lambda>(buf, p, b, s). unat (localBcount s) - b,
                          \<lambda>(buf, p, b, s). unat (MarkingCap s) - length (MarkableQ s (p, b))]")
    (auto simp: mark_request_def Let_def res_simps)

declare batch_banks.simps [simp del]

text \<open>Both arrays have ten elements; clearing the entries of more requestors leaves them.\<close>

definition clear_batch :: "nat \<Rightarrow> parbs_sched \<Rightarrow> parbs_sched res" where
  "clear_batch nreq s =
     (if localBcount s = 0 then ok s
      else if nreq \<le> length (markedMaxLoadPerProc s) \<and> nreq \<le> length (markedTotalLoadPerProc s)
      then ok (s\<lparr>MarkableQ := (\<lambda>(p, b). if p < nreq \<and> b < unat (localBcount s) then [] else MarkableQ s (p, b)),
                 markedMaxLoadPerProc := replicate nreq 0 @ drop nreq (markedMaxLoadPerProc s),
                 markedTotalLoadPerProc := replicate nreq 0 @ drop nreq (markedTotalLoadPerProc s)\<rparr>)
      else fail OutOfRange)"

definition form_batch :: "nat \<Rightarrow> request list \<Rightarrow> parbs_sched \<Rightarrow> parbs_sched res" where
  "form_batch nreq buf s =
     bind_res (clear_batch nreq s) (fold_res (\<lambda>p. batch_banks buf p 0) [0..<nreq])"

section \<open>Scheduling\<close>

text \<open>
  \<^verbatim>\<open>BetterRequest(req1, req2)\<close>, for the requests at the positions \<open>k\<close> and \<open>j\<close>: whether it returns
  the first of them.
\<close>

definition BetterRequest :: "nat \<Rightarrow> request \<Rightarrow> nat \<Rightarrow> request \<Rightarrow> parbs_sched \<Rightarrow> bool res" where
  "BetterRequest k r1 j r2 s =
     (if marked s k \<noteq> marked s j then ok (marked s k)
      else bind_res (isRowHit r1 s) (\<lambda>h1.
           bind_res (isRowHit r2 s) (\<lambda>h2.
             if h1 \<noteq> h2 then ok h1
             else bind_res (nth_res (markedMaxLoadPerProc s) (unat (requestorID r1))) (\<lambda>m1.
                  bind_res (nth_res (markedMaxLoadPerProc s) (unat (requestorID r2))) (\<lambda>m2.
                    if m1 \<noteq> m2 then ok (\<not> m1 > m2)
                    else bind_res (nth_res (markedTotalLoadPerProc s) (unat (requestorID r1))) (\<lambda>t1.
                         bind_res (nth_res (markedTotalLoadPerProc s) (unat (requestorID r2))) (\<lambda>t2.
                           if t1 \<noteq> t2 then ok (\<not> t1 > t2) else ok False)))))))"

definition parbs_better :: "request_queue \<Rightarrow> parbs_sched \<Rightarrow> nat \<Rightarrow> nat \<times> request \<Rightarrow> (nat \<times> request) res" where
  "parbs_better q s k best =
     (case best of (j, r2) \<Rightarrow>
        bind_res (getRequestCheck k q) (\<lambda>p.
        bind_res (deref p) (\<lambda>r1.
        bind_res (BetterRequest k r1 j r2 s) (\<lambda>b. ok (if b then (k, r1) else (j, r2))))))"

definition parbs_choose :: "request_queue \<Rightarrow> parbs_sched \<Rightarrow> request \<Rightarrow> (nat \<times> request) res" where
  "parbs_choose q s r0 = bind_res (getSize False 0 q) (\<lambda>n. fold_res (parbs_better q s) [1..<n] (0, r0))"

text \<open>The marks after the request at position \<open>i\<close> has left.\<close>

definition leave :: "nat \<Rightarrow> (nat \<Rightarrow> bool) \<Rightarrow> nat \<Rightarrow> bool" where
  "leave i m k = m (if k < i then k else Suc k)"

definition requestSchedule_PARBS ::
  "nat \<Rightarrow> parbs_sched \<times> 'e sched_env_scheme \<Rightarrow> (parbs_sched \<times> 'e sched_env_scheme) res" where
  "requestSchedule_PARBS nreq st =
     (case st of (s, e) \<Rightarrow>
        bind_res (queue_at 0 e) (\<lambda>q.
        bind_res (if markedCnt s = 0 then form_batch nreq (generalBuffer q) s else ok s) (\<lambda>s1.
        bind_res (getRequestCheck 0 q) (\<lambda>temp.
          case temp of
            None \<Rightarrow> ok (s1, e)
          | Some r0 \<Rightarrow>
              bind_res (parbs_choose q s1 r0) (\<lambda>(i, _).
              bind_res (getRequest_general i q) (\<lambda>(p, q1).
              bind_res (deref p) (\<lambda>r.
              bind_res (serve direct_key (remove_from 0) r (s1, put_queue 0 q1 e)) (\<lambda>(b, s2, e2).
                ok ((if b then s2\<lparr>markedCnt := markedCnt s2 - 1, marked := leave i (marked s2)\<rparr> else s2)
                      \<lparr>scheduledReq := None\<rparr>, e2)))))))))"

section \<open>What a batch contains\<close>

lemma scan_less_map: "scan_less key (f x) (map f ys) = f (scan_less (\<lambda>y. key (f y)) x ys)"
  by (induction ys arbitrary: x) (simp_all flip: if_distrib [of f])

lemma find_hd_filter: "List.find P xs = (case filter P xs of [] \<Rightarrow> None | y # ys \<Rightarrow> Some y)"
  by (induction xs) auto

text \<open>The position is the one of the request the queue's method returns.\<close>

lemma earliest_pos_request:
  "map_option ((!) (generalBuffer q)) (earliest_pos p b (generalBuffer q)) = earliestperBankperReq p b q"
proof -
  let ?buf = "generalBuffer q" and ?P = "\<lambda>r. bank r = b \<and> requestorID r = p"
  have f: "filter ?P ?buf = map ((!) ?buf) (filter (\<lambda>k. ?P (?buf ! k)) [0..<length ?buf])"
    by (subst map_nth [of ?buf, symmetric]) (simp only: filter_map comp_def)
  show ?thesis
    by (cases "filter (\<lambda>k. ?P (?buf ! k)) [0..<length ?buf]")
      (auto simp: earliest_pos_def earliestperBankperReq_def find_hd_filter f simp flip: scan_less_map)
qed

text \<open>
  The request of requestor \<open>p\<close> that a batch takes up: the oldest one in the lowest-numbered bank it
  has a request for.
\<close>

definition nominee :: "nat \<Rightarrow> request list \<Rightarrow> nat \<Rightarrow> nat \<Rightarrow> nat option" where
  "nominee nb buf p b0 =
     (case List.find (\<lambda>b. earliest_pos (of_nat p) (of_nat b) buf \<noteq> None) [b0..<nb] of
        None \<Rightarrow> None
      | Some b \<Rightarrow> earliest_pos (of_nat p) (of_nat b) buf)"

lemma nominee_simps:
  "nb \<le> b \<Longrightarrow> nominee nb buf p b = None"
  "b < nb \<Longrightarrow> earliest_pos (of_nat p) (of_nat b) buf = Some k \<Longrightarrow> nominee nb buf p b = Some k"
  "b < nb \<Longrightarrow> earliest_pos (of_nat p) (of_nat b) buf = None \<Longrightarrow> nominee nb buf p b = nominee nb buf p (Suc b)"
  by (simp_all add: nominee_def upt_conv_Cons)

text \<open>The fields that marking requests of requestor \<open>p\<close> leaves alone.\<close>

definition batch_frame :: "nat \<Rightarrow> parbs_sched \<Rightarrow> parbs_sched \<Rightarrow> bool" where
  "batch_frame p s s' \<longleftrightarrow>
     MarkingCap s' = MarkingCap s \<and> localBcount s' = localBcount s
   \<and> length (markedTotalLoadPerProc s') = length (markedTotalLoadPerProc s)
   \<and> length (markedMaxLoadPerProc s') = length (markedMaxLoadPerProc s)
   \<and> (\<forall>p' b. p' \<noteq> p \<longrightarrow> MarkableQ s' (p', b) = MarkableQ s (p', b))"

definition has_load :: "nat \<Rightarrow> parbs_sched \<Rightarrow> bool" where
  "has_load p s \<longleftrightarrow> p < length (markedTotalLoadPerProc s) \<and> p < length (markedMaxLoadPerProc s)"

lemma batch_frame_refl: "batch_frame p s s"
  by (simp add: batch_frame_def)

lemma batch_frame_trans: "batch_frame p s s1 \<Longrightarrow> batch_frame p s1 s2 \<Longrightarrow> batch_frame p s s2"
  by (simp add: batch_frame_def)

lemma mark_request_go:
  assumes "has_load p s"
  obtains s' where "mark_request p b k s = ok s'" "batch_frame p s s'" "has_load p s'"
    "MarkableQ s' (p, b) = k # MarkableQ s (p, b)" "markedCnt s' = markedCnt s + 1" "marked s' = (marked s)(k := True)"
proof -
  from assms obtain s' where s': "mark_request p b k s = ok s'"
    by (auto simp: mark_request_def has_load_def Let_def)
  from mark_request_frame [OF s'] assms show ?thesis
    by (intro that [OF s']) (auto simp: batch_frame_def has_load_def)
qed

lemma batch_bank_filled:
  assumes "has_load p s" and "b < unat (localBcount s)" and "earliest_pos (of_nat p) (of_nat b) buf = Some k"
    and "length (MarkableQ s (p, b)) + m = unat (MarkingCap s)"
  shows "\<exists>s'. batch_banks buf p b s = ok s' \<and> batch_frame p s s' \<and> markedCnt s' = markedCnt s + of_nat m
       \<and> marked s' = (if m = 0 then marked s else (marked s)(k := True))"
  using assms
proof (induction m arbitrary: s)
  case 0
  then show ?case by (subst batch_banks.simps) (simp add: batch_frame_refl)
next
  case (Suc m)
  from mark_request_go [OF Suc.prems(1)] obtain s1 where s1: "mark_request p b k s = ok s1" "batch_frame p s s1" "has_load p s1"
    "MarkableQ s1 (p, b) = k # MarkableQ s (p, b)" "markedCnt s1 = markedCnt s + 1" "marked s1 = (marked s)(k := True)" .
  have "batch_banks buf p b s = batch_banks buf p b s1"
    using Suc.prems s1(1) by (subst batch_banks.simps) simp
  moreover obtain s' where "batch_banks buf p b s1 = ok s'" "batch_frame p s1 s'" "markedCnt s' = markedCnt s1 + of_nat m"
      "marked s' = (if m = 0 then marked s1 else (marked s1)(k := True))"
    using Suc.IH [of s1] Suc.prems s1 by (auto simp: batch_frame_def)
  ultimately show ?case using s1 batch_frame_trans [OF s1(2)] by auto
qed

lemma batch_banks_spec:
  assumes "has_load p s" and "0 < unat (MarkingCap s)"
    and "\<forall>b'. b \<le> b' \<and> b' < unat (localBcount s) \<longrightarrow> MarkableQ s (p, b') = []"
  shows "\<exists>s'. batch_banks buf p b s = ok s' \<and> batch_frame p s s'
       \<and> (case nominee (unat (localBcount s)) buf p b of
            None \<Rightarrow> marked s' = marked s \<and> markedCnt s' = markedCnt s
          | Some k \<Rightarrow> marked s' = (marked s)(k := True) \<and> markedCnt s' = markedCnt s + MarkingCap s)"
  using assms(3)
proof (induction "unat (localBcount s) - b" arbitrary: b)
  case 0
  then show ?case by (subst batch_banks.simps) (simp add: batch_frame_refl nominee_simps)
next
  case (Suc d)
  then have b: "b < unat (localBcount s)" by simp
  show ?case
  proof (cases "earliest_pos (of_nat p) (of_nat b) buf")
    case None
    with b Suc.prems assms(2) have "batch_banks buf p b s = batch_banks buf p (Suc b) s"
      by (subst batch_banks.simps) simp
    with Suc.hyps(1) [of "Suc b"] Suc.hyps(2) Suc.prems show ?thesis
      by (simp add: nominee_simps(3) [OF b None])
  next
    case (Some k)
    from batch_bank_filled [OF assms(1) b Some, of "unat (MarkingCap s)"] Suc.prems b assms(2) show ?thesis
      by (auto simp: nominee_simps(2) [OF b Some])
  qed
qed

lemma batch_requestors_spec:
  assumes "\<forall>p < n. has_load p s" and "0 < unat (MarkingCap s)"
    and "\<forall>p < n. \<forall>b < unat (localBcount s). MarkableQ s (p, b) = []"
  shows "\<exists>s'. fold_res (\<lambda>p. batch_banks buf p 0) [0..<n] s = ok s'
       \<and> MarkingCap s' = MarkingCap s \<and> localBcount s' = localBcount s
       \<and> (\<forall>p. has_load p s' = has_load p s) \<and> (\<forall>p b. n \<le> p \<longrightarrow> MarkableQ s' (p, b) = MarkableQ s (p, b))
       \<and> (\<forall>k. marked s' k \<longleftrightarrow> marked s k \<or> (\<exists>p < n. nominee (unat (localBcount s)) buf p 0 = Some k))
       \<and> markedCnt s' = markedCnt s
           + of_nat (length (filter (\<lambda>p. nominee (unat (localBcount s)) buf p 0 \<noteq> None) [0..<n])) * MarkingCap s"
  using assms(1,3)
proof (induction n)
  case (Suc n)
  then obtain t where t: "fold_res (\<lambda>p. batch_banks buf p 0) [0..<n] s = ok t"
      "MarkingCap t = MarkingCap s" "localBcount t = localBcount s"
      "\<forall>p. has_load p t = has_load p s" "\<forall>p b. n \<le> p \<longrightarrow> MarkableQ t (p, b) = MarkableQ s (p, b)"
      "\<forall>k. marked t k \<longleftrightarrow> marked s k \<or> (\<exists>p < n. nominee (unat (localBcount s)) buf p 0 = Some k)"
      "markedCnt t = markedCnt s
         + of_nat (length (filter (\<lambda>p. nominee (unat (localBcount s)) buf p 0 \<noteq> None) [0..<n])) * MarkingCap s"
    by auto
  have "has_load n t" "\<forall>b'. 0 \<le> b' \<and> b' < unat (localBcount t) \<longrightarrow> MarkableQ t (n, b') = []"
    using Suc.prems t by simp_all
  from batch_banks_spec [OF this(1) _ this(2), of buf, unfolded t(2,3)] assms(2) obtain s' where
    s': "batch_banks buf n 0 t = ok s'" "batch_frame n t s'"
      "case nominee (unat (localBcount s)) buf n 0 of
         None \<Rightarrow> marked s' = marked t \<and> markedCnt s' = markedCnt t
       | Some k \<Rightarrow> marked s' = (marked t)(k := True) \<and> markedCnt s' = markedCnt t + MarkingCap s" by blast
  show ?case
    using t s' by (intro exI [of _ s'])
      (cases "nominee (unat (localBcount s)) buf n 0",
        auto simp: fold_res_append batch_frame_def has_load_def less_Suc_eq algebra_simps)
qed simp

text \<open>
  (C35) A batch of PAR-BS takes up one request per requestor, not up to five per requestor and bank:
  \<^verbatim>\<open>earliestperBankperReq\<close> does not skip requests that are already marked, so the loop marks the
  oldest request of the lowest-numbered occupied bank \<^verbatim>\<open>MarkingCap\<close> times over, and then leaves the
  loop over the banks. The counter of marked requests grows by \<^verbatim>\<open>MarkingCap\<close> for each of them. Forming
  a batch always ends, without an error as long as there are at most ten requestors.
\<close>

theorem parbs_batch_one_per_requestor:
  assumes "nreq \<le> length (markedMaxLoadPerProc s)" and "nreq \<le> length (markedTotalLoadPerProc s)"
    and "localBcount s \<noteq> 0" and "MarkingCap s \<noteq> 0"
  shows "\<exists>s'. form_batch nreq buf s = ok s'
       \<and> (\<forall>k. marked s' k \<longleftrightarrow> marked s k \<or> (\<exists>p < nreq. nominee (unat (localBcount s)) buf p 0 = Some k))
       \<and> markedCnt s' = markedCnt s
           + of_nat (length (filter (\<lambda>p. nominee (unat (localBcount s)) buf p 0 \<noteq> None) [0..<nreq])) * MarkingCap s"
proof -
  from assms obtain t where t: "clear_batch nreq s = ok t" "MarkingCap t = MarkingCap s" "localBcount t = localBcount s"
      "marked t = marked s" "markedCnt t = markedCnt s" "\<forall>p < nreq. has_load p t"
      "\<forall>p < nreq. \<forall>b < unat (localBcount s). MarkableQ t (p, b) = []"
    by (auto simp: clear_batch_def has_load_def)
  have "0 < unat (MarkingCap t)" using assms(4) t(2) by (simp add: unat_gt_0)
  from batch_requestors_spec [OF t(6) this, of buf] t show ?thesis by (auto simp: form_batch_def)
qed

definition sample_parbs :: parbs_sched where
  "sample_parbs =
     new_RequestScheduler_PARBS
       \<lparr>clockCycle = 0, bankTable = Map.empty, switch_enable = False, scheduledReq = None, checkRequest = None,
        req1 = None, req2 = None, sch_id = 0, blacklist = [], sch_flag = False, sch_sw = False, MarkingCap = 0,
        localBcount = 0, markedMaxLoadPerProc = replicate 10 0, markedTotalLoadPerProc = replicate 10 0,
        markedCnt = 0, marked = (\<lambda>_. True), MarkableQ = (\<lambda>_. [])\<rparr>"

text \<open>Two requests of requestor 0 for bank 1, and one of requestor 1 for bank 0.\<close>

definition sample_waiting :: "request list" where
  "sample_waiting =
     [sample_request\<lparr>requestorID := 0, bank := 1, arriveTime := 3\<rparr>,
      sample_request\<lparr>requestorID := 1, bank := 0, arriveTime := 4\<rparr>,
      sample_request\<lparr>requestorID := 0, bank := 1, arriveTime := 2\<rparr>]"

theorem parbs_batch_one_per_requestor_witness:
  "\<exists>s'. form_batch 2 sample_waiting sample_parbs = ok s' \<and> \<not> marked s' 0 \<and> marked s' 1 \<and> marked s' 2 \<and> markedCnt s' = 10"
proof -
  have n: "nominee 8 sample_waiting 0 0 = Some 2" "nominee 8 sample_waiting 1 0 = Some 1" by code_simp+
  have c: "2 \<le> length (markedMaxLoadPerProc sample_parbs)" "2 \<le> length (markedTotalLoadPerProc sample_parbs)"
    "localBcount sample_parbs = 8" "MarkingCap sample_parbs = 5" "marked sample_parbs = (\<lambda>_. False)" "markedCnt sample_parbs = 0"
    by (simp_all add: sample_parbs_def new_RequestScheduler_PARBS_def new_RequestScheduler_def)
  have two: "p < 2 \<longleftrightarrow> p = 0 \<or> p = 1" for p :: nat by auto
  have l: "length (filter (\<lambda>p. nominee 8 sample_waiting p 0 \<noteq> None) [0..<2]) = 2" by code_simp
  have u: "unat (localBcount sample_parbs) = 8" using c(3) by simp
  obtain s' where "form_batch 2 sample_waiting sample_parbs = ok s'"
      "\<forall>k. marked s' k \<longleftrightarrow> (\<exists>p < 2. nominee 8 sample_waiting p 0 = Some k)" "markedCnt s' = of_nat 2 * 5"
    using parbs_batch_one_per_requestor [OF c(1,2), of sample_waiting] c(3-6) unfolding u l by auto
  moreover have "(\<exists>p < 2. nominee 8 sample_waiting p 0 = Some k) \<longleftrightarrow> k = 1 \<or> k = 2" for k
    using n by (auto simp: two ex_disj_distrib conj_disj_distribR)
  ultimately show ?thesis by auto
qed

section \<open>Marked requests first\<close>

lemma BetterRequest_marked: "BetterRequest k r1 j r2 s = ok b \<Longrightarrow> marked s k \<noteq> marked s j \<Longrightarrow> b = marked s k"
  by (simp add: BetterRequest_def)

lemma parbs_better_upto:
  assumes "fold_res (parbs_better q s) [1..<n] (0, generalBuffer q ! 0) = ok (i, r)" and "0 < n" "n \<le> length (generalBuffer q)"
  shows "i < n \<and> r = generalBuffer q ! i \<and> ((\<exists>k < n. marked s k) \<longrightarrow> marked s i)"
  using assms
proof (induction n arbitrary: i r)
  case (Suc n)
  show ?case
  proof (cases "n = 0")
    case False
    then have "[1..<Suc n] = [1..<n] @ [n]" by simp
    with Suc.prems(1) obtain j r2 where j: "fold_res (parbs_better q s) [1..<n] (0, generalBuffer q ! 0) = ok (j, r2)"
      and b: "parbs_better q s n (j, r2) = ok (i, r)" by (auto simp: fold_res_append res_simps)
    have I: "j < n \<and> r2 = generalBuffer q ! j \<and> ((\<exists>k < n. marked s k) \<longrightarrow> marked s j)"
      using Suc.IH [OF j] Suc.prems(3) False by simp
    from b obtain c where c: "BetterRequest n (generalBuffer q ! n) j r2 s = ok c"
      and ir: "(i, r) = (if c then (n, generalBuffer q ! n) else (j, r2))"
      by (auto simp: parbs_better_def getRequestCheck_def res_simps split: if_splits)
    from BetterRequest_marked [OF c] I ir show ?thesis by (auto simp: less_Suc_eq split: if_splits)
  qed (use Suc.prems in auto)
qed simp

text \<open>
  (C36) PAR-BS never serves a request outside the current batch while one of the batch is waiting:
  the request chosen is waiting in the buffer, and it is marked if any request is.
\<close>

theorem parbs_serves_batch_first:
  assumes "parbs_choose q s r0 = ok (i, r)" and "getRequestCheck 0 q = ok (Some r0)"
  shows "i < length (generalBuffer q) \<and> r = generalBuffer q ! i
       \<and> ((\<exists>k < length (generalBuffer q). marked s k) \<longrightarrow> marked s i)"
proof -
  from assms(2) have "generalBuffer q \<noteq> []" "r0 = generalBuffer q ! 0" by (auto simp: getRequestCheck_def res_simps split: if_splits)
  with assms(1) show ?thesis
    by (intro parbs_better_upto) (auto simp: parbs_choose_def getSize_def)
qed

definition sample_parbs_queue :: request_queue where
  "sample_parbs_queue = (new_RequestQueue False False)\<lparr>generalBuffer := sample_waiting\<rparr>"

theorem parbs_serves_batch_first_witness:
  "\<exists>i r. parbs_choose sample_parbs_queue (sample_parbs\<lparr>marked := (\<lambda>k. k = 2)\<rparr>) (hd sample_waiting) = ok (i, r) \<and> i = 2"
proof -
  let ?s = "sample_parbs\<lparr>marked := (\<lambda>k. k = 2)\<rparr>" and ?q = sample_parbs_queue
  have "case parbs_choose ?q ?s (hd sample_waiting) of Inl _ \<Rightarrow> False | Inr _ \<Rightarrow> True" by code_simp
  then obtain i r where c: "parbs_choose ?q ?s (hd sample_waiting) = ok (i, r)" by (auto split: sum.splits)
  have "getRequestCheck 0 ?q = ok (Some (hd sample_waiting))" "2 < length (generalBuffer ?q)" by code_simp+
  from parbs_serves_batch_first [OF c this(1)] this(2) have "marked ?s i" by auto
  with c show ?thesis by simp
qed

section \<open>The interface\<close>

lemma requestSchedule_PARBS_generates: "res_all (reach_env e) (requestSchedule_PARBS nreq (s, e))"
  unfolding requestSchedule_PARBS_def prod.case
  by (intro res_wp) (auto intro: generates_to)

interpretation rq_parbs: request_scheduler "requestSchedule_PARBS nreq" for nreq
  by unfold_locales (rule reach_envD [OF requestSchedule_PARBS_generates])

end
