(* ===== verification/Statistics.thy ===== *)
theory Statistics
  imports DRAM TraceFile
begin

text \<open>
  \<^verbatim>\<open>src/dram/StatType.{h,cpp}\<close> and \<^verbatim>\<open>src/dram/Statistics.h\<close>: counters, averages, distributions and
  histograms. A \<^verbatim>\<open>Counter\<close> is a double in the source and an integer here: the values counted are
  numbers of cycles and requests, and sums, products and quotients by a bucket size of integers
  are exact in a double up to \<open>2 ^ 53\<close>. The quotient of an average is left as numerator and
  denominator; the sum of logarithms of a histogram is left out, as are names, descriptions and
  printing. The classes of \<^verbatim>\<open>Statistics.h\<close> forward every call. The last section has the methods of
  \<^verbatim>\<open>DRAM.h\<close> that use the library.
\<close>

section \<open>Scalars, averages and vectors\<close>

type_synonym counter = int

definition scalar_zero :: "counter \<Rightarrow> bool" where
  "scalar_zero v \<longleftrightarrow> v = 0"

definition scalar_add :: "counter \<Rightarrow> counter \<Rightarrow> counter" where
  "scalar_add v s = s + v"

definition scalar_sub :: "counter \<Rightarrow> counter \<Rightarrow> counter" where
  "scalar_sub v s = s - v"

definition scalar_reset :: "counter \<Rightarrow> counter" where
  "scalar_reset s = 0"

text \<open>The global \<^verbatim>\<open>curTick\<close> is the argument \<open>tick\<close>.\<close>

record average =
  current :: counter
  lastReset :: u64
  total_val :: counter
  lastTick :: u64

definition new_Average :: average where
  "new_Average = \<lparr>current = 0, lastReset = 0, total_val = 0, lastTick = 0\<rparr>"

definition avg_prepare :: "u64 \<Rightarrow> average \<Rightarrow> average" where
  "avg_prepare tick a = a\<lparr>total_val := total_val a + current a * uint (tick - lastTick a), lastTick := tick\<rparr>"

definition avg_set :: "u64 \<Rightarrow> counter \<Rightarrow> average \<Rightarrow> average" where
  "avg_set tick v a =
     a\<lparr>total_val := total_val a + current a * uint (tick - lastTick a), lastTick := tick, current := v\<rparr>"

definition avg_inc :: "u64 \<Rightarrow> counter \<Rightarrow> average \<Rightarrow> average" where
  "avg_inc tick v a = avg_set tick (current a + v) a"

definition avg_dec :: "u64 \<Rightarrow> counter \<Rightarrow> average \<Rightarrow> average" where
  "avg_dec tick v a = avg_set tick (current a - v) a"

definition avg_reset :: "u64 \<Rightarrow> average \<Rightarrow> average" where
  "avg_reset tick a = a\<lparr>total_val := 0, lastTick := tick, lastReset := tick\<rparr>"

definition avg_result :: "u64 \<Rightarrow> average \<Rightarrow> (counter \<times> u64) res" where
  "avg_result tick a =
     (if lastTick a \<noteq> tick then fail AssertFailed else ok (total_val a + current a, tick - lastReset a + 1))"

text \<open>\<open>resize\<close> keeps the elements that fit and fills up with new ones.\<close>

definition resize :: "nat \<Rightarrow> 'a \<Rightarrow> 'a list \<Rightarrow> 'a list" where
  "resize n x xs = take n xs @ replicate (n - length xs) x"

record 'a vector_stat =
  vsize :: u32
  vdata :: "'a list"

definition vec_init :: "'a \<Rightarrow> u32 \<Rightarrow> 'a vector_stat \<Rightarrow> 'a vector_stat" where
  "vec_init fresh n v = v\<lparr>vsize := n, vdata := resize (unat n) fresh (vdata v)\<rparr>"

definition vec_at :: "u32 \<Rightarrow> 'a vector_stat \<Rightarrow> 'a res" where
  "vec_at i v = (if i < vsize v then nth_res (vdata v) (unat i) else fail AssertFailed)"

definition vec_value :: "('a \<Rightarrow> counter) \<Rightarrow> 'a vector_stat \<Rightarrow> counter list res" where
  "vec_value f v = fold_res (\<lambda>i vs. bind_res (nth_res (vdata v) i) (\<lambda>x. ok (vs @ [f x]))) [0..<unat (vsize v)] []"

definition vec_total :: "('a \<Rightarrow> counter) \<Rightarrow> 'a vector_stat \<Rightarrow> counter res" where
  "vec_total f v = fold_res (\<lambda>i t. bind_res (nth_res (vdata v) i) (\<lambda>x. ok (t + f x))) [0..<unat (vsize v)] 0"

definition vec_each :: "('a \<Rightarrow> 'a) \<Rightarrow> 'a vector_stat \<Rightarrow> 'a vector_stat res" where
  "vec_each f v =
     fold_res (\<lambda>i w. bind_res (nth_res (vdata w) i) (\<lambda>x. ok (w\<lparr>vdata := (vdata w)[i := f x]\<rparr>))) [0..<unat (vsize v)] v"

text \<open>\<^verbatim>\<open>vresult\<close> writes to the elements of an empty vector.\<close>

definition vec_vresult :: "'a vector_stat \<Rightarrow> counter list res" where
  "vec_vresult v = (if vsize v = 0 then ok [] else fail OutOfRange)"

section \<open>Distributions\<close>

text \<open>
  \<open>None\<close> for the smallest and largest sample are the initial values \<^verbatim>\<open>CounterLimits::max()\<close> and
  \<^verbatim>\<open>CounterLimits::min()\<close>; the latter is the smallest positive double, not the lowest one.
\<close>

record distribution =
  param_min :: counter
  param_max :: counter
  param_bucket_size :: counter
  min_track :: counter
  max_track :: counter
  dBucketSize :: counter
  min_val :: "counter option"
  max_val :: "counter option"
  underflow :: counter
  overflow :: counter
  dSum :: counter
  dSquares :: counter
  dSamples :: counter
  dVec :: "counter list"

definition dist_reset :: "distribution \<Rightarrow> distribution" where
  "dist_reset d =
     d\<lparr>min_track := param_min d, max_track := param_max d, dBucketSize := param_bucket_size d, min_val := None,
       max_val := None, underflow := 0, overflow := 0, dSum := 0, dSquares := 0, dSamples := 0,
       dVec := map (\<lambda>_. 0) (dVec d)\<rparr>"

text \<open>A quotient that is not finite, negative or too large is undefined when it is converted to \<^verbatim>\<open>size_type\<close>.\<close>

definition to_size :: "counter \<Rightarrow> counter \<Rightarrow> nat res" where
  "to_size q divisor = (if divisor = 0 \<or> q < 0 \<or> 2 ^ 32 \<le> q then fail CastRange else ok (nat q))"

definition dist_init :: "counter \<Rightarrow> counter \<Rightarrow> counter \<Rightarrow> distribution \<Rightarrow> distribution res" where
  "dist_init lo hi bkt d =
     bind_res (to_size (- (- (hi - lo + 1) div bkt)) bkt) (\<lambda>n.
       ok (dist_reset (d\<lparr>param_min := lo, param_max := hi, param_bucket_size := bkt, dVec := resize n 0 (dVec d)\<rparr>)))"

definition below_max :: "counter option \<Rightarrow> counter option \<Rightarrow> bool" where
  "below_max a b =
     (case a of
        None \<Rightarrow> (case b of None \<Rightarrow> False | Some y \<Rightarrow> 0 < y)
      | Some x \<Rightarrow> (case b of None \<Rightarrow> x \<le> 0 | Some y \<Rightarrow> x < y))"

definition above_min :: "counter option \<Rightarrow> counter option \<Rightarrow> bool" where
  "above_min a b = (case b of None \<Rightarrow> False | Some y \<Rightarrow> (case a of None \<Rightarrow> True | Some x \<Rightarrow> y < x))"

definition dist_sample :: "counter \<Rightarrow> counter \<Rightarrow> distribution \<Rightarrow> distribution res" where
  "dist_sample v number d =
     bind_res
       (if v < min_track d then ok (d\<lparr>underflow := underflow d + number\<rparr>)
        else if v > max_track d then ok (d\<lparr>overflow := overflow d + number\<rparr>)
        else bind_res (to_size ((v - min_track d) div dBucketSize d) (dBucketSize d)) (\<lambda>i.
             if i < length (dVec d) then ok (d\<lparr>dVec := (dVec d)[i := dVec d ! i + number]\<rparr>) else fail AssertFailed))
       (\<lambda>d1. ok (d1\<lparr>min_val := (if above_min (min_val d1) (Some v) then Some v else min_val d1),
                    max_val := (if below_max (max_val d1) (Some v) then Some v else max_val d1),
                    dSum := dSum d1 + v * number, dSquares := dSquares d1 + v * v * number,
                    dSamples := dSamples d1 + number\<rparr>))"

definition dist_add :: "distribution \<Rightarrow> distribution \<Rightarrow> distribution res" where
  "dist_add e d =
     (if length (dVec d) \<noteq> length (dVec e) \<or> min_track d \<noteq> min_track e \<or> max_track d \<noteq> max_track e then fail AssertFailed
      else ok (d\<lparr>underflow := underflow d + underflow e, overflow := overflow d + overflow e, dSum := dSum d + dSum e,
                 dSquares := dSquares d + dSquares e, dSamples := dSamples d + dSamples e,
                 min_val := (if above_min (min_val d) (min_val e) then min_val e else min_val d),
                 max_val := (if below_max (max_val d) (max_val e) then max_val e else max_val d),
                 dVec := map2 (+) (dVec d) (dVec e)\<rparr>))"

section \<open>Histograms\<close>

record histogram =
  param_buckets :: u32
  min_bucket :: counter
  max_bucket :: counter
  bucket_size :: counter
  hSum :: counter
  hSquares :: counter
  hSamples :: counter
  cvec :: "counter list"

definition hist_reset :: "histogram \<Rightarrow> histogram" where
  "hist_reset h =
     h\<lparr>min_bucket := 0, max_bucket := uint (param_buckets h - 1), bucket_size := 1,
       cvec := map (\<lambda>_. 0) (cvec h), hSum := 0, hSquares := 0, hSamples := 0\<rparr>"

definition hist_init :: "u32 \<Rightarrow> histogram \<Rightarrow> histogram" where
  "hist_init n h = hist_reset (h\<lparr>cvec := resize (unat n) 0 (cvec h), param_buckets := n\<rparr>)"

definition new_Histogram :: "u32 \<Rightarrow> histogram" where
  "new_Histogram n =
     hist_init n \<lparr>param_buckets = 0, min_bucket = 0, max_bucket = 0, bucket_size = 0, hSum = 0, hSquares = 0, hSamples = 0,
                  cvec = replicate (unat n) 0\<rparr>"

text \<open>
  The loops that put two neighbouring buckets into one, in place: bucket \<open>i\<close> becomes the sum of the
  buckets \<open>j\<close> and its neighbour \<open>k\<close>, if there is one. \<open>clear\<close> empties the buckets that became free.
\<close>

definition join :: "nat \<Rightarrow> nat \<Rightarrow> nat option \<Rightarrow> counter list \<Rightarrow> counter list" where
  "join i j k v = v[i := v ! j + (case k of None \<Rightarrow> 0 | Some k' \<Rightarrow> v ! k')]"

definition join_up :: "nat \<Rightarrow> nat \<Rightarrow> nat \<Rightarrow> counter list \<Rightarrow> counter list" where
  "join_up i j n v = join i j (if j + 1 < n then Some (j + 1) else None) v"

definition join_down :: "nat \<Rightarrow> nat \<Rightarrow> counter list \<Rightarrow> counter list" where
  "join_down i j v = join i j (if 1 \<le> j then Some (j - 1) else None) v"

definition clear_from :: "nat list \<Rightarrow> counter list \<Rightarrow> counter list" where
  "clear_from is v = fold (\<lambda>i w. w[i := 0]) is v"

definition grow_up :: "histogram \<Rightarrow> histogram res" where
  "grow_up h =
     (let n = length (cvec h); half = (n + 1) div 2;
          v = fold (\<lambda>i. join_up i (2 * i) n) [0..<half] (cvec h)
      in if \<not> (2 * half = n \<or> 2 * half = n + 1) then fail AssertFailed
         else ok (h\<lparr>cvec := clear_from [half..<n] v, max_bucket := max_bucket h * 2, bucket_size := bucket_size h * 2\<rparr>))"

text \<open>\<^verbatim>\<open>pair\<close> is \<open>2 * i + 1 - n\<close> in the round for the bucket \<open>i\<close>.\<close>

definition grow_convert :: "histogram \<Rightarrow> histogram" where
  "grow_convert h =
     (let n = length (cvec h); half = (n + 1) div 2;
          v = fold (\<lambda>i. join_down i (2 * i + 1 - n)) (rev [half..<n]) (cvec h)
      in h\<lparr>cvec := clear_from (rev [0..<half]) v, min_bucket := - max_bucket h, bucket_size := bucket_size h * 2\<rparr>)"

text \<open>\<^verbatim>\<open>low_pair\<close> is \<open>2 * i + 1 - zero\<close> and \<^verbatim>\<open>high_pair\<close> is \<open>2 * i - zero\<close>.\<close>

definition grow_out :: "histogram \<Rightarrow> histogram res" where
  "grow_out h =
     (let n = length (cvec h); zero = n div 2; top_half = zero + (n - zero + 1) div 2; bottom_half = (n - zero) div 2;
          low_pair = int zero - 1 - 2 * int (zero - bottom_half);
          high_pair = zero + 2 * (top_half - zero);
          v1 = fold (\<lambda>i. join_down i (2 * i + 1 - zero)) (rev [bottom_half..<zero]) (cvec h);
          v2 = clear_from (rev [0..<bottom_half]) v1;
          v3 = fold (\<lambda>i. join_up i (2 * i - zero) n) [zero..<top_half] v2
      in if low_pair \<notin> {0, -1, -2} then fail AssertFailed
         else if \<not> (high_pair = n \<or> high_pair = n + 1) then fail AssertFailed
         else ok (h\<lparr>cvec := clear_from [top_half..<n] v3, max_bucket := max_bucket h * 2,
                    min_bucket := min_bucket h * 2, bucket_size := bucket_size h * 2\<rparr>))"

text \<open>The loops \<^verbatim>\<open>while (...) grow()\<close>.\<close>

partial_function (option) grow_while ::
  "(histogram \<Rightarrow> bool) \<Rightarrow> (histogram \<Rightarrow> histogram res) \<Rightarrow> histogram \<Rightarrow> histogram res option" where
  [code]: "grow_while p grow h =
     (if p h then (case grow h of Inl e \<Rightarrow> Some (Inl e) | Inr h' \<Rightarrow> grow_while p grow h') else Some (ok h))"

definition hist_grow :: "counter \<Rightarrow> histogram \<Rightarrow> histogram res option" where
  "hist_grow v h =
     (if v < min_bucket h
      then grow_while (\<lambda>h. v < min_bucket h) grow_out (if min_bucket h = 0 then grow_convert h else h)
      else if v \<ge> max_bucket h + bucket_size h
      then grow_while (\<lambda>h. v \<ge> max_bucket h + bucket_size h) (if min_bucket h = 0 then grow_up else grow_out) h
      else Some (ok h))"

definition hist_index :: "counter \<Rightarrow> histogram \<Rightarrow> int" where
  "hist_index v h = (v - min_bucket h) div bucket_size h"

definition hist_count :: "counter \<Rightarrow> counter \<Rightarrow> histogram \<Rightarrow> histogram res" where
  "hist_count v number h =
     bind_res (to_size (hist_index v h) (bucket_size h)) (\<lambda>i.
       if i < unat (param_buckets h)
       then ok (h\<lparr>cvec := (cvec h)[i := cvec h ! i + number], hSum := hSum h + v * number,
                  hSquares := hSquares h + v * v * number, hSamples := hSamples h + number\<rparr>)
       else fail AssertFailed)"

definition hist_sample :: "counter \<Rightarrow> counter \<Rightarrow> histogram \<Rightarrow> histogram res option" where
  "hist_sample v number h =
     (if \<not> min_bucket h < max_bucket h then Some (fail AssertFailed)
      else case hist_grow v h of
             None \<Rightarrow> None
           | Some (Inl e) \<Rightarrow> Some (Inl e)
           | Some (Inr h') \<Rightarrow> Some (hist_count v number h'))"

fun hist_samples :: "(counter \<times> counter) list \<Rightarrow> histogram \<Rightarrow> histogram res option" where
  "hist_samples [] h = Some (ok h)"
| "hist_samples ((v, number) # vs) h =
     (case hist_sample v number h of
        None \<Rightarrow> None
      | Some (Inl e) \<Rightarrow> Some (Inl e)
      | Some (Inr h') \<Rightarrow> hist_samples vs h')"

text \<open>\<^verbatim>\<open>add\<close> grows the histogram with the smaller buckets, which may be the argument.\<close>

definition hist_add :: "histogram \<Rightarrow> histogram \<Rightarrow> (histogram \<times> histogram) res option" where
  "hist_add hs h =
     (if param_buckets h \<noteq> param_buckets hs \<or> min_bucket h \<noteq> min_bucket hs then Some (fail AssertFailed)
      else let h1 = h\<lparr>hSum := hSum h + hSum hs, hSquares := hSquares h + hSquares hs, hSamples := hSamples h + hSamples hs\<rparr>
           in case grow_while (\<lambda>g. bucket_size h1 > bucket_size g) grow_up hs of
                None \<Rightarrow> None
              | Some (Inl e) \<Rightarrow> Some (Inl e)
              | Some (Inr hs1) \<Rightarrow>
                  (case grow_while (\<lambda>g. bucket_size g < bucket_size hs1) grow_up h1 of
                     None \<Rightarrow> None
                   | Some (Inl e) \<Rightarrow> Some (Inl e)
                   | Some (Inr h2) \<Rightarrow> Some (ok (h2\<lparr>cvec := map2 (+) (cvec h2) (cvec hs1)\<rparr>, hs1))))"

section \<open>Deviations\<close>

text \<open>\<^verbatim>\<open>AverageDeviation\<close> is \<^verbatim>\<open>StandardDeviation\<close> without the number of samples.\<close>

record deviation =
  devSum :: counter
  devSquares :: counter

record std_deviation = deviation +
  devSamples :: counter

definition ad_sample :: "counter \<Rightarrow> counter \<Rightarrow> 'a deviation_scheme \<Rightarrow> 'a deviation_scheme" where
  "ad_sample v number d =
     (let value = v * number in d\<lparr>devSum := devSum d + value, devSquares := devSquares d + value * value\<rparr>)"

definition ad_reset :: "'a deviation_scheme \<Rightarrow> 'a deviation_scheme" where
  "ad_reset d = d\<lparr>devSum := 0, devSquares := 0\<rparr>"

definition ad_add :: "'b deviation_scheme \<Rightarrow> 'a deviation_scheme \<Rightarrow> 'a deviation_scheme" where
  "ad_add e d = d\<lparr>devSum := devSum d + devSum e, devSquares := devSquares d + devSquares e\<rparr>"

definition sd_sample :: "counter \<Rightarrow> counter \<Rightarrow> std_deviation \<Rightarrow> std_deviation" where
  "sd_sample v number d = (ad_sample v number d)\<lparr>devSamples := devSamples d + number\<rparr>"

definition sd_reset :: "std_deviation \<Rightarrow> std_deviation" where
  "sd_reset d = (ad_reset d)\<lparr>devSamples := 0\<rparr>"

definition sd_add :: "std_deviation \<Rightarrow> std_deviation \<Rightarrow> std_deviation" where
  "sd_add e d = (ad_add e d)\<lparr>devSamples := devSamples d + devSamples e\<rparr>"

section \<open>The statistics of the timing tree\<close>

text \<open>
  \<^verbatim>\<open>DRAM::finish\<close>: the two counters it sets, node by node; the average as numerator and
  denominator. \<^verbatim>\<open>DRAM::regStats\<close>: the names it registers, in order. \<^verbatim>\<open>DRAM::insert\<close> hangs a subtree below a
  node.
\<close>

record node_result =
  busy_cycles :: counter
  average_serving_requests :: "counter \<times> int"

fun finish :: "int \<Rightarrow> dram \<Rightarrow> node_result rtree" where
  "finish dram_cycles (Node n cs) =
     Node \<lparr>busy_cycles = active_cycles n + refresh_cycles n - active_refresh_overlap_cycles n,
           average_serving_requests = (serving_requests n, dram_cycles)\<rparr> (map (finish dram_cycles) cs)"

definition to_string :: "int \<Rightarrow> string" where
  "to_string i = (if i < 0 then CHR ''-'' # print_number 10 (nat (- i)) else print_number 10 (nat i))"

fun regStats :: "string \<Rightarrow> dram \<Rightarrow> string list" where
  "regStats identifier (Node n cs) =
     (let suffix = identifier @ ''_'' @ to_string (nid n)
      in map (\<lambda>s. s @ suffix) [''active_cycles'', ''refresh_cycles'', ''busy_cycles'', ''active_refresh_overlap_cycles'',
                              ''serving_requests'', ''average_serving_requests'']
         @ concat (map (regStats suffix) cs))"

definition insert_node :: "dram \<Rightarrow> dram \<Rightarrow> dram" where
  "insert_node child t =
     Node (root t) (children t @ [map_root (\<lambda>n. n\<lparr>nid := int (length (children t))\<rparr>) child])"

section \<open>The growing of a histogram\<close>

text \<open>What the loops compute: a list with every two neighbours added up.\<close>

fun pairs :: "counter list \<Rightarrow> counter list" where
  "pairs (x # y # xs) = (x + y) # pairs xs"
| "pairs xs = xs"

lemma length_pairs [simp]: "length (pairs xs) = (length xs + 1) div 2"
  by (induction xs rule: pairs.induct) simp_all

lemma nth_pairs:
  "i < (length xs + 1) div 2 \<Longrightarrow> pairs xs ! i = xs ! (2 * i) + (if 2 * i + 1 < length xs then xs ! (2 * i + 1) else 0)"
proof (induction xs arbitrary: i rule: pairs.induct)
  case (1 x y xs)
  then show ?case by (cases i) auto
qed auto

lemma sum_pairs [simp]: "sum_list (pairs xs) = sum_list xs"
  by (induction xs rule: pairs.induct) simp_all

lemma length_join [simp]: "length (join i j k v) = length v" "length (join_up i j n v) = length v" "length (join_down i j v) = length v"
  by (simp_all add: join_def join_up_def join_down_def)

lemma nth_join_up: "k < length v \<Longrightarrow> join_up i j n v ! k = (if k = i then v ! j + (if j + 1 < n then v ! (j + 1) else 0) else v ! k)"
  by (simp add: join_up_def join_def)

lemma nth_join_down: "k < length v \<Longrightarrow> join_down i j v ! k = (if k = i then v ! j + (if 1 \<le> j then v ! (j - 1) else 0) else v ! k)"
  by (simp add: join_down_def join_def)

lemma length_fold_join [simp]:
  "length (fold (\<lambda>i. join_up i (f i) n) is v) = length v" "length (fold (\<lambda>i. join_down i (f i)) is v) = length v"
  by (induction "is" arbitrary: v) simp_all

lemma length_clear_from [simp]: "length (clear_from is v) = length v"
  unfolding clear_from_def by (induction "is" arbitrary: v) simp_all

lemma nth_clear_from: "j < length v \<Longrightarrow> clear_from is v ! j = (if j \<in> set is then 0 else v ! j)"
  unfolding clear_from_def by (induction "is" arbitrary: v) (auto simp: nth_list_update)

text \<open>The loops read only buckets they have not written yet.\<close>

lemma nth_fold_up:
  assumes "z \<le> m" and "2 * m \<le> length v + z + 1" and "i < length v"
  shows "fold (\<lambda>i. join_up i (2 * i - z) (length v)) [z..<m] v ! i =
     (if z \<le> i \<and> i < m then v ! (2 * i - z) + (if 2 * i - z + 1 < length v then v ! (2 * i - z + 1) else 0) else v ! i)"
  using assms
proof (induction m arbitrary: i rule: dec_induct)
  case (step m)
  let ?w = "fold (\<lambda>i. join_up i (2 * i - z) (length v)) [z..<m] v"
  have IH: "?w ! k = v ! k" if "m \<le> k" "k < length v" for k using step.IH [of k] step.prems(1) that by simp
  have "?w ! (2 * m - z) = v ! (2 * m - z)" by (rule IH) (use step.hyps(1) step.prems in \<open>simp_all, linarith?\<close>)
  moreover have "?w ! (2 * m - z + 1) = v ! (2 * m - z + 1)" if "2 * m - z + 1 < length v"
    by (rule IH) (use step.hyps(1) that in linarith)+
  moreover have "?w ! i = (if z \<le> i \<and> i < m then v ! (2 * i - z) + (if 2 * i - z + 1 < length v then v ! (2 * i - z + 1) else 0) else v ! i)"
    using step.IH [of i] step.prems by simp
  ultimately show ?case using step.hyps(1) step.prems by (auto simp: nth_join_up less_Suc_eq)
qed simp

lemma nth_fold_down:
  assumes "b \<le> z" and "z \<le> 2 * b + 1" and "z \<le> length v" and "i < length v"
  shows "fold (\<lambda>i. join_down i (2 * i + 1 - z)) (rev [b..<z]) v ! i =
     (if b \<le> i \<and> i < z then v ! (2 * i + 1 - z) + (if z \<le> 2 * i then v ! (2 * i - z) else 0) else v ! i)"
  using assms
proof (induction b arbitrary: i rule: inc_induct)
  case (step b)
  let ?w = "fold (\<lambda>i. join_down i (2 * i + 1 - z)) (rev [Suc b..<z]) v"
  have w: "?w ! k = v ! k" if "k \<le> b" "k < length v" for k using step.IH [of k] step.prems that by simp
  have "rev [b..<z] = rev [Suc b..<z] @ [b]" using step.hyps by (simp add: upt_conv_Cons)
  then have e: "fold (\<lambda>i. join_down i (2 * i + 1 - z)) (rev [b..<z]) v = join_down b (2 * b + 1 - z) ?w" by simp
  have "?w ! i = (if Suc b \<le> i \<and> i < z then v ! (2 * i + 1 - z) + (if z \<le> 2 * i then v ! (2 * i - z) else 0) else v ! i)"
    using step.IH [of i] step.prems by simp
  moreover have "?w ! (2 * b + 1 - z) = v ! (2 * b + 1 - z)" "?w ! (2 * b - z) = v ! (2 * b - z)"
    using step by (auto intro!: w)
  ultimately show ?case unfolding e using step.hyps step.prems
    by (auto simp: nth_join_down Suc_diff_le)
qed simp

lemma grow_up_pairs:
  "grow_up h = ok (h\<lparr>cvec := pairs (cvec h) @ replicate (length (cvec h) div 2) 0,
                     max_bucket := max_bucket h * 2, bucket_size := bucket_size h * 2\<rparr>)"
proof -
  let ?v = "cvec h" and ?n = "length (cvec h)" and ?half = "(length (cvec h) + 1) div 2"
  have "clear_from [?half..<?n] (fold (\<lambda>i. join_up i (2 * i) ?n) [0..<?half] ?v) = pairs ?v @ replicate (?n div 2) 0"
  proof (rule nth_equalityI)
    fix i
    assume "i < length (clear_from [?half..<?n] (fold (\<lambda>i. join_up i (2 * i) ?n) [0..<?half] ?v))"
    then have i: "i < ?n" by simp
    show "clear_from [?half..<?n] (fold (\<lambda>i. join_up i (2 * i) ?n) [0..<?half] ?v) ! i = (pairs ?v @ replicate (?n div 2) 0) ! i"
      using i nth_fold_up [of 0 ?half ?v i] by (auto simp: nth_clear_from nth_append nth_pairs)
  qed auto
  then show ?thesis by (auto simp: grow_up_def Let_def)
qed

lemma grow_convert_pairs:
  assumes "even (length (cvec h))"
  shows "grow_convert h = h\<lparr>cvec := replicate (length (cvec h) div 2) 0 @ pairs (cvec h),
                             min_bucket := - max_bucket h, bucket_size := bucket_size h * 2\<rparr>"
proof -
  let ?v = "cvec h"
  obtain z where n: "length ?v = 2 * z" using assms by blast
  have "clear_from (rev [0..<z]) (fold (\<lambda>i. join_down i (2 * i + 1 - 2 * z)) (rev [z..<2 * z]) ?v) = replicate z 0 @ pairs ?v"
  proof (rule nth_equalityI)
    fix i
    assume "i < length (clear_from (rev [0..<z]) (fold (\<lambda>i. join_down i (2 * i + 1 - 2 * z)) (rev [z..<2 * z]) ?v))"
    then have i: "i < 2 * z" by (simp add: n)
    show "clear_from (rev [0..<z]) (fold (\<lambda>i. join_down i (2 * i + 1 - 2 * z)) (rev [z..<2 * z]) ?v) ! i = (replicate z 0 @ pairs ?v) ! i"
    proof (cases "i < z")
      case True
      then show ?thesis by (simp add: nth_clear_from nth_append n)
    next
      case False
      then have "2 * i + 1 - 2 * z = 2 * (i - z) + 1" "2 * i - 2 * z = 2 * (i - z)" "i - z < z" using i by auto
      then show ?thesis
        using False i nth_fold_down [of z "2 * z" ?v i] by (simp add: nth_clear_from nth_append nth_pairs n)
    qed
  qed (simp add: n)
  then show ?thesis by (simp add: grow_convert_def Let_def n)
qed

text \<open>The two halves of \<^verbatim>\<open>grow_out\<close>, bucket by bucket.\<close>

lemma nth_pairs_low:
  assumes "length xs = z" and "z div 2 \<le> i" and "i < z"
  shows "rev (pairs (rev xs)) ! (i - z div 2) = xs ! (2 * i + 1 - z) + (if z \<le> 2 * i then xs ! (2 * i - z) else 0)"
proof -
  define t where "t = z - 1 - i"
  have "z - z div 2 = (z + 1) div 2" by auto
  with assms have t: "t < (z + 1) div 2" "(z + 1) div 2 - Suc (i - z div 2) = t" "z - Suc (2 * t) = 2 * i + 1 - z"
    "Suc (2 * t) < z \<longleftrightarrow> z \<le> 2 * i" "z \<le> 2 * i \<longrightarrow> z - Suc (Suc (2 * t)) = 2 * i - z" "2 * t < z"
    by (auto simp: t_def)
  have "i - z div 2 < (z + 1) div 2" using assms(2,3) by linarith
  then have "rev (pairs (rev xs)) ! (i - z div 2) = pairs (rev xs) ! t" using t assms(1) by (simp add: rev_nth)
  also have "\<dots> = xs ! (2 * i + 1 - z) + (if z \<le> 2 * i then xs ! (2 * i - z) else 0)"
    using t assms(1) by (simp add: nth_pairs rev_nth)
  finally show ?thesis .
qed

lemma nth_pairs_high:
  assumes "length v = 2 * z" and "z \<le> i" and "i < z + (z + 1) div 2"
  shows "pairs (drop z v) ! (i - z) = v ! (2 * i - z) + (if 2 * i - z + 1 < 2 * z then v ! (2 * i - z + 1) else 0)"
proof -
  define t where "t = i - z"
  have t: "i = z + t" "t < (z + 1) div 2" using assms(2,3) by (auto simp: t_def)
  then have "2 * i - z = z + 2 * t" by simp
  then show ?thesis using t assms(1) by (simp add: nth_pairs)
qed

definition out_buckets :: "nat \<Rightarrow> counter list \<Rightarrow> counter list" where
  "out_buckets z v =
     clear_from [z + (z + 1) div 2..<2 * z]
       (fold (\<lambda>i. join_up i (2 * i - z) (2 * z)) [z..<z + (z + 1) div 2]
         (clear_from (rev [0..<z div 2]) (fold (\<lambda>i. join_down i (2 * i + 1 - z)) (rev [z div 2..<z]) v)))"

lemma nth_out_buckets:
  assumes n: "length v = 2 * z" and i: "i < 2 * z"
  shows "out_buckets z v ! i =
     (if i < z div 2 then 0
      else if i < z then v ! (2 * i + 1 - z) + (if z \<le> 2 * i then v ! (2 * i - z) else 0)
      else if i < z + (z + 1) div 2 then v ! (2 * i - z) + (if 2 * i - z + 1 < 2 * z then v ! (2 * i - z + 1) else 0)
      else 0)"
proof -
  define v2 where "v2 = clear_from (rev [0..<z div 2]) (fold (\<lambda>i. join_down i (2 * i + 1 - z)) (rev [z div 2..<z]) v)"
  have l: "length v2 = 2 * z" by (simp add: v2_def n)
  have v2: "v2 ! k = (if k < z div 2 then 0
      else if k < z then v ! (2 * k + 1 - z) + (if z \<le> 2 * k then v ! (2 * k - z) else 0) else v ! k)" if "k < 2 * z" for k
    using that nth_fold_down [of "z div 2" z v k] n by (auto simp: v2_def nth_clear_from)
  have w: "out_buckets z v ! i = (if i < z then v2 ! i else if i < z + (z + 1) div 2
      then v2 ! (2 * i - z) + (if 2 * i - z + 1 < 2 * z then v2 ! (2 * i - z + 1) else 0) else 0)"
    using i nth_fold_up [of z "z + (z + 1) div 2" v2 i] l
    unfolding out_buckets_def v2_def [symmetric] by (auto simp: nth_clear_from)
  have high: "v2 ! k = v ! k" if "z \<le> k" "k < 2 * z" for k
  proof -
    have "\<not> k < z div 2" "\<not> k < z" using that(1) div_le_dividend [of z 2] by linarith+
    then show ?thesis using v2 [OF that(2)] by simp
  qed
  show ?thesis
  proof (cases "z \<le> i \<and> i < z + (z + 1) div 2")
    case True
    then have "z \<le> 2 * i - z" "2 * i - z < 2 * z" "\<not> i < z div 2" using div_le_dividend [of z 2] by linarith+
    then show ?thesis using w True high [of "2 * i - z"] high [of "2 * i - z + 1"] by simp
  next
    case False
    then show ?thesis using w v2 [OF i] by auto
  qed
qed

lemma out_buckets_pairs:
  assumes n: "length v = 2 * z"
  shows "out_buckets z v = replicate (z div 2) 0 @ rev (pairs (rev (take z v))) @ pairs (drop z v) @ replicate (z div 2) 0"
    (is "_ = ?A @ ?L @ ?H @ ?B")
proof (rule nth_equalityI)
  have z: "z div 2 + (z + 1) div 2 = z" by presburger
  have len: "length (?A @ ?L) = z" "length ?H = (z + 1) div 2" using n z by simp_all
  show "length (out_buckets z v) = length (?A @ ?L @ ?H @ ?B)" using n z by (simp add: out_buckets_def)
  fix i
  assume "i < length (out_buckets z v)"
  then have i: "i < 2 * z" by (simp add: out_buckets_def n)
  have "(?A @ ?L @ ?H @ ?B) ! i = (if i < z then (?A @ ?L) ! i else (?H @ ?B) ! (i - z))"
    using len(1) nth_append [of "?A @ ?L" "?H @ ?B" i] by simp
  moreover have "(?A @ ?L) ! i = out_buckets z v ! i" if iz: "i < z"
  proof (cases "i < z div 2")
    case True
    then show ?thesis using nth_out_buckets [OF n i] by (simp add: nth_append)
  next
    case False
    then have "(?A @ ?L) ! i = ?L ! (i - z div 2)" by (simp add: nth_append)
    moreover have "2 * i + 1 - z < z" "2 * i - z < z" using iz by linarith+
    ultimately show ?thesis using False iz n nth_pairs_low [of "take z v" z i] nth_out_buckets [OF n i] by simp
  qed
  moreover have "(?H @ ?B) ! (i - z) = out_buckets z v ! i" if iz: "z \<le> i"
  proof (cases "i < z + (z + 1) div 2")
    case True
    then have "(?H @ ?B) ! (i - z) = ?H ! (i - z)" using iz len(2) by (simp add: nth_append)
    moreover have "\<not> i < z div 2" using iz div_le_dividend [of z 2] by linarith
    ultimately show ?thesis using iz True nth_pairs_high [OF n iz True] nth_out_buckets [OF n i] by simp
  next
    case False
    then have "(?H @ ?B) ! (i - z) = ?B ! (i - z - (z + 1) div 2)" using len(2) by (simp add: nth_append)
    moreover have "i - z - (z + 1) div 2 < z div 2" using False i z by linarith
    ultimately show ?thesis using iz False nth_out_buckets [OF n i] by simp
  qed
  ultimately show "out_buckets z v ! i = (?A @ ?L @ ?H @ ?B) ! i" by simp
qed

lemma grow_out_pairs:
  assumes "even (length (cvec h))"
  shows "\<exists>v. grow_out h = ok (h\<lparr>cvec := v, max_bucket := max_bucket h * 2, min_bucket := min_bucket h * 2,
                                bucket_size := bucket_size h * 2\<rparr>)
           \<and> length v = length (cvec h) \<and> sum_list v = sum_list (cvec h)"
proof -
  obtain z where n: "length (cvec h) = 2 * z" using assms by blast
  define w where "w = out_buckets z (cvec h)"
  have "sum_list w = sum_list (take z (cvec h)) + sum_list (drop z (cvec h))"
    unfolding w_def out_buckets_pairs [OF n] by (simp add: sum_list_rev sum_list_replicate)
  also have "\<dots> = sum_list (cvec h)" by (metis append_take_drop_id sum_list_append)
  finally have s: "sum_list w = sum_list (cvec h)" .
  have eq: "2 * z div 2 = z" "2 * z - z = z" "z + (z + 1) div 2 - z = (z + 1) div 2" by simp_all
  have "grow_out h =
      (if int z - 1 - 2 * int (z - z div 2) \<notin> {0, -1, -2} then fail AssertFailed
       else if \<not> (z + 2 * ((z + 1) div 2) = 2 * z \<or> z + 2 * ((z + 1) div 2) = 2 * z + 1) then fail AssertFailed
       else ok (h\<lparr>cvec := w, max_bucket := max_bucket h * 2, min_bucket := min_bucket h * 2, bucket_size := bucket_size h * 2\<rparr>))"
    by (simp only: grow_out_def Let_def n eq w_def out_buckets_def)
  moreover have "int z - 1 - 2 * int (z - z div 2) \<in> {0, -1, -2}"
    "z + 2 * ((z + 1) div 2) = 2 * z \<or> z + 2 * ((z + 1) div 2) = 2 * z + 1" by auto
  ultimately have "grow_out h = ok (h\<lparr>cvec := w, max_bucket := max_bucket h * 2, min_bucket := min_bucket h * 2,
      bucket_size := bucket_size h * 2\<rparr>)" by (simp only: if_False if_True not_not simp_thms)
  then show ?thesis using n s by (intro exI [of _ w]) (simp add: w_def out_buckets_def)
qed

text \<open>A loop ends if its body keeps an invariant and decreases a measure.\<close>

lemma grow_while_returns:
  assumes body: "\<And>h. I h \<Longrightarrow> p h \<Longrightarrow> \<exists>h'. grow h = ok h' \<and> I h' \<and> m h' < (m h :: nat)"
  shows "I h \<Longrightarrow> \<exists>h'. grow_while p grow h = Some (ok h') \<and> I h' \<and> \<not> p h'"
proof (induction "m h" arbitrary: h rule: less_induct)
  case less
  show ?case
  proof (cases "p h")
    case True
    from body [OF less.prems True] obtain h' where "grow h = ok h'" "I h'" "m h' < m h" by blast
    with less.hyps [of h'] True show ?thesis by (simp add: grow_while.simps [of _ _ h])
  qed (use less.prems in \<open>simp add: grow_while.simps [of _ _ h]\<close>)
qed

section \<open>No sample is lost\<close>

text \<open>The geometry of a histogram with \<open>n\<close> buckets: it covers the values from \<open>min_bucket\<close> in \<open>n\<close> steps.\<close>

definition hist_ok :: "nat \<Rightarrow> histogram \<Rightarrow> bool" where
  "hist_ok n h \<longleftrightarrow> even n \<and> unat (param_buckets h) = n \<and> length (cvec h) = n \<and> 0 < bucket_size h \<and> min_bucket h \<le> 0
     \<and> 0 < max_bucket h \<and> max_bucket h - min_bucket h = (int n - 1) * bucket_size h \<and> sum_list (cvec h) = hSamples h"

lemma hist_ok_convert:
  assumes "hist_ok n h" and "min_bucket h = 0"
  shows "hist_ok n (grow_convert h) \<and> min_bucket (grow_convert h) < 0 \<and> hSamples (grow_convert h) = hSamples h"
  using assms by (auto simp: hist_ok_def grow_convert_pairs sum_list_replicate algebra_simps)

lemma hist_ok_out:
  assumes "hist_ok n h"
  shows "\<exists>h'. grow_out h = ok h' \<and> hist_ok n h' \<and> min_bucket h' = 2 * min_bucket h \<and> max_bucket h' = 2 * max_bucket h
           \<and> bucket_size h' = 2 * bucket_size h \<and> hSamples h' = hSamples h"
proof -
  have "even (length (cvec h))" using assms by (simp add: hist_ok_def)
  from grow_out_pairs [OF this] obtain v where v: "grow_out h = ok (h\<lparr>cvec := v, max_bucket := max_bucket h * 2,
      min_bucket := min_bucket h * 2, bucket_size := bucket_size h * 2\<rparr>)" "length v = length (cvec h)" "sum_list v = sum_list (cvec h)"
    by blast
  then show ?thesis using assms by (auto simp: hist_ok_def algebra_simps)
qed

lemma hist_ok_up:
  assumes "hist_ok n h" and "min_bucket h = 0"
  shows "\<exists>h'. grow_up h = ok h' \<and> hist_ok n h' \<and> min_bucket h' = 0 \<and> max_bucket h' = 2 * max_bucket h
           \<and> bucket_size h' = 2 * bucket_size h \<and> hSamples h' = hSamples h"
  using assms by (auto simp: hist_ok_def grow_up_pairs sum_list_replicate algebra_simps)

lemma hist_grow_ok:
  assumes "hist_ok n h"
  shows "\<exists>h'. hist_grow v h = Some (ok h') \<and> hist_ok n h' \<and> min_bucket h' \<le> v \<and> v < max_bucket h' + bucket_size h'
           \<and> hSamples h' = hSamples h"
proof -
  consider (low) "v < min_bucket h" | (high) "\<not> v < min_bucket h" "v \<ge> max_bucket h + bucket_size h"
    | (within) "\<not> v < min_bucket h" "\<not> v \<ge> max_bucket h + bucket_size h" by blast
  then show ?thesis
  proof cases
    case low
    let ?I = "\<lambda>g. hist_ok n g \<and> min_bucket g < 0 \<and> hSamples g = hSamples h"
    have "?I (if min_bucket h = 0 then grow_convert h else h)"
      using assms hist_ok_convert [OF assms] by (auto simp: hist_ok_def)
    then have "\<exists>h'. grow_while (\<lambda>h. v < min_bucket h) grow_out (if min_bucket h = 0 then grow_convert h else h) = Some (ok h')
        \<and> ?I h' \<and> \<not> v < min_bucket h'"
    proof (rule grow_while_returns [rotated])
      fix g assume g: "?I g" "v < min_bucket g"
      from g(1) hist_ok_out [of n g] obtain g' where "grow_out g = ok g'" "hist_ok n g'" "min_bucket g' = 2 * min_bucket g"
        "hSamples g' = hSamples g" by blast
      with g show "\<exists>g'. grow_out g = ok g' \<and> ?I g' \<and> nat (min_bucket g' - v) < nat (min_bucket g - v)" by auto
    qed
    then obtain h' where "hist_grow v h = Some (ok h')" "?I h'" "\<not> v < min_bucket h'" using low by (auto simp: hist_grow_def)
    moreover have "v < 0" using low assms by (simp add: hist_ok_def)
    ultimately show ?thesis by (auto simp: hist_ok_def)
  next
    case high
    let ?g = "if min_bucket h = 0 then grow_up else grow_out"
    let ?I = "\<lambda>g. hist_ok n g \<and> (min_bucket g = 0 \<longleftrightarrow> min_bucket h = 0) \<and> hSamples g = hSamples h"
    have "?I h" using assms by simp
    then have "\<exists>h'. grow_while (\<lambda>h. v \<ge> max_bucket h + bucket_size h) ?g h = Some (ok h') \<and> ?I h' \<and> \<not> v \<ge> max_bucket h' + bucket_size h'"
    proof (rule grow_while_returns [rotated])
      fix g assume g: "?I g" "v \<ge> max_bucket g + bucket_size g"
      then obtain g' where "?g g = ok g'" "hist_ok n g'" "min_bucket g' = 2 * min_bucket g" "max_bucket g' = 2 * max_bucket g"
        "hSamples g' = hSamples g"
        using hist_ok_out [of n g] hist_ok_up [of n g] by (cases "min_bucket h = 0") auto
      moreover have "0 < max_bucket g" "0 < bucket_size g" using g(1) by (simp_all add: hist_ok_def)
      ultimately show "\<exists>g'. ?g g = ok g' \<and> ?I g' \<and> nat (v - max_bucket g') < nat (v - max_bucket g)" using g by auto
    qed
    then obtain h' where "hist_grow v h = Some (ok h')" "?I h'" "\<not> v \<ge> max_bucket h' + bucket_size h'"
      using high by (auto simp: hist_grow_def)
    moreover have "0 < v" using high assms by (simp add: hist_ok_def)
    ultimately show ?thesis by (auto simp: hist_ok_def)
  next
    case within
    then show ?thesis using assms by (auto simp: hist_grow_def)
  qed
qed

lemma hist_index_range:
  assumes "0 < bucket_size h" and "max_bucket h - min_bucket h = (int n - 1) * bucket_size h"
    and "min_bucket h \<le> v" and "v < max_bucket h + bucket_size h"
  shows "0 \<le> hist_index v h \<and> hist_index v h < int n"
proof -
  have "v - min_bucket h < int n * bucket_size h" using assms(2,4) by (simp add: algebra_simps)
  moreover have "hist_index v h * bucket_size h \<le> v - min_bucket h"
    using div_mult_mod_eq [of "v - min_bucket h" "bucket_size h"] pos_mod_sign [OF assms(1), of "v - min_bucket h"]
    unfolding hist_index_def by linarith
  ultimately have "hist_index v h * bucket_size h < int n * bucket_size h" by linarith
  then have "hist_index v h < int n" using assms(1) by simp
  moreover have "0 \<le> hist_index v h" using assms(1,3) by (simp add: hist_index_def pos_imp_zdiv_nonneg_iff)
  ultimately show ?thesis by simp
qed

lemma sum_list_bump: "i < length xs \<Longrightarrow> sum_list (xs[i := xs ! i + k]) = sum_list xs + (k :: counter)"
  by (induction xs arbitrary: i) (auto simp: nth_Cons split: nat.splits)

lemma hist_count_ok:
  assumes "hist_ok n h" and "min_bucket h \<le> v" and "v < max_bucket h + bucket_size h"
  shows "\<exists>h'. hist_count v k h = ok h' \<and> hist_ok n h' \<and> hSamples h' = hSamples h + k"
proof -
  have r: "0 \<le> hist_index v h \<and> hist_index v h < int n" using assms by (intro hist_index_range) (auto simp: hist_ok_def)
  have "n < 2 ^ 32" using assms(1) unsigned_less [of "param_buckets h", where ?'a = nat] by (simp add: hist_ok_def)
  with r assms(1) show ?thesis
    by (auto simp: hist_count_def to_size_def hist_ok_def sum_list_bump)
qed

lemma hist_sample_ok:
  assumes "hist_ok n h"
  shows "\<exists>h'. hist_sample v k h = Some (ok h') \<and> hist_ok n h' \<and> hSamples h' = hSamples h + k"
proof -
  from hist_grow_ok [OF assms] obtain g where g: "hist_grow v h = Some (ok g)" "hist_ok n g" "min_bucket g \<le> v"
    "v < max_bucket g + bucket_size g" "hSamples g = hSamples h" by blast
  have "min_bucket h < max_bucket h" using assms by (simp add: hist_ok_def)
  with g hist_count_ok [OF g(2-4), of k] show ?thesis by (auto simp: hist_sample_def)
qed

lemma hist_ok_new:
  assumes "even (unat n)" and "n \<noteq> 0"
  shows "hist_ok (unat n) (new_Histogram n) \<and> hSamples (new_Histogram n) = 0"
proof -
  have "0 < unat n" using assms(2) by (simp add: unat_gt_0)
  then have "2 \<le> unat n" using assms(1) by presburger
  then have "int 2 \<le> int (unat n)" by (simp only: of_nat_le_iff)
  then have "1 < uint n" by simp
  moreover have "uint (n - 1) = int (unat n) - 1"
    using assms(2) by (simp add: uint_minus_simple_alt [THEN iffD1] word_le_sub1 flip: uint_nat)
  ultimately show ?thesis using assms(1)
    by (simp add: hist_ok_def new_Histogram_def hist_init_def hist_reset_def resize_def map_replicate_const sum_list_replicate)
qed

text \<open>
  (C39) A histogram with an even number of buckets never loses a sample: for every sequence of
  samples, negative ones included, every call of \<^verbatim>\<open>sample\<close> returns, no assertion fails, no bucket is
  accessed out of range, the number of buckets stays the same and the counts of all buckets add up
  to the number of samples.
\<close>

theorem histogram_keeps_samples:
  assumes "even (unat n)" and "n \<noteq> 0"
  shows "\<exists>h. hist_samples vs (new_Histogram n) = Some (ok h) \<and> length (cvec h) = unat n
       \<and> sum_list (cvec h) = (\<Sum>(v, k)\<leftarrow>vs. k) \<and> hSamples h = (\<Sum>(v, k)\<leftarrow>vs. k)"
proof -
  have "\<exists>h'. hist_samples vs h = Some (ok h') \<and> hist_ok (unat n) h' \<and> hSamples h' = hSamples h + (\<Sum>(v, k)\<leftarrow>vs. k)"
    if "hist_ok (unat n) h" for h
    using that
  proof (induction vs arbitrary: h)
    case (Cons vk vs)
    obtain v k where vk: "vk = (v, k)" by (cases vk)
    from hist_sample_ok [OF Cons.prems, of v k] obtain g where "hist_sample v k h = Some (ok g)" "hist_ok (unat n) g"
      "hSamples g = hSamples h + k" by blast
    with Cons.IH [of g] vk show ?case by auto
  qed simp
  from this [of "new_Histogram n"] hist_ok_new [OF assms] show ?thesis by (auto simp: hist_ok_def)
qed

theorem histogram_keeps_samples_witness:
  "\<exists>h. hist_samples [(3, 1), (-9, 2), (40, 1)] (new_Histogram 4) = Some (ok h) \<and> sum_list (cvec h) = 4"
  using histogram_keeps_samples [of 4 "[(3, 1), (-9, 2), (40, 1)]"] by auto

section \<open>What a bucket counts\<close>

definition weight :: "int \<Rightarrow> (counter \<times> counter) list \<Rightarrow> int \<Rightarrow> counter" where
  "weight b vs i = (\<Sum>(v, k)\<leftarrow>vs. if v div b = i then k else 0)"

lemma weight_double: "0 < b \<Longrightarrow> weight (b * 2) vs i = weight b vs (2 * i) + weight b vs (2 * i + 1)"
proof (induction vs)
  case (Cons vk vs)
  obtain v k where vk: "vk = (v, k)" by (cases vk)
  have "v div (b * 2) = v div b div 2" by (rule zdiv_zmult2_eq) simp
  moreover have "q div 2 = i \<longleftrightarrow> q = 2 * i \<or> q = 2 * i + 1" for q :: int by presburger
  ultimately show ?case using Cons vk by (auto simp: weight_def)
qed (simp add: weight_def)

definition counts :: "nat \<Rightarrow> (counter \<times> counter) list \<Rightarrow> histogram \<Rightarrow> bool" where
  "counts n vs h \<longleftrightarrow> unat (param_buckets h) = n \<and> length (cvec h) = n \<and> 2 \<le> n \<and> (\<exists>j. bucket_size h = 2 ^ j) \<and> min_bucket h = 0
     \<and> max_bucket h = (int n - 1) * bucket_size h \<and> (\<forall>(v, k) \<in> set vs. 0 \<le> v \<and> v div bucket_size h < int n)
     \<and> (\<forall>i < n. cvec h ! i = weight (bucket_size h) vs (int i))"

lemma counts_pos: "counts n vs h \<Longrightarrow> 0 < bucket_size h \<and> 0 < max_bucket h"
proof -
  assume c: "counts n vs h"
  then have "0 < bucket_size h" "0 < int n - 1" "max_bucket h = (int n - 1) * bucket_size h" by (auto simp: counts_def)
  then show ?thesis by simp
qed

lemma weight_outside: "\<forall>(v, k) \<in> set vs. v div b < int n \<Longrightarrow> int n \<le> i \<Longrightarrow> weight b vs i = 0"
  unfolding weight_def by (induction vs) auto

lemma counts_up:
  assumes "counts n vs h"
  shows "\<exists>h'. grow_up h = ok h' \<and> counts n vs h' \<and> max_bucket h' = 2 * max_bucket h"
proof -
  let ?b = "bucket_size h" and ?w = "pairs (cvec h) @ replicate (n div 2) 0"
  from assms obtain j where b: "?b = 2 ^ j" and l: "length (cvec h) = n"
    and vs: "\<forall>(v, k) \<in> set vs. 0 \<le> v \<and> v div ?b < int n" and c: "\<And>i. i < n \<Longrightarrow> cvec h ! i = weight ?b vs (int i)"
    by (auto simp: counts_def)
  have out: "weight ?b vs i = 0" if "int n \<le> i" for i using vs that by (intro weight_outside [of _ _ n]) auto
  have "?w ! i = weight (?b * 2) vs (int i)" if "i < n" for i
  proof -
    have d: "weight (?b * 2) vs (int i) = weight ?b vs (2 * int i) + weight ?b vs (2 * int i + 1)" by (rule weight_double) (simp add: b)
    show ?thesis
    proof (cases "i < (n + 1) div 2")
      case True
      then have "?w ! i = cvec h ! (2 * i) + (if 2 * i + 1 < n then cvec h ! (2 * i + 1) else 0)" by (simp add: nth_append nth_pairs l)
      then show ?thesis using True d c [of "2 * i"] c [of "2 * i + 1"] out [of "2 * int i + 1"] by (auto simp: add.commute)
    next
      case False
      then have "?w ! i = 0" using that by (simp add: nth_append l)
      then show ?thesis using False d out [of "2 * int i"] out [of "2 * int i + 1"] by auto
    qed
  qed
  moreover have "v div (?b * 2) < int n" if "(v, k) \<in> set vs" for v k
  proof -
    have "v div (?b * 2) = v div ?b div 2" by (rule zdiv_zmult2_eq) simp
    moreover have "0 \<le> v div ?b" "v div ?b < int n" using vs that by (auto simp: b pos_imp_zdiv_nonneg_iff)
    ultimately show ?thesis by linarith
  qed
  moreover have "\<exists>i. ?b * 2 = 2 ^ i" by (rule exI [of _ "Suc j"]) (simp add: b)
  ultimately show ?thesis using assms vs by (auto simp: grow_up_pairs counts_def l algebra_simps)
qed

lemma counts_grow:
  assumes "counts n vs h" and "0 \<le> v"
  shows "\<exists>h'. hist_grow v h = Some (ok h') \<and> counts n vs h' \<and> v < max_bucket h' + bucket_size h'"
proof (cases "v \<ge> max_bucket h + bucket_size h")
  case True
  have z: "min_bucket h = 0" using assms(1) by (simp add: counts_def)
  from assms(1) have "\<exists>h'. grow_while (\<lambda>h. v \<ge> max_bucket h + bucket_size h) grow_up h = Some (ok h') \<and> counts n vs h'
      \<and> \<not> v \<ge> max_bucket h' + bucket_size h'"
  proof (rule grow_while_returns [rotated])
    fix g assume g: "counts n vs g" "v \<ge> max_bucket g + bucket_size g"
    note counts_pos [OF g(1)]
    with counts_up [OF g(1)] g(2) show "\<exists>g'. grow_up g = ok g' \<and> counts n vs g' \<and> nat (v - max_bucket g') < nat (v - max_bucket g)"
      by fastforce
  qed
  then show ?thesis using True z assms(2) by (auto simp: hist_grow_def)
next
  case False
  then show ?thesis using assms by (auto simp: hist_grow_def counts_def)
qed

lemma counts_sample:
  assumes "counts n vs h" and "0 \<le> v"
  shows "\<exists>h'. hist_sample v k h = Some (ok h') \<and> counts n (vs @ [(v, k)]) h'"
proof -
  from counts_grow [OF assms] obtain g where g: "hist_grow v h = Some (ok g)" "counts n vs g" "v < max_bucket g + bucket_size g" by blast
  have pos: "0 < bucket_size g" and z: "min_bucket g = 0" using g(2) by (auto simp: counts_def)
  have r: "0 \<le> hist_index v g \<and> hist_index v g < int n" using g assms(2) pos by (intro hist_index_range) (auto simp: counts_def)
  have n: "n < 2 ^ 32" using g(2) unsigned_less [of "param_buckets g", where ?'a = nat] by (simp add: counts_def)
  define i where "i = nat (hist_index v g)"
  have i: "v div bucket_size g = int i" "i < n" "to_size (hist_index v g) (bucket_size g) = ok i"
    using r pos z n by (auto simp: i_def hist_index_def to_size_def)
  have "min_bucket h < max_bucket h" using assms(1) counts_pos [OF assms(1)] by (simp add: counts_def)
  moreover have "weight b (vs @ [(v, k)]) m = weight b vs m + (if v div b = m then k else 0)" for b m by (simp add: weight_def)
  ultimately show ?thesis using g(1,2) i assms(2)
    by (auto simp: hist_sample_def hist_count_def counts_def nth_list_update)
qed

text \<open>
  (C38) What the buckets of a histogram count. After any sequence of samples that are not negative,
  on a histogram with at least two buckets, the width of a bucket is a power of two, large enough
  for every sample seen, and the bucket \<open>i\<close> holds exactly the number of samples whose value divided
  by the width is \<open>i\<close>: doubling the width puts every earlier sample into the right bucket.
\<close>

theorem histogram_counts_samples:
  assumes "2 \<le> unat n" and "\<forall>(v, k) \<in> set vs. 0 \<le> v"
  shows "\<exists>h j. hist_samples vs (new_Histogram n) = Some (ok h) \<and> min_bucket h = 0 \<and> bucket_size h = 2 ^ j
       \<and> (\<forall>(v, k) \<in> set vs. v div 2 ^ j < int (unat n))
       \<and> (\<forall>i < unat n. cvec h ! i = (\<Sum>(v, k)\<leftarrow>vs. if v div 2 ^ j = int i then k else 0))"
proof -
  have run: "\<exists>h'. hist_samples vs h = Some (ok h') \<and> counts (unat n) (ws @ vs) h'"
    if "counts (unat n) ws h" "\<forall>(v, k) \<in> set vs. 0 \<le> v" for ws h
    using that
  proof (induction vs arbitrary: ws h)
    case (Cons vk vs)
    obtain v k where vk: "vk = (v, k)" by (cases vk)
    from Cons.prems vk counts_sample [of "unat n" ws h v k] obtain g where "hist_sample v k h = Some (ok g)"
      "counts (unat n) (ws @ [(v, k)]) g" by auto
    with Cons.IH [of "ws @ [(v, k)]" g] Cons.prems(2) vk show ?case by auto
  qed simp
  have "n \<noteq> 0" using assms(1) by auto
  then have "uint (n - 1) = int (unat n) - 1" by (simp add: uint_minus_simple_alt [THEN iffD1] word_le_sub1 flip: uint_nat)
  moreover have "\<exists>j. (1 :: int) = 2 ^ j" by (rule exI [of _ 0]) simp
  ultimately have "counts (unat n) [] (new_Histogram n)" using assms(1)
    by (simp add: counts_def new_Histogram_def hist_init_def hist_reset_def resize_def weight_def)
  from run [OF this assms(2)] obtain h where "hist_samples vs (new_Histogram n) = Some (ok h)" and c: "counts (unat n) vs h" by auto
  moreover from c obtain j where "bucket_size h = 2 ^ j" unfolding counts_def by blast
  ultimately show ?thesis by (intro exI [of _ h] exI [of _ j]) (auto simp: counts_def weight_def)
qed

theorem histogram_counts_samples_witness:
  "\<exists>h j. hist_samples [(3, 1), (9, 2)] (new_Histogram 4) = Some (ok h) \<and> bucket_size h = 2 ^ j
     \<and> cvec h ! 1 = (if 3 div 2 ^ j = (1 :: int) then 1 else 0) + (if 9 div 2 ^ j = (1 :: int) then 2 else 0)"
  using histogram_counts_samples [of 4 "[(3, 1), (9, 2)]"] by fastforce


section \<open>What a distribution counts\<close>

definition dist_ok :: "distribution \<Rightarrow> bool" where
  "dist_ok d \<longleftrightarrow> 0 < dBucketSize d \<and> min_track d \<le> max_track d \<and> int (length (dVec d)) < 2 ^ 32
     \<and> int (length (dVec d)) = - (- (max_track d - min_track d + 1) div dBucketSize d)
     \<and> sum_list (dVec d) + underflow d + overflow d = dSamples d"

lemma ceiling_bound:
  assumes "0 < b" and "(x :: int) < y"
  shows "x div b < - (- y div b)"
proof -
  have q: "z div b * b \<le> z" for z using div_mult_mod_eq [of z b] pos_mod_sign [OF assms(1), of z] by linarith
  have "y \<le> - (- y div b) * b" using q [of "- y"] by (simp only: mult_minus_left)
  then have "x div b * b < - (- y div b) * b" using assms(2) q [of x] by linarith
  then show ?thesis using assms(1) by (simp only: mult_less_cancel_right)
qed

lemma dist_sample_ok:
  assumes "dist_ok d"
  shows "\<exists>d'. dist_sample v k d = ok d' \<and> dist_ok d' \<and> dSamples d' = dSamples d + k"
proof -
  consider "v < min_track d" | "v > max_track d" "\<not> v < min_track d" | (track) "min_track d \<le> v" "v \<le> max_track d" by linarith
  then show ?thesis
  proof cases
    case track
    have b: "0 < dBucketSize d" using assms by (simp add: dist_ok_def)
    define i where "i = (v - min_track d) div dBucketSize d"
    have "i < int (length (dVec d))"
      using ceiling_bound [OF b, of "v - min_track d" "max_track d - min_track d + 1"] track assms by (simp add: dist_ok_def i_def)
    moreover have "0 \<le> i" using b track by (simp add: i_def pos_imp_zdiv_nonneg_iff)
    ultimately have "to_size i (dBucketSize d) = ok (nat i)" "nat i < length (dVec d)"
      using assms b by (auto simp: to_size_def dist_ok_def)
    then show ?thesis using track assms by (auto simp: dist_sample_def dist_ok_def sum_list_bump simp flip: i_def)
  qed (use assms in \<open>auto simp: dist_sample_def dist_ok_def\<close>)
qed

fun dist_samples :: "(counter \<times> counter) list \<Rightarrow> distribution \<Rightarrow> distribution res" where
  "dist_samples [] d = ok d"
| "dist_samples ((v, k) # vs) d = bind_res (dist_sample v k d) (dist_samples vs)"

text \<open>
  A distribution over an interval accounts for every sample: no call of \<^verbatim>\<open>sample\<close> fails, and
  the buckets with the counts below and above the interval add up to the number of samples.
\<close>

lemma distribution_keeps_samples:
  assumes "dist_init lo hi bkt d = ok d0" and "0 < bkt" and "lo \<le> hi"
  shows "\<exists>d'. dist_samples vs d0 = ok d' \<and> sum_list (dVec d') + underflow d' + overflow d' = (\<Sum>(v, k)\<leftarrow>vs. k)"
proof -
  have run: "\<exists>d'. dist_samples vs e = ok d' \<and> dist_ok d' \<and> dSamples d' = dSamples e + (\<Sum>(v, k)\<leftarrow>vs. k)" if "dist_ok e" for e
    using that
  proof (induction vs arbitrary: e)
    case (Cons vk vs)
    obtain v k where vk: "vk = (v, k)" by (cases vk)
    from dist_sample_ok [OF Cons.prems, of v k] obtain g where "dist_sample v k e = ok g" "dist_ok g" "dSamples g = dSamples e + k" by blast
    with Cons.IH [of g] vk show ?case by auto
  qed simp
  have "sum_list (map (\<lambda>_. 0) xs) = (0 :: counter)" for xs :: "counter list" by (induction xs) simp_all
  then have "dist_ok d0 \<and> dSamples d0 = 0" using assms
    by (auto simp: dist_init_def dist_reset_def to_size_def res_simps resize_def dist_ok_def sum_list_replicate split: if_splits)
  then show ?thesis using run [of d0] by (auto simp: dist_ok_def)
qed

end
