(* ===== verification/Spec2Isabelle.thy ===== *)
theory Spec2Isabelle
  imports Simulation ParBs Statistics
begin

text \<open>
  A verification library for MCsim, a cycle-accurate simulator of DRAM memory controllers.

  \<^bold>\<open>The program.\<close> The main loop replays one trace file per requestor: a \<^verbatim>\<open>Requestor\<close> sends the request
  of a line when its time has come and waits for the data. A \<^verbatim>\<open>MultiChannelMemorySystem\<close> sends the requests to its channels
  and advances them at the memory clock. Each channel is a \<^verbatim>\<open>MemorySystem\<close>: a \<^verbatim>\<open>MemoryController\<close> and
  a memory device. In a cycle the controller lets its request scheduler pick requests from the
  request queues; the command generator turns each into DRAM commands, which the controller
  distributes over the command queues; its command scheduler sends at most one command to the
  device, which checks it against a tree of timing constraints and returns the data of reads after
  the read latency. Which scheduler, generator and queue structure is used comes from a
  configuration file.

  \<^bold>\<open>Theories and sources\<close> (all paths below \<^verbatim>\<open>src/\<close>).
  \<^item> \<^verbatim>\<open>Prelude\<close>: machine words, the result type \<open>'a res\<close> (an error of the source or a value), vectors,
    maps, loops, and the rules \<open>res_wp\<close> for reasoning about a computation's result. \<^verbatim>\<open>Types\<close>:
    \<^verbatim>\<open>src/global.h\<close>, \<^verbatim>\<open>src/Request.h\<close>, \<^verbatim>\<open>src/BusPacket.h\<close>.
  \<^item> \<^verbatim>\<open>AddressMapping\<close>: \<^verbatim>\<open>src/AddressMapping.cpp\<close>. The decoded fields recompose to the address, stay in
    range, and privatised banks are disjoint.
  \<^item> \<^verbatim>\<open>Lanes\<close>, \<^verbatim>\<open>RequestQueue\<close>, \<^verbatim>\<open>CommandQueue\<close>: \<^verbatim>\<open>src/RequestQueue.cpp\<close>, \<^verbatim>\<open>src/CommandQueue.cpp\<close>. The locale
    \<open>lane_queue\<close> states what a family of FIFO lanes promises; both queue classes interpret it.
    Class invariant, FIFO order, get followed by remove, write-drain hysteresis.
  \<^item> \<^verbatim>\<open>CommandGenerator\<close>: \<^verbatim>\<open>src/CommandGenerator.cpp\<close> and its five subclasses, each an interpretation of
    the locale \<open>command_generator\<close>: one group of tagged commands per request, in order.
  \<^item> \<^verbatim>\<open>RequestScheduler\<close>, \<^verbatim>\<open>RequestPolicies\<close>, \<^verbatim>\<open>SlotSchedulers\<close>: \<^verbatim>\<open>src/RequestScheduler.cpp\<close> and the request
    schedulers FR-FCFS, direct, round robin, RTMem, FCFS, BLISS, FR-FCFS with write batching, PMC,
    MCMC, MEDUSA and PipeCAS. Choice of the oldest or first-ready request, blacklisting, time slots.
  \<^item> \<^verbatim>\<open>OpenPage\<close>: the row table of a request scheduler, the flags of the open-page generator and the
    commands sent so far agree on the open rows, so that every command sequence obeys the row-buffer
    protocol (locale \<open>open_page_scheduler\<close>, five interpretations), and progress of FR-FCFS.
  \<^item> \<^verbatim>\<open>RequestInterface\<close>: the locale \<open>request_scheduler\<close>, what the controller relies on, with eleven
    request schedulers as interpretations there and in \<^verbatim>\<open>SlotSchedulers\<close>.
  \<^item> \<^verbatim>\<open>ParBs\<close>: \<^verbatim>\<open>system/PAR-BS\<close>, the request scheduler with batches. What a batch contains, and that it is
    served first.
  \<^item> \<^verbatim>\<open>DRAM\<close>, \<^verbatim>\<open>DRAMTiming\<close>: \<^verbatim>\<open>dram/DRAM.h\<close>, the tree of channel, ranks, bank groups and banks with
    \<^verbatim>\<open>check\<close>, \<^verbatim>\<open>update\<close>, \<^verbatim>\<open>decode\<close> and \<^verbatim>\<open>get_next\<close>. The locale \<open>dram_standard\<close> asks for a well-formed timing
    table; inside it an accepted command keeps every distance of the table, \<^verbatim>\<open>check\<close> is exact, and
    \<^verbatim>\<open>update_timing\<close> is total on reachable trees. \<^verbatim>\<open>DDRTables\<close>, \<^verbatim>\<open>DDR3\<close>, \<^verbatim>\<open>DDR4\<close>, \<^verbatim>\<open>DSARP\<close>: \<^verbatim>\<open>dram/DDR3.cpp\<close>,
    \<^verbatim>\<open>dram/DDR4.cpp\<close>, \<^verbatim>\<open>dram/DSARP.cpp\<close> with all tables, and the interpretations; for DSARP, which
    accesses a per-bank refresh blocks.
  \<^item> \<^verbatim>\<open>MemoryDevice\<close>: \<^verbatim>\<open>src/MemoryDevice.cpp\<close>, \<^verbatim>\<open>src/Ramulator_DDR3.h\<close>, \<^verbatim>\<open>src/Ramulator_DDR4.h\<close>,
    \<^verbatim>\<open>src/Ramulator_DSARP.h\<close>. Every read is
    answered exactly once, after exactly the read latency (locale \<open>memory_device\<close>).
  \<^item> \<^verbatim>\<open>RefreshMachine\<close>: \<^verbatim>\<open>src/RefreshMachine.h\<close>. \<^verbatim>\<open>CommandScheduler\<close>: \<^verbatim>\<open>src/CommandScheduler.cpp\<close>, the base class.
  \<^item> \<^verbatim>\<open>CommandBus\<close>: the locale \<open>command_scheduler\<close>. A scheduler may hold commands in buffers of its own;
    a call is quiet or sends one command the device accepts, and holds afterwards only what it held
    or what was queued. From this alone: the commands on the bus form a run of the timing tree.
    Interpreted by all twelve schedulers: \<^verbatim>\<open>CommandPolicies\<close> (FCFS, PUSH, FR-FCFS, RTMem), \<^verbatim>\<open>FifoPolicies\<close>
    (DCmc, ORP, RankReOrder), \<^verbatim>\<open>BundlePolicies\<close> (ReOrder, MAG), \<^verbatim>\<open>RocPolicy\<close>, \<^verbatim>\<open>PipeCasPolicy\<close>, \<^verbatim>\<open>RoundPolicy\<close>,
    and by the dispatch of \<^verbatim>\<open>SchedulerRegister\<close> (\<^verbatim>\<open>src/SchedulerRegister.h\<close>).
  \<^item> \<^verbatim>\<open>Configuration\<close>, \<^verbatim>\<open>MemoryController\<close>: \<^verbatim>\<open>src/MemoryController.cpp\<close>. Reading back a written
    configuration, the range of the decoded queue index, distribution of the generated commands,
    completion of a read with its last burst.
  \<^item> \<^verbatim>\<open>ClockDomain\<close>, \<^verbatim>\<open>MemorySystem\<close>: \<^verbatim>\<open>src/ClockDomain.cpp\<close>, \<^verbatim>\<open>src/MemorySystem.cpp\<close>,
    \<^verbatim>\<open>src/MultiChannelMemorySystem.cpp\<close>. The rate of the crosser; channels run in lockstep and
    independently. \<open>sys_run\<close> is the step relation of a channel: construction, arrival of a request,
    a cycle.
  \<^item> \<^verbatim>\<open>SystemRuns\<close>: the theorems about whole systems. For every request scheduler, every command
    scheduler of the register and every sequence of arrivals, the bus of a system with a DDR3 device
    keeps the timing table, the trace of a system with any of the three devices is a run of the
    timing tree, and the buffers of the controller stay well formed.
  \<^item> \<^verbatim>\<open>TraceFile\<close>, \<^verbatim>\<open>Requestor\<close>: \<^verbatim>\<open>src/Requestor.cpp\<close>. Reading back a trace line; the counters of a requestor
    and what it waits for. \<^verbatim>\<open>InFlight\<close>: no operation of a controller loses or invents a request.
  \<^item> \<^verbatim>\<open>Simulation\<close>: \<^verbatim>\<open>src/main.cpp\<close>, options, construction and the simulation loop; \<open>sim_run\<close> is its step
    relation. The requests pending in the channels are those the requestors wait for, every
    callback is expected, the loop ends with a limit on the cycles, and when it ends before the
    limit a requestor has completed its trace.
  \<^item> \<^verbatim>\<open>Statistics\<close>: \<^verbatim>\<open>dram/StatType.cpp\<close>, \<^verbatim>\<open>dram/StatType.h\<close> and the methods of \<^verbatim>\<open>dram/DRAM.h\<close> that use them. What
    the buckets of a histogram count, that no sample is lost, and where the conversion to negative
    values goes wrong.

  \<^bold>\<open>How the code is translated.\<close> A class is a record, a subclass an extension of it; the command
  schedulers extend one record each by the members of the next, so that the dispatch has one type.
  A method is a function from the state to a result: every \<^verbatim>\<open>abort\<close>, failed \<^verbatim>\<open>assert\<close>, index out of
  range, null pointer, oversized shift, division by zero, comparison of iterators of two containers,
  conversion of a double that does not fit and use of an unassigned variable is a value of \<open>mc_error\<close>. Members that a constructor
  does not set keep an arbitrary value, the argument \<open>mem\<close>. Virtual methods are arguments. Integers
  keep their width (\<open>u32\<close>, \<open>u64\<close>); sizes and indices that are only compared and incremented are
  natural numbers; \<^verbatim>\<open>int\<close> in the tables of the standards, which is never near its bounds, is an
  integer. The functions \<^verbatim>\<open>get_constraints\<close> return integers as floats and are integers here. A
  \<^verbatim>\<open>std::map\<close> is a partial function, or a sorted list where the code iterates over it; a missing
  entry reads as the default, and the empty entry that reading creates is left out where nothing
  observes it. Requests and packets are values: a command in a buffer of a scheduler is also still in
  its queue, where the source shares a pointer.

  \<^bold>\<open>Loops and fuel.\<close> Loops over the queues are folds or recursions over index lists, because no call
  changes the number of queues. The loop of the controller that drains the generator's buffer has
  the length of the buffer as its bound, which each round reduces by one; \<open>drain_distributes\<close> shows
  that the buffer is empty at the end. The clock domain crosser may loop for ever (with a second
  clock of 0) and is a \<^verbatim>\<open>partial_function (option)\<close>; its rate theorem says that it returns otherwise.
  The simulation loop is one too, since it need not end without a limit on the cycles, and so are the
  loops in which a histogram grows, which are shown to end.
  The loop of MEDUSA that drains writes gets one round more than there are writes: the index grows in
  every round, so the last one is out of range. Timing distances are at most a few hundred cycles and
  are not bounded in the model. The clock of the device has 32 bits and wraps around; the timing
  theorems speak of its values, which is what \<^verbatim>\<open>check\<close> compares.

  \<^bold>\<open>Not modelled.\<close> Printing, command traces on the terminal and in files, destructors and \<^verbatim>\<open>delete\<close>
  (except where a deleted object stays in use, in MCMC); the fields \<^verbatim>\<open>freq\<close> and \<^verbatim>\<open>tCK\<close>, which are
  doubles for printed output, and the division of a trace delay by \<^verbatim>\<open>tCK\<close>, which is a function argument;
  of the statistics library, whose counters are integers here, names, printing and logarithms; the
  parsing of the command line by \<^verbatim>\<open>getopt_long\<close>, whose results are a list of options; the copy of the
  MacSim processor simulator in \<^verbatim>\<open>IntegrationWithMacSim\<close>, which only calls the library.
\<close>

end
